(* ===== verification/Prelude.thy ===== *)
theory Prelude
  imports Complex_Main "HOL-Library.Word" "HOL-Library.Char_ord" "HOL-Library.List_Lexorder" "HOL-Library.Code_Target_Nat"
begin

text \<open>
  Generic material shared by every component: the collections of simplification rules the
  components fill, Go's slice expressions on lists, and 64-bit wrap-around on integers.
\<close>

named_theorems text_simps \<open>rewrite rules about Go byte strings\<close>
named_theorems tok_simps \<open>rewrite rules about template tokens\<close>
named_theorems bucket_simps \<open>rewrite rules about token buckets\<close>

section \<open>Slices\<close>

text \<open>\<open>xs[i:j]\<close> for in-range bounds.\<close>

definition slice :: "'a list \<Rightarrow> nat \<Rightarrow> nat \<Rightarrow> 'a list" where
  "slice xs i j = take (j - i) (drop i xs)"

lemma slice_self [simp]: "slice xs i i = []"
  by (simp add: slice_def)

lemma slice_drop: "\<lbrakk>i \<le> j; j \<le> length xs\<rbrakk> \<Longrightarrow> slice xs i j @ drop j xs = drop i xs"
  by (metis append_take_drop_id drop_drop le_add_diff_inverse2 slice_def)

lemma slice_Suc: "\<lbrakk>i \<le> j; j < length xs\<rbrakk> \<Longrightarrow> slice xs i (Suc j) = slice xs i j @ [xs ! j]"
  by (simp add: slice_def Suc_diff_le take_Suc_conv_app_nth)

lemma slice_length [simp]: "j \<le> length xs \<Longrightarrow> length (slice xs i j) = j - i"
  by (simp add: slice_def)

lemma slice_to_end: "length xs \<le> j \<Longrightarrow> slice xs i j = drop i xs"
  by (simp add: slice_def)

lemma slice_split:
  assumes "i \<le> j" "j \<le> k" "k \<le> length xs"
  shows "slice xs i j @ slice xs j k = slice xs i k"
proof -
  have "drop j xs = drop (j - i) (drop i xs)" using assms(1) by simp
  then have "slice xs i j @ slice xs j k
      = take (j - i) (drop i xs) @ take (k - j) (drop (j - i) (drop i xs))"
    by (simp add: slice_def)
  also have "\<dots> = take ((j - i) + (k - j)) (drop i xs)"
    by (simp only: take_add)
  finally show ?thesis using assms by (simp add: slice_def)
qed

lemma slice_Cons_head:
  "\<lbrakk>i < j; j \<le> length xs\<rbrakk> \<Longrightarrow> slice xs i j = xs ! i # slice xs (Suc i) j"
  using slice_split [of i "Suc i" j xs] slice_Suc [of i i xs] by simp

section \<open>64-bit signed integers\<close>

definition int64_min :: int where "int64_min = - (2 ^ 63)"
definition int64_max :: int where "int64_max = 2 ^ 63 - 1"

text \<open>The two's complement reading of an integer modulo \<open>2 ^ 64\<close>.\<close>

definition wrap64 :: "int \<Rightarrow> int" where
  "wrap64 x = (x + 2 ^ 63) mod 2 ^ 64 - 2 ^ 63"

definition in64 :: "int \<Rightarrow> bool" where
  "in64 x \<longleftrightarrow> int64_min \<le> x \<and> x \<le> int64_max"

lemma wrap64_id: "in64 x \<Longrightarrow> wrap64 x = x"
  by (simp add: wrap64_def in64_def int64_min_def int64_max_def)

lemma wrap64_in64 [simp]: "in64 (wrap64 x)"
proof -
  have "0 \<le> (x + 2 ^ 63) mod 2 ^ 64" "(x + 2 ^ 63) mod 2 ^ 64 < (2 ^ 64 :: int)"
    by simp_all
  then show ?thesis by (simp add: wrap64_def in64_def int64_min_def int64_max_def)
qed

section \<open>Lists\<close>

lemma nth_split_at: "i < length xs \<Longrightarrow> drop i xs = xs ! i # drop (Suc i) xs"
  by (rule Cons_nth_drop_Suc [symmetric])

lemma sum_list_map_nth_eq:
  "sum_list (map f xs) = (\<Sum>i<length xs. f (xs ! i))"
  by (simp add: sum_list_sum_nth atLeast0LessThan)

end
