(* ===== verification/GoText.thy ===== *)
theory GoText
  imports Prelude
begin

text \<open>
  The part of Go's \<open>strings\<close>, \<open>strconv\<close>, \<open>unicode\<close> and \<open>unicode/utf8\<close> packages the components
  use. A Go string is its byte list (\<open>char\<close> has 256 values). A rune is a natural number; an invalid
  byte decodes to U+FFFD with width one. Case mapping of runes above 127 is a parameter, the
  Unicode table of the toolchain.
\<close>

section \<open>UTF-8\<close>

abbreviation byte :: "char \<Rightarrow> nat" where "byte c \<equiv> of_char c"

definition rune_error :: nat where "rune_error = 65533"

definition cont_in :: "nat \<Rightarrow> nat \<Rightarrow> char \<Rightarrow> bool" where
  "cont_in lo hi c \<longleftrightarrow> lo \<le> byte c \<and> byte c \<le> hi"

abbreviation cont :: "char \<Rightarrow> bool" where "cont c \<equiv> cont_in 128 191 c"

definition low6 :: "char \<Rightarrow> nat" where "low6 c = byte c - 128"

fun decode2 :: "nat \<Rightarrow> string \<Rightarrow> nat \<times> nat" where
  "decode2 x (b # _) = (if cont b then ((x - 192) * 64 + low6 b, 2) else (rune_error, 1))"
| "decode2 x _ = (rune_error, 1)"

fun decode3 :: "nat \<Rightarrow> string \<Rightarrow> nat \<times> nat" where
  "decode3 x (b # c # _) =
    (if cont_in (if x = 224 then 160 else 128) (if x = 237 then 159 else 191) b \<and> cont c
     then ((x - 224) * 4096 + low6 b * 64 + low6 c, 3) else (rune_error, 1))"
| "decode3 x _ = (rune_error, 1)"

fun decode4 :: "nat \<Rightarrow> string \<Rightarrow> nat \<times> nat" where
  "decode4 x (b # c # d # _) =
    (if cont_in (if x = 240 then 144 else 128) (if x = 244 then 143 else 191) b \<and> cont c \<and> cont d
     then ((x - 240) * 262144 + low6 b * 4096 + low6 c * 64 + low6 d, 4) else (rune_error, 1))"
| "decode4 x _ = (rune_error, 1)"

text \<open>\<open>utf8.DecodeRuneInString\<close>: the first rune and its width.\<close>

fun decode_rune :: "string \<Rightarrow> nat \<times> nat" where
  "decode_rune [] = (rune_error, 0)"
| "decode_rune (a # s) =
    (if byte a < 128 then (byte a, 1)
     else if 194 \<le> byte a \<and> byte a \<le> 223 then decode2 (byte a) s
     else if 224 \<le> byte a \<and> byte a \<le> 239 then decode3 (byte a) s
     else if 240 \<le> byte a \<and> byte a \<le> 244 then decode4 (byte a) s
     else (rune_error, 1))"

lemma decode2_width: "snd (decode2 x s) = 1 \<or> snd (decode2 x s) = 2"
  by (cases "(x, s)" rule: decode2.cases) auto

lemma decode3_width: "snd (decode3 x s) = 1 \<or> snd (decode3 x s) = 3"
  by (cases "(x, s)" rule: decode3.cases) auto

lemma decode4_width: "snd (decode4 x s) = 1 \<or> snd (decode4 x s) = 4"
  by (cases "(x, s)" rule: decode4.cases) auto

lemma decode_rune_width: "s \<noteq> [] \<Longrightarrow> 1 \<le> snd (decode_rune s)"
proof (cases s)
  case (Cons a t)
  have "1 \<le> snd (decode2 (byte a) t)" "1 \<le> snd (decode3 (byte a) t)" "1 \<le> snd (decode4 (byte a) t)"
    using decode2_width [of "byte a" t] decode3_width [of "byte a" t] decode4_width [of "byte a" t]
    by linarith+
  then show ?thesis unfolding Cons by (simp only: decode_rune.simps split: if_split) simp
qed simp

text \<open>The \<open>range\<close> loop over a string: each rune with the bytes it was read from.\<close>

function runes :: "string \<Rightarrow> (nat \<times> string) list" where
  "runes s = (if s = [] then []
    else let (r, w) = decode_rune s in (r, take w s) # runes (drop w s))"
  by pat_completeness auto
termination
proof (relation "measure length")
  fix s :: string and x r w
  assume "s \<noteq> []" "x = decode_rune s" "(r, w) = x"
  then have "1 \<le> w" using decode_rune_width [of s] by (metis snd_conv)
  then show "(drop w s, s) \<in> measure length" using \<open>s \<noteq> []\<close> by simp
qed simp

declare runes.simps [simp del]

lemma runes_Nil [simp]: "runes [] = []"
  by (simp add: runes.simps)

lemma runes_Cons:
  "runes (a # s) = (fst (decode_rune (a # s)), take (snd (decode_rune (a # s))) (a # s))
     # runes (drop (snd (decode_rune (a # s))) (a # s))"
  by (simp only: runes.simps [of "a # s"] Let_def case_prod_unfold) simp

lemma runes_step: "runes (a # s) =
    (let x = decode_rune (a # s) in (fst x, take (snd x) (a # s)) # runes (drop (snd x) (a # s)))"
  by (simp only: runes_Cons Let_def)

declare runes.simps [code del]
lemmas runes_code [code] = runes_Nil runes_step

lemma runes_ascii [simp]: "byte a < 128 \<Longrightarrow> runes (a # s) = (byte a, [a]) # runes s"
  by (simp add: runes_Cons)

text \<open>No byte is lost: the chunks of the loop concatenate to the string.\<close>

lemma concat_runes: "concat (map snd (runes s)) = s"
proof (induction s rule: runes.induct)
  case (1 s)
  show ?case
  proof (cases s)
    case (Cons a t)
    then have "concat (map snd (runes (drop (snd (decode_rune s)) s))) = drop (snd (decode_rune s)) s"
      using "1.IH" [of "decode_rune s"] by (metis list.distinct(1) prod.collapse)
    then show ?thesis unfolding Cons runes_Cons by simp
  qed simp
qed

definition rune_count :: "string \<Rightarrow> nat" where
  "rune_count s = length (runes s)"

definition valid_rune :: "nat \<Rightarrow> bool" where
  "valid_rune r \<longleftrightarrow> r < 55296 \<or> 57344 \<le> r \<and> r \<le> 1114111"

text \<open>\<open>utf8.AppendRune\<close>.\<close>

definition encode_rune :: "nat \<Rightarrow> string" where
  "encode_rune r0 = (let r = (if valid_rune r0 then r0 else rune_error) in
     if r < 128 then [char_of r]
     else if r < 2048 then [char_of (192 + r div 64), char_of (128 + r mod 64)]
     else if r < 65536 then
       [char_of (224 + r div 4096), char_of (128 + r div 64 mod 64), char_of (128 + r mod 64)]
     else [char_of (240 + r div 262144), char_of (128 + r div 4096 mod 64),
           char_of (128 + r div 64 mod 64), char_of (128 + r mod 64)])"

section \<open>Classes and case\<close>

text \<open>\<open>unicode.IsSpace\<close> (the White\_Space property) and \<open>unicode.IsControl\<close> (category Cc).\<close>

definition is_space :: "nat \<Rightarrow> bool" where
  "is_space r \<longleftrightarrow> 9 \<le> r \<and> r \<le> 13 \<or> r = 32 \<or> r = 133 \<or> r = 160 \<or> r = 5760
     \<or> 8192 \<le> r \<and> r \<le> 8202 \<or> r = 8232 \<or> r = 8233 \<or> r = 8239 \<or> r = 8287 \<or> r = 12288"

definition is_control :: "nat \<Rightarrow> bool" where
  "is_control r \<longleftrightarrow> r < 32 \<or> 127 \<le> r \<and> r < 160"

type_synonym case_table = "nat \<Rightarrow> nat"

definition lower_rune :: "case_table \<Rightarrow> nat \<Rightarrow> nat" where
  "lower_rune lo r = (if r < 128 then (if 65 \<le> r \<and> r \<le> 90 then r + 32 else r) else lo r)"

text \<open>\<open>strings.ToLower\<close>: the rune-wise mapping, an invalid byte becoming U+FFFD.\<close>

definition to_lower :: "case_table \<Rightarrow> string \<Rightarrow> string" where
  "to_lower lo s = concat (map (\<lambda>(r, _). encode_rune (lower_rune lo r)) (runes s))"

definition trim_left :: "string \<Rightarrow> string" where
  "trim_left s = concat (map snd (dropWhile (\<lambda>(r, _). is_space r) (runes s)))"

definition trim_space :: "string \<Rightarrow> string" where
  "trim_space s = concat (map snd (rev (dropWhile (\<lambda>(r, _). is_space r)
     (rev (dropWhile (\<lambda>(r, _). is_space r) (runes s))))))"

lemma length_concat_dropWhile:
  "length (concat (map f (dropWhile P xs))) \<le> length (concat (map f xs))"
  by (induction xs) auto

lemma length_trim_space: "length (trim_space s) \<le> length s"
proof -
  let ?P = "\<lambda>(r, _). is_space r" and ?len = "\<lambda>xs. length (concat (map snd (xs :: (nat \<times> string) list)))"
  have rev_len: "?len (rev xs) = ?len xs" for xs
    by (induction xs) auto
  have "?len (rev (dropWhile ?P (rev (dropWhile ?P (runes s))))) \<le> ?len (dropWhile ?P (runes s))"
    using length_concat_dropWhile [of snd ?P "rev (dropWhile ?P (runes s))"] by (simp only: rev_len)
  also have "\<dots> \<le> ?len (runes s)" by (rule length_concat_dropWhile)
  also have "\<dots> = length s" by (simp only: concat_runes)
  finally show ?thesis by (simp add: trim_space_def)
qed

text \<open>Evaluation of the rune functions on literals.\<close>

lemmas text_eval = to_lower_def lower_rune_def encode_rune_def valid_rune_def is_space_def is_control_def
  trim_space_def trim_left_def char_of_def bit_numeral_simps bit_0

section \<open>Searching and splitting\<close>

fun has_prefix :: "string \<Rightarrow> string \<Rightarrow> bool" where
  "has_prefix s [] = True"
| "has_prefix [] (p # ps) = False"
| "has_prefix (c # s) (p # ps) = (c = p \<and> has_prefix s ps)"

definition has_suffix :: "string \<Rightarrow> string \<Rightarrow> bool" where
  "has_suffix s p \<longleftrightarrow> length p \<le> length s \<and> drop (length s - length p) s = p"

definition trim_prefix :: "string \<Rightarrow> string \<Rightarrow> string" where
  "trim_prefix s p = (if has_prefix s p then drop (length p) s else s)"

fun contains :: "string \<Rightarrow> string \<Rightarrow> bool" where
  "contains [] p = (p = [])"
| "contains (c # s) p = (has_prefix (c # s) p \<or> contains s p)"

text \<open>\<open>strings.IndexByte\<close>, with \<open>None\<close> for -1.\<close>

fun index_byte :: "string \<Rightarrow> char \<Rightarrow> nat option" where
  "index_byte [] c = None"
| "index_byte (x # s) c = (if x = c then Some 0 else map_option Suc (index_byte s c))"

text \<open>\<open>strings.Cut\<close> at a one-byte separator: before, after, found.\<close>

definition cut :: "string \<Rightarrow> char \<Rightarrow> string \<times> string \<times> bool" where
  "cut s c = (case index_byte s c of
      Some i \<Rightarrow> (take i s, drop (Suc i) s, True) | None \<Rightarrow> (s, [], False))"

definition last_index_byte :: "string \<Rightarrow> char \<Rightarrow> nat option" where
  "last_index_byte s c = (case index_byte (rev s) c of
      Some i \<Rightarrow> Some (length s - Suc i) | None \<Rightarrow> None)"

text \<open>\<open>strings.Split\<close> at a one-byte separator: never empty.\<close>

fun split_byte :: "string \<Rightarrow> char \<Rightarrow> string list" where
  "split_byte [] c = [[]]"
| "split_byte (x # s) c = (if x = c then [] # split_byte s c
     else (case split_byte s c of p # ps \<Rightarrow> (x # p) # ps | [] \<Rightarrow> [[x]]))"

fun join_byte :: "string list \<Rightarrow> char \<Rightarrow> string" where
  "join_byte [] c = []"
| "join_byte [p] c = p"
| "join_byte (p # q # ps) c = p @ c # join_byte (q # ps) c"

lemma has_prefix_append: "has_prefix s p \<longleftrightarrow> (\<exists>t. s = p @ t)"
  by (induction s p rule: has_prefix.induct) auto

lemma has_prefix_take: "has_prefix s p \<longleftrightarrow> take (length p) s = p"
  by (metis append_eq_conv_conj append_take_drop_id has_prefix_append)

lemma contains_iff: "contains s p \<longleftrightarrow> (\<exists>u v. s = u @ p @ v)"
proof (induction s p rule: contains.induct)
  case (2 c s p)
  show ?case unfolding contains.simps(2) "2.IH" has_prefix_append
    by (metis append_Cons append_Nil list.sel(3) neq_Nil_conv tl_append2)
qed simp

lemma index_byte_None [text_simps]: "index_byte s c = None \<longleftrightarrow> c \<notin> set s"
  by (induction s) auto

lemma index_byte_absent: "c \<notin> set s \<Longrightarrow> index_byte s c = None"
  by (simp add: text_simps)

lemma index_byte_Some:
  "index_byte s c = Some i \<Longrightarrow> i < length s \<and> s ! i = c \<and> c \<notin> set (take i s)"
  by (induction s arbitrary: i) (auto split: if_splits)

lemma index_byte_append: "c \<notin> set p \<Longrightarrow> index_byte (p @ c # q) c = Some (length p)"
  by (induction p) auto

lemma cut_append: "c \<notin> set p \<Longrightarrow> cut (p @ c # q) c = (p, q, True)"
  by (simp add: cut_def index_byte_append)

lemma cut_absent: "c \<notin> set p \<Longrightarrow> cut p c = (p, [], False)"
  by (simp add: cut_def index_byte_absent)

lemma cut_found: "cut s c = (p, q, True) \<Longrightarrow> s = p @ c # q \<and> c \<notin> set p"
  using index_byte_Some [of s c]
  by (auto simp: cut_def id_take_nth_drop split: option.splits)

lemma split_byte_not_Nil [simp]: "split_byte s c \<noteq> []"
  by (induction s) (auto split: list.splits)

lemma join_split: "join_byte (split_byte s c) c = s"
proof (induction s)
  case (Cons x s)
  obtain p ps where s: "split_byte s c = p # ps"
    by (metis split_byte_not_Nil neq_Nil_conv)
  with Cons show ?case by (cases ps) auto
qed simp

lemma split_no_sep: "p \<in> set (split_byte s c) \<Longrightarrow> c \<notin> set p"
proof (induction s arbitrary: p)
  case (Cons x s)
  obtain q qs where s: "split_byte s c = q # qs"
    by (metis split_byte_not_Nil neq_Nil_conv)
  have "\<And>r. r = q \<or> r \<in> set qs \<Longrightarrow> c \<notin> set r" using Cons.IH by (simp add: s)
  then show ?case using Cons.prems by (auto simp: s split: if_splits)
qed simp

lemma split_byte_append: "split_byte (u @ c # v) c = split_byte u c @ split_byte v c"
proof (induction u)
  case (Cons x u)
  then show ?case by (cases "split_byte u c") simp_all
qed simp

lemma split_byte_single: "c \<notin> set s \<Longrightarrow> split_byte s c = [s]"
  by (induction s) auto

lemma split_join:
  "\<lbrakk>ps \<noteq> []; \<forall>p \<in> set ps. c \<notin> set p\<rbrakk> \<Longrightarrow> split_byte (join_byte ps c) c = ps"
proof (induction ps c rule: join_byte.induct)
  case (2 p c)
  have "split_byte p c = [p]" if "c \<notin> set p" using that by (induction p) auto
  then show ?case using 2 by simp
next
  case (3 p q ps c)
  have "split_byte (u @ c # v) c = u # split_byte v c" if "c \<notin> set u" for u v
    using that by (induction u) auto
  then show ?case using 3 by simp
qed simp

section \<open>Numbers\<close>

definition is_digit :: "char \<Rightarrow> bool" where
  "is_digit c \<longleftrightarrow> 48 \<le> byte c \<and> byte c \<le> 57"

definition digits_value :: "string \<Rightarrow> int" where
  "digits_value s = foldl (\<lambda>n c. 10 * n + int (byte c - 48)) 0 s"

datatype num_error = ErrSyntax | ErrRange

text \<open>\<open>strconv.ParseInt(s, 10, bits)\<close>: the value it returns beside the error too.\<close>

definition parse_int_w :: "nat \<Rightarrow> string \<Rightarrow> int \<times> num_error option" where
  "parse_int_w bits s = (let (neg, ds) = (case s of
        c # t \<Rightarrow> if c = CHR ''-'' then (True, t) else if c = CHR ''+'' then (False, t) else (False, s)
      | [] \<Rightarrow> (False, [])) in
     if ds = [] \<or> \<not> list_all is_digit ds then (0, Some ErrSyntax)
     else let v = digits_value ds in
       if neg then (if v > 2 ^ (bits - 1) then (- (2 ^ (bits - 1)), Some ErrRange) else (- v, None))
       else (if v > 2 ^ (bits - 1) - 1 then (2 ^ (bits - 1) - 1, Some ErrRange) else (v, None)))"

definition parse_int :: "string \<Rightarrow> int \<times> num_error option" where
  "parse_int s = parse_int_w 64 s"

text \<open>\<open>strconv.ParseUint(s, 10, 64)\<close> takes no sign.\<close>

definition parse_uint :: "string \<Rightarrow> int \<times> num_error option" where
  "parse_uint s = (if s = [] \<or> \<not> list_all is_digit s then (0, Some ErrSyntax)
     else if digits_value s > 2 ^ 64 - 1 then (2 ^ 64 - 1, Some ErrRange) else (digits_value s, None))"

definition hex_digit :: "char \<Rightarrow> int option" where
  "hex_digit c = (if is_digit c then Some (int (byte c) - 48)
     else if 97 \<le> byte c \<and> byte c \<le> 102 then Some (int (byte c) - 87)
     else if 65 \<le> byte c \<and> byte c \<le> 70 then Some (int (byte c) - 55) else None)"

text \<open>\<open>strconv.ParseUint(s, 16, bits)\<close>.\<close>

definition parse_hex :: "nat \<Rightarrow> string \<Rightarrow> int \<times> num_error option" where
  "parse_hex bits s = (if s = [] \<or> list_ex (\<lambda>c. hex_digit c = None) s then (0, Some ErrSyntax)
     else let v = foldl (\<lambda>n c. 16 * n + the (hex_digit c)) 0 s in
       if v > 2 ^ bits - 1 then (2 ^ bits - 1, Some ErrRange) else (v, None))"

fun nat_digits :: "nat \<Rightarrow> string" where
  "nat_digits n = (if n < 10 then [char_of (48 + n)] else nat_digits (n div 10) @ [char_of (48 + n mod 10)])"

declare nat_digits.simps [simp del]

text \<open>\<open>strconv.Itoa\<close>.\<close>

definition itoa :: "int \<Rightarrow> string" where
  "itoa n = (if n < 0 then CHR ''-'' # nat_digits (nat (- n)) else nat_digits (nat n))"

lemma parse_int_in64: "parse_int s = (n, None) \<Longrightarrow> in64 n"
proof -
  have nn: "0 \<le> digits_value ds" for ds
  proof -
    have "0 \<le> foldl (\<lambda>n c. 10 * n + int (byte c - 48)) m ds" if "0 \<le> m" for m :: int
      using that by (induction ds arbitrary: m) auto
    then show ?thesis by (simp add: digits_value_def)
  qed
  assume "parse_int s = (n, None)"
  then show ?thesis using nn
    by (auto simp: parse_int_def parse_int_w_def in64_def int64_min_def int64_max_def Let_def not_less
        split: if_splits prod.splits intro: order_trans [of _ 0])
qed

lemma digits_value_snoc: "digits_value (s @ [c]) = 10 * digits_value s + int (byte c - 48)"
  by (simp add: digits_value_def)

lemma nat_digits_all: "list_all is_digit (nat_digits n) \<and> nat_digits n \<noteq> []"
proof (induction n rule: nat_digits.induct)
  case (1 n)
  have "is_digit (char_of (48 + k))" if "k < 10" for k :: nat
    using that by (simp add: is_digit_def)
  then show ?case using 1 by (subst (1 2) nat_digits.simps) auto
qed

lemma digits_value_nat_digits: "digits_value (nat_digits n) = int n"
proof (induction n rule: nat_digits.induct)
  case (1 n)
  show ?case
  proof (cases "n < 10")
    case True
    then show ?thesis by (simp add: nat_digits.simps [of n] digits_value_def)
  next
    case False
    then have "digits_value (nat_digits n) = 10 * int (n div 10) + int (n mod 10)"
      using "1.IH" by (simp add: nat_digits.simps [of n] digits_value_snoc)
    also have "\<dots> = int n" by presburger
    finally show ?thesis .
  qed
qed

lemma parse_int_nonneg: "\<lbrakk>CHR ''-'' \<notin> set s; parse_int s = (n, None)\<rbrakk> \<Longrightarrow> 0 \<le> n"
proof -
  have nn: "0 \<le> digits_value ds" for ds
  proof -
    have "0 \<le> foldl (\<lambda>n c. 10 * n + int (byte c - 48)) m ds" if "0 \<le> m" for m :: int
      using that by (induction ds arbitrary: m) auto
    then show ?thesis by (simp add: digits_value_def)
  qed
  assume "CHR ''-'' \<notin> set s" "parse_int s = (n, None)"
  then show ?thesis using nn
    by (cases s) (auto simp: parse_int_def parse_int_w_def Let_def split: if_splits prod.splits)
qed

end
