(* ===== verification/Tmpl.thy ===== *)
theory Tmpl
  imports GoText
begin

text \<open>
  The template language of \<open>src/pkg/tmpl\<close>: the lexer and the one-pass expander of
  \<open>tmpl.go\<close>, the \<open>{if:...}\<close> spans of \<open>cond.go\<close> and the random tokens of \<open>dynamic.go\<close>.
  The loops keep the index variables of the code. A resolver is a function from tokens to
  a value and a flag; the random source is an argument of the functions that draw from it.
\<close>

datatype kind = KindLiteral | KindVar

record token =
  t_kind :: kind
  t_text :: string
  t_name :: string
  t_payload :: string
  t_has_payload :: bool
  t_fallback :: string
  t_has_fallback :: bool
  t_raw :: string

type_synonym resolver = "token \<Rightarrow> string \<times> bool"

abbreviation lbrace :: char where "lbrace \<equiv> CHR ''{''"
abbreviation rbrace :: char where "rbrace \<equiv> CHR ''}''"

definition literal_token :: "string \<Rightarrow> token" where
  "literal_token s = \<lparr>t_kind = KindLiteral, t_text = s, t_name = [], t_payload = [],
     t_has_payload = False, t_fallback = [], t_has_fallback = False, t_raw = []\<rparr>"

section \<open>Tokens\<close>

definition token_key0 :: "token \<Rightarrow> string" where
  "token_key0 t = (if \<not> t_has_payload t then t_name t else t_name t @ '':'' @ t_payload t)"

definition resolve_token :: "token \<Rightarrow> string \<times> bool \<Rightarrow> string" where
  "resolve_token t r = (case r of (val, ok) \<Rightarrow>
     if \<not> ok then t_raw t else if val = [] then t_fallback t else val)"

definition has_inner_brace :: "token \<Rightarrow> bool" where
  "has_inner_brace t \<longleftrightarrow> length (t_raw t) > 1 \<and> contains (drop 1 (t_raw t)) ''{''"

definition token_key :: "case_table \<Rightarrow> token \<Rightarrow> string \<Rightarrow> string" where
  "token_key lo t namespace =
    (if namespace = [] \<or> \<not> t_has_payload t then token_key0 t
     else if t_name t = namespace then to_lower lo (trim_space (t_payload t))
     else token_key0 t)"

section \<open>The lexer\<close>

text \<open>The scan runs on the number of bytes left; \<open>None\<close> is the code's -1.\<close>

function close_brace :: "string \<Rightarrow> nat \<Rightarrow> nat option" where
  "close_brace s j = (if j < length s then
      (if s ! j = rbrace then Some j else close_brace s (Suc j)) else None)"
  by pat_completeness auto
termination by (relation "measure (\<lambda>(s, j). length s - j)") auto

declare close_brace.simps [simp del]

definition parse_span :: "case_table \<Rightarrow> string \<Rightarrow> token" where
  "parse_span lo raw =
    (let body = slice raw 1 (length raw - 1);
         (fallback, has_fallback, rest) = (case last_index_byte body CHR ''|'' of
            Some i \<Rightarrow> (drop (Suc i) body, True, take i body) | None \<Rightarrow> ([], False, body));
         (name, payload, found) = cut rest CHR '':''
     in \<lparr>t_kind = KindVar, t_text = [], t_name = to_lower lo name, t_payload = payload,
         t_has_payload = found, t_fallback = fallback, t_has_fallback = has_fallback, t_raw = raw\<rparr>)"

definition append_literal :: "token list \<Rightarrow> string \<Rightarrow> token list" where
  "append_literal out text' = (if text' = [] then out else out @ [literal_token text'])"

lemma close_brace_Some:
  "close_brace s j = Some e \<Longrightarrow> j \<le> e \<and> e < length s \<and> s ! e = rbrace \<and> rbrace \<notin> set (slice s j e)"
proof (induction s j rule: close_brace.induct)
  case (1 s j)
  show ?case
  proof (cases "j < length s \<and> s ! j \<noteq> rbrace")
    case True
    then have *: "Suc j \<le> e \<and> e < length s \<and> s ! e = rbrace \<and> rbrace \<notin> set (slice s (Suc j) e)"
      using 1 by (simp add: close_brace.simps [of s j])
    then have "slice s j e = s ! j # slice s (Suc j) e" by (intro slice_Cons_head) auto
    with * True show ?thesis by simp
  next
    case False
    then show ?thesis using "1.prems" by (auto simp: close_brace.simps [of s j] split: if_splits)
  qed
qed

lemma close_brace_None: "close_brace s j = None \<Longrightarrow> rbrace \<notin> set (drop j s)"
proof (induction s j rule: close_brace.induct)
  case (1 s j)
  then show ?case
    by (cases "j < length s") (auto simp: close_brace.simps [of s j] nth_split_at split: if_splits)
qed

function lex_loop :: "case_table \<Rightarrow> string \<Rightarrow> token list \<Rightarrow> nat \<Rightarrow> nat \<Rightarrow> token list" where
  "lex_loop lo s out frm i =
    (if i < length s then
       if s ! i \<noteq> lbrace then lex_loop lo s out frm (Suc i)
       else (case close_brace s (Suc i) of
           None \<Rightarrow> append_literal out (drop frm s)
         | Some e \<Rightarrow>
             lex_loop lo s (append_literal out (slice s frm i) @ [parse_span lo (slice s i (Suc e))])
               (Suc e) (Suc e))
     else append_literal out (drop frm s))"
  by pat_completeness auto
termination
  by (relation "measure (\<lambda>(lo, s, out, frm, i). length s - i)") (auto dest: close_brace_Some)

declare lex_loop.simps [simp del]

definition Lex :: "case_table \<Rightarrow> string \<Rightarrow> token list" where
  "Lex lo s = lex_loop lo s [] 0 0"

section \<open>Conditional spans\<close>

record cond =
  c_ref :: token
  c_want :: string
  c_has_want :: bool
  c_then :: string
  c_else :: string

definition is_cond_span :: "token \<Rightarrow> bool" where
  "is_cond_span t \<longleftrightarrow> t_kind t = KindVar \<and> t_name t = ''if'' \<and> t_has_payload t"

definition cut_cond :: "string \<Rightarrow> (string \<times> string \<times> string) option" where
  "cut_cond payload = (let parts = split_byte payload CHR '':''; last' = length parts - 1 in
     if last' < 1 then None
     else if last' = 1 then Some (parts ! 0, parts ! 1, [])
     else Some (join_byte (take (last' - 1) parts) CHR '':'', parts ! (last' - 1), parts ! last'))"

definition ref_token :: "case_table \<Rightarrow> string \<Rightarrow> token" where
  "ref_token lo key = (case cut key CHR '':'' of (name, payload, found) \<Rightarrow>
     \<lparr>t_kind = KindVar, t_text = [], t_name = to_lower lo name, t_payload = payload,
      t_has_payload = found, t_fallback = [], t_has_fallback = False, t_raw = []\<rparr>)"

definition token_cond :: "case_table \<Rightarrow> token \<Rightarrow> cond option" where
  "token_cond lo t = (if \<not> is_cond_span t then None
     else case cut_cond (t_payload t) of None \<Rightarrow> None
     | Some (key, th, el) \<Rightarrow> (case cut key CHR ''='' of (name, want, has) \<Rightarrow>
         Some \<lparr>c_ref = ref_token lo name, c_want = want, c_has_want = has, c_then = th, c_else = el\<rparr>))"

definition cond_true :: "cond \<Rightarrow> string \<Rightarrow> bool" where
  "cond_true c val = (if c_has_want c then val = c_want c else val \<noteq> [])"

definition cond_text :: "token \<Rightarrow> cond \<Rightarrow> string \<Rightarrow> bool \<Rightarrow> string" where
  "cond_text t c val known = (if \<not> known then t_raw t
     else if cond_true c val then c_then c else c_else c)"

fun cond_refs :: "case_table \<Rightarrow> token list \<Rightarrow> token list" where
  "cond_refs lo [] = []"
| "cond_refs lo (t # ts) = (case token_cond lo t of
     Some c \<Rightarrow> c_ref c # cond_refs lo ts | None \<Rightarrow> cond_refs lo ts)"

definition with_cond_refs :: "case_table \<Rightarrow> token list \<Rightarrow> token list" where
  "with_cond_refs lo toks = (let refs = cond_refs lo toks in
     if length refs = 0 then toks else toks @ refs)"

section \<open>Expansion\<close>

definition append_span :: "case_table \<Rightarrow> string \<Rightarrow> string \<Rightarrow> resolver \<Rightarrow> string" where
  "append_span lo dst raw repl = (let tok = parse_span lo raw in
     case token_cond lo tok of
       None \<Rightarrow> dst @ resolve_token tok (repl tok)
     | Some c \<Rightarrow> (case repl (c_ref c) of (val, known) \<Rightarrow> dst @ cond_text tok c val known))"

function append_loop :: "case_table \<Rightarrow> string \<Rightarrow> resolver \<Rightarrow> string \<Rightarrow> nat \<Rightarrow> string" where
  "append_loop lo s repl dst i =
    (if i < length s then
       if s ! i \<noteq> lbrace then append_loop lo s repl (dst @ [s ! i]) (Suc i)
       else (case close_brace s (Suc i) of
           None \<Rightarrow> dst @ drop i s
         | Some e \<Rightarrow> append_loop lo s repl (append_span lo dst (slice s i (Suc e)) repl) (Suc e))
     else dst)"
  by pat_completeness auto
termination
  by (relation "measure (\<lambda>(lo, s, repl, dst, i). length s - i)") (auto dest: close_brace_Some)

declare append_loop.simps [simp del]

definition Append :: "case_table \<Rightarrow> string \<Rightarrow> string \<Rightarrow> resolver \<Rightarrow> string" where
  "Append lo dst s repl = append_loop lo s repl dst 0"

definition Expand :: "case_table \<Rightarrow> string \<Rightarrow> resolver \<Rightarrow> string" where
  "Expand lo s repl = (if s = [] then [] else Append lo [] s repl)"

section \<open>Random tokens\<close>

text \<open>
  \<open>rand.IntN(n)\<close> is a parameter: it panics (\<open>None\<close>) when \<open>n\<close> is not positive and otherwise
  returns what the source draws. \<open>high-low+1\<close> is a 64-bit expression and wraps.
\<close>

type_synonym rng = "int \<Rightarrow> int"

definition int_n :: "rng \<Rightarrow> int \<Rightarrow> int option" where
  "int_n draw n = (if n \<le> 0 then None else Some (draw n))"

definition range_bounds :: "string \<Rightarrow> (int \<times> int) option" where
  "range_bounds payload = (case cut payload CHR ''-'' of (lowText, highText, found) \<Rightarrow>
     if \<not> found then None
     else case parse_int lowText of (low, err) \<Rightarrow>
       if err \<noteq> None then None
       else case parse_int highText of (high, err2) \<Rightarrow>
         if err2 \<noteq> None then None
         else if high < low then None
         else Some (low, high))"

definition random_value :: "rng \<Rightarrow> token \<Rightarrow> (string \<times> bool) option" where
  "random_value draw tok = (if \<not> t_has_payload tok
     then map_option (\<lambda>k. (itoa (k + 1), True)) (int_n draw 100)
     else case range_bounds (t_payload tok) of
       None \<Rightarrow> Some ([], False)
     | Some (low, high) \<Rightarrow>
         map_option (\<lambda>k. (itoa (wrap64 (k + low)), True)) (int_n draw (wrap64 (wrap64 (high - low) + 1))))"

definition choice_value :: "rng \<Rightarrow> token \<Rightarrow> (string \<times> bool) option" where
  "choice_value draw tok = (if \<not> t_has_payload tok then Some ([], False)
     else let options = split_byte (t_payload tok) CHR '','' in
       map_option (\<lambda>k. (options ! nat k, True)) (int_n draw (int (length options))))"

text \<open>The result is \<open>None\<close> when the call panics.\<close>

definition Dynamic :: "rng \<Rightarrow> token \<Rightarrow> (string \<times> bool) option" where
  "Dynamic draw tok = (if t_name tok = ''random'' then random_value draw tok
     else if t_name tok = ''choice'' then choice_value draw tok
     else Some ([], False))"

definition normalize_name :: "case_table \<Rightarrow> string \<Rightarrow> string" where
  "normalize_name lo name = to_lower lo (trim_space (trim_prefix (trim_space name) ''!''))"

section \<open>What a token stands for\<close>

text \<open>The bytes a token was lexed from, and what the expander writes for it.\<close>

definition token_source :: "token \<Rightarrow> string" where
  "token_source t = (if t_kind t = KindLiteral then t_text t else t_raw t)"

definition render :: "case_table \<Rightarrow> resolver \<Rightarrow> token \<Rightarrow> string" where
  "render lo repl t = (if t_kind t = KindLiteral then t_text t
     else case token_cond lo t of
       None \<Rightarrow> resolve_token t (repl t)
     | Some c \<Rightarrow> cond_text t c (fst (repl (c_ref c))) (snd (repl (c_ref c))))"

text \<open>The shape of a lexed token: a non-empty literal, or a brace span closed at its first \<open>}\<close>.\<close>

definition lexed_token :: "case_table \<Rightarrow> token \<Rightarrow> bool" where
  "lexed_token lo t \<longleftrightarrow> (if t_kind t = KindLiteral then t_text t \<noteq> []
     else t = parse_span lo (t_raw t) \<and> 2 \<le> length (t_raw t) \<and> hd (t_raw t) = lbrace
       \<and> last (t_raw t) = rbrace \<and> rbrace \<notin> set (butlast (t_raw t)))"

lemma literal_token_sel [tok_simps, simp]:
  "t_kind (literal_token s) = KindLiteral" "t_text (literal_token s) = s"
  by (simp_all add: literal_token_def)

lemma parse_span_sel [tok_simps, simp]:
  "t_kind (parse_span lo raw) = KindVar" "t_raw (parse_span lo raw) = raw"
  by (simp_all add: parse_span_def Let_def split: option.splits prod.splits)

lemma source_literal [tok_simps]: "token_source (literal_token s) = s"
  by (simp add: token_source_def)

lemma source_span [tok_simps]: "token_source (parse_span lo raw) = raw"
  by (simp add: token_source_def)

lemma render_literal [tok_simps]: "render lo repl (literal_token s) = s"
  by (simp add: render_def)

lemma lexed_literal [tok_simps]: "lexed_token lo (literal_token s) \<longleftrightarrow> s \<noteq> []"
  by (simp add: lexed_token_def)

lemma append_span_render: "append_span lo dst raw repl = dst @ render lo repl (parse_span lo raw)"
  by (simp add: append_span_def render_def Let_def split: option.splits prod.splits)

lemma map_append_literal:
  "f (literal_token t) = t \<Longrightarrow>
   concat (map f (append_literal out t)) = concat (map f out) @ t"
  by (auto simp: append_literal_def)

lemmas concat_literal =
  map_append_literal [where f = token_source, OF source_literal]
  map_append_literal [where f = "render lo repl" for lo repl, OF render_literal]

text \<open>The span the lexer cuts at an opening brace.\<close>

lemma span_of_close_brace:
  assumes "i < length s" "s ! i = lbrace" "close_brace s (Suc i) = Some e"
  shows "slice s i (Suc e) @ drop (Suc e) s = drop i s" "lexed_token lo (parse_span lo (slice s i (Suc e)))"
proof -
  have e: "Suc i \<le> e" "e < length s" "s ! e = rbrace" "rbrace \<notin> set (slice s (Suc i) e)"
    using close_brace_Some [OF assms(3)] by auto
  show "slice s i (Suc e) @ drop (Suc e) s = drop i s" using e by (intro slice_drop) auto
  have "slice s i (Suc e) = lbrace # slice s (Suc i) e @ [rbrace]"
    using slice_Cons_head [of i "Suc e" s] slice_Suc [of "Suc i" e s] e assms by simp
  then show "lexed_token lo (parse_span lo (slice s i (Suc e)))"
    using e(4) by (simp add: lexed_token_def)
qed

text \<open>One equation per branch of the two loops, and their common induction.\<close>

lemma lex_loop_steps:
  "length s \<le> i \<Longrightarrow> lex_loop lo s out frm i = append_literal out (drop frm s)"
  "\<lbrakk>i < length s; s ! i \<noteq> lbrace\<rbrakk> \<Longrightarrow> lex_loop lo s out frm i = lex_loop lo s out frm (Suc i)"
  "\<lbrakk>i < length s; s ! i = lbrace; close_brace s (Suc i) = None\<rbrakk> \<Longrightarrow>
     lex_loop lo s out frm i = append_literal out (drop frm s)"
  "\<lbrakk>i < length s; s ! i = lbrace; close_brace s (Suc i) = Some e\<rbrakk> \<Longrightarrow>
     lex_loop lo s out frm i =
       lex_loop lo s (append_literal out (slice s frm i) @ [parse_span lo (slice s i (Suc e))]) (Suc e) (Suc e)"
  by (simp_all add: lex_loop.simps [of lo s out frm i])

lemma append_loop_steps:
  "length s \<le> i \<Longrightarrow> append_loop lo s repl dst i = dst"
  "\<lbrakk>i < length s; s ! i \<noteq> lbrace\<rbrakk> \<Longrightarrow>
     append_loop lo s repl dst i = append_loop lo s repl (dst @ [s ! i]) (Suc i)"
  "\<lbrakk>i < length s; s ! i = lbrace; close_brace s (Suc i) = None\<rbrakk> \<Longrightarrow>
     append_loop lo s repl dst i = dst @ drop i s"
  "\<lbrakk>i < length s; s ! i = lbrace; close_brace s (Suc i) = Some e\<rbrakk> \<Longrightarrow>
     append_loop lo s repl dst i = append_loop lo s repl (append_span lo dst (slice s i (Suc e)) repl) (Suc e)"
  by (simp_all add: append_loop.simps [of lo s repl dst i])

lemma scan_induct [case_names end_of skip opened span]:
  assumes "\<And>out frm i. length s \<le> i \<Longrightarrow> P out frm i"
    and "\<And>out frm i. \<lbrakk>i < length s; s ! i \<noteq> lbrace; P out frm (Suc i)\<rbrakk> \<Longrightarrow> P out frm i"
    and "\<And>out frm i. \<lbrakk>i < length s; s ! i = lbrace; close_brace s (Suc i) = None\<rbrakk> \<Longrightarrow> P out frm i"
    and "\<And>out frm i e. \<lbrakk>i < length s; s ! i = lbrace; close_brace s (Suc i) = Some e; Suc e \<le> length s; i \<le> e;
        P (append_literal out (slice s frm i) @ [parse_span lo (slice s i (Suc e))]) (Suc e) (Suc e)\<rbrakk>
      \<Longrightarrow> P out frm i"
  shows "P out frm i"
proof (induction "length s - i" arbitrary: out frm i rule: less_induct)
  case less
  consider "length s \<le> i" | "i < length s" "s ! i \<noteq> lbrace"
    | "i < length s" "s ! i = lbrace" "close_brace s (Suc i) = None"
    | e where "i < length s" "s ! i = lbrace" "close_brace s (Suc i) = Some e"
    by (metis linorder_not_less not_None_eq)
  then show ?case
  proof cases
    case 4
    then have "Suc i \<le> e" "e < length s" using close_brace_Some by blast+
    then show ?thesis using assms(4) [OF 4, where out = out and frm = frm] less 4(1) by simp
  qed (use assms less in auto)
qed

lemma lex_loop_source:
  "\<lbrakk>frm \<le> i; i \<le> length s\<rbrakk> \<Longrightarrow>
   concat (map token_source (lex_loop lo s out frm i)) = concat (map token_source out) @ drop frm s"
proof (induction out frm i rule: scan_induct [where lo = lo and s = s])
  case (span out frm i e)
  then show ?case using slice_drop [of frm i s] span_of_close_brace(1) [of i s e]
    by (simp add: lex_loop_steps concat_literal tok_simps)
qed (simp_all add: lex_loop_steps concat_literal)

lemma append_literal_lexed:
  "list_all (lexed_token lo) out \<Longrightarrow> list_all (lexed_token lo) (append_literal out t)"
  by (simp add: append_literal_def tok_simps)

lemma lex_loop_lexed:
  "list_all (lexed_token lo) out \<Longrightarrow> list_all (lexed_token lo) (lex_loop lo s out frm i)"
proof (induction out frm i rule: scan_induct [where lo = lo and s = s])
  case (span out frm i e)
  then show ?case using span_of_close_brace(2) [of i s e lo]
    by (simp add: lex_loop_steps append_literal_lexed)
qed (simp_all add: lex_loop_steps append_literal_lexed)

lemma append_loop_lex:
  "\<lbrakk>frm \<le> i; i \<le> length s; dst = concat (map (render lo repl) out) @ slice s frm i\<rbrakk> \<Longrightarrow>
   append_loop lo s repl dst i = concat (map (render lo repl) (lex_loop lo s out frm i))"
proof (induction out frm i arbitrary: dst rule: scan_induct [where lo = lo and s = s])
  case (end_of out frm i)
  then show ?case by (simp add: lex_loop_steps append_loop_steps concat_literal slice_to_end)
next
  case (skip out frm i)
  then show ?case by (simp add: lex_loop_steps append_loop_steps slice_Suc)
next
  case (opened out frm i)
  then show ?case by (simp add: lex_loop_steps append_loop_steps concat_literal slice_drop)
next
  case (span out frm i e)
  have "append_loop lo s repl (append_span lo dst (slice s i (Suc e)) repl) (Suc e)
     = concat (map (render lo repl) (lex_loop lo s
        (append_literal out (slice s frm i) @ [parse_span lo (slice s i (Suc e))]) (Suc e) (Suc e)))"
    using span.hyps span.prems by (intro span.IH) (simp_all add: append_span_render concat_literal)
  then show ?case using span.hyps by (simp add: lex_loop_steps append_loop_steps)
qed

lemma expand_render: "Expand lo s repl = concat (map (render lo repl) (Lex lo s))"
proof -
  have "Append lo [] s repl = concat (map (render lo repl) (Lex lo s))"
    unfolding Append_def Lex_def by (rule append_loop_lex) simp_all
  moreover have "Append lo [] [] repl = []" by (simp add: Append_def append_loop.simps)
  ultimately show ?thesis by (auto simp: Expand_def)
qed

lemma lex_source: "concat (map token_source (Lex lo s)) = s"
  by (simp add: Lex_def lex_loop_source)

lemma lex_lexed: "list_all (lexed_token lo) (Lex lo s)"
  by (simp add: Lex_def lex_loop_lexed)

text \<open>A resolver that knows no token leaves every span as it was written.\<close>

lemma render_unknown: "render lo (\<lambda>_. (v, False)) t = token_source t"
  by (simp add: render_def token_source_def resolve_token_def cond_text_def split: option.splits)

lemma lex_single_span:
  assumes "rbrace \<notin> set body"
  shows "Lex lo (lbrace # body @ [rbrace]) = [parse_span lo (lbrace # body @ [rbrace])]"
proof -
  let ?s = "lbrace # body @ [rbrace]"
  have cb: "close_brace (xs @ body @ [rbrace]) (length xs) = Some (length xs + length body)"
    if "rbrace \<notin> set body" for xs body
    using that
  proof (induction body arbitrary: xs)
    case (Cons a body)
    then show ?case using Cons.IH [of "xs @ [a]"]
      by (subst close_brace.simps) (auto simp: nth_append)
  qed (simp add: close_brace.simps nth_append)
  have "close_brace ?s 1 = Some (Suc (length body))"
    using cb [of body "[lbrace]"] assms by simp
  then show ?thesis
    by (simp add: Lex_def lex_loop.simps append_literal_def slice_def)
qed

section \<open>Conditionals and draws\<close>

lemma cut_cond_then_else:
  assumes "CHR '':'' \<notin> set th" "CHR '':'' \<notin> set el"
  shows "cut_cond (k @ '':'' @ th @ '':'' @ el) = Some (k, th, el)"
proof -
  let ?c = "CHR '':''"
  have parts: "split_byte (k @ '':'' @ th @ '':'' @ el) ?c = split_byte k ?c @ [th, el]"
    using assms by (simp add: split_byte_append split_byte_single)
  have n: "1 \<le> length (split_byte k ?c)" by (simp add: Suc_le_eq)
  then show ?thesis unfolding cut_cond_def Let_def parts
    by (simp add: join_split nth_append)
qed

lemma parse_span_plain:
  assumes "CHR ''|'' \<notin> set body"
  shows "parse_span lo (lbrace # body @ [rbrace]) =
    (case cut body CHR '':'' of (name, payload, found) \<Rightarrow>
      \<lparr>t_kind = KindVar, t_text = [], t_name = to_lower lo name, t_payload = payload, t_has_payload = found,
       t_fallback = [], t_has_fallback = False, t_raw = lbrace # body @ [rbrace]\<rparr>)"
  using assms
  by (simp add: parse_span_def Let_def slice_def last_index_byte_def index_byte_absent split: prod.splits)

lemma range_bounds_low: "range_bounds p = Some (low, high) \<Longrightarrow> 0 \<le> low \<and> low \<le> high \<and> in64 high"
  using cut_found [of p] parse_int_nonneg parse_int_in64
  by (fastforce simp: range_bounds_def split: prod.splits if_splits)

section \<open>Properties\<close>

text \<open>C26: The one-pass expander writes exactly the concatenation, over the tokens of the lexer in
  order, of what each stands for: a literal its text, a conditional span the branch its reference
  selects, any other span its resolved value, its fallback or its own source. Substituted text is
  never scanned again.\<close>

theorem expand_is_render_of_lex:
  "Expand lo s repl = concat (map (render lo repl) (Lex lo s))"
  by (rule expand_render)

text \<open>C27: Lexing loses nothing: the sources of the tokens concatenate to the template, every literal is
  non-empty, every span is a brace pair with no closing brace inside, and its fields are those
  parsed from that source. A resolver that knows no token therefore leaves the template unchanged.\<close>

theorem lex_roundtrip:
  "concat (map token_source (Lex lo s)) = s \<and> list_all (lexed_token lo) (Lex lo s)
   \<and> Expand lo s (\<lambda>_. (v, False)) = s"
  by (simp add: lex_source lex_lexed expand_render render_unknown [abs_def])

text \<open>A conditional span \<open>{if:key=want:then:else}\<close>, whose key and wanted value may contain colons,
  expands to its then-branch when the key's token resolves to the wanted value and to its else-branch
  when it resolves to another one.\<close>

theorem expand_conditional:
  assumes "rbrace \<notin> set (key @ want @ th @ el)" "CHR ''|'' \<notin> set (key @ want @ th @ el)"
    and "CHR ''='' \<notin> set key" "CHR '':'' \<notin> set th" "CHR '':'' \<notin> set el"
    and "repl (ref_token lo key) = (val, True)"
  shows "Expand lo (''{if:'' @ key @ ''='' @ want @ '':'' @ th @ '':'' @ el @ ''}'') repl
    = (if val = want then th else el)"
proof -
  let ?payload = "(key @ ''='' @ want) @ '':'' @ th @ '':'' @ el"
  let ?body = "''if:'' @ ?payload"
  have lex: "Lex lo (lbrace # ?body @ [rbrace]) = [parse_span lo (lbrace # ?body @ [rbrace])]"
    by (rule lex_single_span) (use assms in auto)
  have cutb: "cut ?body CHR '':'' = (''if'', ?payload, True)"
    using cut_append [of "CHR '':''" "''if''" ?payload] by simp
  have low: "to_lower lo ''if'' = ''if''"
    by (simp add: text_eval)
  have span: "t_name (parse_span lo (lbrace # ?body @ [rbrace])) = ''if''"
    "t_payload (parse_span lo (lbrace # ?body @ [rbrace])) = ?payload"
    "t_has_payload (parse_span lo (lbrace # ?body @ [rbrace]))"
    using assms(2) low by (subst parse_span_plain; simp add: cutb del: append_Cons append_assoc; simp)+
  have cs: "token_cond lo t = Some
      \<lparr>c_ref = ref_token lo key, c_want = want, c_has_want = True, c_then = th, c_else = el\<rparr>"
    if "t_kind t = KindVar" "t_name t = ''if''" "t_has_payload t" "t_payload t = ?payload" for t
    using that assms cut_append [of "CHR ''=''" key want] cut_cond_then_else [OF assms(4,5), of "key @ ''='' @ want"]
    by (simp add: token_cond_def is_cond_span_def)
  note this [OF parse_span_sel(1) span(1,3,2)]
  then show ?thesis
    using assms(6) lex by (simp add: expand_render render_def cond_text_def cond_true_def)
qed

lemma expand_conditional_witness:
  "Expand (\<lambda>r. r) ''{if:user:x=a:hi:bye}'' (\<lambda>_. (''a'', True)) = ''hi''"
  using expand_conditional [of "''user:x''" "''a''" "''hi''" "''bye''" "\<lambda>_. (''a'', True)" "\<lambda>r. r" "''a''"]
  by simp

text \<open>A random token with bounds panics exactly for the bounds \<open>0-9223372036854775807\<close>, whose
  width overflows to a negative argument of \<open>rand.IntN\<close>; every other call returns, and a returned draw
  lies within the written bounds.\<close>

theorem random_value_bounds:
  assumes "\<And>n. 0 < n \<Longrightarrow> 0 \<le> draw n \<and> draw n < n"
  shows "(random_value draw tok = None \<longleftrightarrow>
      t_has_payload tok \<and> range_bounds (t_payload tok) = Some (0, int64_max))
    \<and> (range_bounds (t_payload tok) = Some (low, high) \<and> t_has_payload tok \<and> high - low < int64_max \<longrightarrow>
      (\<exists>k. random_value draw tok = Some (itoa k, True) \<and> low \<le> k \<and> k \<le> high))"
proof (cases "t_has_payload tok")
  case False
  then show ?thesis by (simp add: random_value_def int_n_def)
next
  case True
  show ?thesis
  proof (cases "range_bounds (t_payload tok)")
    case None
    then show ?thesis using True by (simp add: random_value_def)
  next
    case (Some b)
    obtain l h where b: "b = (l, h)" by (cases b)
    note bd = range_bounds_low [OF Some [unfolded b]]
    have w: "wrap64 (h - l) = h - l"
      using bd by (intro wrap64_id) (auto simp: in64_def int64_min_def int64_max_def)
    have all: "h - l = int64_max \<longleftrightarrow> l = 0 \<and> h = int64_max"
      using bd by (auto simp: in64_def)
    have ovf: "wrap64 (int64_max + 1) < 0"
      by (simp add: wrap64_def int64_max_def)
    have small: "wrap64 (h - l + 1) = h - l + 1" if "h - l \<noteq> int64_max"
      using bd that by (intro wrap64_id) (auto simp: in64_def int64_min_def int64_max_def)
    have shifted: "wrap64 (k + l) = k + l" if "0 \<le> k" "k < h - l + 1" for k
      using bd that by (intro wrap64_id) (auto simp: in64_def int64_min_def int64_max_def)
    show ?thesis
      using True Some b w all ovf small shifted bd assms [of "h - l + 1"]
      by (cases "h - l = int64_max") (auto simp: random_value_def int_n_def)
  qed
qed

lemma random_value_bounds_witness:
  "\<exists>k. random_value (\<lambda>n. n - 1) (parse_span (\<lambda>r. r) ''{random:2-7}'') = Some (itoa k, True) \<and> 2 \<le> k \<and> k \<le> 7"
proof -
  let ?tok = "parse_span (\<lambda>r. r) ''{random:2-7}''"
  have "range_bounds (t_payload ?tok) = Some (2, 7) \<and> t_has_payload ?tok"
    by (simp add: parse_span_def slice_def last_index_byte_def cut_def range_bounds_def parse_int_def
        parse_int_w_def         digits_value_def is_digit_def int64_max_def text_eval)
  then show ?thesis
    using random_value_bounds [of "\<lambda>n. n - 1" ?tok 2 7] by (simp add: int64_max_def)
qed

end
