(* ===== verification/Validate.thy ===== *)
theory Validate
  imports GoText
begin

text \<open>
  The input validators of \<open>src/internal/domain/validate\<close>: \<open>validate.go\<close>, \<open>fetch.go\<close> and
  \<open>device.go\<close>. A validator returns its error, \<open>None\<close> for nil. The content floor is the hook variable
  \<open>CheckFloor\<close> of the package, an argument; URL, IP and mail-address parsing are arguments too.
\<close>

datatype verr =
  ErrUserIDZero | ErrUsernameInvalid | ErrEmailInvalid | ErrCommandName | ErrCommandAliases
  | ErrResponseInvalid | ErrPermInvalid | ErrCooldownInvalid | ErrBumpCounterInvalid | ErrModuleName
  | ErrConfigsInvalid | ErrTokenInvalid | ErrStatusInvalid | ErrContentFloor string
  | ErrFetchDefName | ErrFetchURL | ErrFetchHost | ErrFetchPath | ErrKeyLabel | ErrKeyValue
  | ErrRedirectURI | ErrChallenge | ErrVerifier | ErrDevicePlatform

text \<open>\<open>CheckFloor\<close>: nil, or a function returning the term that hit.\<close>

type_synonym floor_hook = "(string \<Rightarrow> string option) option"

definition floor_clean :: "floor_hook \<Rightarrow> string \<Rightarrow> verr option" where
  "floor_clean hook text' = (case hook of None \<Rightarrow> None
     | Some check \<Rightarrow> (case check text' of Some term \<Rightarrow> Some (ErrContentFloor term) | None \<Rightarrow> None))"

section \<open>Byte classes\<close>

definition is_lower_byte :: "char \<Rightarrow> bool" where
  "is_lower_byte c \<longleftrightarrow> CHR ''a'' \<le> c \<and> c \<le> CHR ''z''"

definition is_upper_byte :: "char \<Rightarrow> bool" where
  "is_upper_byte c \<longleftrightarrow> CHR ''A'' \<le> c \<and> c \<le> CHR ''Z''"

definition is_digit_byte :: "char \<Rightarrow> bool" where
  "is_digit_byte c \<longleftrightarrow> CHR ''0'' \<le> c \<and> c \<le> CHR ''9''"

definition is_alphanumeric :: "char \<Rightarrow> bool" where
  "is_alphanumeric c \<longleftrightarrow> is_lower_byte c \<or> is_upper_byte c \<or> is_digit_byte c"

definition is_printable_ascii_no_space :: "char \<Rightarrow> bool" where
  "is_printable_ascii_no_space c \<longleftrightarrow> c > CHR '' '' \<and> c \<le> CHR ''~''"

section \<open>validate.go\<close>

definition validate_user_id :: "nat \<Rightarrow> verr option" where
  "validate_user_id n = (if n = 0 then Some ErrUserIDZero else None)"

definition validate_username :: "string \<Rightarrow> verr option" where
  "validate_username s = (if length s = 0 \<or> length s > 25 then Some ErrUsernameInvalid
     else if list_ex (\<lambda>c. \<not> is_alphanumeric c \<and> c \<noteq> CHR ''_'') s then Some ErrUsernameInvalid
     else None)"

text \<open>\<open>mail.ParseAddress\<close> returns the bare address it parsed.\<close>

definition validate_email :: "(string \<Rightarrow> string option) \<Rightarrow> string \<Rightarrow> verr option" where
  "validate_email parse s = (if length s = 0 \<or> length s > 254 then Some ErrEmailInvalid
     else case parse s of None \<Rightarrow> Some ErrEmailInvalid
     | Some addr \<Rightarrow> if addr \<noteq> s then Some ErrEmailInvalid else None)"

definition validate_command_name :: "floor_hook \<Rightarrow> string \<Rightarrow> verr option" where
  "validate_command_name hook s = (if length s = 0 \<or> length s > 64 then Some ErrCommandName
     else if list_ex (\<lambda>c. \<not> is_printable_ascii_no_space c) s then Some ErrCommandName
     else floor_clean hook s)"

fun aliases_loop :: "case_table \<Rightarrow> floor_hook \<Rightarrow> string set \<Rightarrow> string list \<Rightarrow> verr option" where
  "aliases_loop lo hook seen [] = None"
| "aliases_loop lo hook seen (a # as) = (case validate_command_name hook a of
      Some (ErrContentFloor t) \<Rightarrow> Some (ErrContentFloor t)
    | Some _ \<Rightarrow> Some ErrCommandAliases
    | None \<Rightarrow> if to_lower lo a \<in> seen then Some ErrCommandAliases
        else aliases_loop lo hook (insert (to_lower lo a) seen) as)"

definition validate_command_aliases :: "case_table \<Rightarrow> floor_hook \<Rightarrow> string list \<Rightarrow> verr option" where
  "validate_command_aliases lo hook aliases =
    (if length aliases > 25 then Some ErrCommandAliases else aliases_loop lo hook {} aliases)"

definition valid_response_line :: "string \<Rightarrow> bool" where
  "valid_response_line line = (if length line = 0 \<or> length line > 500 then False
     else \<not> list_ex (\<lambda>(r, _). r < 32) (runes line))"

definition newline :: char where "newline = char_of (10::nat)"

definition validate_command_response :: "floor_hook \<Rightarrow> string \<Rightarrow> verr option" where
  "validate_command_response hook response = (if length response = 0 then Some ErrResponseInvalid
     else let lines = split_byte response newline in
       if length lines > 5 then Some ErrResponseInvalid
       else if list_ex (\<lambda>l. \<not> valid_response_line l) lines then Some ErrResponseInvalid
       else floor_clean hook response)"

definition validate_perm :: "string \<Rightarrow> verr option" where
  "validate_perm p = (if p \<in> {''everyone'', ''sub'', ''vip'', ''mod'', ''lead_mod'', ''broadcaster''}
     then None else Some ErrPermInvalid)"

definition validate_cooldown :: "nat \<Rightarrow> verr option" where
  "validate_cooldown seconds = (if seconds > 86400 then Some ErrCooldownInvalid else None)"

definition validate_bump_counter :: "floor_hook \<Rightarrow> string \<Rightarrow> verr option" where
  "validate_bump_counter hook name = (if name = [] then None
     else if length name > 64 then Some ErrBumpCounterInvalid
     else if list_ex (\<lambda>c. \<not> is_printable_ascii_no_space c \<or> c = CHR '':'') name then Some ErrBumpCounterInvalid
     else floor_clean hook name)"

definition valid_module_char :: "char \<Rightarrow> bool" where
  "valid_module_char c \<longleftrightarrow> is_lower_byte c \<or> is_digit_byte c \<or> c = CHR ''_'' \<or> c = CHR ''-''"

definition validate_module_name :: "string \<Rightarrow> verr option" where
  "validate_module_name s = (if length s = 0 \<or> length s > 64 then Some ErrModuleName
     else if list_ex (\<lambda>c. \<not> valid_module_char c) s then Some ErrModuleName else None)"

text \<open>A decoded JSON document; the members of an object in the order \<open>range\<close> visits them.\<close>

datatype json = JNull | JBool bool | JNumber string | JString string
  | JArray "json list" | JObject "(string \<times> json) list"

lemma size_member:
  "size_list (size \<circ> snd) (ms :: (string \<times> json) list) < Suc (size_list (size_prod (\<lambda>x. 0) size) ms)"
  by (induction ms) auto

function (sequential) floor_clean_values :: "floor_hook \<Rightarrow> json \<Rightarrow> verr option"
  and floor_clean_each :: "floor_hook \<Rightarrow> json list \<Rightarrow> verr option" where
  "floor_clean_values hook (JString s) = floor_clean hook s"
| "floor_clean_values hook (JObject ms) = floor_clean_each hook (map snd ms)"
| "floor_clean_values hook (JArray xs) = floor_clean_each hook xs"
| "floor_clean_values hook _ = None"
| "floor_clean_each hook [] = None"
| "floor_clean_each hook (v # vs) = (case floor_clean_values hook v of
      Some e \<Rightarrow> Some e | None \<Rightarrow> floor_clean_each hook vs)"
  by pat_completeness auto

termination
  by (relation "measure (\<lambda>x. case x of Inl (_, j) \<Rightarrow> size j | Inr (_, js) \<Rightarrow> size_list size js)")
    (auto simp: size_member)

definition validate_configs_json :: "floor_hook \<Rightarrow> (string \<Rightarrow> json option) \<Rightarrow> string \<Rightarrow> verr option" where
  "validate_configs_json hook parse configs = (if length configs = 0 then None
     else if length configs > 16 * 1024 then Some ErrConfigsInvalid
     else case parse configs of None \<Rightarrow> Some ErrConfigsInvalid | Some doc \<Rightarrow> floor_clean_values hook doc)"

definition validate_token :: "string \<Rightarrow> verr option" where
  "validate_token t = (if length t = 0 \<or> length t > 8 * 1024 then Some ErrTokenInvalid else None)"

definition validate_status :: "string \<Rightarrow> verr option" where
  "validate_status s = (if s \<in> {''free'', ''paid'', ''vip''} then None else Some ErrStatusInvalid)"

section \<open>fetch.go\<close>

record url =
  url_scheme :: string
  url_opaque :: string
  url_host :: string
  url_hostname :: string
  url_port :: string
  url_has_user :: bool
  url_path :: string
  url_raw_query :: string
  url_fragment :: string

definition is_fetch_name_byte :: "char \<Rightarrow> bool" where
  "is_fetch_name_byte c \<longleftrightarrow> is_lower_byte c \<or> is_digit_byte c \<or> c = CHR ''_''"

definition is_fetch_name_charset :: "string \<Rightarrow> bool" where
  "is_fetch_name_charset s \<longleftrightarrow> list_all is_fetch_name_byte s"

definition fetch_def_name :: "floor_hook \<Rightarrow> string \<Rightarrow> verr option" where
  "fetch_def_name hook name = (if length name = 0 \<or> length name > 32 then Some ErrFetchDefName
     else if \<not> is_fetch_name_charset name then Some ErrFetchDefName
     else floor_clean hook (map (\<lambda>c. if c = CHR ''_'' then CHR '' '' else c) name))"

definition parsed_absolute_https :: "(string \<Rightarrow> url option) \<Rightarrow> string \<Rightarrow> url option" where
  "parsed_absolute_https parse raw = (case parse raw of None \<Rightarrow> None
     | Some u \<Rightarrow> if url_opaque u \<noteq> [] then None
         else if url_scheme u \<noteq> ''https'' \<or> url_host u = [] then None else Some u)"

definition denied_host_name :: "string \<Rightarrow> bool" where
  "denied_host_name host \<longleftrightarrow>
     host = ''localhost'' \<or> has_suffix host ''.local'' \<or> has_suffix host ''.internal''"

definition trim_suffix :: "string \<Rightarrow> string \<Rightarrow> string" where
  "trim_suffix s p = (if has_suffix s p then take (length s - length p) s else s)"

definition fetch_host_allowed :: "case_table \<Rightarrow> (string \<Rightarrow> bool) \<Rightarrow> string \<Rightarrow> verr option" where
  "fetch_host_allowed lo is_ip host0 = (let host = trim_suffix (to_lower lo (trim_space host0)) ''.'' in
     if host = [] then Some ErrFetchHost
     else if is_ip host then Some ErrFetchHost
     else if denied_host_name host then Some ErrFetchHost
     else None)"

definition fetch_url :: "case_table \<Rightarrow> floor_hook \<Rightarrow> (string \<Rightarrow> url option) \<Rightarrow> (string \<Rightarrow> bool)
    \<Rightarrow> string \<Rightarrow> verr option" where
  "fetch_url lo hook parse is_ip raw = (if length raw = 0 \<or> length raw > 512 then Some ErrFetchURL
     else case parsed_absolute_https parse raw of None \<Rightarrow> Some ErrFetchURL
     | Some u \<Rightarrow> (case fetch_host_allowed lo is_ip (url_hostname u) of
           Some e \<Rightarrow> Some e | None \<Rightarrow> floor_clean hook raw))"

definition valid_path_segment :: "string \<Rightarrow> bool" where
  "valid_path_segment seg \<longleftrightarrow> (if seg = [] then False
     else list_all (\<lambda>c. is_alphanumeric c \<or> c = CHR ''_'' \<or> c = CHR ''-'') seg)"

definition fetch_path :: "string list \<Rightarrow> verr option" where
  "fetch_path segments = (if length segments > 8 then Some ErrFetchPath
     else if list_ex (\<lambda>s. \<not> valid_path_segment s) segments then Some ErrFetchPath else None)"

definition key_label :: "string \<Rightarrow> verr option" where
  "key_label label = (if length label = 0 \<or> length label > 32 then Some ErrKeyLabel
     else if list_ex (\<lambda>c. c \<le> CHR '' '' \<or> c > CHR ''~'') label then Some ErrKeyLabel else None)"

definition key_value :: "string \<Rightarrow> verr option" where
  "key_value v = (if length v = 0 \<or> length v > 512 then Some ErrKeyValue else None)"

section \<open>device.go\<close>

definition is_plain_http :: "url \<Rightarrow> bool" where
  "is_plain_http u \<longleftrightarrow> url_scheme u = ''http'' \<and> \<not> url_has_user u"

definition is_bare_callback :: "url \<Rightarrow> bool" where
  "is_bare_callback u \<longleftrightarrow> url_path u = ''/callback'' \<and> url_raw_query u = [] \<and> url_fragment u = []"

definition is_redirect_port :: "int \<Rightarrow> bool" where
  "is_redirect_port port \<longleftrightarrow> port \<ge> 1024 \<and> port \<le> 65535"

definition device_redirect_host :: "url \<Rightarrow> verr option" where
  "device_redirect_host u = (if url_hostname u \<noteq> ''127.0.0.1'' then Some ErrRedirectURI
     else case parse_int (url_port u) of (port, err) \<Rightarrow>
       if err \<noteq> None then Some ErrRedirectURI
       else if \<not> is_redirect_port port then Some ErrRedirectURI else None)"

definition device_redirect_uri :: "(string \<Rightarrow> url option) \<Rightarrow> string \<Rightarrow> verr option" where
  "device_redirect_uri parse raw = (case parse raw of None \<Rightarrow> Some ErrRedirectURI
     | Some u \<Rightarrow> if \<not> is_plain_http u then Some ErrRedirectURI
         else if \<not> is_bare_callback u then Some ErrRedirectURI
         else device_redirect_host u)"

definition is_base64url_byte :: "char \<Rightarrow> bool" where
  "is_base64url_byte c \<longleftrightarrow> is_alphanumeric c \<or> c = CHR ''-'' \<or> c = CHR ''_''"

definition is_pkce_verifier_byte :: "char \<Rightarrow> bool" where
  "is_pkce_verifier_byte c \<longleftrightarrow>
     is_alphanumeric c \<or> c = CHR ''-'' \<or> c = CHR ''.'' \<or> c = CHR ''_'' \<or> c = CHR ''~''"

definition device_challenge :: "string \<Rightarrow> verr option" where
  "device_challenge s = (if length s \<noteq> 43 then Some ErrChallenge
     else if list_ex (\<lambda>c. \<not> is_base64url_byte c) s then Some ErrChallenge else None)"

definition device_verifier :: "string \<Rightarrow> verr option" where
  "device_verifier s = (if length s < 43 \<or> length s > 128 then Some ErrVerifier
     else if list_ex (\<lambda>c. \<not> is_pkce_verifier_byte c) s then Some ErrVerifier else None)"

definition device_platform :: "string \<Rightarrow> verr option" where
  "device_platform s = (if s \<in> {''macos'', ''windows'', ''linux''} then None else Some ErrDevicePlatform)"

text \<open>\<open>strings.Map\<close> drops the runes mapped to -1 and replaces an invalid byte by U+FFFD;
  \<open>format_class\<close> is the Unicode category Cf.\<close>

definition displayable_rune :: "(nat \<Rightarrow> bool) \<Rightarrow> nat \<Rightarrow> nat option" where
  "displayable_rune format_class r = (if is_control r \<or> format_class r then None else Some r)"

definition first_runes :: "nat list \<Rightarrow> nat \<Rightarrow> nat list" where
  "first_runes rs limit = (if length rs \<le> limit then rs else take limit rs)"

definition device_name :: "(nat \<Rightarrow> bool) \<Rightarrow> string \<Rightarrow> string" where
  "device_name format_class raw =
    (let cleaned = trim_space (concat (map (\<lambda>(r, _).
            case displayable_rune format_class r of Some r' \<Rightarrow> encode_rune r' | None \<Rightarrow> []) (runes raw)))
     in concat (map encode_rune (first_runes (map fst (runes cleaned)) 64)))"

section \<open>What the validators accept\<close>

lemma floor_clean_no_hook [simp]: "floor_clean None t = None"
  by (simp add: floor_clean_def)

lemma floor_clean_error: "floor_clean hook t = Some e \<Longrightarrow> \<exists>term. e = ErrContentFloor term"
  by (auto simp: floor_clean_def split: option.splits)

lemma aliases_loop_None:
  "aliases_loop lo hook seen as = None \<longleftrightarrow>
    (\<forall>a \<in> set as. validate_command_name hook a = None \<and> to_lower lo a \<notin> seen)
    \<and> distinct (map (to_lower lo) as)"
  by (induction as arbitrary: seen)
    (auto split: option.splits verr.splits if_splits intro: rev_image_eqI)

text \<open>The accepted fetch URLs: an absolute https URL of a public host name, clean of the floor.\<close>

lemma fetch_url_None:
  "fetch_url lo hook parse is_ip raw = None \<longleftrightarrow>
    0 < length raw \<and> length raw \<le> 512 \<and> floor_clean hook raw = None \<and>
    (\<exists>u. parse raw = Some u \<and> url_scheme u = ''https'' \<and> url_host u \<noteq> [] \<and> url_opaque u = []
       \<and> fetch_host_allowed lo is_ip (url_hostname u) = None)"
  by (auto simp: fetch_url_def parsed_absolute_https_def split: option.splits if_splits)

lemma fetch_host_allowed_None:
  "fetch_host_allowed lo is_ip host = None \<longleftrightarrow>
    (let h = trim_suffix (to_lower lo (trim_space host)) ''.'' in
      h \<noteq> [] \<and> \<not> is_ip h \<and> h \<noteq> ''localhost'' \<and> \<not> has_suffix h ''.local'' \<and> \<not> has_suffix h ''.internal'')"
  by (auto simp: fetch_host_allowed_def denied_host_name_def Let_def)

end
