(* ===== verification/AutoTypes.thy ===== *)
theory AutoTypes
  imports Tmpl Validate
begin

text \<open>
  The data of the automation domain, \<open>src/internal/domain/automation\<close>: definitions, triggers,
  conditions and actions (\<open>types.go\<close>), the limits of \<open>limits.go\<close>, and one record per decoded
  parameter type. An action carries its parameters as raw bytes and is decoded again wherever the
  code decodes it, so nested action lists are records of raw actions, as in the code.

  The record \<open>env\<close> holds what is not code of the repository: the Unicode tables, regular-expression
  compilation and matching, the decimal float parser, URL parsing and the strict JSON decoder, one
  field per parameter type; the decoder takes the value it starts from (the defaults) and returns the
  value it leaves beside an error, as \<open>codec.UnmarshalStrict\<close> does.
\<close>

section \<open>Definitions\<close>

type_synonym raw = string

record action =
  a_type :: string
  a_enabled :: "bool option"
  a_params :: raw

record trigger =
  tr_type :: string
  tr_params :: raw

record condition =
  co_type :: string
  co_params :: raw

record def_rec =
  d_version :: int
  d_trigger :: trigger
  d_conditions :: "condition list"
  d_actions :: "action list"
  d_queue :: string

record automation =
  au_id :: string
  au_user_id :: nat
  au_name :: string
  au_enabled :: bool
  au_revision :: int
  au_definition :: def_rec

definition is_enabled :: "action \<Rightarrow> bool" where
  "is_enabled a \<longleftrightarrow> a_enabled a = None \<or> a_enabled a = Some True"

text \<open>An issue, ordered as \<open>finish\<close> orders them: by path, then by code.\<close>

datatype issue = Issue (i_path: string) (i_code: string)

instantiation issue :: linorder
begin

definition less_eq_issue :: "issue \<Rightarrow> issue \<Rightarrow> bool" where
  "less_eq_issue a b \<longleftrightarrow> i_path a < i_path b \<or> i_path a = i_path b \<and> i_code a \<le> i_code b"

definition less_issue :: "issue \<Rightarrow> issue \<Rightarrow> bool" where
  "less_issue a b \<longleftrightarrow> (if i_path a \<noteq> i_path b then i_path a < i_path b else i_code a < i_code b)"

instance
  by standard (auto simp: less_eq_issue_def less_issue_def issue.expand)

end

section \<open>Limits\<close>

abbreviation (input) MaxActions :: int where "MaxActions \<equiv> 1000"
abbreviation (input) MaxDelayMS :: int where "MaxDelayMS \<equiv> 60000"
abbreviation (input) MaxRecursionDepth :: int where "MaxRecursionDepth \<equiv> 2"
abbreviation (input) MaxNameLength :: int where "MaxNameLength \<equiv> 64"
abbreviation (input) MaxDefinitionBytes :: nat where "MaxDefinitionBytes \<equiv> 32768"
abbreviation (input) MaxCooldownSeconds :: int where "MaxCooldownSeconds \<equiv> 2592000"
abbreviation (input) MaxValkeyCooldownSeconds :: int where "MaxValkeyCooldownSeconds \<equiv> 86400"
abbreviation (input) MaxTemplateLength :: int where "MaxTemplateLength \<equiv> 500"
abbreviation (input) MaxLoginTemplate :: int where "MaxLoginTemplate \<equiv> 100"
abbreviation (input) MaxEventFilters :: int where "MaxEventFilters \<equiv> 10"
abbreviation (input) MaxFilterValue :: int where "MaxFilterValue \<equiv> 100"
abbreviation (input) MaxCommandAliases :: int where "MaxCommandAliases \<equiv> 10"
abbreviation (input) MaxListEntries :: int where "MaxListEntries \<equiv> 100"
abbreviation (input) MaxPatternLength :: int where "MaxPatternLength \<equiv> 200"
abbreviation (input) MaxVariableValueRunes :: nat where "MaxVariableValueRunes \<equiv> 500"
abbreviation (input) MaxVariableAmount :: int where "MaxVariableAmount \<equiv> 1000000000000000"
abbreviation (input) MaxTextOperandRunes :: nat where "MaxTextOperandRunes \<equiv> 1000"
abbreviation (input) MaxMathExpressionRunes :: nat where "MaxMathExpressionRunes \<equiv> 200"
abbreviation (input) MaxLoopTimes :: int where "MaxLoopTimes \<equiv> 100"
abbreviation (input) MaxStepVisitsPerRun :: int where "MaxStepVisitsPerRun \<equiv> 4 * MaxActions"
abbreviation (input) MaxRecordedActions :: int where "MaxRecordedActions \<equiv> 1200"

section \<open>Parameter types\<close>

record text_action = txt_text :: string
record announce_action = ann_text :: string ann_color :: string
record timeout_action = to_login :: string to_seconds :: int to_reason :: string
record ban_action = ban_login :: string ban_reason :: string
record login_action = lo_login :: string
record warn_action = wa_login :: string wa_reason :: string
record shield_action = sh_on :: bool
record marker_action = mk_description :: string
record set_title_action = ti_title :: string
record set_game_action = ga_game :: string
record set_tags_action = ta_tags :: string
record commercial_action = cm_seconds :: int
record points_add_action = pa_login :: string pa_amount :: int
record points_set_action = ps_login :: string ps_amount :: int
record counter_add_action = ca_name :: string ca_amount :: int
record counter_set_action = cs_name :: string cs_value :: int
record redemption_action = re_status :: string
record delay_action = de_ms :: int
record branch = br_weight :: int br_actions :: "action list"
record random_pick_action = rp_branches :: "branch list"
record parallel_action = pl_branches :: "branch list"
record run_action = ru_automation_id :: string
record if_action = if_condition :: condition if_then :: "action list" if_else :: "action list"
record http_post_action =
  hp_url :: string hp_body :: string hp_save_as :: string
  hp_on_ok :: "action list" hp_on_failure :: "action list"
record lights_action =
  li_device :: string li_sku :: string li_device_name :: string li_mode :: string li_color :: string
  li_scene_id :: string li_scene_name :: string li_scene_type :: string li_scene_instance :: string
  li_scene_value :: string li_rgb :: int
record loop_action = lp_times :: string lp_actions :: "action list"
record http_get_action =
  hg_url :: string hg_json_path :: "string list" hg_save_as :: string
  hg_on_ok :: "action list" hg_on_failure :: "action list"
record reward_update_action =
  rw_reward_id :: string rw_enabled :: "bool option" rw_cost :: "int option" rw_reset_on_stream_end :: bool
record var_ref = vr_scope :: string vr_name :: string
record var_set_action = vs_ref :: var_ref vs_value :: string
record var_add_action = va_ref :: var_ref va_amount :: int
record var_delete_action = vd_ref :: var_ref
record text_step_action =
  ts_op :: string ts_input :: string ts_arg1 :: string ts_arg2 :: string ts_save_as :: string
record math_action = ma_expression :: string ma_save_as :: string
record cooldown_add_action = cda_name :: string cda_seconds :: int cda_per :: int

record perm_condition = pe_level :: string
record users_condition =
  us_allow :: "string list" us_deny :: "string list" us_allow_ids :: "string list" us_deny_ids :: "string list"
  us_allow_user_ids :: "nat list" us_deny_user_ids :: "nat list"
record live_condition = lv_state :: string
record cooldown_condition =
  cd_global_s :: int cd_user_s :: int cd_name :: string cd_left_command :: string
  cd_left_reply :: string cd_ready_reply :: string
record chance_condition = ch_percent :: int
record counter_condition = cc_name :: string cc_op :: string cc_value :: int
record points_condition = pc_op :: string pc_value :: int
record arg_regex_condition = ar_pattern :: string ar_compiled :: "string option"
record category_condition = cat_allow :: "string list" cat_deny :: "string list"
record compare_condition = cmp_left :: string cmp_op :: string cmp_right :: string
record var_condition = vc_ref :: var_ref vc_op :: string vc_value :: string

record command_trigger =
  ct_name :: string ct_aliases :: "string list" ct_match :: string ct_case_sensitive :: bool
  ct_sources :: "string list"
record event_trigger = ev_kind :: string ev_filters :: "(string \<times> string) list"
record timer_trigger =
  tm_interval_s :: int tm_random_jitter_s :: int tm_min_chat_lines :: int tm_offline_ok :: bool
record reward_trigger = rt_reward_id :: string

text \<open>The decoded parameters an entry of a registry yields, Go's \<open>any\<close>, one type per registry.\<close>

datatype action_params =
  P_text text_action | P_announce announce_action | P_timeout timeout_action | P_ban ban_action
  | P_login login_action | P_warn warn_action | P_shield shield_action | P_marker marker_action
  | P_set_title set_title_action | P_set_game set_game_action | P_set_tags set_tags_action
  | P_commercial commercial_action | P_points_add points_add_action | P_points_set points_set_action
  | P_counter_add counter_add_action | P_counter_set counter_set_action
  | P_redemption redemption_action | P_delay delay_action | P_random_pick (un_random_pick: random_pick_action)
  | P_parallel (un_parallel: parallel_action) | P_run run_action | P_if (un_if: if_action) | P_http_post (un_http_post: http_post_action)
  | P_lights lights_action | P_loop (un_loop: loop_action) | P_http_get (un_http_get: http_get_action)
  | P_reward_update reward_update_action | P_var_set var_set_action | P_var_add var_add_action
  | P_var_delete var_delete_action | P_text_step text_step_action | P_math math_action
  | P_cooldown_add cooldown_add_action | P_empty

datatype condition_params =
  P_perm perm_condition | P_users users_condition | P_live live_condition
  | P_cooldown cooldown_condition | P_chance chance_condition | P_counter counter_condition
  | P_points points_condition | P_arg_regex arg_regex_condition | P_category category_condition
  | P_compare compare_condition | P_var var_condition

datatype trigger_params =
  P_command command_trigger | P_event event_trigger | P_timer timer_trigger | P_reward reward_trigger | P_manual

section \<open>Initial values\<close>

text \<open>The value a decoder starts from: the zero value, with the \<open>setDefaults\<close> of lights and commands.\<close>

abbreviation zero_text_action :: text_action where
  "zero_text_action \<equiv> \<lparr>txt_text = []\<rparr>"

abbreviation zero_announce_action :: announce_action where
  "zero_announce_action \<equiv> \<lparr>ann_text = [], ann_color = []\<rparr>"

abbreviation zero_timeout_action :: timeout_action where
  "zero_timeout_action \<equiv> \<lparr>to_login = [], to_seconds = 0, to_reason = []\<rparr>"

abbreviation zero_ban_action :: ban_action where
  "zero_ban_action \<equiv> \<lparr>ban_login = [], ban_reason = []\<rparr>"

abbreviation zero_login_action :: login_action where
  "zero_login_action \<equiv> \<lparr>lo_login = []\<rparr>"

abbreviation zero_warn_action :: warn_action where
  "zero_warn_action \<equiv> \<lparr>wa_login = [], wa_reason = []\<rparr>"

abbreviation zero_shield_action :: shield_action where
  "zero_shield_action \<equiv> \<lparr>sh_on = False\<rparr>"

abbreviation zero_marker_action :: marker_action where
  "zero_marker_action \<equiv> \<lparr>mk_description = []\<rparr>"

abbreviation zero_set_title_action :: set_title_action where
  "zero_set_title_action \<equiv> \<lparr>ti_title = []\<rparr>"

abbreviation zero_set_game_action :: set_game_action where
  "zero_set_game_action \<equiv> \<lparr>ga_game = []\<rparr>"

abbreviation zero_set_tags_action :: set_tags_action where
  "zero_set_tags_action \<equiv> \<lparr>ta_tags = []\<rparr>"

abbreviation zero_commercial_action :: commercial_action where
  "zero_commercial_action \<equiv> \<lparr>cm_seconds = 0\<rparr>"

abbreviation zero_points_add_action :: points_add_action where
  "zero_points_add_action \<equiv> \<lparr>pa_login = [], pa_amount = 0\<rparr>"

abbreviation zero_points_set_action :: points_set_action where
  "zero_points_set_action \<equiv> \<lparr>ps_login = [], ps_amount = 0\<rparr>"

abbreviation zero_counter_add_action :: counter_add_action where
  "zero_counter_add_action \<equiv> \<lparr>ca_name = [], ca_amount = 0\<rparr>"

abbreviation zero_counter_set_action :: counter_set_action where
  "zero_counter_set_action \<equiv> \<lparr>cs_name = [], cs_value = 0\<rparr>"

abbreviation zero_redemption_action :: redemption_action where
  "zero_redemption_action \<equiv> \<lparr>re_status = []\<rparr>"

abbreviation zero_delay_action :: delay_action where
  "zero_delay_action \<equiv> \<lparr>de_ms = 0\<rparr>"

abbreviation zero_random_pick_action :: random_pick_action where
  "zero_random_pick_action \<equiv> \<lparr>rp_branches = []\<rparr>"

abbreviation zero_parallel_action :: parallel_action where
  "zero_parallel_action \<equiv> \<lparr>pl_branches = []\<rparr>"

abbreviation zero_run_action :: run_action where
  "zero_run_action \<equiv> \<lparr>ru_automation_id = []\<rparr>"

abbreviation zero_if_action :: if_action where
  "zero_if_action \<equiv> \<lparr>if_condition = \<lparr>co_type = [], co_params = []\<rparr>, if_then = [], if_else = []\<rparr>"

abbreviation zero_http_post_action :: http_post_action where
  "zero_http_post_action \<equiv> \<lparr>hp_url = [], hp_body = [], hp_save_as = [], hp_on_ok = [], hp_on_failure = []\<rparr>"

abbreviation zero_lights_action :: lights_action where
  "zero_lights_action \<equiv> \<lparr>li_device = [], li_sku = [], li_device_name = [], li_mode = ''color'', li_color = [], li_scene_id = [], li_scene_name = [], li_scene_type = [], li_scene_instance = [], li_scene_value = [], li_rgb = 0\<rparr>"

abbreviation zero_loop_action :: loop_action where
  "zero_loop_action \<equiv> \<lparr>lp_times = [], lp_actions = []\<rparr>"

abbreviation zero_http_get_action :: http_get_action where
  "zero_http_get_action \<equiv> \<lparr>hg_url = [], hg_json_path = [], hg_save_as = [], hg_on_ok = [], hg_on_failure = []\<rparr>"

abbreviation zero_reward_update_action :: reward_update_action where
  "zero_reward_update_action \<equiv> \<lparr>rw_reward_id = [], rw_enabled = None, rw_cost = None, rw_reset_on_stream_end = False\<rparr>"

abbreviation zero_var_set_action :: var_set_action where
  "zero_var_set_action \<equiv> \<lparr>vs_ref = \<lparr>vr_scope = [], vr_name = []\<rparr>, vs_value = []\<rparr>"

abbreviation zero_var_add_action :: var_add_action where
  "zero_var_add_action \<equiv> \<lparr>va_ref = \<lparr>vr_scope = [], vr_name = []\<rparr>, va_amount = 0\<rparr>"

abbreviation zero_var_delete_action :: var_delete_action where
  "zero_var_delete_action \<equiv> \<lparr>vd_ref = \<lparr>vr_scope = [], vr_name = []\<rparr>\<rparr>"

abbreviation zero_text_step_action :: text_step_action where
  "zero_text_step_action \<equiv> \<lparr>ts_op = [], ts_input = [], ts_arg1 = [], ts_arg2 = [], ts_save_as = []\<rparr>"

abbreviation zero_math_action :: math_action where
  "zero_math_action \<equiv> \<lparr>ma_expression = [], ma_save_as = []\<rparr>"

abbreviation zero_cooldown_add_action :: cooldown_add_action where
  "zero_cooldown_add_action \<equiv> \<lparr>cda_name = [], cda_seconds = 0, cda_per = 0\<rparr>"

abbreviation zero_perm_condition :: perm_condition where
  "zero_perm_condition \<equiv> \<lparr>pe_level = []\<rparr>"

abbreviation zero_users_condition :: users_condition where
  "zero_users_condition \<equiv> \<lparr>us_allow = [], us_deny = [], us_allow_ids = [], us_deny_ids = [], us_allow_user_ids = [], us_deny_user_ids = []\<rparr>"

abbreviation zero_live_condition :: live_condition where
  "zero_live_condition \<equiv> \<lparr>lv_state = []\<rparr>"

abbreviation zero_cooldown_condition :: cooldown_condition where
  "zero_cooldown_condition \<equiv> \<lparr>cd_global_s = 0, cd_user_s = 0, cd_name = [], cd_left_command = [], cd_left_reply = [], cd_ready_reply = []\<rparr>"

abbreviation zero_chance_condition :: chance_condition where
  "zero_chance_condition \<equiv> \<lparr>ch_percent = 0\<rparr>"

abbreviation zero_counter_condition :: counter_condition where
  "zero_counter_condition \<equiv> \<lparr>cc_name = [], cc_op = [], cc_value = 0\<rparr>"

abbreviation zero_points_condition :: points_condition where
  "zero_points_condition \<equiv> \<lparr>pc_op = [], pc_value = 0\<rparr>"

abbreviation zero_arg_regex_condition :: arg_regex_condition where
  "zero_arg_regex_condition \<equiv> \<lparr>ar_pattern = [], ar_compiled = None\<rparr>"

abbreviation zero_category_condition :: category_condition where
  "zero_category_condition \<equiv> \<lparr>cat_allow = [], cat_deny = []\<rparr>"

abbreviation zero_compare_condition :: compare_condition where
  "zero_compare_condition \<equiv> \<lparr>cmp_left = [], cmp_op = [], cmp_right = []\<rparr>"

abbreviation zero_var_condition :: var_condition where
  "zero_var_condition \<equiv> \<lparr>vc_ref = \<lparr>vr_scope = [], vr_name = []\<rparr>, vc_op = [], vc_value = []\<rparr>"

abbreviation zero_command_trigger :: command_trigger where
  "zero_command_trigger \<equiv> \<lparr>ct_name = [], ct_aliases = [], ct_match = ''start'', ct_case_sensitive = False, ct_sources = [''chat'']\<rparr>"

abbreviation zero_event_trigger :: event_trigger where
  "zero_event_trigger \<equiv> \<lparr>ev_kind = [], ev_filters = []\<rparr>"

abbreviation zero_timer_trigger :: timer_trigger where
  "zero_timer_trigger \<equiv> \<lparr>tm_interval_s = 0, tm_random_jitter_s = 0, tm_min_chat_lines = 0, tm_offline_ok = False\<rparr>"

abbreviation zero_reward_trigger :: reward_trigger where
  "zero_reward_trigger \<equiv> \<lparr>rt_reward_id = []\<rparr>"

section \<open>The environment\<close>

datatype dec_error = UnknownField | BadJSON

type_synonym 'a decoder = "'a \<Rightarrow> raw \<Rightarrow> 'a \<times> dec_error option"

record action_decoders =
  u_text :: "text_action decoder"
  u_announce :: "announce_action decoder"
  u_timeout :: "timeout_action decoder"
  u_ban :: "ban_action decoder"
  u_login :: "login_action decoder"
  u_warn :: "warn_action decoder"
  u_shield :: "shield_action decoder"
  u_marker :: "marker_action decoder"
  u_set_title :: "set_title_action decoder"
  u_set_game :: "set_game_action decoder"
  u_set_tags :: "set_tags_action decoder"
  u_commercial :: "commercial_action decoder"
  u_points_add :: "points_add_action decoder"
  u_points_set :: "points_set_action decoder"
  u_counter_add :: "counter_add_action decoder"
  u_counter_set :: "counter_set_action decoder"
  u_redemption :: "redemption_action decoder"

record action_decoders' =
  u_delay :: "delay_action decoder"
  u_random_pick :: "random_pick_action decoder"
  u_parallel :: "parallel_action decoder"
  u_run :: "run_action decoder"
  u_if :: "if_action decoder"
  u_http_post :: "http_post_action decoder"
  u_lights :: "lights_action decoder"
  u_loop :: "loop_action decoder"
  u_http_get :: "http_get_action decoder"
  u_reward_update :: "reward_update_action decoder"
  u_var_set :: "var_set_action decoder"
  u_var_add :: "var_add_action decoder"
  u_var_delete :: "var_delete_action decoder"
  u_text_step :: "text_step_action decoder"
  u_math :: "math_action decoder"
  u_cooldown_add :: "cooldown_add_action decoder"
  u_empty :: "unit decoder"

record rule_decoders =
  u_perm :: "perm_condition decoder"
  u_users :: "users_condition decoder"
  u_live :: "live_condition decoder"
  u_cooldown :: "cooldown_condition decoder"
  u_chance :: "chance_condition decoder"
  u_counter :: "counter_condition decoder"
  u_points :: "points_condition decoder"
  u_arg_regex :: "arg_regex_condition decoder"
  u_category :: "category_condition decoder"
  u_compare :: "compare_condition decoder"
  u_var :: "var_condition decoder"
  u_command :: "command_trigger decoder"
  u_event :: "event_trigger decoder"
  u_timer :: "timer_trigger decoder"
  u_reward_trigger :: "reward_trigger decoder"

record env =
  e_lower :: case_table
  e_upper :: case_table
  e_print :: "nat \<Rightarrow> bool"
  e_fold :: "nat \<Rightarrow> nat \<Rightarrow> bool"
  e_regex_ok :: "string \<Rightarrow> bool"
  e_regex_match :: "string \<Rightarrow> string \<Rightarrow> bool"
  e_parse_float :: "string \<Rightarrow> rat option"
  e_format_sum :: "rat \<Rightarrow> int \<Rightarrow> string"
  e_json_valid :: "raw \<Rightarrow> bool"
  e_floor :: floor_hook
  e_parse_url :: "string \<Rightarrow> url option"
  e_is_ip :: "string \<Rightarrow> bool"
  e_act :: action_decoders
  e_act' :: action_decoders'
  e_rule :: rule_decoders

text \<open>\<open>DecodeParams\<close>, from the defaults of the type.\<close>

definition decode_params :: "'a decoder \<Rightarrow> 'a \<Rightarrow> raw \<Rightarrow> 'a \<times> dec_error option" where
  "decode_params um v raw' = (let trimmed = trim_space raw' in
     if length trimmed = 0 \<or> trimmed = ''null'' then (v, None) else um v trimmed)"

end
