(* ===== verification/AutoCheck.thy ===== *)
theory AutoCheck
  imports AutoTypes
begin

text \<open>
  The checks of the automation domain: \<open>check.go\<close>, the per-type checks of \<open>conditions.go\<close>,
  \<open>actions.go\<close>, \<open>triggers.go\<close>, \<open>variables.go\<close>, \<open>flow_steps.go\<close>, \<open>reward_update.go\<close>, \<open>compare.go\<close>,
  \<open>text.go\<close>, \<open>math.go\<close> and \<open>cooldown_add.go\<close>, and the event table of \<open>events.go\<close>. The code appends
  issues to a shared slice; a check returns the issues it appends, and sequencing is concatenation.
\<close>

section \<open>check.go\<close>

type_synonym issues = "issue list"

record span = sp_lo :: int sp_hi :: int

definition between :: "int \<Rightarrow> int \<Rightarrow> span" where "between lo hi = \<lparr>sp_lo = lo, sp_hi = hi\<rparr>"
definition up_to :: "int \<Rightarrow> span" where "up_to hi = \<lparr>sp_lo = 0, sp_hi = hi\<rparr>"
definition non_empty :: "int \<Rightarrow> span" where "non_empty hi = \<lparr>sp_lo = 1, sp_hi = hi\<rparr>"

record chk =
  k_path :: string
  k_trigger :: string
  k_perm :: int
  k_depth :: int
  k_event_amount :: bool

definition join_path :: "string \<Rightarrow> string \<Rightarrow> string" where
  "join_path base f = (if f = [] then base else if base = [] then f else base @ ''.'' @ f)"

definition indexed :: "string \<Rightarrow> nat \<Rightarrow> string" where
  "indexed f i = f @ ''['' @ itoa (int i) @ '']''"

definition add_issue :: "chk \<Rightarrow> string \<Rightarrow> string \<Rightarrow> issues" where
  "add_issue c f code = [Issue (join_path (k_path c) f) code]"

definition sub :: "chk \<Rightarrow> string \<Rightarrow> chk" where
  "sub c f = c\<lparr>k_path := join_path (k_path c) f\<rparr>"

definition elem :: "chk \<Rightarrow> nat \<Rightarrow> chk" where
  "elem c i = c\<lparr>k_path := indexed (k_path c) i\<rparr>"

definition nest :: "chk \<Rightarrow> chk" where
  "nest c = c\<lparr>k_depth := k_depth c + 1\<rparr>"

definition bound :: "chk \<Rightarrow> string \<Rightarrow> int \<Rightarrow> span \<Rightarrow> string \<Rightarrow> bool \<times> issues" where
  "bound c f n s over =
    (if n = 0 \<and> sp_lo s > 0 then (False, add_issue c f ''required'')
     else if n < sp_lo s then (False, add_issue c f ''too_short'')
     else if n > sp_hi s then (False, add_issue c f over)
     else (True, []))"

definition chk_text :: "chk \<Rightarrow> string \<Rightarrow> string \<Rightarrow> span \<Rightarrow> bool \<times> issues" where
  "chk_text c f s w = bound c f (int (rune_count s)) w ''too_long''"

definition chk_count :: "chk \<Rightarrow> string \<Rightarrow> nat \<Rightarrow> span \<Rightarrow> bool \<times> issues" where
  "chk_count c f n w = bound c f (int n) w ''too_many''"

definition chk_template :: "chk \<Rightarrow> string \<Rightarrow> string \<Rightarrow> bool \<times> issues" where
  "chk_template c f s = chk_text c f s (non_empty MaxTemplateLength)"

definition in_range :: "chk \<Rightarrow> string \<Rightarrow> int \<Rightarrow> span \<Rightarrow> issues" where
  "in_range c f n w = (if n < sp_lo w \<or> n > sp_hi w then add_issue c f ''out_of_range'' else [])"

definition non_zero :: "chk \<Rightarrow> string \<Rightarrow> int \<Rightarrow> issues" where
  "non_zero c f n = (if n = 0 then add_issue c f ''out_of_range'' else [])"

definition one_of :: "chk \<Rightarrow> string \<Rightarrow> string \<Rightarrow> string list \<Rightarrow> issues" where
  "one_of c f s set' = (if s \<in> set set' then []
     else if s = [] then add_issue c f ''required'' else add_issue c f ''invalid_enum'')"

definition chk_format :: "chk \<Rightarrow> string \<Rightarrow> string \<Rightarrow> (string \<Rightarrow> bool) \<Rightarrow> issues" where
  "chk_format c f s re = (if s = [] then add_issue c f ''required''
     else if \<not> re s then add_issue c f ''invalid_format'' else [])"

definition chk_chars :: "chk \<Rightarrow> string \<Rightarrow> string \<Rightarrow> (nat \<Rightarrow> bool) \<Rightarrow> issues" where
  "chk_chars c f s ok = (if list_ex (\<lambda>(r, _). \<not> ok r) (runes s) then add_issue c f ''invalid_format'' else [])"

definition chk_regex :: "env \<Rightarrow> chk \<Rightarrow> string \<Rightarrow> string \<Rightarrow> int \<Rightarrow> issues" where
  "chk_regex E c f s hi = (let (ok, iss) = chk_text c f s (non_empty hi) in
     if \<not> ok then iss
     else iss @ (if \<not> e_regex_ok E s then add_issue c f ''invalid_regex'' else []))"

definition at_least_one :: "chk \<Rightarrow> bool \<Rightarrow> issues" where
  "at_least_one c ok = (if \<not> ok then add_issue c [] ''required'' else [])"

fun for_each_from :: "nat \<Rightarrow> string \<Rightarrow> string list \<Rightarrow> (string \<Rightarrow> string \<Rightarrow> issues) \<Rightarrow> issues" where
  "for_each_from i f [] fn = []"
| "for_each_from i f (s # ss) fn = fn (indexed f i) s @ for_each_from (Suc i) f ss fn"

definition for_each :: "string \<Rightarrow> string list \<Rightarrow> (string \<Rightarrow> string \<Rightarrow> issues) \<Rightarrow> issues" where
  "for_each f xs fn = for_each_from 0 f xs fn"

definition string_list :: "chk \<Rightarrow> string \<Rightarrow> string list \<Rightarrow> int \<Rightarrow> (string \<Rightarrow> string \<Rightarrow> issues) \<Rightarrow> issues" where
  "string_list c f xs hi each = (let (ok, iss) = chk_count c f (length xs) (up_to hi) in
     iss @ (if ok then for_each f xs each else []))"

definition each_text :: "chk \<Rightarrow> span \<Rightarrow> string \<Rightarrow> string \<Rightarrow> issues" where
  "each_text c w f s = snd (chk_text c f s w)"

definition each_format :: "chk \<Rightarrow> (string \<Rightarrow> bool) \<Rightarrow> string \<Rightarrow> string \<Rightarrow> issues" where
  "each_format c re f s = chk_format c f s re"

definition each_one_of :: "chk \<Rightarrow> string list \<Rightarrow> string \<Rightarrow> string \<Rightarrow> issues" where
  "each_one_of c set' f s = one_of c f s set'"

definition is_command_char :: "nat \<Rightarrow> bool" where
  "is_command_char r \<longleftrightarrow> \<not> is_space r \<and> \<not> is_control r"

definition is_name_char :: "nat \<Rightarrow> bool" where "is_name_char r \<longleftrightarrow> \<not> is_control r"

definition is_counter_char :: "nat \<Rightarrow> bool" where
  "is_counter_char r \<longleftrightarrow> r \<noteq> byte CHR '':'' \<and> \<not> is_space r"

text \<open>\<open>c.text(...)\<close> as a statement: the issues only.\<close>

abbreviation text_issues :: "chk \<Rightarrow> string \<Rightarrow> string \<Rightarrow> span \<Rightarrow> issues" where
  "text_issues c f s w \<equiv> snd (chk_text c f s w)"

section \<open>Shared field checks\<close>

definition login_pattern :: "string \<Rightarrow> bool" where
  "login_pattern s \<longleftrightarrow> 1 \<le> length s \<and> length s \<le> 25 \<and>
     list_all (\<lambda>c. is_lower_byte c \<or> is_digit_byte c \<or> c = CHR ''_'') s"

definition user_id_pattern :: "string \<Rightarrow> bool" where
  "user_id_pattern s \<longleftrightarrow> 1 \<le> length s \<and> length s \<le> 19 \<and> list_all is_digit_byte s"

definition variable_name_pattern :: "string \<Rightarrow> bool" where
  "variable_name_pattern s \<longleftrightarrow> 1 \<le> length s \<and> length s \<le> 32 \<and>
     list_all (\<lambda>c. is_lower_byte c \<or> is_digit_byte c) s"

definition VariableName :: "env \<Rightarrow> string \<Rightarrow> string \<times> bool" where
  "VariableName E raw = (let name = to_lower (e_lower E) raw in (name, variable_name_pattern name))"

definition variable_name :: "env \<Rightarrow> chk \<Rightarrow> string \<Rightarrow> string \<Rightarrow> issues" where
  "variable_name E c f raw = (if raw = [] then add_issue c f ''required''
     else if \<not> snd (VariableName E raw) then add_issue c f ''simple_word'' else [])"

definition optional_variable_name :: "env \<Rightarrow> chk \<Rightarrow> string \<Rightarrow> string \<Rightarrow> issues" where
  "optional_variable_name E c f raw = (if raw \<noteq> [] then variable_name E c f raw else [])"

definition check_var_ref :: "env \<Rightarrow> chk \<Rightarrow> var_ref \<Rightarrow> issues" where
  "check_var_ref E c r = one_of c ''scope'' (vr_scope r) [''channel'', ''viewer'']
     @ variable_name E c ''name'' (vr_name r)"

definition counter_name :: "chk \<Rightarrow> string \<Rightarrow> string \<Rightarrow> issues" where
  "counter_name c f name = (let (ok, iss) = chk_text c f name (non_empty 64) in
     iss @ (if ok then chk_chars c f name is_counter_char else []))"

definition command_name :: "env \<Rightarrow> chk \<Rightarrow> string \<Rightarrow> string \<Rightarrow> string \<Rightarrow> issues" where
  "command_name E c f s mode =
    (if mode = ''regex'' then chk_regex E c f s MaxPatternLength
     else if mode = ''anywhere'' then
       (let (ok, iss) = chk_text c f s (non_empty 64) in iss @ (if ok then chk_chars c f s (e_print E) else []))
     else (let (ok, iss) = chk_text c f s (non_empty 64) in
       iss @ (if ok then chk_chars c f s is_command_char else [])))"

section \<open>conditions.go, compare.go, variables.go\<close>

abbreviation cmp_ops :: "string list" where
  "cmp_ops \<equiv> [''eq'', ''ne'', ''gt'', ''gte'', ''lt'', ''lte'']"

abbreviation perm_levels :: "string list" where
  "perm_levels \<equiv> [''everyone'', ''sub'', ''vip'', ''mod'', ''lead_mod'', ''broadcaster'']"

definition parse_user_ids :: "string list \<Rightarrow> nat list" where
  "parse_user_ids raw = concat (map (\<lambda>s. case parse_uint s of (n, err) \<Rightarrow>
     if err = None \<and> n \<noteq> 0 then [nat n] else []) raw)"

definition users_prepare :: "users_condition \<Rightarrow> users_condition" where
  "users_prepare c = c\<lparr>us_allow_user_ids := parse_user_ids (us_allow_ids c),
     us_deny_user_ids := parse_user_ids (us_deny_ids c)\<rparr>"

definition arg_regex_prepare :: "env \<Rightarrow> arg_regex_condition \<Rightarrow> arg_regex_condition" where
  "arg_regex_prepare E c = (if e_regex_ok E (ar_pattern c) then c\<lparr>ar_compiled := Some (ar_pattern c)\<rparr> else c)"

definition check_perm :: "chk \<Rightarrow> perm_condition \<Rightarrow> issues" where
  "check_perm c p = one_of c ''level'' (pe_level p) perm_levels"

definition check_live :: "chk \<Rightarrow> live_condition \<Rightarrow> issues" where
  "check_live c p = one_of c ''state'' (lv_state p) [''live'', ''offline'']"

definition check_chance :: "chk \<Rightarrow> chance_condition \<Rightarrow> issues" where
  "check_chance c p = in_range c ''percent'' (ch_percent p) (between 1 100)"

definition check_arg_regex :: "env \<Rightarrow> chk \<Rightarrow> arg_regex_condition \<Rightarrow> issues" where
  "check_arg_regex E c p = chk_regex E c ''pattern'' (ar_pattern p) MaxPatternLength"

definition check_points_cond :: "chk \<Rightarrow> points_condition \<Rightarrow> issues" where
  "check_points_cond c p = one_of c ''op'' (pc_op p) cmp_ops"

definition check_counter_cond :: "chk \<Rightarrow> counter_condition \<Rightarrow> issues" where
  "check_counter_cond c p = counter_name c ''name'' (cc_name p) @ one_of c ''op'' (cc_op p) cmp_ops"

definition check_cooldown :: "env \<Rightarrow> chk \<Rightarrow> cooldown_condition \<Rightarrow> issues" where
  "check_cooldown E c p =
     in_range c ''global_s'' (cd_global_s p) (between 0 MaxCooldownSeconds)
   @ in_range c ''user_s'' (cd_user_s p) (between 0 MaxCooldownSeconds)
   @ at_least_one c (cd_global_s p > 0 \<or> cd_user_s p > 0)
   @ optional_variable_name E c ''name'' (cd_name p)
   @ (if cd_name p \<noteq> [] \<and> cd_global_s p \<le> 0 then add_issue c ''name'' ''required'' else [])
   @ (if cd_name p \<noteq> [] \<and> cd_user_s p > 0 then add_issue c ''user_s'' ''invalid_format'' else [])
   @ (if cd_left_command p \<noteq> [] then command_name E c ''left_command'' (cd_left_command p) ''start'' else [])
   @ text_issues c ''left_reply'' (cd_left_reply p) (up_to MaxTemplateLength)
   @ text_issues c ''ready_reply'' (cd_ready_reply p) (up_to MaxTemplateLength)"

definition each_user_id :: "chk \<Rightarrow> string \<Rightarrow> string \<Rightarrow> issues" where
  "each_user_id c f s = chk_format c f s user_id_pattern
     @ (if parse_uint s = (0, None) then add_issue c f ''out_of_range'' else [])"

definition check_users :: "chk \<Rightarrow> users_condition \<Rightarrow> issues" where
  "check_users c p =
     at_least_one c (length (us_allow p) + length (us_deny p) + length (us_allow_ids p) + length (us_deny_ids p) > 0)
   @ string_list c ''allow'' (us_allow p) MaxListEntries (each_format c login_pattern)
   @ string_list c ''deny'' (us_deny p) MaxListEntries (each_format c login_pattern)
   @ string_list c ''allow_ids'' (us_allow_ids p) MaxListEntries (each_user_id c)
   @ string_list c ''deny_ids'' (us_deny_ids p) MaxListEntries (each_user_id c)"

definition check_category :: "chk \<Rightarrow> category_condition \<Rightarrow> issues" where
  "check_category c p =
     at_least_one c (length (cat_allow p) + length (cat_deny p) > 0)
   @ string_list c ''allow'' (cat_allow p) 50 (each_text c (non_empty 100))
   @ string_list c ''deny'' (cat_deny p) 50 (each_text c (non_empty 100))"

definition compare_right :: "string \<Rightarrow> span" where
  "compare_right op = (if op = ''contains'' then non_empty MaxTemplateLength else up_to MaxTemplateLength)"

definition check_compare :: "chk \<Rightarrow> compare_condition \<Rightarrow> issues" where
  "check_compare c p = snd (chk_template c ''left'' (cmp_left p))
   @ one_of c ''op'' (cmp_op p) [''gte'', ''lt'', ''eq'', ''contains'']
   @ text_issues c ''right'' (cmp_right p) (compare_right (cmp_op p))"

definition check_var_condition :: "env \<Rightarrow> chk \<Rightarrow> var_condition \<Rightarrow> issues" where
  "check_var_condition E c p = check_var_ref E c (vc_ref p)
   @ one_of c ''op'' (vc_op p) [''eq'', ''ne'', ''gt'', ''gte'', ''lt'', ''lte'', ''contains'', ''exists'']
   @ text_issues c ''value'' (vc_value p) (up_to MaxTemplateLength)"

end
