(* ===== verification/AutoEvents.thy ===== *)
theory AutoEvents
  imports AutoTypes
begin

text \<open>
  The event table of \<open>events.go\<close>: the event kinds with their fields, the lookup by name, and the
  extraction of field values from an event's JSON. The decoded document is the \<open>json\<close> type; a number
  keeps its source text.
\<close>

record event_field = ef_name :: string ef_path :: string ef_numeric :: bool

record event_kind = ek_kind :: string ek_fields :: "event_field list"

definition text_field :: "string \<Rightarrow> string \<Rightarrow> event_field" where
  "text_field n p = \<lparr>ef_name = n, ef_path = p, ef_numeric = False\<rparr>"

definition num_field :: "string \<Rightarrow> string \<Rightarrow> event_field" where
  "num_field n p = \<lparr>ef_name = n, ef_path = p, ef_numeric = True\<rparr>"

definition viewer_fields :: "event_field list \<Rightarrow> event_field list" where
  "viewer_fields extra = [text_field ''user'' ''user_name'', text_field ''login'' ''user_login'',
     text_field ''user_id'' ''user_id''] @ extra"

definition mk_kind :: "string \<Rightarrow> event_field list \<Rightarrow> event_kind" where
  "mk_kind n fs = \<lparr>ek_kind = n, ek_fields = fs\<rparr>"

definition event_kinds :: "event_kind list" where
  "event_kinds =
   [mk_kind ''channel.follow'' (viewer_fields []),
    mk_kind ''channel.subscribe'' (viewer_fields [text_field ''tier'' ''tier'', text_field ''is_gift'' ''is_gift'']),
    mk_kind ''channel.subscription.message'' (viewer_fields
      [text_field ''tier'' ''tier'', num_field ''months'' ''cumulative_months'',
       num_field ''streak'' ''streak_months'', text_field ''message'' ''message.text'']),
    mk_kind ''channel.subscription.gift'' (viewer_fields
      [text_field ''tier'' ''tier'', num_field ''amount'' ''total'', num_field ''total'' ''cumulative_total'',
       text_field ''anonymous'' ''is_anonymous'']),
    mk_kind ''channel.cheer'' (viewer_fields
      [num_field ''amount'' ''bits'', text_field ''message'' ''message'', text_field ''anonymous'' ''is_anonymous'']),
    mk_kind ''channel.raid''
      [text_field ''user'' ''from_broadcaster_user_name'', text_field ''login'' ''from_broadcaster_user_login'',
       text_field ''user_id'' ''from_broadcaster_user_id'', num_field ''viewers'' ''viewers''],
    mk_kind ''channel.ad_break.begin''
      [num_field ''seconds'' ''duration_seconds'', text_field ''automatic'' ''is_automatic''],
    mk_kind ''channel.channel_points_custom_reward_redemption.add'' (viewer_fields
      [text_field ''reward'' ''reward.title'', text_field ''reward_id'' ''reward.id'',
       num_field ''cost'' ''reward.cost'', text_field ''input'' ''user_input'']),
    mk_kind ''stream.online'' [text_field ''type'' ''type''],
    mk_kind ''stream.offline'' []]"

text \<open>The map \<open>init\<close> fills, in table order.\<close>

definition event_index :: "string \<Rightarrow> event_kind option" where
  "event_index = foldl (\<lambda>m k. m(ek_kind k \<mapsto> k)) (\<lambda>_. None) event_kinds"

definition list_event_kinds :: "event_kind list" where
  "list_event_kinds = sort_key ek_kind (map (\<lambda>k. mk_kind (ek_kind k) (ek_fields k)) event_kinds)"

definition lookup_event_kind :: "string \<Rightarrow> event_kind option" where
  "lookup_event_kind name = event_index name"

definition kind_field :: "event_kind \<Rightarrow> string \<Rightarrow> event_field option" where
  "kind_field k name = List.find (\<lambda>f. ef_name f = name) (ek_fields k)"

section \<open>Extraction\<close>

fun walk_path :: "json \<Rightarrow> string list \<Rightarrow> json" where
  "walk_path node [] = node"
| "walk_path node (seg # segs) = (case node of
      JObject ms \<Rightarrow> walk_path (case map_of (rev ms) seg of Some v \<Rightarrow> v | None \<Rightarrow> JNull) segs
    | _ \<Rightarrow> JNull)"

definition json_walk :: "json \<Rightarrow> string \<Rightarrow> json" where
  "json_walk node path = walk_path node (split_byte path CHR ''.'')"

definition whole_number :: "rat \<Rightarrow> bool" where
  "whole_number f \<longleftrightarrow> f = of_int \<lfloor>f\<rfloor> \<and> \<bar>f\<bar> < 1000000000000000000"

definition render_number :: "env \<Rightarrow> string \<Rightarrow> string" where
  "render_number E n = (case parse_int n of (i, err) \<Rightarrow>
     if err = None then itoa i
     else case e_parse_float E n of None \<Rightarrow> n
       | Some f \<Rightarrow> if \<not> whole_number f then n else itoa \<lfloor>f\<rfloor>)"

definition render_json :: "env \<Rightarrow> json \<Rightarrow> string option" where
  "render_json E v = (case v of
      JString s \<Rightarrow> Some s
    | JBool b \<Rightarrow> Some (if b then ''true'' else ''false'')
    | JNumber n \<Rightarrow> Some (render_number E n)
    | _ \<Rightarrow> None)"

definition extract_fields :: "env \<Rightarrow> (raw \<Rightarrow> json option) \<Rightarrow> event_kind \<Rightarrow> raw \<Rightarrow> string \<Rightarrow> string option" where
  "extract_fields E parse k event = (case parse event of
      None \<Rightarrow> (\<lambda>_. None)
    | Some doc \<Rightarrow> foldl (\<lambda>out f. case render_json E (json_walk doc (ef_path f)) of
          Some s \<Rightarrow> out(ef_name f \<mapsto> s) | None \<Rightarrow> out) (\<lambda>_. None) (ek_fields k))"

section \<open>The table\<close>

lemma event_names_distinct: "distinct (map ek_kind event_kinds)"
  by (simp add: event_kinds_def mk_kind_def)

lemma foldl_upd: "distinct (map g ks) \<Longrightarrow>
  foldl (\<lambda>m k. m(g k \<mapsto> k)) m0 ks x = (case List.find (\<lambda>k. g k = x) ks of Some k \<Rightarrow> Some k | None \<Rightarrow> m0 x)"
proof (induction ks arbitrary: m0)
  case (Cons k ks)
  have "List.find (\<lambda>k. g k = x) ks = None" if "g k = x"
    using Cons.prems that by (auto simp: find_None_iff intro: rev_image_eqI)
  then show ?case using Cons by simp
qed simp

text \<open>The index finds exactly the table's kinds, each under its own name.\<close>

lemma lookup_event_kind_iff:
  "lookup_event_kind name = Some k \<longleftrightarrow> k \<in> set event_kinds \<and> ek_kind k = name"
proof -
  have eq: "lookup_event_kind name = List.find (\<lambda>k. ek_kind k = name) event_kinds"
    unfolding lookup_event_kind_def event_index_def
    by (subst foldl_upd) (simp_all add: event_names_distinct option.case_eq_if)
  have uniq: "a = b" if "a \<in> set event_kinds" "b \<in> set event_kinds" "ek_kind a = ek_kind b" for a b
    using event_names_distinct that by (auto simp: distinct_map inj_on_def)
  show ?thesis
  proof
    assume "lookup_event_kind name = Some k"
    then show "k \<in> set event_kinds \<and> ek_kind k = name"
      unfolding eq by (auto simp: find_Some_iff)
  next
    assume k: "k \<in> set event_kinds \<and> ek_kind k = name"
    then obtain k' where k': "lookup_event_kind name = Some k'"
      unfolding eq by (cases "List.find (\<lambda>k. ek_kind k = name) event_kinds") (auto simp: find_None_iff)
    then have "k' \<in> set event_kinds \<and> ek_kind k' = name"
      unfolding eq by (auto simp: find_Some_iff)
    with k k' uniq show "lookup_event_kind name = Some k" by metis
  qed
qed

lemma field_names_distinct: "list_all (\<lambda>k. distinct (map ef_name (ek_fields k))) event_kinds"
  by (simp add: event_kinds_def mk_kind_def viewer_fields_def text_field_def num_field_def)

end
