(* ===== verification/AutoActions.thy ===== *)
theory AutoActions
  imports AutoCheck AutoEvents
begin

text \<open>
  The checks of actions and triggers. A step that holds other steps checks them through the
  argument \<open>visit\<close>, which stands for \<open>c.actions\<close>; the registry ties the knot.
\<close>

section \<open>actions.go\<close>

type_synonym visitor = "chk \<Rightarrow> action list \<Rightarrow> issues"

abbreviation login_required :: span where "login_required \<equiv> non_empty MaxLoginTemplate"
abbreviation login_optional :: span where "login_optional \<equiv> up_to MaxLoginTemplate"
abbreviation reason_options :: span where "reason_options \<equiv> up_to MaxTemplateLength"
abbreviation reason_needed :: span where "reason_needed \<equiv> non_empty MaxTemplateLength"

definition lights_color_pattern :: "string \<Rightarrow> bool" where
  "lights_color_pattern s \<longleftrightarrow> length s = 7 \<and> hd s = CHR ''#'' \<and> list_all (\<lambda>c. hex_digit c \<noteq> None) (tl s)"

definition lights_defaults :: "lights_action \<Rightarrow> lights_action" where
  "lights_defaults a = a\<lparr>li_mode := ''color''\<rparr>"

definition lights_prepare :: "lights_action \<Rightarrow> lights_action" where
  "lights_prepare a = (case parse_hex 24 (trim_prefix (li_color a) ''#'') of (v, err) \<Rightarrow>
     if err = None then a\<lparr>li_rgb := v\<rparr> else a)"

definition check_text :: "chk \<Rightarrow> text_action \<Rightarrow> issues" where
  "check_text c p = snd (chk_template c ''text'' (txt_text p))"

definition check_announce :: "chk \<Rightarrow> announce_action \<Rightarrow> issues" where
  "check_announce c p = snd (chk_template c ''text'' (ann_text p))
   @ (if ann_color p \<notin> set [[], ''primary'', ''blue'', ''green'', ''orange'', ''purple'']
      then add_issue c ''color'' ''invalid_enum'' else [])"

definition check_timeout :: "chk \<Rightarrow> timeout_action \<Rightarrow> issues" where
  "check_timeout c p = text_issues c ''login'' (to_login p) login_required
   @ in_range c ''seconds'' (to_seconds p) (between 1 1209600)
   @ text_issues c ''reason'' (to_reason p) reason_options"

definition check_ban :: "chk \<Rightarrow> ban_action \<Rightarrow> issues" where
  "check_ban c p = text_issues c ''login'' (ban_login p) login_required
   @ text_issues c ''reason'' (ban_reason p) reason_options"

definition check_warn :: "chk \<Rightarrow> warn_action \<Rightarrow> issues" where
  "check_warn c p = text_issues c ''login'' (wa_login p) login_required
   @ text_issues c ''reason'' (wa_reason p) reason_needed"

definition check_login :: "chk \<Rightarrow> login_action \<Rightarrow> issues" where
  "check_login c p = text_issues c ''login'' (lo_login p) login_required"

definition check_shield :: "chk \<Rightarrow> shield_action \<Rightarrow> issues" where
  "check_shield c p = []"

definition check_marker :: "chk \<Rightarrow> marker_action \<Rightarrow> issues" where
  "check_marker c p = text_issues c ''description'' (mk_description p) (up_to 140)"

definition check_set_title :: "chk \<Rightarrow> set_title_action \<Rightarrow> issues" where
  "check_set_title c p = text_issues c ''title'' (ti_title p) (non_empty 140)"

definition check_set_game :: "chk \<Rightarrow> set_game_action \<Rightarrow> issues" where
  "check_set_game c p = text_issues c ''game'' (ga_game p) (non_empty 100)"

definition check_set_tags :: "chk \<Rightarrow> set_tags_action \<Rightarrow> issues" where
  "check_set_tags c p = snd (chk_template c ''tags'' (ta_tags p))"

definition check_commercial :: "chk \<Rightarrow> commercial_action \<Rightarrow> issues" where
  "check_commercial c p = (if cm_seconds p \<notin> set [30, 60, 90, 120, 150, 180]
     then add_issue c ''seconds'' ''invalid_enum'' else [])"

definition check_points_add :: "chk \<Rightarrow> points_add_action \<Rightarrow> issues" where
  "check_points_add c p = text_issues c ''login'' (pa_login p) login_optional
   @ in_range c ''amount'' (pa_amount p) (between (-1000000) 1000000)
   @ non_zero c ''amount'' (pa_amount p)"

definition check_points_set :: "chk \<Rightarrow> points_set_action \<Rightarrow> issues" where
  "check_points_set c p = text_issues c ''login'' (ps_login p) login_optional
   @ in_range c ''amount'' (ps_amount p) (between 0 1000000000)"

definition check_counter_add :: "chk \<Rightarrow> counter_add_action \<Rightarrow> issues" where
  "check_counter_add c p = counter_name c ''name'' (ca_name p)
   @ in_range c ''amount'' (ca_amount p) (between (-1000000) 1000000)
   @ non_zero c ''amount'' (ca_amount p)"

definition check_counter_set :: "chk \<Rightarrow> counter_set_action \<Rightarrow> issues" where
  "check_counter_set c p = counter_name c ''name'' (cs_name p)"

definition check_redemption :: "chk \<Rightarrow> redemption_action \<Rightarrow> issues" where
  "check_redemption c p = one_of c ''status'' (re_status p) [''fulfill'', ''cancel'']"

definition check_delay :: "chk \<Rightarrow> delay_action \<Rightarrow> issues" where
  "check_delay c p = in_range c ''ms'' (de_ms p) (between 1 MaxDelayMS)"

definition check_run :: "chk \<Rightarrow> run_action \<Rightarrow> issues" where
  "check_run c p = text_issues c ''automation_id'' (ru_automation_id p) (non_empty 64)"

definition fetch_url_ok :: "env \<Rightarrow> string \<Rightarrow> bool" where
  "fetch_url_ok E raw \<longleftrightarrow> fetch_url (e_lower E) (e_floor E) (e_parse_url E) (e_is_ip E) raw = None"

definition fetch_paths :: "visitor \<Rightarrow> chk \<Rightarrow> action list \<Rightarrow> action list \<Rightarrow> issues" where
  "fetch_paths visit c on_ok on_failure = visit (nest (sub c ''on_ok'')) on_ok
   @ visit (nest (sub c ''on_failure'')) on_failure"

definition check_http_post :: "env \<Rightarrow> visitor \<Rightarrow> chk \<Rightarrow> http_post_action \<Rightarrow> issues" where
  "check_http_post E visit c p = (let (ok, iss) = chk_text c ''url'' (hp_url p) (non_empty 512) in
     iss @ (if ok \<and> \<not> fetch_url_ok E (hp_url p) then add_issue c ''url'' ''invalid_format'' else []))
   @ text_issues c ''body'' (hp_body p) (up_to 2000)
   @ optional_variable_name E c ''save_as'' (hp_save_as p)
   @ fetch_paths visit c (hp_on_ok p) (hp_on_failure p)"

definition check_lights_scene :: "env \<Rightarrow> chk \<Rightarrow> lights_action \<Rightarrow> issues" where
  "check_lights_scene E c p = text_issues c ''scene_id'' (li_scene_id p) (up_to 100)
   @ text_issues c ''scene_name'' (li_scene_name p) (up_to 100)
   @ text_issues c ''scene_type'' (li_scene_type p) (non_empty 64)
   @ text_issues c ''scene_instance'' (li_scene_instance p) (non_empty 64)
   @ (let (ok, iss) = chk_text c ''scene_value'' (li_scene_value p) (non_empty 200) in
      iss @ (if ok \<and> \<not> e_json_valid E (li_scene_value p) then add_issue c ''scene_value'' ''invalid_format'' else []))"

definition check_lights :: "env \<Rightarrow> chk \<Rightarrow> lights_action \<Rightarrow> issues" where
  "check_lights E c p = text_issues c ''device'' (li_device p) (non_empty 64)
   @ text_issues c ''sku'' (li_sku p) (non_empty 32)
   @ text_issues c ''device_name'' (li_device_name p) (up_to 100)
   @ one_of c ''mode'' (li_mode p) [''color'', ''scene'']
   @ (if li_mode p = ''scene'' then check_lights_scene E c p
      else chk_format c ''color'' (li_color p) lights_color_pattern)"

fun random_pick_loop :: "visitor \<Rightarrow> chk \<Rightarrow> nat \<Rightarrow> branch list \<Rightarrow> issues" where
  "random_pick_loop visit c i [] = []"
| "random_pick_loop visit c i (b # bs) = (let c' = elem (sub c ''branches'') i in
      in_range c' ''weight'' (br_weight b) (between 1 100)
    @ visit (nest (sub c' ''actions'')) (br_actions b)) @ random_pick_loop visit c (Suc i) bs"

definition check_random_pick :: "visitor \<Rightarrow> chk \<Rightarrow> random_pick_action \<Rightarrow> issues" where
  "check_random_pick visit c p = (let (ok, iss) = chk_count c ''branches'' (length (rp_branches p)) (between 2 5) in
     if \<not> ok then iss else iss @ random_pick_loop visit c 0 (rp_branches p))"

fun parallel_loop :: "visitor \<Rightarrow> chk \<Rightarrow> nat \<Rightarrow> branch list \<Rightarrow> issues" where
  "parallel_loop visit c i [] = []"
| "parallel_loop visit c i (b # bs) =
     visit (nest (sub (elem (sub c ''branches'') i) ''actions'')) (br_actions b) @ parallel_loop visit c (Suc i) bs"

definition check_parallel :: "visitor \<Rightarrow> chk \<Rightarrow> parallel_action \<Rightarrow> issues" where
  "check_parallel visit c p = (let (ok, iss) = chk_count c ''branches'' (length (pl_branches p)) (between 2 10) in
     if \<not> ok then iss else iss @ parallel_loop visit c 0 (pl_branches p))"

text \<open>The condition of an \<open>if\<close> is checked through the condition registry, the argument \<open>typed_cond\<close>.\<close>

definition check_if :: "(chk \<Rightarrow> condition \<Rightarrow> issues) \<Rightarrow> visitor \<Rightarrow> chk \<Rightarrow> if_action \<Rightarrow> issues" where
  "check_if typed_cond visit c p = typed_cond (sub c ''condition'') (if_condition p)
   @ visit (nest (sub c ''then'')) (if_then p) @ visit (nest (sub c ''else'')) (if_else p)"

section \<open>flow\_steps.go, reward\_update.go, variables.go, text.go, math.go, cooldown\_add.go\<close>

definition is_var_token :: "token \<Rightarrow> bool" where
  "is_var_token t \<longleftrightarrow> t_kind t = KindVar"

definition is_static_text :: "env \<Rightarrow> string \<Rightarrow> bool" where
  "is_static_text E s \<longleftrightarrow> \<not> list_ex is_var_token (Lex (e_lower E) s)"

definition ParseLoopTimes :: "string \<Rightarrow> int \<times> bool" where
  "ParseLoopTimes rendered = (case parse_int_w 32 (trim_space rendered) of (v, err) \<Rightarrow>
     if err \<noteq> None \<and> err \<noteq> Some ErrRange then (0, False) else (min (max v 0) MaxLoopTimes, True))"

definition check_loop :: "env \<Rightarrow> visitor \<Rightarrow> chk \<Rightarrow> loop_action \<Rightarrow> issues" where
  "check_loop E visit c p = snd (chk_template c ''times'' (lp_times p))
   @ (if is_static_text E (lp_times p) \<and> lp_times p \<noteq> [] \<and> \<not> snd (ParseLoopTimes (lp_times p))
      then add_issue c ''times'' ''invalid_format'' else [])
   @ visit (nest (sub c ''actions'')) (lp_actions p)"

definition plausible_fetch_template :: "env \<Rightarrow> string \<Rightarrow> bool" where
  "plausible_fetch_template E raw = (let toks = Lex (e_lower E) raw in
     if \<not> list_ex is_var_token toks then fetch_url_ok E raw
     else has_prefix raw ''https://'' \<or> is_var_token (hd toks))"

definition check_http_get :: "env \<Rightarrow> visitor \<Rightarrow> chk \<Rightarrow> http_get_action \<Rightarrow> issues" where
  "check_http_get E visit c p = (let (ok, iss) = chk_text c ''url'' (hg_url p) (non_empty 512) in
     iss @ (if ok \<and> \<not> plausible_fetch_template E (hg_url p) then add_issue c ''url'' ''invalid_format'' else []))
   @ (if fetch_path (hg_json_path p) \<noteq> None then add_issue c ''json_path'' ''invalid_format'' else [])
   @ optional_variable_name E c ''save_as'' (hg_save_as p)
   @ fetch_paths visit c (hg_on_ok p) (hg_on_failure p)"

definition reward_id_pattern :: "string \<Rightarrow> bool" where
  "reward_id_pattern s \<longleftrightarrow> s \<noteq> [] \<and> list_all (\<lambda>c. is_alphanumeric c \<or> c = CHR ''-'') s"

definition check_reward_update :: "chk \<Rightarrow> reward_update_action \<Rightarrow> issues" where
  "check_reward_update c p = (let (ok, iss) = chk_text c ''reward_id'' (rw_reward_id p) (non_empty 64) in
     iss @ (if ok \<and> \<not> reward_id_pattern (rw_reward_id p) then add_issue c ''reward_id'' ''invalid_format'' else []))
   @ (if rw_enabled p = None \<and> rw_cost p = None then add_issue c ''enabled'' ''required'' else [])
   @ (case rw_cost p of None \<Rightarrow> [] | Some cost \<Rightarrow> in_range c ''cost'' cost (between 1 10000000))"

definition check_var_set :: "env \<Rightarrow> chk \<Rightarrow> var_set_action \<Rightarrow> issues" where
  "check_var_set E c p = check_var_ref E c (vs_ref p) @ text_issues c ''value'' (vs_value p) (up_to MaxTemplateLength)"

definition check_var_add :: "env \<Rightarrow> chk \<Rightarrow> var_add_action \<Rightarrow> issues" where
  "check_var_add E c p = check_var_ref E c (va_ref p)
   @ in_range c ''amount'' (va_amount p) (between (- MaxVariableAmount) MaxVariableAmount)
   @ non_zero c ''amount'' (va_amount p)"

definition check_var_delete :: "env \<Rightarrow> chk \<Rightarrow> var_delete_action \<Rightarrow> issues" where
  "check_var_delete E c p = check_var_ref E c (vd_ref p)"

definition check_text_step :: "env \<Rightarrow> chk \<Rightarrow> text_step_action \<Rightarrow> issues" where
  "check_text_step E c p = one_of c ''op'' (ts_op p) [''upper'', ''lower'', ''trim'', ''length'', ''replace'',
       ''substring'', ''split_pick'', ''contains'', ''url_encode'']
   @ text_issues c ''input'' (ts_input p) (up_to MaxTemplateLength)
   @ text_issues c ''arg1'' (ts_arg1 p) (up_to MaxTemplateLength)
   @ text_issues c ''arg2'' (ts_arg2 p) (up_to MaxTemplateLength)
   @ variable_name E c ''save_as'' (ts_save_as p)"

definition check_math :: "env \<Rightarrow> chk \<Rightarrow> math_action \<Rightarrow> issues" where
  "check_math E c p = snd (chk_template c ''expression'' (ma_expression p))
   @ variable_name E c ''save_as'' (ma_save_as p)"

definition check_cooldown_add :: "env \<Rightarrow> chk \<Rightarrow> cooldown_add_action \<Rightarrow> issues" where
  "check_cooldown_add E c p = variable_name E c ''name'' (cda_name p)
   @ in_range c ''seconds'' (cda_seconds p) (between 1 MaxCooldownSeconds)
   @ in_range c ''per'' (cda_per p) (between 0 1000000)
   @ (if cda_per p > 0 \<and> \<not> k_event_amount c then add_issue c ''per'' ''trigger_mismatch'' else [])"

section \<open>triggers.go\<close>

definition command_defaults :: "command_trigger \<Rightarrow> command_trigger" where
  "command_defaults p = p\<lparr>ct_match := ''start'', ct_sources := [''chat'']\<rparr>"

definition check_empty :: "chk \<Rightarrow> unit \<Rightarrow> issues" where
  "check_empty c p = []"

definition check_aliases :: "env \<Rightarrow> chk \<Rightarrow> command_trigger \<Rightarrow> issues" where
  "check_aliases E c p = (if ct_match p = ''regex'' \<and> length (ct_aliases p) > 0
       then add_issue c ''aliases'' ''invalid_format''
     else (let (ok, iss) = chk_count c ''aliases'' (length (ct_aliases p)) (up_to MaxCommandAliases) in
       iss @ (if ok then for_each ''aliases'' (ct_aliases p) (\<lambda>f s. command_name E c f s (ct_match p)) else [])))"

definition check_command :: "env \<Rightarrow> chk \<Rightarrow> command_trigger \<Rightarrow> issues" where
  "check_command E c p = one_of c ''match'' (ct_match p) [''start'', ''exact'', ''anywhere'', ''regex'']
   @ command_name E c ''name'' (ct_name p) (ct_match p)
   @ check_aliases E c p
   @ (let (ok, iss) = chk_count c ''sources'' (length (ct_sources p)) (between 1 2) in
      iss @ (if ok then for_each ''sources'' (ct_sources p) (each_one_of c [''chat'', ''sub_message'']) else []))"

definition chk_event_kind :: "chk \<Rightarrow> string \<Rightarrow> issues" where
  "chk_event_kind c k = (if k = [] then add_issue c ''kind'' ''required''
     else add_issue c ''kind'' ''unknown_event_kind'')"

definition chk_filter :: "chk \<Rightarrow> event_kind option \<Rightarrow> string \<Rightarrow> string \<Rightarrow> issues" where
  "chk_filter c scope key value = (let name = ''filters.'' @ key in
     text_issues c name value (up_to MaxFilterValue)
   @ (case scope of None \<Rightarrow> []
      | Some k \<Rightarrow> (case kind_field k key of
            None \<Rightarrow> add_issue c name ''unknown_filter''
          | Some f \<Rightarrow> if ef_numeric f \<and> snd (parse_int value) \<noteq> None
              then add_issue c name ''invalid_format'' else [])))"

text \<open>The filters are a Go map; the list holds its entries, keys without repetition.\<close>

definition filter_keys :: "event_trigger \<Rightarrow> string list" where
  "filter_keys p = sort (remdups (map fst (ev_filters p)))"

definition check_event :: "chk \<Rightarrow> event_trigger \<Rightarrow> issues" where
  "check_event c p = (let scope = lookup_event_kind (ev_kind p) in
     (if scope = None then chk_event_kind c (ev_kind p) else [])
   @ snd (chk_count c ''filters'' (length (filter_keys p)) (up_to MaxEventFilters))
   @ concat (map (\<lambda>key. chk_filter c scope key (the (map_of (ev_filters p) key))) (filter_keys p)))"

definition check_timer :: "chk \<Rightarrow> timer_trigger \<Rightarrow> issues" where
  "check_timer c p = in_range c ''interval_s'' (tm_interval_s p) (between 60 86400)
   @ in_range c ''random_jitter_s'' (tm_random_jitter_s p) (between 0 3600)
   @ in_range c ''min_chat_lines'' (tm_min_chat_lines p) (between 0 100)"

definition check_reward :: "chk \<Rightarrow> reward_trigger \<Rightarrow> issues" where
  "check_reward c p = text_issues c ''reward_id'' (rt_reward_id p) (non_empty 64)"

end
