(* ===== verification/AutoRegistry.thy ===== *)
theory AutoRegistry
  imports AutoActions
begin

text \<open>
  The registries of \<open>registry.go\<close>: one entry per trigger, condition and action type. An entry's
  check of nested steps goes through the argument \<open>visit\<close>; the recursion of the code, which decodes
  the nested steps anew from the raw bytes at each level, runs on fuel (\<open>AutoValidate\<close>).
\<close>

record nesting =
  n_lists :: "action list list"
  n_labels :: "string list"
  n_condition :: "condition option"

record 'p entry =
  en_check :: "chk \<Rightarrow> raw \<Rightarrow> issues"
  en_decode :: "raw \<Rightarrow> 'p \<times> dec_error option"
  en_nested :: "(raw \<Rightarrow> action list list) option"
  en_plan :: "('p \<Rightarrow> nesting) option"
  en_effect :: bool

type_synonym 'p registry = "string \<Rightarrow> 'p entry option"

definition params_code :: "dec_error \<Rightarrow> string" where
  "params_code e = (if e = UnknownField then ''unknown_field'' else ''invalid_format'')"

text \<open>\<open>register\<close>: \<open>mk\<close> is the conversion to \<open>any\<close>, \<open>prep\<close> the type's \<open>prepare\<close> method, if any.\<close>

definition register :: "('a \<Rightarrow> 'p) \<Rightarrow> 'a decoder \<Rightarrow> 'a \<Rightarrow> ('a \<Rightarrow> 'a) \<Rightarrow> (chk \<Rightarrow> 'a \<Rightarrow> issues) \<Rightarrow> 'p entry" where
  "register mk um v prep check = \<lparr>
     en_check = (\<lambda>c raw. case decode_params um v raw of (p, err) \<Rightarrow>
        (case err of Some e \<Rightarrow> add_issue c [] (params_code e) | None \<Rightarrow> check c p)),
     en_decode = (\<lambda>raw. case decode_params um v raw of (p, err) \<Rightarrow>
        (mk (if err = None then prep p else p), err)),
     en_nested = None, en_plan = None, en_effect = False\<rparr>"

definition register_nested :: "('a \<Rightarrow> 'p) \<Rightarrow> ('p \<Rightarrow> 'a) \<Rightarrow> 'a decoder \<Rightarrow> 'a \<Rightarrow> (chk \<Rightarrow> 'a \<Rightarrow> issues)
    \<Rightarrow> ('a \<Rightarrow> nesting) \<Rightarrow> 'p entry" where
  "register_nested mk prj um v check nested = (register mk um v (\<lambda>x. x) check)
     \<lparr>en_nested := Some (\<lambda>raw. case decode_params um v raw of (p, err) \<Rightarrow>
        (if err \<noteq> None then [] else n_lists (nested p))),
      en_plan := Some (\<lambda>params. nested (prj params))\<rparr>"

definition register_nested_effect :: "('a \<Rightarrow> 'p) \<Rightarrow> ('p \<Rightarrow> 'a) \<Rightarrow> 'a decoder \<Rightarrow> 'a \<Rightarrow> (chk \<Rightarrow> 'a \<Rightarrow> issues)
    \<Rightarrow> ('a \<Rightarrow> nesting) \<Rightarrow> 'p entry" where
  "register_nested_effect mk prj um v check nested =
     (register_nested mk prj um v check nested)\<lparr>en_effect := True\<rparr>"

section \<open>Nested lists and their labels\<close>

definition branch_nesting :: "branch list \<Rightarrow> nesting" where
  "branch_nesting bs = \<lparr>n_lists = map br_actions bs,
     n_labels = map (\<lambda>i. ''b'' @ itoa (int i)) [0..<length bs], n_condition = None\<rparr>"

definition random_pick_branches :: "random_pick_action \<Rightarrow> nesting" where
  "random_pick_branches p = branch_nesting (rp_branches p)"

definition parallel_branches :: "parallel_action \<Rightarrow> nesting" where
  "parallel_branches p = branch_nesting (pl_branches p)"

definition if_branches :: "if_action \<Rightarrow> nesting" where
  "if_branches p = \<lparr>n_lists = [if_then p, if_else p], n_labels = [''then'', ''else''],
     n_condition = Some (if_condition p)\<rparr>"

definition loop_branches :: "loop_action \<Rightarrow> nesting" where
  "loop_branches p = \<lparr>n_lists = [lp_actions p], n_labels = [''body''], n_condition = None\<rparr>"

definition fetch_nesting :: "action list \<Rightarrow> action list \<Rightarrow> nesting" where
  "fetch_nesting on_ok on_failure = \<lparr>n_lists = [on_ok, on_failure], n_labels = [''on_ok'', ''on_failure''],
     n_condition = None\<rparr>"

definition http_get_branches :: "http_get_action \<Rightarrow> nesting" where
  "http_get_branches p = fetch_nesting (hg_on_ok p) (hg_on_failure p)"

definition http_post_branches :: "http_post_action \<Rightarrow> nesting" where
  "http_post_branches p = fetch_nesting (hp_on_ok p) (hp_on_failure p)"

section \<open>The registries\<close>

definition trigger_registry :: "env \<Rightarrow> trigger_params registry" where
  "trigger_registry E = (let D = e_rule E in map_of
    [(''command'', register P_command (u_command D) zero_command_trigger (\<lambda>x. x) (check_command E)),
     (''event'', register P_event (u_event D) zero_event_trigger (\<lambda>x. x) check_event),
     (''timer'', register P_timer (u_timer D) zero_timer_trigger (\<lambda>x. x) check_timer),
     (''reward'', register P_reward (u_reward_trigger D) zero_reward_trigger (\<lambda>x. x) check_reward),
     (''manual'', register (\<lambda>_. P_manual) (u_empty (e_act' E)) () (\<lambda>x. x) check_empty)])"

definition condition_registry :: "env \<Rightarrow> condition_params registry" where
  "condition_registry E = (let D = e_rule E in map_of
    [(''perm'', register P_perm (u_perm D) zero_perm_condition (\<lambda>x. x) check_perm),
     (''users'', register P_users (u_users D) zero_users_condition users_prepare check_users),
     (''live'', register P_live (u_live D) zero_live_condition (\<lambda>x. x) check_live),
     (''cooldown'', register P_cooldown (u_cooldown D) zero_cooldown_condition (\<lambda>x. x) (check_cooldown E)),
     (''chance'', register P_chance (u_chance D) zero_chance_condition (\<lambda>x. x) check_chance),
     (''counter'', register P_counter (u_counter D) zero_counter_condition (\<lambda>x. x) check_counter_cond),
     (''points'', register P_points (u_points D) zero_points_condition (\<lambda>x. x) check_points_cond),
     (''arg_regex'', register P_arg_regex (u_arg_regex D) zero_arg_regex_condition (arg_regex_prepare E) (check_arg_regex E)),
     (''category'', register P_category (u_category D) zero_category_condition (\<lambda>x. x) check_category),
     (''compare'', register P_compare (u_compare D) zero_compare_condition (\<lambda>x. x) check_compare),
     (''var'', register P_var (u_var D) zero_var_condition (\<lambda>x. x) (check_var_condition E))])"

text \<open>\<open>c.typed(reg, ...)\<close>.\<close>

definition typed :: "'p registry \<Rightarrow> chk \<Rightarrow> string \<Rightarrow> raw \<Rightarrow> issues" where
  "typed reg c ty ps = (if ty = [] then add_issue c ''type'' ''required''
     else case reg ty of None \<Rightarrow> add_issue c ''type'' ''unknown_type''
     | Some e \<Rightarrow> en_check e (sub c ''params'') ps)"

definition typed_condition :: "env \<Rightarrow> chk \<Rightarrow> condition \<Rightarrow> issues" where
  "typed_condition E c x = typed (condition_registry E) c (co_type x) (co_params x)"

abbreviation (input) plain where "plain mk um v check \<equiv> register mk um v (\<lambda>x. x) check"

definition action_registry :: "env \<Rightarrow> visitor \<Rightarrow> action_params registry" where
  "action_registry E visit = (let D = e_act E; D' = e_act' E in map_of
    [(''chat'', plain P_text (u_text D) zero_text_action check_text),
     (''announce'', plain P_announce (u_announce D) zero_announce_action check_announce),
     (''reply'', plain P_text (u_text D) zero_text_action check_text),
     (''timeout'', plain P_timeout (u_timeout D) zero_timeout_action check_timeout),
     (''ban'', plain P_ban (u_ban D) zero_ban_action check_ban),
     (''delete_message'', plain (\<lambda>_. P_empty) (u_empty D') () check_empty),
     (''warn'', plain P_warn (u_warn D) zero_warn_action check_warn),
     (''shield'', plain P_shield (u_shield D) zero_shield_action check_shield),
     (''shoutout'', plain P_login (u_login D) zero_login_action check_login),
     (''clip'', plain (\<lambda>_. P_empty) (u_empty D') () check_empty),
     (''marker'', plain P_marker (u_marker D) zero_marker_action check_marker),
     (''set_title'', plain P_set_title (u_set_title D) zero_set_title_action check_set_title),
     (''set_game'', plain P_set_game (u_set_game D) zero_set_game_action check_set_game),
     (''set_tags'', plain P_set_tags (u_set_tags D) zero_set_tags_action check_set_tags),
     (''commercial'', plain P_commercial (u_commercial D) zero_commercial_action check_commercial),
     (''points_add'', plain P_points_add (u_points_add D) zero_points_add_action check_points_add),
     (''points_set'', plain P_points_set (u_points_set D) zero_points_set_action check_points_set),
     (''counter_add'', plain P_counter_add (u_counter_add D) zero_counter_add_action check_counter_add),
     (''counter_set'', plain P_counter_set (u_counter_set D) zero_counter_set_action check_counter_set),
     (''redemption'', plain P_redemption (u_redemption D) zero_redemption_action check_redemption),
     (''reward_update'', plain P_reward_update (u_reward_update D') zero_reward_update_action check_reward_update),
     (''delay'', plain P_delay (u_delay D') zero_delay_action check_delay),
     (''random_pick'', register_nested P_random_pick un_random_pick (u_random_pick D') zero_random_pick_action
        (check_random_pick visit) random_pick_branches),
     (''parallel'', register_nested P_parallel un_parallel (u_parallel D') zero_parallel_action
        (check_parallel visit) parallel_branches),
     (''run'', plain P_run (u_run D') zero_run_action check_run),
     (''if'', register_nested P_if un_if (u_if D') zero_if_action
        (check_if (typed_condition E) visit) if_branches),
     (''loop'', register_nested P_loop un_loop (u_loop D') zero_loop_action (check_loop E visit) loop_branches),
     (''http_post'', register_nested_effect P_http_post un_http_post (u_http_post D') zero_http_post_action
        (check_http_post E visit) http_post_branches),
     (''http_get'', register_nested_effect P_http_get un_http_get (u_http_get D') zero_http_get_action
        (check_http_get E visit) http_get_branches),
     (''lights'', register P_lights (u_lights D') zero_lights_action lights_prepare (check_lights E)),
     (''stop'', plain (\<lambda>_. P_empty) (u_empty D') () check_empty),
     (''var_set'', plain P_var_set (u_var_set D') zero_var_set_action (check_var_set E)),
     (''var_add'', plain P_var_add (u_var_add D') zero_var_add_action (check_var_add E)),
     (''var_delete'', plain P_var_delete (u_var_delete D') zero_var_delete_action (check_var_delete E)),
     (''text'', plain P_text_step (u_text_step D') zero_text_step_action (check_text_step E)),
     (''math'', plain P_math (u_math D') zero_math_action (check_math E)),
     (''cooldown_add'', plain P_cooldown_add (u_cooldown_add D') zero_cooldown_add_action (check_cooldown_add E))])"

end
