(* ===== verification/AutoValidate.thy ===== *)
theory AutoValidate
  imports AutoRegistry
begin

text \<open>
  Validation of a definition: the recursive half of \<open>registry.go\<close>, \<open>validate.go\<close>, and the name
  lists of \<open>cooldown_left.go\<close> and \<open>cooldown_add.go\<close>. A step's nested lists are decoded from its raw
  parameters at every level, so each recursive walk runs on fuel; a decoded nested step is a part of
  its parent's bytes, and one more than the longest parameter text is always enough (\<open>fuel_of\<close>).
\<close>

section \<open>The walk over steps\<close>

definition action_nested :: "env \<Rightarrow> action \<Rightarrow> action list list" where
  "action_nested E a = (case action_registry E (\<lambda>_ _. []) (a_type a) of None \<Rightarrow> []
     | Some e \<Rightarrow> (case en_nested e of None \<Rightarrow> [] | Some f \<Rightarrow> f (a_params a)))"

definition is_branching :: "env \<Rightarrow> string \<Rightarrow> bool" where
  "is_branching E ty = (case action_registry E (\<lambda>_ _. []) ty of None \<Rightarrow> False
     | Some e \<Rightarrow> en_nested e \<noteq> None \<and> \<not> en_effect e)"

definition required_trigger :: "string \<Rightarrow> string option" where
  "required_trigger = map_of [(''delete_message'', ''command''), (''redemption'', ''reward'')]"

abbreviation role_moderator :: int where "role_moderator \<equiv> 3"

definition action_role :: "string \<Rightarrow> int option" where
  "action_role = map_of [(''timeout'', role_moderator), (''ban'', role_moderator), (''warn'', role_moderator),
     (''shield'', role_moderator), (''delete_message'', role_moderator), (''cooldown_add'', role_moderator)]"

definition trigger_mismatch :: "chk \<Rightarrow> string \<Rightarrow> bool" where
  "trigger_mismatch c ty = (case required_trigger ty of None \<Rightarrow> False | Some want \<Rightarrow> k_trigger c \<noteq> want)"

definition perm_missing :: "chk \<Rightarrow> string \<Rightarrow> bool" where
  "perm_missing c ty = (case action_role ty of None \<Rightarrow> False
     | Some role \<Rightarrow> k_trigger c = ''command'' \<and> k_perm c < role)"

definition chk_action :: "env \<Rightarrow> visitor \<Rightarrow> chk \<Rightarrow> nat \<Rightarrow> action \<Rightarrow> issues" where
  "chk_action E visit c i a = (let c' = elem c i in
     (if trigger_mismatch c (a_type a) then add_issue c' ''type'' ''trigger_mismatch'' else [])
   @ (if perm_missing c (a_type a) then add_issue c' ''type'' ''perm_required'' else [])
   @ typed (action_registry E visit) c' (a_type a) (a_params a))"

fun actions_loop :: "env \<Rightarrow> visitor \<Rightarrow> chk \<Rightarrow> nat \<Rightarrow> action list \<Rightarrow> issues" where
  "actions_loop E visit c i [] = []"
| "actions_loop E visit c i (a # as) = chk_action E visit c i a @ actions_loop E visit c (Suc i) as"

fun actions_fuel :: "env \<Rightarrow> nat \<Rightarrow> visitor" where
  "actions_fuel E 0 = (\<lambda>c xs. [])"
| "actions_fuel E (Suc n) = (\<lambda>c xs. actions_loop E (actions_fuel E n) c 0 xs)"

definition fuel_of :: "action list \<Rightarrow> nat" where
  "fuel_of xs = Suc (foldr (\<lambda>a m. max (length (a_params a)) m) xs 0)"

definition chk_actions :: "env \<Rightarrow> visitor" where
  "chk_actions E c xs = actions_fuel E (fuel_of xs) c xs"

fun flatten_fuel :: "env \<Rightarrow> nat \<Rightarrow> action list \<Rightarrow> action list" where
  "flatten_fuel E 0 xs = []"
| "flatten_fuel E (Suc n) xs =
     concat (map (\<lambda>a. a # concat (map (flatten_fuel E n) (action_nested E a))) xs)"

definition Flatten :: "env \<Rightarrow> action list \<Rightarrow> action list" where
  "Flatten E xs = flatten_fuel E (fuel_of xs) xs"

text \<open>\<open>int\<close> is 64 bits wide and the sum of delays wraps; the decode error is ignored, as in the code.\<close>

definition delay_ms :: "env \<Rightarrow> raw \<Rightarrow> int" where
  "delay_ms E raw = de_ms (fst (decode_params (u_delay (e_act' E)) zero_delay_action raw))"

fun path_delay_fuel :: "env \<Rightarrow> nat \<Rightarrow> action list \<Rightarrow> int" where
  "path_delay_fuel E 0 xs = 0"
| "path_delay_fuel E (Suc n) xs = foldl (\<lambda>total a. wrap64 (total +
      (if a_type a = ''delay'' then delay_ms E (a_params a)
       else foldl (\<lambda>longest l. max longest (path_delay_fuel E n l)) 0 (action_nested E a)))) 0 xs"

definition path_delay_ms :: "env \<Rightarrow> action list \<Rightarrow> int" where
  "path_delay_ms E xs = path_delay_fuel E (fuel_of xs) xs"

definition count_effects :: "env \<Rightarrow> action list \<Rightarrow> nat" where
  "count_effects E flat = length (filter (\<lambda>a. \<not> is_branching E (a_type a)) flat)"

section \<open>Conditions, permissions, amounts\<close>

fun conditions_loop :: "env \<Rightarrow> chk \<Rightarrow> nat \<Rightarrow> condition list \<Rightarrow> issues" where
  "conditions_loop E c i [] = []"
| "conditions_loop E c i (x # xs) =
     typed_condition E (elem (sub c ''conditions'') i) x @ conditions_loop E c (Suc i) xs"

fun index_of :: "'a list \<Rightarrow> 'a \<Rightarrow> int" where
  "index_of [] x = -1"
| "index_of (y # ys) x = (if y = x then 0 else let k = index_of ys x in if k < 0 then -1 else k + 1)"

definition perm_rank :: "env \<Rightarrow> condition list \<Rightarrow> int" where
  "perm_rank E conds = foldl (\<lambda>best x. if co_type x \<noteq> ''perm'' then best
     else (case decode_params (u_perm (e_rule E)) zero_perm_condition (co_params x) of (p, err) \<Rightarrow>
       if err = None then max best (index_of perm_levels (pe_level p)) else best)) (-1) conds"

definition trigger_has_amount :: "env \<Rightarrow> trigger \<Rightarrow> bool" where
  "trigger_has_amount E t = (if tr_type t \<noteq> ''event'' then False
     else case decode_params (u_event (e_rule E)) zero_event_trigger (tr_params t) of (p, err) \<Rightarrow>
       if err \<noteq> None then False
       else case lookup_event_kind (ev_kind p) of None \<Rightarrow> False
         | Some k \<Rightarrow> (case kind_field k ''amount'' of None \<Rightarrow> False | Some f \<Rightarrow> ef_numeric f))"

section \<open>Names of commands and cooldowns\<close>

definition normalize_command_name :: "env \<Rightarrow> string \<Rightarrow> string" where
  "normalize_command_name E name = to_lower (e_lower E) (trim_prefix (trim_space name) ''!'')"

definition command_names :: "command_trigger \<Rightarrow> string list" where
  "command_names t = (if ct_match t = ''regex'' then [ct_name t] else ct_name t # ct_aliases t)"

text \<open>The closure \<open>collect\<close> of both name lists; \<open>pick\<close> is the field they read.\<close>

definition collect_cooldown :: "env \<Rightarrow> (cooldown_condition \<Rightarrow> string) \<Rightarrow> condition \<Rightarrow> string list" where
  "collect_cooldown E pick x = (if co_type x \<noteq> ''cooldown'' then []
     else case decode_params (u_cooldown (e_rule E)) zero_cooldown_condition (co_params x) of (p, err) \<Rightarrow>
       if err = None \<and> pick p \<noteq> [] then [pick p] else [])"

definition cooldown_names :: "env \<Rightarrow> (cooldown_condition \<Rightarrow> string) \<Rightarrow> def_rec \<Rightarrow> string list" where
  "cooldown_names E pick d = concat (map (collect_cooldown E pick) (d_conditions d))
     @ concat (map (\<lambda>a. if a_type a \<noteq> ''if'' then []
         else case decode_params (u_if (e_act' E)) zero_if_action (a_params a) of (p, err) \<Rightarrow>
           if err = None then collect_cooldown E pick (if_condition p) else []) (Flatten E (d_actions d)))"

definition left_command_names :: "env \<Rightarrow> def_rec \<Rightarrow> string list" where
  "left_command_names E d = cooldown_names E cd_left_command d"

definition owned_cooldown_names :: "env \<Rightarrow> def_rec \<Rightarrow> string list" where
  "owned_cooldown_names E d = cooldown_names E cd_name d"

definition trigger_command_names :: "env \<Rightarrow> def_rec \<Rightarrow> string list" where
  "trigger_command_names E d = (if tr_type (d_trigger d) \<noteq> ''command'' then []
     else case decode_params (u_command (e_rule E)) zero_command_trigger (tr_params (d_trigger d)) of (t, err) \<Rightarrow>
       if err \<noteq> None \<or> ct_match t = ''regex'' then []
       else map (normalize_command_name E) (command_names t))"

fun left_commands_loop :: "env \<Rightarrow> chk \<Rightarrow> string set \<Rightarrow> string list \<Rightarrow> issues" where
  "left_commands_loop E c taken [] = []"
| "left_commands_loop E c taken (n # ns) = (let key = normalize_command_name E n in
     (if key \<in> taken then add_issue c ''left_command'' ''command_exists'' else [])
     @ left_commands_loop E c (insert key taken) ns)"

definition left_commands :: "env \<Rightarrow> chk \<Rightarrow> def_rec \<Rightarrow> issues" where
  "left_commands E c d = left_commands_loop E c (set (trigger_command_names E d)) (left_command_names E d)"

section \<open>validate.go\<close>

definition chk_budgets :: "env \<Rightarrow> chk \<Rightarrow> def_rec \<Rightarrow> issues" where
  "chk_budgets E c d =
     snd (chk_count c ''actions'' (count_effects E (Flatten E (d_actions d))) (up_to MaxActions))
   @ (if path_delay_ms E (d_actions d) > MaxDelayMS then add_issue c ''actions'' ''delay_budget'' else [])"

fun finish_loop :: "issues \<Rightarrow> issues \<Rightarrow> issues" where
  "finish_loop out [] = out"
| "finish_loop out (x # xs) = (if x \<noteq> last out then finish_loop (out @ [x]) xs else finish_loop out xs)"

definition finish :: "issues \<Rightarrow> issues" where
  "finish issues = (case sort issues of [] \<Rightarrow> [] | x # xs \<Rightarrow> finish_loop [x] xs)"

definition root_chk :: "env \<Rightarrow> def_rec \<Rightarrow> chk" where
  "root_chk E d = \<lparr>k_path = [], k_trigger = tr_type (d_trigger d), k_perm = perm_rank E (d_conditions d),
     k_depth = 0, k_event_amount = trigger_has_amount E (d_trigger d)\<rparr>"

definition raw_issues :: "env \<Rightarrow> def_rec \<Rightarrow> issues" where
  "raw_issues E d = (let c = root_chk E d in
     (if d_version d \<noteq> 1 then add_issue c ''version'' ''unsupported_version'' else [])
   @ typed (trigger_registry E) (sub c ''trigger'') (tr_type (d_trigger d)) (tr_params (d_trigger d))
   @ conditions_loop E c 0 (d_conditions d)
   @ chk_actions E (sub c ''actions'') (d_actions d)
   @ chk_budgets E c d
   @ left_commands E c d
   @ (if d_queue d \<noteq> [] \<and> \<not> variable_name_pattern (d_queue d) then add_issue c ''queue'' ''simple_word'' else []))"

definition Validate :: "env \<Rightarrow> def_rec \<Rightarrow> issues" where
  "Validate E d = finish (raw_issues E d)"

text \<open>\<open>Parse\<close>: the strict decoder of a whole definition is an argument.\<close>

definition zero_def :: def_rec where
  "zero_def = \<lparr>d_version = 0, d_trigger = \<lparr>tr_type = [], tr_params = []\<rparr>, d_conditions = [], d_actions = [], d_queue = []\<rparr>"

definition parse_definition :: "env \<Rightarrow> (raw \<Rightarrow> def_rec \<times> dec_error option) \<Rightarrow> raw \<Rightarrow> def_rec \<times> issues" where
  "parse_definition E decode raw = (if length raw > MaxDefinitionBytes then (zero_def, [Issue [] ''too_long''])
     else case decode raw of (d, err) \<Rightarrow> (case err of
         Some e \<Rightarrow> (zero_def, [Issue [] (if e = UnknownField then ''unknown_field'' else ''invalid_json'')])
       | None \<Rightarrow> (d, Validate E d)))"

definition validate_automation_name :: "string \<Rightarrow> issues" where
  "validate_automation_name name = (let s = trim_space name;
       c = \<lparr>k_path = [], k_trigger = [], k_perm = 0, k_depth = 0, k_event_amount = False\<rparr>;
       (ok, iss) = chk_text c ''name'' s (non_empty MaxNameLength) in
     finish (iss @ (if ok then chk_chars c ''name'' s is_name_char else [])))"

end
