(* ===== verification/AutoSound.thy ===== *)
theory AutoSound
  imports AutoValidate
begin

text \<open>
  What validation guarantees: the order of the issues, the independence of the walks from their
  fuel, and the meaning of an empty issue list.
\<close>

section \<open>Finishing\<close>

lemma finish_loop_adj: "out \<noteq> [] \<Longrightarrow> finish_loop out xs = butlast out @ remdups_adj (last out # xs)"
proof (induction out xs rule: finish_loop.induct)
  case (2 out x xs)
  then show ?case by (cases "x = last out") (simp_all add: append_butlast_last_id [symmetric] del: append_butlast_last_id)
qed simp

lemma finish_eq: "finish xs = remdups_adj (sort xs)"
  by (auto simp: finish_def finish_loop_adj split: list.splits)

lemma finish_Nil_iff [simp]: "finish xs = [] \<longleftrightarrow> xs = []"
  by (metis finish_eq remdups_adj_Nil_iff set_empty set_sort)

lemma sorted_remdups_adj_strict: "sorted xs \<Longrightarrow> sorted_wrt (<) (remdups_adj (xs :: 'a :: linorder list))"
proof (induction xs rule: remdups_adj.induct)
  case (3 x y xs)
  show ?case
  proof (cases "x = y")
    case False
    then have "\<forall>z \<in> set (y # xs). x < z" using "3.prems" by (auto simp: le_less)
    then have "\<forall>z \<in> set (remdups_adj (y # xs)). x < z" by simp
    with 3 False show ?thesis by simp
  qed (use 3 in simp)
qed simp_all

section \<open>Fuel\<close>

text \<open>Strict JSON decoding yields nested steps whose parameters are proper parts of the parent's bytes.\<close>

definition shrinks :: "env \<Rightarrow> bool" where
  "shrinks E \<longleftrightarrow> (\<forall>a. \<forall>l \<in> set (action_nested E a). \<forall>b \<in> set l. length (a_params b) < length (a_params a))"

definition fits :: "nat \<Rightarrow> action list \<Rightarrow> bool" where
  "fits n xs \<longleftrightarrow> (\<forall>a \<in> set xs. length (a_params a) < n)"

lemma fits_fuel_of: "fits (fuel_of xs) xs"
  unfolding fits_def fuel_of_def by (induction xs) (auto simp: less_Suc_eq_le max_def)

lemma fits_mono: "\<lbrakk>fits n xs; n \<le> m\<rbrakk> \<Longrightarrow> fits m xs"
  by (auto simp: fits_def)

lemma fits_nested: "\<lbrakk>shrinks E; fits (Suc n) xs; a \<in> set xs; l \<in> set (action_nested E a)\<rbrakk> \<Longrightarrow> fits n l"
  unfolding shrinks_def fits_def by fastforce

lemma fits_0: "fits 0 xs \<longleftrightarrow> xs = []"
  by (cases xs) (auto simp: fits_def)

lemma concat_map_cong: "(\<And>x. x \<in> set xs \<Longrightarrow> f x = g x) \<Longrightarrow> concat (map f xs) = concat (map g xs)"
  by (metis map_cong)

lemma flatten_fuel_enough:
  "\<lbrakk>shrinks E; fits n xs; n \<le> m\<rbrakk> \<Longrightarrow> flatten_fuel E m xs = flatten_fuel E n xs"
proof (induction n arbitrary: m xs)
  case 0
  then have "xs = []" by (simp add: fits_0)
  then show ?case by (cases m) simp_all
next
  case (Suc n)
  then obtain k where m: "m = Suc k" "n \<le> k" by (cases m) auto
  have "flatten_fuel E k l = flatten_fuel E n l" if "a \<in> set xs" "l \<in> set (action_nested E a)" for a l
    using Suc.IH [OF Suc.prems(1) fits_nested [OF Suc.prems(1,2) that] m(2)] .
  then show ?case unfolding m(1) flatten_fuel.simps by (auto intro!: concat_map_cong)
qed

lemma path_delay_fuel_enough:
  "\<lbrakk>shrinks E; fits n xs; n \<le> m\<rbrakk> \<Longrightarrow> path_delay_fuel E m xs = path_delay_fuel E n xs"
proof (induction n arbitrary: m xs)
  case 0
  then have "xs = []" by (simp add: fits_0)
  then show ?case by (cases m) simp_all
next
  case (Suc n)
  then obtain k where m: "m = Suc k" "n \<le> k" by (cases m) auto
  have *: "path_delay_fuel E k l = path_delay_fuel E n l" if "a \<in> set xs" "l \<in> set (action_nested E a)" for a l
    using Suc.IH [OF Suc.prems(1) fits_nested [OF Suc.prems(1,2) that] m(2)] .
  have "foldl (\<lambda>longest l. max longest (path_delay_fuel E k l)) 0 (action_nested E a)
      = foldl (\<lambda>longest l. max longest (path_delay_fuel E n l)) 0 (action_nested E a)" if "a \<in> set xs" for a
    by (intro foldl_cong) (simp_all add: * [OF that])
  then show ?case unfolding m(1) path_delay_fuel.simps
    by (intro foldl_cong) simp_all
qed

text \<open>Two amounts of fuel that fit give the same walk, so the fuel of a nested list is that list's own.\<close>

lemma flatten_fuel_fits: "\<lbrakk>shrinks E; fits n xs\<rbrakk> \<Longrightarrow> flatten_fuel E n xs = Flatten E xs"
  using flatten_fuel_enough [of E n xs "max n (fuel_of xs)"]
    flatten_fuel_enough [of E "fuel_of xs" xs "max n (fuel_of xs)"] fits_fuel_of [of xs]
  by (simp add: Flatten_def)

lemma path_delay_fuel_fits: "\<lbrakk>shrinks E; fits n xs\<rbrakk> \<Longrightarrow> path_delay_fuel E n xs = path_delay_ms E xs"
  using path_delay_fuel_enough [of E n xs "max n (fuel_of xs)"]
    path_delay_fuel_enough [of E "fuel_of xs" xs "max n (fuel_of xs)"] fits_fuel_of [of xs]
  by (simp add: path_delay_ms_def)

lemma fuel_of_Suc: "\<exists>n. fuel_of xs = Suc n"
  by (simp add: fuel_of_def)

lemma Flatten_unfold:
  assumes "shrinks E"
  shows "Flatten E xs = concat (map (\<lambda>a. a # concat (map (Flatten E) (action_nested E a))) xs)"
proof -
  obtain n where n: "fuel_of xs = Suc n" using fuel_of_Suc by blast
  have "flatten_fuel E n l = Flatten E l" if "a \<in> set xs" "l \<in> set (action_nested E a)" for a l
    using assms fits_nested [OF assms _ that] fits_fuel_of [of xs] n
    by (intro flatten_fuel_fits) simp_all
  then show ?thesis
    unfolding Flatten_def [of E xs] n flatten_fuel.simps by (auto intro!: concat_map_cong)
qed

definition action_delay_ms :: "env \<Rightarrow> action \<Rightarrow> int" where
  "action_delay_ms E a = (if a_type a = ''delay'' then delay_ms E (a_params a)
     else foldl (\<lambda>longest l. max longest (path_delay_ms E l)) 0 (action_nested E a))"

lemma path_delay_unfold:
  assumes "shrinks E"
  shows "path_delay_ms E xs = foldl (\<lambda>total a. wrap64 (total + action_delay_ms E a)) 0 xs"
proof -
  obtain n where n: "fuel_of xs = Suc n" using fuel_of_Suc by blast
  have *: "path_delay_fuel E n l = path_delay_ms E l" if "a \<in> set xs" "l \<in> set (action_nested E a)" for a l
    using assms fits_nested [OF assms _ that] fits_fuel_of [of xs] n
    by (intro path_delay_fuel_fits) simp_all
  have "foldl (\<lambda>longest l. max longest (path_delay_fuel E n l)) 0 (action_nested E a)
      = foldl (\<lambda>longest l. max longest (path_delay_ms E l)) 0 (action_nested E a)" if "a \<in> set xs" for a
    by (rule foldl_cong) (simp_all add: * [OF that])
  then show ?thesis
    unfolding path_delay_ms_def [of E xs] n path_delay_fuel.simps action_delay_ms_def
    by (intro foldl_cong) simp_all
qed

section \<open>What a registry entry promises\<close>

definition same_ctx :: "chk \<Rightarrow> chk \<Rightarrow> bool" where
  "same_ctx c c' \<longleftrightarrow> k_trigger c' = k_trigger c \<and> k_perm c' = k_perm c \<and> k_event_amount c' = k_event_amount c"

lemma same_ctx_simps [simp]:
  "same_ctx c c" "same_ctx c (sub c' f) = same_ctx c c'" "same_ctx c (elem c' i) = same_ctx c c'"
  "same_ctx c (nest c') = same_ctx c c'" "same_ctx (sub c f) c' = same_ctx c c'" "same_ctx (elem c i) c' = same_ctx c c'"
  by (auto simp: same_ctx_def sub_def elem_def nest_def)

lemma same_ctx_trans: "\<lbrakk>same_ctx c c'; same_ctx c' c''\<rbrakk> \<Longrightarrow> same_ctx c c''"
  by (auto simp: same_ctx_def)

lemma guards_ctx:
  "same_ctx c c' \<Longrightarrow> trigger_mismatch c' ty = trigger_mismatch c ty"
  "same_ctx c c' \<Longrightarrow> perm_missing c' ty = perm_missing c ty"
  by (auto simp: same_ctx_def trigger_mismatch_def perm_missing_def split: option.splits)

text \<open>A silent check decoded its parameters, and it visited every nested list, silently.\<close>

definition entry_sound :: "visitor \<Rightarrow> 'p entry \<Rightarrow> bool" where
  "entry_sound visit e \<longleftrightarrow> (\<forall>c raw. en_check e c raw = [] \<longrightarrow> snd (en_decode e raw) = None \<and>
     (\<forall>f l. en_nested e = Some f \<longrightarrow> l \<in> set (f raw) \<longrightarrow> (\<exists>c'. same_ctx c c' \<and> visit c' l = [])))"

lemma add_issue_not_Nil [simp]: "add_issue c f code \<noteq> []"
  by (simp add: add_issue_def)

lemma register_sound: "entry_sound visit (register mk um v prep check)"
  by (auto simp: entry_sound_def register_def split: prod.splits option.splits)

lemma register_nested_sound:
  assumes "\<And>c p l. \<lbrakk>check c p = []; l \<in> set (n_lists (nested p))\<rbrakk> \<Longrightarrow> \<exists>c'. same_ctx c c' \<and> visit c' l = []"
  shows "entry_sound visit (register_nested mk prj um v check nested)"
    "entry_sound visit (register_nested_effect mk prj um v check nested)"
  using assms
  by (auto simp: entry_sound_def register_nested_effect_def register_nested_def register_def
      split: prod.splits option.splits if_splits)

lemma loops_visit:
  "\<lbrakk>random_pick_loop visit c i bs = []; b \<in> set bs\<rbrakk> \<Longrightarrow> \<exists>c'. same_ctx c c' \<and> visit c' (br_actions b) = []"
  "\<lbrakk>parallel_loop visit c i bs = []; b \<in> set bs\<rbrakk> \<Longrightarrow> \<exists>c'. same_ctx c c' \<and> visit c' (br_actions b) = []"
proof (induction bs arbitrary: i)
  case (Cons b' bs)
  { case 1
    let ?c = "nest (sub (elem (sub c ''branches'') i) ''actions'')"
    from 1 have "visit ?c (br_actions b') = []" "random_pick_loop visit c (Suc i) bs = []"
      by (auto simp: Let_def)
    then show ?case using Cons.IH(1) [of "Suc i"] 1(2) by (cases "b = b'") (auto intro: exI [of _ ?c])
  next
    case 2
    let ?c = "nest (sub (elem (sub c ''branches'') i) ''actions'')"
    from 2 have "visit ?c (br_actions b') = []" "parallel_loop visit c (Suc i) bs = []"
      by auto
    then show ?case using Cons.IH(2) [of "Suc i"] 2(2) by (cases "b = b'") (auto intro: exI [of _ ?c])
  }
qed simp_all

lemma bound_ok: "bound c f n s over = (ok, iss) \<Longrightarrow> ok \<longleftrightarrow> iss = []"
  by (auto simp: bound_def split: if_splits)

lemma chk_text_ok: "chk_text c f s w = (ok, iss) \<Longrightarrow> ok \<longleftrightarrow> iss = []"
  unfolding chk_text_def by (rule bound_ok)

lemma chk_count_ok: "chk_count c f n w = (ok, iss) \<Longrightarrow> ok \<longleftrightarrow> iss = []"
  unfolding chk_count_def by (rule bound_ok)

lemma nested_checks_visit:
  "\<lbrakk>check_random_pick visit c rp = []; l \<in> set (n_lists (random_pick_branches rp))\<rbrakk> \<Longrightarrow> \<exists>c'. same_ctx c c' \<and> visit c' l = []"
  "\<lbrakk>check_parallel visit c pl = []; l \<in> set (n_lists (parallel_branches pl))\<rbrakk> \<Longrightarrow> \<exists>c'. same_ctx c c' \<and> visit c' l = []"
  using loops_visit chk_count_ok
  by (fastforce simp: check_random_pick_def random_pick_branches_def check_parallel_def parallel_branches_def
      branch_nesting_def split: prod.splits if_splits)+

lemma flow_checks_visit:
  "\<lbrakk>check_if tc visit c fi = []; l \<in> set (n_lists (if_branches fi))\<rbrakk> \<Longrightarrow> \<exists>c'. same_ctx c c' \<and> visit c' l = []"
  "\<lbrakk>check_loop E visit c lp = []; l \<in> set (n_lists (loop_branches lp))\<rbrakk> \<Longrightarrow> \<exists>c'. same_ctx c c' \<and> visit c' l = []"
  "\<lbrakk>check_http_post E visit c hp = []; l \<in> set (n_lists (http_post_branches hp))\<rbrakk> \<Longrightarrow> \<exists>c'. same_ctx c c' \<and> visit c' l = []"
  "\<lbrakk>check_http_get E visit c hg = []; l \<in> set (n_lists (http_get_branches hg))\<rbrakk> \<Longrightarrow> \<exists>c'. same_ctx c c' \<and> visit c' l = []"
  by (auto simp: check_if_def if_branches_def check_loop_def loop_branches_def check_http_post_def http_post_branches_def
      check_http_get_def http_get_branches_def fetch_paths_def fetch_nesting_def intro: exI [of _ "nest (sub c f)" for f])

lemma action_registry_sound: "action_registry E visit ty = Some e \<Longrightarrow> entry_sound visit e"
  unfolding action_registry_def Let_def
  by (drule map_of_SomeD)
    (auto simp: register_sound intro!: register_nested_sound dest: nested_checks_visit flow_checks_visit)

text \<open>Only the checks of an entry depend on the visitor.\<close>

lemma map_of_image:
  assumes "map (\<lambda>(k, e). (k, f e)) xs = map (\<lambda>(k, e). (k, f e)) ys"
  shows "map_option f (map_of xs k) = map_option f (map_of ys k)"
  using assms by (metis map_of_map comp_apply)

lemma action_registry_shape:
  "map_option (\<lambda>e. (en_decode e, en_nested e, en_plan e, en_effect e)) (action_registry E visit ty)
   = map_option (\<lambda>e. (en_decode e, en_nested e, en_plan e, en_effect e)) (action_registry E visit' ty)"
  unfolding action_registry_def Let_def
  by (rule map_of_image) (simp add: register_def register_nested_def register_nested_effect_def)

lemma action_registry_Some:
  assumes "action_registry E visit ty = Some e"
  obtains e' where "action_registry E visit' ty = Some e'" "en_decode e' = en_decode e" "en_nested e' = en_nested e"
  using action_registry_shape [of E visit ty visit'] assms by (cases "action_registry E visit' ty") auto

section \<open>The meaning of an empty issue list\<close>

text \<open>A step that passed: a known type, allowed under the trigger and the permission of the definition,
  with parameters that decode.\<close>

definition step_ok :: "env \<Rightarrow> chk \<Rightarrow> action \<Rightarrow> bool" where
  "step_ok E c a \<longleftrightarrow> \<not> trigger_mismatch c (a_type a) \<and> \<not> perm_missing c (a_type a) \<and>
     (case action_registry E (\<lambda>_ _. []) (a_type a) of None \<Rightarrow> False
      | Some e \<Rightarrow> snd (en_decode e (a_params a)) = None)"

lemma step_ok_ctx: "same_ctx c c' \<Longrightarrow> step_ok E c' = step_ok E c"
  by (simp add: fun_eq_iff step_ok_def guards_ctx)

lemma typed_Nil: "typed reg c ty ps = [] \<Longrightarrow> \<exists>e. reg ty = Some e \<and> en_check e (sub c ''params'') ps = []"
  by (auto simp: typed_def split: if_splits option.splits)

lemma chk_action_Nil:
  assumes "chk_action E visit c i a = []"
  shows "step_ok E c a" "l \<in> set (action_nested E a) \<Longrightarrow> \<exists>c'. same_ctx c c' \<and> visit c' l = []"
proof -
  from assms have t: "typed (action_registry E visit) (elem c i) (a_type a) (a_params a) = []"
    and g: "\<not> trigger_mismatch c (a_type a)" "\<not> perm_missing c (a_type a)"
    by (auto simp: chk_action_def Let_def split: if_splits)
  from typed_Nil [OF t] obtain e where e: "action_registry E visit (a_type a) = Some e"
    "en_check e (sub (elem c i) ''params'') (a_params a) = []" by blast
  obtain e' where e': "action_registry E (\<lambda>_ _. []) (a_type a) = Some e'"
    "en_decode e' = en_decode e" "en_nested e' = en_nested e"
    using action_registry_Some [OF e(1)] by blast
  note sound = action_registry_sound [OF e(1), unfolded entry_sound_def, rule_format, OF e(2)]
  show "step_ok E c a" using g e' sound by (simp add: step_ok_def)
  show "l \<in> set (action_nested E a) \<Longrightarrow> \<exists>c'. same_ctx c c' \<and> visit c' l = []"
    using sound e' by (cases "en_nested e") (auto simp: action_nested_def)
qed

lemma actions_loop_Nil:
  "\<lbrakk>actions_loop E visit c i xs = []; a \<in> set xs\<rbrakk> \<Longrightarrow> \<exists>j. chk_action E visit c j a = []"
  by (induction xs arbitrary: i) auto

lemma actions_fuel_sound: "actions_fuel E n c xs = [] \<Longrightarrow> list_all (step_ok E c) (flatten_fuel E n xs)"
proof (induction n arbitrary: c xs)
  case (Suc n)
  have "step_ok E c a \<and> (\<forall>l \<in> set (action_nested E a). list_all (step_ok E c) (flatten_fuel E n l))"
    if "a \<in> set xs" for a
  proof -
    obtain j where j: "chk_action E (actions_fuel E n) c j a = []"
      using actions_loop_Nil Suc.prems \<open>a \<in> set xs\<close> by fastforce
    then show ?thesis
      using chk_action_Nil [OF j] Suc.IH step_ok_ctx by metis
  qed
  then show ?case by (auto simp: list_all_iff)
qed simp

lemma chk_actions_sound: "chk_actions E c xs = [] \<Longrightarrow> list_all (step_ok E c) (Flatten E xs)"
  by (simp add: chk_actions_def Flatten_def actions_fuel_sound)

lemma left_commands_loop_Nil:
  "left_commands_loop E c taken ns = [] \<longleftrightarrow>
     distinct (map (normalize_command_name E) ns) \<and> normalize_command_name E ` set ns \<inter> taken = {}"
  by (induction ns arbitrary: taken) (auto simp: Let_def)

lemma chk_count_Nil: "snd (chk_count c f n (up_to hi)) = [] \<longleftrightarrow> int n \<le> hi"
  by (auto simp: chk_count_def bound_def up_to_def)

lemma validate_Nil:
  assumes "Validate E d = []"
  shows "d_version d = 1" "list_all (step_ok E (root_chk E d)) (Flatten E (d_actions d))"
    "int (count_effects E (Flatten E (d_actions d))) \<le> MaxActions"
    "path_delay_ms E (d_actions d) \<le> MaxDelayMS"
    "d_queue d = [] \<or> variable_name_pattern (d_queue d)"
    "distinct (map (normalize_command_name E) (left_command_names E d))"
    "normalize_command_name E ` set (left_command_names E d) \<inter> set (trigger_command_names E d) = {}"
    "typed (trigger_registry E) (sub (root_chk E d) ''trigger'') (tr_type (d_trigger d)) (tr_params (d_trigger d)) = []"
proof -
  have raw: "raw_issues E d = []" using assms by (simp add: Validate_def)
  have ctx: "step_ok E (sub (root_chk E d) f) = step_ok E (root_chk E d)" for f
    by (rule step_ok_ctx) simp
  show "list_all (step_ok E (root_chk E d)) (Flatten E (d_actions d))"
    using raw chk_actions_sound [of E "sub (root_chk E d) ''actions''" "d_actions d"]
    by (simp add: raw_issues_def Let_def ctx)
  show "d_version d = 1" "d_queue d = [] \<or> variable_name_pattern (d_queue d)"
    "typed (trigger_registry E) (sub (root_chk E d) ''trigger'') (tr_type (d_trigger d)) (tr_params (d_trigger d)) = []"
    using raw by (auto simp: raw_issues_def Let_def split: if_splits)
  show "int (count_effects E (Flatten E (d_actions d))) \<le> MaxActions" "path_delay_ms E (d_actions d) \<le> MaxDelayMS"
    using raw by (auto simp: raw_issues_def Let_def chk_budgets_def chk_count_Nil split: if_splits)
  show "distinct (map (normalize_command_name E) (left_command_names E d))"
    "normalize_command_name E ` set (left_command_names E d) \<inter> set (trigger_command_names E d) = {}"
    using raw by (auto simp: raw_issues_def Let_def left_commands_def left_commands_loop_Nil)
qed

section \<open>The permission rank\<close>

lemma foldl_max_bound:
  "\<lbrakk>r < foldl (\<lambda>b x. if P x then max b (f x) else b) b xs; \<not> r < b\<rbrakk> \<Longrightarrow> \<exists>x \<in> set xs. P x \<and> r < (f x :: int)"
proof (induction xs arbitrary: b)
  case (Cons x xs)
  show ?case
  proof (cases "P x \<and> r < f x")
    case False
    then show ?thesis using Cons.prems Cons.IH [of "if P x then max b (f x) else b"] by (auto split: if_splits)
  qed simp
qed simp

definition perm_of :: "env \<Rightarrow> condition \<Rightarrow> perm_condition \<times> dec_error option" where
  "perm_of E x = decode_params (u_perm (e_rule E)) zero_perm_condition (co_params x)"

lemma perm_rank_eq:
  "perm_rank E conds = foldl (\<lambda>b x. if co_type x = ''perm'' \<and> snd (perm_of E x) = None
     then max b (index_of perm_levels (pe_level (fst (perm_of E x)))) else b) (-1) conds"
  unfolding perm_rank_def perm_of_def by (intro foldl_cong) (auto split: prod.splits)

lemma perm_rank_bound:
  assumes "r < perm_rank E conds" "-1 \<le> r"
  shows "\<exists>x \<in> set conds. co_type x = ''perm'' \<and> snd (perm_of E x) = None
    \<and> r < index_of perm_levels (pe_level (fst (perm_of E x)))"
  using foldl_max_bound [OF assms(1) [unfolded perm_rank_eq]] assms(2) by auto

lemma index_perm_levels:
  "2 < index_of perm_levels v \<longleftrightarrow> v \<in> {''mod'', ''lead_mod'', ''broadcaster''}"
  by (auto split: if_splits)

end
