(* ===== verification/AutoSample.thy ===== *)
theory AutoSample
  imports AutoSound
begin

text \<open>
  A concrete environment: ASCII tables, every decoder leaving the value it started from except the
  few that read the raw text, and the laws of the environment checked on it. The loop decoder nests
  one delay step whose parameters are the tail of the loop's bytes.
\<close>

definition sample_action_decoders :: "action_decoders" where
  "sample_action_decoders = \<lparr>u_text = (\<lambda>v raw. (v, None)),
     u_announce = (\<lambda>v raw. (v, None)),
     u_timeout = (\<lambda>v raw. (v\<lparr>to_login := raw, to_seconds := 1\<rparr>, None)),
     u_ban = (\<lambda>v raw. (v, None)),
     u_login = (\<lambda>v raw. (v, None)),
     u_warn = (\<lambda>v raw. (v, None)),
     u_shield = (\<lambda>v raw. (v, None)),
     u_marker = (\<lambda>v raw. (v, None)),
     u_set_title = (\<lambda>v raw. (v, None)),
     u_set_game = (\<lambda>v raw. (v, None)),
     u_set_tags = (\<lambda>v raw. (v, None)),
     u_commercial = (\<lambda>v raw. (v, None)),
     u_points_add = (\<lambda>v raw. (v, None)),
     u_points_set = (\<lambda>v raw. (v, None)),
     u_counter_add = (\<lambda>v raw. (v, None)),
     u_counter_set = (\<lambda>v raw. (v, None)),
     u_redemption = (\<lambda>v raw. (v, None))\<rparr>"

definition sample_action_decoders' :: "action_decoders'" where
  "sample_action_decoders' = \<lparr>u_delay = (\<lambda>v raw. (\<lparr>de_ms = int (length raw)\<rparr>, None)),
     u_random_pick = (\<lambda>v raw. (v, None)),
     u_parallel = (\<lambda>v raw. (v, None)),
     u_run = (\<lambda>v raw. (v, None)),
     u_if = (\<lambda>v raw. (v, None)),
     u_http_post = (\<lambda>v raw. (v, None)),
     u_lights = (\<lambda>v raw. (v, None)),
     u_loop = (\<lambda>v raw. (\<lparr>lp_times = ''2'', lp_actions = (if raw = [] then [] else [\<lparr>a_type = ''delay'', a_enabled = None, a_params = tl raw\<rparr>])\<rparr>, None)),
     u_http_get = (\<lambda>v raw. (v, None)),
     u_reward_update = (\<lambda>v raw. (v, None)),
     u_var_set = (\<lambda>v raw. (v, None)),
     u_var_add = (\<lambda>v raw. (v, None)),
     u_var_delete = (\<lambda>v raw. (v, None)),
     u_text_step = (\<lambda>v raw. (v, None)),
     u_math = (\<lambda>v raw. (v, None)),
     u_cooldown_add = (\<lambda>v raw. (v, None)),
     u_empty = (\<lambda>v raw. (v, None))\<rparr>"

definition sample_rule_decoders :: "rule_decoders" where
  "sample_rule_decoders = \<lparr>u_perm = (\<lambda>v raw. (\<lparr>pe_level = raw\<rparr>, None)),
     u_users = (\<lambda>v raw. (v, None)),
     u_live = (\<lambda>v raw. (v, None)),
     u_cooldown = (\<lambda>v raw. (v, None)),
     u_chance = (\<lambda>v raw. (v, None)),
     u_counter = (\<lambda>v raw. (v, None)),
     u_points = (\<lambda>v raw. (v, None)),
     u_arg_regex = (\<lambda>v raw. (v, None)),
     u_category = (\<lambda>v raw. (v, None)),
     u_compare = (\<lambda>v raw. (v, None)),
     u_var = (\<lambda>v raw. (v, None)),
     u_command = (\<lambda>v raw. (v\<lparr>ct_name := raw\<rparr>, None)),
     u_event = (\<lambda>v raw. (v, None)),
     u_timer = (\<lambda>v raw. (v, None)),
     u_reward_trigger = (\<lambda>v raw. (v, None))\<rparr>"

definition sample_env :: env where
  "sample_env = \<lparr>e_lower = (\<lambda>r. r), e_upper = (\<lambda>r. r), e_print = (\<lambda>r. True), e_fold = (\<lambda>a b. a = b),
     e_regex_ok = (\<lambda>s. True), e_regex_match = (\<lambda>p s. p = s), e_parse_float = (\<lambda>s. None),
     e_format_sum = (\<lambda>f n. []), e_json_valid = (\<lambda>s. True), e_floor = None, e_parse_url = (\<lambda>s. None),
     e_is_ip = (\<lambda>s. False), e_act = sample_action_decoders, e_act' = sample_action_decoders',
     e_rule = sample_rule_decoders\<rparr>"

lemmas sample_simps = sample_env_def sample_action_decoders_def sample_action_decoders'_def sample_rule_decoders_def

lemma sample_nested_types:
  assumes "l \<in> set (action_nested sample_env a)" "l \<noteq> []"
  shows "a_type a = ''loop'' \<and> trim_space (a_params a) \<noteq> [] \<and>
    l = [\<lparr>a_type = ''delay'', a_enabled = None, a_params = tl (trim_space (a_params a))\<rparr>]"
proof (cases "action_registry sample_env (\<lambda>_ _. []) (a_type a)")
  case None
  then show ?thesis using assms by (simp add: action_nested_def)
next
  case (Some e)
  show ?thesis
  proof (cases "en_nested e")
    case None
    then show ?thesis using assms Some by (simp add: action_nested_def)
  next
    case (Some f)
    have "l \<in> set (f (a_params a))"
      using assms(1) Some \<open>action_registry sample_env (\<lambda>_ _. []) (a_type a) = Some e\<close>
      by (simp add: action_nested_def)
    then show ?thesis
      using assms(2) Some \<open>action_registry sample_env (\<lambda>_ _. []) (a_type a) = Some e\<close>
      by (auto simp: action_registry_def Let_def sample_simps register_def register_nested_def
          register_nested_effect_def decode_params_def random_pick_branches_def parallel_branches_def
          branch_nesting_def if_branches_def http_post_branches_def http_get_branches_def fetch_nesting_def
          loop_branches_def split: if_splits)
  qed
qed

lemma sample_shrinks: "shrinks sample_env"
  unfolding shrinks_def
proof (intro allI ballI)
  fix a l b
  assume l: "l \<in> set (action_nested sample_env a)" "b \<in> set l"
  then have "l \<noteq> []" by auto
  then have "trim_space (a_params a) \<noteq> []" "b = \<lparr>a_type = ''delay'', a_enabled = None, a_params = tl (trim_space (a_params a))\<rparr>"
    using sample_nested_types [OF l(1)] l(2) by auto
  then show "length (a_params b) < length (a_params a)"
    using length_trim_space [of "a_params a"] by (cases "trim_space (a_params a)") auto
qed


text \<open>A small definition: a command for moderators that times a viewer out, then loops over a delay.\<close>

definition sample_def :: def_rec where
  "sample_def = \<lparr>d_version = 1, d_trigger = \<lparr>tr_type = ''command'', tr_params = ''x''\<rparr>,
     d_conditions = [\<lparr>co_type = ''perm'', co_params = ''mod''\<rparr>],
     d_actions = [\<lparr>a_type = ''timeout'', a_enabled = None, a_params = ''bob''\<rparr>,
       \<lparr>a_type = ''loop'', a_enabled = None, a_params = ''abc''\<rparr>], d_queue = []\<rparr>"

lemma sample_valid: "Validate sample_env sample_def = []"
  by code_simp

lemma sample_flatten: "map a_type (Flatten sample_env (d_actions sample_def)) = [''timeout'', ''loop'', ''delay'']"
  by code_simp

section \<open>Properties\<close>

text \<open>The issues of a definition come out strictly ordered by path and code, without repetition, and
  are exactly the issues the checks found; the list is empty only when no check found one.\<close>

theorem validate_ordered:
  "sorted_wrt (<) (Validate E d) \<and> set (Validate E d) = set (raw_issues E d)"
  by (simp add: Validate_def finish_eq sorted_remdups_adj_strict)



text \<open>C16: A definition without issues has the supported version, a known trigger whose parameters decode,
  every step at every depth of a known type with parameters that decode and allowed under its trigger and
  permission, at most 1000 effects, at most 60000 ms of delay on its longest path, and time-left command
  names that differ from each other and from the names of its own trigger.\<close>

theorem validate_sound:
  assumes "Validate E d = []"
  shows "d_version d = 1
    \<and> (\<exists>e. trigger_registry E (tr_type (d_trigger d)) = Some e)
    \<and> list_all (step_ok E (root_chk E d)) (Flatten E (d_actions d))
    \<and> int (count_effects E (Flatten E (d_actions d))) \<le> 1000
    \<and> path_delay_ms E (d_actions d) \<le> 60000
    \<and> distinct (map (normalize_command_name E) (left_command_names E d))
    \<and> normalize_command_name E ` set (left_command_names E d) \<inter> set (trigger_command_names E d) = {}"
  using validate_Nil [OF assms] typed_Nil by blast

lemma validate_sound_witness:
  "int (count_effects sample_env (Flatten sample_env (d_actions sample_def))) \<le> 1000
   \<and> list_all (step_ok sample_env (root_chk sample_env sample_def)) (Flatten sample_env (d_actions sample_def))"
  using validate_sound [OF sample_valid] by blast

text \<open>C17: A definition without issues that a viewer's command triggers and that times out, bans or warns
  somebody, toggles the shield, deletes the message or extends a cooldown, at any depth, carries a
  permission condition of moderator level or above.\<close>

theorem moderation_needs_permission:
  assumes "Validate E d = []" "tr_type (d_trigger d) = ''command''" "a \<in> set (Flatten E (d_actions d))"
    and "a_type a \<in> {''timeout'', ''ban'', ''warn'', ''shield'', ''delete_message'', ''cooldown_add''}"
  shows "\<exists>x \<in> set (d_conditions d). co_type x = ''perm'' \<and> snd (perm_of E x) = None
    \<and> pe_level (fst (perm_of E x)) \<in> {''mod'', ''lead_mod'', ''broadcaster''}"
proof -
  have "step_ok E (root_chk E d) a"
    using validate_Nil(2) [OF assms(1)] assms(3) by (simp add: list_all_iff)
  then have "\<not> perm_missing (root_chk E d) (a_type a)" by (simp add: step_ok_def)
  then have "2 < perm_rank E (d_conditions d)"
    using assms(2,4) by (auto simp: perm_missing_def action_role_def root_chk_def)
  from perm_rank_bound [OF this] show ?thesis unfolding index_perm_levels by simp
qed

lemma moderation_needs_permission_witness:
  "\<exists>x \<in> set (d_conditions sample_def). pe_level (fst (perm_of sample_env x)) \<in> {''mod'', ''lead_mod'', ''broadcaster''}"
proof -
  have "''timeout'' \<in> set (map a_type (Flatten sample_env (d_actions sample_def)))"
    unfolding sample_flatten by simp
  then obtain a where "a \<in> set (Flatten sample_env (d_actions sample_def))" "a_type a = ''timeout''" by auto
  then show ?thesis
    using moderation_needs_permission [OF sample_valid, of a] by (auto simp: sample_def_def)
qed

end
