(* ===== verification/AutoPlan.thy ===== *)
theory AutoPlan
  imports AutoSample
begin

text \<open>
  Compiling a definition into a plan, \<open>plan.go\<close>: decoded steps with their effect keys, decoded
  conditions with the cooldowns moved last, and the lexed templates. The planner's fields are passed as
  a state; nesting runs on the same fuel as validation.
\<close>

record planned_condition =
  pn_type :: string
  pn_params :: "condition_params option"
  pn_err :: "dec_error option"
  pn_reason :: string

datatype step = Step
  (s_type: string) (s_enabled: bool) (s_params: "action_params option") (s_index: int)
  (s_effect_key: string) (s_branches: "step list list") (s_condition: "planned_condition option")

record planner =
  pl_count :: nat
  pl_templates :: "string \<rightharpoonup> token list"
  pl_shows_cooldown_left :: bool

record plan =
  p_automation :: automation
  p_conditions :: "planned_condition list"
  p_steps :: "step list"
  p_step_count :: nat
  p_templates :: "string \<rightharpoonup> token list"
  p_shows_cooldown_left :: bool

definition is_cooldown_left_token :: "token \<Rightarrow> bool" where
  "is_cooldown_left_token t \<longleftrightarrow> t_kind t = KindVar \<and> t_name t = ''cooldown'' \<and> t_payload t = ''left''"

definition lex_template :: "env \<Rightarrow> string \<Rightarrow> planner \<Rightarrow> planner" where
  "lex_template E text' pl = (let toks = Lex (e_lower E) text' in
     if \<not> list_ex is_var_token toks then pl
     else pl\<lparr>pl_shows_cooldown_left := pl_shows_cooldown_left pl \<or> list_ex is_cooldown_left_token toks,
         pl_templates := (pl_templates pl)(text' \<mapsto> toks)\<rparr>)"

text \<open>The strings reflection finds in a parameter value, in field order.\<close>

fun params_strings :: "action_params \<Rightarrow> string list" where
  "params_strings (P_text p) = [txt_text p]"
| "params_strings (P_announce p) = [ann_text p, ann_color p]"
| "params_strings (P_timeout p) = [to_login p, to_reason p]"
| "params_strings (P_ban p) = [ban_login p, ban_reason p]"
| "params_strings (P_login p) = [lo_login p]"
| "params_strings (P_warn p) = [wa_login p, wa_reason p]"
| "params_strings (P_marker p) = [mk_description p]"
| "params_strings (P_set_title p) = [ti_title p]"
| "params_strings (P_set_game p) = [ga_game p]"
| "params_strings (P_set_tags p) = [ta_tags p]"
| "params_strings (P_points_add p) = [pa_login p]"
| "params_strings (P_points_set p) = [ps_login p]"
| "params_strings (P_counter_add p) = [ca_name p]"
| "params_strings (P_counter_set p) = [cs_name p]"
| "params_strings (P_redemption p) = [re_status p]"
| "params_strings (P_run p) = [ru_automation_id p]"
| "params_strings (P_lights p) = [li_device p, li_sku p, li_device_name p, li_mode p, li_color p, li_scene_id p,
     li_scene_name p, li_scene_type p, li_scene_instance p, li_scene_value p]"
| "params_strings (P_reward_update p) = [rw_reward_id p]"
| "params_strings (P_var_set p) = [vr_scope (vs_ref p), vr_name (vs_ref p), vs_value p]"
| "params_strings (P_var_add p) = [vr_scope (va_ref p), vr_name (va_ref p)]"
| "params_strings (P_var_delete p) = [vr_scope (vd_ref p), vr_name (vd_ref p)]"
| "params_strings (P_text_step p) = [ts_op p, ts_input p, ts_arg1 p, ts_arg2 p, ts_save_as p]"
| "params_strings (P_math p) = [ma_expression p, ma_save_as p]"
| "params_strings (P_cooldown_add p) = [cda_name p]"
| "params_strings (P_http_get p) = hg_url p # hg_json_path p @ [hg_save_as p]"
| "params_strings (P_http_post p) = [hp_url p, hp_body p, hp_save_as p]"
| "params_strings (P_loop p) = [lp_times p]"
| "params_strings (P_shield p) = []"
| "params_strings (P_commercial p) = []"
| "params_strings (P_delay p) = []"
| "params_strings (P_random_pick p) = []"
| "params_strings (P_parallel p) = []"
| "params_strings (P_if p) = []"
| "params_strings P_empty = []"

definition lex_templates :: "env \<Rightarrow> action_params \<Rightarrow> planner \<Rightarrow> planner" where
  "lex_templates E p pl = foldl (\<lambda>pl s. lex_template E s pl) pl (params_strings p)"

section \<open>Conditions\<close>

definition plan_condition :: "env \<Rightarrow> condition \<Rightarrow> planner \<Rightarrow> planned_condition \<times> planner" where
  "plan_condition E c pl = (let planned = \<lparr>pn_type = co_type c, pn_params = None, pn_err = None, pn_reason = []\<rparr> in
     case condition_registry E (co_type c) of None \<Rightarrow> (planned, pl)
     | Some e \<Rightarrow> (case en_decode e (co_params c) of (params, err) \<Rightarrow>
         let planned = planned\<lparr>pn_params := (if err \<noteq> None then None else Some params), pn_err := err\<rparr>;
             pl = (case pn_params planned of
                 Some (P_compare p) \<Rightarrow> lex_template E (cmp_right p) (lex_template E (cmp_left p) pl)
               | _ \<Rightarrow> pl)
         in (planned, pl)))"

fun plan_conditions_loop :: "env \<Rightarrow> nat \<Rightarrow> condition list \<Rightarrow> planned_condition list \<Rightarrow> planned_condition list
    \<Rightarrow> planner \<Rightarrow> planned_condition list \<times> planner" where
  "plan_conditions_loop E i [] out cooldowns pl = (out @ cooldowns, pl)"
| "plan_conditions_loop E i (c # cs) out cooldowns pl = (case plan_condition E c pl of (planned, pl) \<Rightarrow>
     let planned = planned\<lparr>pn_reason := ''condition:'' @ itoa (int i) @ '':'' @ co_type c\<rparr> in
     if co_type c = ''cooldown'' then plan_conditions_loop E (Suc i) cs out (cooldowns @ [planned]) pl
     else plan_conditions_loop E (Suc i) cs (out @ [planned]) cooldowns pl)"

definition plan_conditions :: "env \<Rightarrow> condition list \<Rightarrow> planner \<Rightarrow> planned_condition list \<times> planner" where
  "plan_conditions E list pl = (if list = [] then ([], pl) else plan_conditions_loop E 0 list [] [] pl)"

section \<open>Steps\<close>

text \<open>\<open>decodeAction\<close>: the entry, the parameters, and whether they decoded.\<close>

definition decode_action :: "env \<Rightarrow> action \<Rightarrow> (action_params entry \<times> action_params) option" where
  "decode_action E a = (case action_registry E (\<lambda>_ _. []) (a_type a) of None \<Rightarrow> None
     | Some e \<Rightarrow> (case en_decode e (a_params a) of (params, err) \<Rightarrow> if err = None then Some (e, params) else None))"

type_synonym steps_fn = "action list \<Rightarrow> string \<Rightarrow> int \<Rightarrow> planner \<Rightarrow> step list \<times> planner"

text \<open>The loop of \<open>nest\<close> over the lists and their labels; \<open>rec\<close> is \<open>pl.steps\<close>.\<close>

fun nest_lists :: "steps_fn \<Rightarrow> string \<Rightarrow> int \<Rightarrow> action list list \<Rightarrow> string list \<Rightarrow> planner \<Rightarrow> step list list \<times> planner" where
  "nest_lists rec path tp (l # ls) (lab # labs) pl = (case rec l (path @ ''.'' @ lab @ ''.'') tp pl of (ss, pl) \<Rightarrow>
     (case nest_lists rec path tp ls labs pl of (bs, pl) \<Rightarrow> (ss # bs, pl)))"
| "nest_lists rec path tp _ _ pl = ([], pl)"

definition plan_nest :: "env \<Rightarrow> steps_fn \<Rightarrow> string \<Rightarrow> int \<Rightarrow> nesting \<Rightarrow> planner
    \<Rightarrow> step list list \<times> planned_condition option \<times> planner" where
  "plan_nest E rec path tp n pl = (case nest_lists rec path tp (n_lists n) (n_labels n) pl of (branches, pl) \<Rightarrow>
     (case n_condition n of None \<Rightarrow> (branches, None, pl)
      | Some c \<Rightarrow> (case plan_condition E c pl of (pc, pl) \<Rightarrow> (branches, Some pc, pl))))"

definition plan_step :: "env \<Rightarrow> string \<Rightarrow> steps_fn \<Rightarrow> action \<Rightarrow> string \<Rightarrow> int \<Rightarrow> nat \<Rightarrow> planner \<Rightarrow> step \<times> planner" where
  "plan_step E ident rec a path tp0 i pl0 =
    (let pl = pl0\<lparr>pl_count := Suc (pl_count pl0)\<rparr>;
         tp = (if tp0 < 0 then int i else tp0);
         key = ''auto:'' @ ident @ '':'' @ path
     in case decode_action E a of
       None \<Rightarrow> (Step (a_type a) (is_enabled a) None tp key [] None, pl)
     | Some (e, params) \<Rightarrow> (case en_plan e of
         Some f \<Rightarrow> (case plan_nest E rec path tp (f params) pl of (branches, pc, pl) \<Rightarrow>
           (Step (a_type a) (is_enabled a) (Some params) tp key branches pc, pl))
       | None \<Rightarrow> (Step (a_type a) (is_enabled a) (Some params) tp key [] None, lex_templates E params pl)))"

fun plan_steps_loop :: "env \<Rightarrow> string \<Rightarrow> steps_fn \<Rightarrow> nat \<Rightarrow> steps_fn" where
  "plan_steps_loop E ident rec i [] prefix tp pl = ([], pl)"
| "plan_steps_loop E ident rec i (a # as) prefix tp pl =
    (case plan_step E ident rec a (prefix @ itoa (int i)) tp i pl of (s, pl) \<Rightarrow>
      (case plan_steps_loop E ident rec (Suc i) as prefix tp pl of (ss, pl) \<Rightarrow> (s # ss, pl)))"

fun plan_steps :: "env \<Rightarrow> string \<Rightarrow> nat \<Rightarrow> steps_fn" where
  "plan_steps E ident 0 = (\<lambda>list prefix tp pl. ([], pl))"
| "plan_steps E ident (Suc n) = (\<lambda>list prefix tp pl. plan_steps_loop E ident (plan_steps E ident n) 0 list prefix tp pl)"

definition new_planner :: planner where
  "new_planner = \<lparr>pl_count = 0, pl_templates = (\<lambda>_. None), pl_shows_cooldown_left = False\<rparr>"

definition NewPlan :: "env \<Rightarrow> automation \<Rightarrow> plan" where
  "NewPlan E a = (let d = au_definition a in
     case plan_steps E (au_id a) (fuel_of (d_actions d)) (d_actions d) [] (-1) new_planner of (steps, pl) \<Rightarrow>
     (case plan_conditions E (d_conditions d) pl of (conds, pl) \<Rightarrow>
       \<lparr>p_automation = a, p_conditions = conds, p_steps = steps, p_step_count = pl_count pl,
        p_templates = pl_templates pl, p_shows_cooldown_left = pl_shows_cooldown_left pl\<rparr>))"

section \<open>The steps of a plan\<close>

text \<open>All steps of a tree, parents before their branches.\<close>

primrec all_steps :: "step \<Rightarrow> step list" where
  "all_steps (Step ty en ps ix key bs c) =
     Step ty en ps ix key bs c # concat (concat (map (map all_steps) bs))"

abbreviation steps_of :: "step list \<Rightarrow> step list" where
  "steps_of ss \<equiv> concat (map all_steps ss)"

lemma concat_concat_map: "concat (concat (map (map f) xss)) = concat (map (\<lambda>xs. concat (map f xs)) xss)"
  by (induction xss) simp_all

lemma all_steps_eq: "all_steps s = s # concat (map steps_of (s_branches s))"
  by (cases s) (simp add: concat_concat_map)

section \<open>Effect keys\<close>

text \<open>A key that is a path or continues it after a dot.\<close>

definition extends :: "string \<Rightarrow> string \<Rightarrow> bool" where
  "extends p k \<longleftrightarrow> k = p \<or> (\<exists>r. k = p @ ''.'' @ r)"

lemma extends_refl [simp]: "extends p p" by (simp add: extends_def)

lemma extends_trans: "extends (p @ ''.'' @ q) k \<Longrightarrow> extends p k"
  by (auto simp: extends_def)

lemma append_dot_eq:
  "\<lbrakk>CHR ''.'' \<notin> set u; CHR ''.'' \<notin> set v; u @ x = v @ y; x = [] \<or> hd x = CHR ''.''; y = [] \<or> hd y = CHR ''.''\<rbrakk> \<Longrightarrow> u = v"
proof (induction u arbitrary: v)
  case Nil
  then show ?case by (cases v) auto
next
  case (Cons c u)
  then show ?case by (cases v) auto
qed

lemma extends_sep:
  assumes "CHR ''.'' \<notin> set u" "CHR ''.'' \<notin> set v" "extends (q @ u) k" "extends (q @ v) k"
  shows "u = v"
proof -
  obtain x y where k: "k = q @ u @ x" "k = q @ v @ y" and x: "x = [] \<or> hd x = CHR ''.''" "y = [] \<or> hd y = CHR ''.''"
    using assms(3,4) unfolding extends_def by (metis append.assoc append_Nil2 append_Cons list.sel(1))
  then show ?thesis using append_dot_eq [OF assms(1,2) _ x] by simp
qed

lemma itoa_nat_digits: "itoa (int n) = nat_digits n"
  by (simp add: itoa_def)

lemma itoa_no_dot: "CHR ''.'' \<notin> set (itoa (int n))"
  using nat_digits_all [of n] by (auto simp: itoa_nat_digits list_all_iff is_digit_def)

lemma itoa_inj: "itoa (int m) = itoa (int n) \<Longrightarrow> m = n"
  by (metis digits_value_nat_digits itoa_nat_digits of_nat_eq_iff)

definition key_base :: "string \<Rightarrow> string" where "key_base ident = ''auto:'' @ ident @ '':''"

abbreviation keys :: "step list \<Rightarrow> string list" where "keys ss \<equiv> map s_effect_key (steps_of ss)"

text \<open>What \<open>pl.steps\<close> guarantees of a list compiled under a prefix.\<close>

definition keyed :: "string \<Rightarrow> string \<Rightarrow> step list \<Rightarrow> bool" where
  "keyed ident prefix ss \<longleftrightarrow> distinct (keys ss) \<and>
     (\<forall>k \<in> set (keys ss). \<exists>i. extends (key_base ident @ prefix @ itoa (int i)) k)"

definition keyed_fn :: "string \<Rightarrow> steps_fn \<Rightarrow> bool" where
  "keyed_fn ident rec \<longleftrightarrow> (\<forall>l prefix tp pl. keyed ident prefix (fst (rec l prefix tp pl)))"

definition good_labels :: "string list \<Rightarrow> bool" where
  "good_labels labs \<longleftrightarrow> distinct labs \<and> (\<forall>l \<in> set labs. CHR ''.'' \<notin> set l)"

lemma nest_lists_Cons:
  "fst (nest_lists rec path tp (l # ls) (lab # labs) pl) =
     fst (rec l (path @ ''.'' @ lab @ ''.'') tp pl)
     # fst (nest_lists rec path tp ls labs (snd (rec l (path @ ''.'' @ lab @ ''.'') tp pl)))"
  by (simp split: prod.splits)

lemma keyed_under:
  assumes "keyed ident (path @ ''.'' @ lab @ ''.'') ss" "k \<in> set (keys ss)"
  shows "extends (key_base ident @ path @ ''.'' @ lab) k"
  using assms by (fastforce simp: keyed_def extends_def)

lemma nest_lists_keys:
  assumes "keyed_fn ident rec" "good_labels labs"
  shows "distinct (concat (map keys (fst (nest_lists rec path tp ls labs pl))))
    \<and> (\<forall>k \<in> set (concat (map keys (fst (nest_lists rec path tp ls labs pl)))).
        \<exists>lab \<in> set labs. extends (key_base ident @ path @ ''.'' @ lab) k)"
  using assms(2)
proof (induction ls arbitrary: labs pl)
  case (Cons l ls)
  show ?case
  proof (cases labs)
    case labs: (Cons lab labs')
    let ?ss = "fst (rec l (path @ ''.'' @ lab @ ''.'') tp pl)"
    let ?rest = "fst (nest_lists rec path tp ls labs' (snd (rec l (path @ ''.'' @ lab @ ''.'') tp pl)))"
    have ss: "keyed ident (path @ ''.'' @ lab @ ''.'') ?ss" using assms(1) by (auto simp: keyed_fn_def)
    note under = keyed_under [OF ss]
    have good: "good_labels labs'" "lab \<notin> set labs'" "CHR ''.'' \<notin> set lab" "\<forall>l \<in> set labs'. CHR ''.'' \<notin> set l"
      using Cons.prems labs by (auto simp: good_labels_def)
    note IH = Cons.IH [OF good(1), of "snd (rec l (path @ ''.'' @ lab @ ''.'') tp pl)"]
    have "set (keys ?ss) \<inter> set (concat (map keys ?rest)) = {}"
    proof (rule ccontr)
      assume "set (keys ?ss) \<inter> set (concat (map keys ?rest)) \<noteq> {}"
      then obtain k where k: "k \<in> set (keys ?ss)" "k \<in> set (concat (map keys ?rest))" by blast
      from k(2) IH obtain lab' where lab': "lab' \<in> set labs'" "extends (key_base ident @ path @ ''.'' @ lab') k" by blast
      have "lab = lab'"
        using extends_sep [of lab lab' "key_base ident @ path @ ''.''" k] under [OF k(1)] lab' good by simp
      with lab' good show False by simp
    qed
    moreover have "distinct (keys ?ss)" using ss by (simp add: keyed_def)
    ultimately have "distinct (keys ?ss @ concat (map keys ?rest))" using IH by simp
    moreover have "\<forall>k \<in> set (keys ?ss @ concat (map keys ?rest)).
        \<exists>lab \<in> set labs. extends (key_base ident @ path @ ''.'' @ lab) k"
      using IH under labs by auto
    ultimately show ?thesis unfolding labs nest_lists_Cons list.map concat.simps by blast
  qed simp
qed simp

text \<open>Every entry that nests has labels that tell its lists apart.\<close>

lemma branch_labels_good: "good_labels (n_labels (branch_nesting bs))"
  by (auto simp: good_labels_def branch_nesting_def distinct_map inj_on_def itoa_no_dot dest: itoa_inj)

lemma nestings_good:
  "good_labels (n_labels (random_pick_branches rp))" "good_labels (n_labels (parallel_branches pl))"
  "good_labels (n_labels (if_branches fi))" "good_labels (n_labels (loop_branches lp))"
  "good_labels (n_labels (http_get_branches hg))" "good_labels (n_labels (http_post_branches hp))"
  using branch_labels_good [unfolded good_labels_def]
  by (simp_all add: random_pick_branches_def parallel_branches_def if_branches_def
      loop_branches_def http_get_branches_def http_post_branches_def fetch_nesting_def good_labels_def)

text \<open>The plan of an entry lists what its raw nesting lists, under good labels.\<close>

definition entry_plans :: "'p entry \<Rightarrow> bool" where
  "entry_plans e \<longleftrightarrow> (case en_plan e of
      None \<Rightarrow> en_nested e = None
    | Some g \<Rightarrow> (\<forall>p. good_labels (n_labels (g p)) \<and> length (n_labels (g p)) = length (n_lists (g p)))
        \<and> (\<exists>f. en_nested e = Some f \<and> (\<forall>raw. f raw =
            (if snd (en_decode e raw) = None then n_lists (g (fst (en_decode e raw))) else []))))"

lemma register_plans: "entry_plans (register mk um v prep check)"
  by (simp add: entry_plans_def register_def)

lemma register_nested_plans:
  assumes "\<And>p. good_labels (n_labels (nested p))" "\<And>p. length (n_labels (nested p)) = length (n_lists (nested p))"
    and "\<And>p. prj (mk p) = p"
  shows "entry_plans (register_nested mk prj um v check nested)"
    "entry_plans (register_nested_effect mk prj um v check nested)"
  using assms
  by (auto simp: entry_plans_def register_def register_nested_def register_nested_effect_def split: prod.splits)

lemma nestings_length:
  "length (n_labels (random_pick_branches rp)) = length (n_lists (random_pick_branches rp))"
  "length (n_labels (parallel_branches pl)) = length (n_lists (parallel_branches pl))"
  "length (n_labels (if_branches fi)) = length (n_lists (if_branches fi))"
  "length (n_labels (loop_branches lp)) = length (n_lists (loop_branches lp))"
  "length (n_labels (http_get_branches hg)) = length (n_lists (http_get_branches hg))"
  "length (n_labels (http_post_branches hp)) = length (n_lists (http_post_branches hp))"
  by (simp_all add: random_pick_branches_def parallel_branches_def branch_nesting_def if_branches_def
      loop_branches_def http_get_branches_def http_post_branches_def fetch_nesting_def)

lemma action_registry_plans: "action_registry E visit ty = Some e \<Longrightarrow> entry_plans e"
  unfolding action_registry_def Let_def
  by (drule map_of_SomeD)
    (auto simp: register_plans nestings_good nestings_length intro!: register_nested_plans)

lemma decode_action_Some:
  assumes "decode_action E a = Some (e, params)"
  shows "entry_plans e" "action_nested E a = (case en_plan e of None \<Rightarrow> [] | Some g \<Rightarrow> n_lists (g params))"
proof -
  from assms have e: "action_registry E (\<lambda>_ _. []) (a_type a) = Some e" "en_decode e (a_params a) = (params, None)"
    by (auto simp: decode_action_def split: option.splits prod.splits if_splits)
  show pl: "entry_plans e" using e(1) by (rule action_registry_plans)
  show "action_nested E a = (case en_plan e of None \<Rightarrow> [] | Some g \<Rightarrow> n_lists (g params))"
    using pl e by (cases "en_plan e") (auto simp: entry_plans_def action_nested_def)
qed

lemma decode_action_None: "decode_action E a = None \<Longrightarrow> action_nested E a = []"
proof (cases "action_registry E (\<lambda>_ _. []) (a_type a)")
  case (Some e)
  assume "decode_action E a = None"
  with Some have "snd (en_decode e (a_params a)) \<noteq> None"
    by (auto simp: decode_action_def split: prod.splits if_splits)
  with Some action_registry_plans [OF Some] show ?thesis
    by (cases "en_plan e") (auto simp: entry_plans_def action_nested_def)
qed (simp add: action_nested_def)

text \<open>The branches of a compiled step.\<close>

lemma plan_step_branches:
  "s_branches (fst (plan_step E ident rec a path tp i pl)) = (case decode_action E a of None \<Rightarrow> []
    | Some (e, params) \<Rightarrow> (case en_plan e of None \<Rightarrow> []
      | Some g \<Rightarrow> fst (nest_lists rec path (if tp < 0 then int i else tp) (n_lists (g params)) (n_labels (g params))
          (pl\<lparr>pl_count := Suc (pl_count pl)\<rparr>))))"
  by (simp add: plan_step_def plan_nest_def Let_def split: option.splits prod.splits)

lemma plan_step_head:
  "s_effect_key (fst (plan_step E ident rec a path tp i pl)) = key_base ident @ path"
  "s_type (fst (plan_step E ident rec a path tp i pl)) = a_type a"
  by (simp_all add: plan_step_def Let_def key_base_def split: option.splits prod.splits)

lemma keys_step: "keys [s] = s_effect_key s # concat (map keys (s_branches s))"
  by (simp add: all_steps_eq [of s] map_concat comp_def)

lemma plan_step_keys:
  assumes "keyed_fn ident rec"
  shows "distinct (keys [fst (plan_step E ident rec a path tp i pl)])
    \<and> (\<forall>k \<in> set (keys [fst (plan_step E ident rec a path tp i pl)]). extends (key_base ident @ path) k)"
proof -
  let ?s = "fst (plan_step E ident rec a path tp i pl)"
  have "distinct (concat (map keys (s_branches ?s))) \<and>
      (\<forall>k \<in> set (concat (map keys (s_branches ?s))). \<exists>lab. extends (key_base ident @ path @ ''.'' @ lab) k)"
  proof (cases "decode_action E a")
    case (Some ep)
    then obtain e params where ep: "decode_action E a = Some (e, params)" by (cases ep) auto
    show ?thesis
    proof (cases "en_plan e")
      case (Some g)
      then have "good_labels (n_labels (g params))"
        using decode_action_Some(1) [OF ep] by (simp add: entry_plans_def)
      from nest_lists_keys [OF assms this, of path] show ?thesis
        unfolding plan_step_branches ep Some option.case prod.case by blast
    qed (simp add: plan_step_branches ep)
  qed (simp add: plan_step_branches)
  moreover have "k \<noteq> key_base ident @ path \<and> extends (key_base ident @ path) k"
    if "extends (key_base ident @ path @ ''.'' @ lab) k" for k lab
    using that by (auto simp: extends_def)
  ultimately show ?thesis unfolding keys_step plan_step_head by fastforce
qed

lemma plan_steps_loop_keys:
  assumes "keyed_fn ident rec"
  shows "distinct (keys (fst (plan_steps_loop E ident rec i xs prefix tp pl))) \<and>
    (\<forall>k \<in> set (keys (fst (plan_steps_loop E ident rec i xs prefix tp pl))).
      \<exists>j \<ge> i. extends (key_base ident @ prefix @ itoa (int j)) k)"
proof (induction xs arbitrary: i pl)
  case (Cons a xs)
  let ?s = "plan_step E ident rec a (prefix @ itoa (int i)) tp i pl"
  let ?rest = "fst (plan_steps_loop E ident rec (Suc i) xs prefix tp (snd ?s))"
  have eq: "keys (fst (plan_steps_loop E ident rec i (a # xs) prefix tp pl)) = keys [fst ?s] @ keys ?rest"
    by (simp split: prod.splits)
  note step = plan_step_keys [OF assms, of E a "prefix @ itoa (int i)" tp i pl]
  note IH = Cons.IH [of "Suc i" "snd ?s"]
  have "i = j" if "k \<in> set (keys [fst ?s])" "extends (key_base ident @ prefix @ itoa (int j)) k" for k j
    using extends_sep [of "itoa (int i)" "itoa (int j)" "key_base ident @ prefix" k] step that
    by (auto simp: itoa_no_dot dest: itoa_inj)
  then have "set (keys [fst ?s]) \<inter> set (keys ?rest) = {}"
    using IH by fastforce
  moreover have "\<forall>k \<in> set (keys ?rest). \<exists>j \<ge> i. extends (key_base ident @ prefix @ itoa (int j)) k"
    using IH Suc_leD by blast
  moreover have "\<forall>k \<in> set (keys [fst ?s]). \<exists>j \<ge> i. extends (key_base ident @ prefix @ itoa (int j)) k"
    using step by blast
  ultimately show ?case unfolding eq distinct_append set_append ball_Un using step IH by blast
qed simp

lemma plan_steps_keyed: "keyed_fn ident (plan_steps E ident n)"
proof (induction n)
  case (Suc n)
  show ?case
    unfolding keyed_fn_def keyed_def plan_steps.simps using plan_steps_loop_keys [OF Suc] by blast
qed (simp add: keyed_fn_def keyed_def)

section \<open>The plan and the flattened definition\<close>

lemma plan_condition_count: "pl_count (snd (plan_condition E c pl)) = pl_count pl"
  by (auto simp: plan_condition_def lex_template_def Let_def split: option.splits prod.splits condition_params.splits)

lemma plan_conditions_count: "pl_count (snd (plan_conditions E cs pl)) = pl_count pl"
proof -
  have "pl_count (snd (plan_conditions_loop E i cs out cds pl)) = pl_count pl" for i out cds
  proof (induction cs arbitrary: i out cds pl)
    case (Cons c cs)
    then show ?case using plan_condition_count [of E c pl] by (simp add: Let_def case_prod_beta)
  qed simp
  then show ?thesis by (simp add: plan_conditions_def)
qed

lemma lex_templates_count: "pl_count (lex_templates E p pl) = pl_count pl"
proof -
  have "pl_count (foldl (\<lambda>pl s. lex_template E s pl) pl ss) = pl_count pl" for ss
    by (induction ss arbitrary: pl) (simp_all add: lex_template_def Let_def)
  then show ?thesis by (simp add: lex_templates_def)
qed

text \<open>A steps function that compiles the flattening of its list and counts it.\<close>

definition counts :: "(action list \<Rightarrow> action list) \<Rightarrow> steps_fn \<Rightarrow> bool" where
  "counts flat rec \<longleftrightarrow> (\<forall>l prefix tp pl.
     map s_type (steps_of (fst (rec l prefix tp pl))) = map a_type (flat l) \<and>
     pl_count (snd (rec l prefix tp pl)) = pl_count pl + length (flat l))"

lemma nest_lists_counts:
  assumes "counts flat rec" "length ls = length labs"
  shows "map s_type (concat (map steps_of (fst (nest_lists rec path tp ls labs pl)))) = map a_type (concat (map flat ls))
    \<and> pl_count (snd (nest_lists rec path tp ls labs pl)) = pl_count pl + length (concat (map flat ls))"
  using assms(2)
proof (induction ls labs arbitrary: pl rule: list_induct2)
  case (Cons l ls lab labs)
  have "map s_type (steps_of (fst (rec l (path @ ''.'' @ lab @ ''.'') tp pl))) = map a_type (flat l)"
    "pl_count (snd (rec l (path @ ''.'' @ lab @ ''.'') tp pl)) = pl_count pl + length (flat l)"
    using assms(1) unfolding counts_def by blast+
  then show ?case
    using Cons.IH [of "snd (rec l (path @ ''.'' @ lab @ ''.'') tp pl)"] by (simp add: case_prod_beta)
qed simp

lemma plan_step_counts:
  assumes "counts flat rec"
  shows "map s_type (all_steps (fst (plan_step E ident rec a path tp i pl))) =
      a_type a # map a_type (concat (map flat (action_nested E a)))
    \<and> pl_count (snd (plan_step E ident rec a path tp i pl)) =
      pl_count pl + Suc (length (concat (map flat (action_nested E a))))"
proof (cases "decode_action E a")
  case None
  then show ?thesis by (simp add: plan_step_def decode_action_None Let_def)
next
  case (Some ep)
  then obtain e params where ep: "decode_action E a = Some (e, params)" by (cases ep) auto
  show ?thesis
  proof (cases "en_plan e")
    case None
    then show ?thesis using ep decode_action_Some(2) [OF ep]
      by (simp add: plan_step_def Let_def lex_templates_count)
  next
    case (Some g)
    then have len: "length (n_lists (g params)) = length (n_labels (g params))"
      using decode_action_Some(1) [OF ep] by (simp add: entry_plans_def)
    let ?pl = "pl\<lparr>pl_count := Suc (pl_count pl)\<rparr>" and ?tp = "if tp < 0 then int i else tp"
    have nl: "map s_type (concat (map steps_of (fst (nest_lists rec path ?tp (n_lists (g params)) (n_labels (g params)) ?pl))))
        = map a_type (concat (map flat (action_nested E a)))"
      "pl_count (snd (nest_lists rec path ?tp (n_lists (g params)) (n_labels (g params)) ?pl))
        = Suc (pl_count pl) + length (concat (map flat (action_nested E a)))"
      using nest_lists_counts [OF assms len, of path ?tp ?pl] decode_action_Some(2) [OF ep] Some by simp_all
    have "pl_count (snd (plan_step E ident rec a path tp i pl)) = Suc (pl_count pl) + length (concat (map flat (action_nested E a)))"
      using nl(2) ep Some plan_condition_count
      by (auto simp: plan_step_def plan_nest_def Let_def split: prod.splits option.splits) (metis snd_conv)+
    then show ?thesis
      using nl(1) ep Some by (simp add: all_steps_eq [of "fst (plan_step E ident rec a path tp i pl)"]
          plan_step_head plan_step_branches)
  qed
qed

lemma plan_steps_counts: "counts (flatten_fuel E n) (plan_steps E ident n)"
proof (induction n)
  case (Suc n)
  have "map s_type (steps_of (fst (plan_steps_loop E ident (plan_steps E ident n) i l prefix tp pl))) = map a_type (flatten_fuel E (Suc n) l)
    \<and> pl_count (snd (plan_steps_loop E ident (plan_steps E ident n) i l prefix tp pl)) = pl_count pl + length (flatten_fuel E (Suc n) l)"
    for i l prefix tp pl
  proof (induction l arbitrary: i pl)
    case (Cons a l)
    let ?s = "plan_step E ident (plan_steps E ident n) a (prefix @ itoa (int i)) tp i pl"
    show ?case
      using plan_step_counts [OF Suc, of E ident a "prefix @ itoa (int i)" tp i pl] Cons.IH [of "Suc i" "snd ?s"]
      by (simp add: case_prod_beta)
  qed simp
  then show ?case by (simp add: counts_def)
qed (simp add: counts_def)

section \<open>Cooldowns come last\<close>

lemma plan_condition_type: "pn_type (fst (plan_condition E c pl)) = co_type c"
  by (simp add: plan_condition_def Let_def case_prod_beta split: option.split)

lemma plan_conditions_types:
  "map pn_type (fst (plan_conditions E cs pl)) =
     filter (\<lambda>t. t \<noteq> ''cooldown'') (map co_type cs) @ filter (\<lambda>t. t = ''cooldown'') (map co_type cs)"
proof -
  have "map pn_type (fst (plan_conditions_loop E i cs out cds pl)) =
     map pn_type out @ filter (\<lambda>t. t \<noteq> ''cooldown'') (map co_type cs)
     @ map pn_type cds @ filter (\<lambda>t. t = ''cooldown'') (map co_type cs)" for i out cds
    by (induction cs arbitrary: i out cds pl) (simp_all add: Let_def case_prod_beta plan_condition_type)
  then show ?thesis by (simp add: plan_conditions_def)
qed

section \<open>Properties\<close>

text \<open>C18: Every step of a plan, at any depth, has an effect key of its own, so a retried effect is never
  taken for another one; the plan has one step per action of the flattened definition, of the same types in
  the same order, and \<open>StepCount\<close> is their number.\<close>

theorem plan_steps_faithful:
  "distinct (map s_effect_key (steps_of (p_steps (NewPlan E a))))
   \<and> map s_type (steps_of (p_steps (NewPlan E a))) = map a_type (Flatten E (d_actions (au_definition a)))
   \<and> p_step_count (NewPlan E a) = length (Flatten E (d_actions (au_definition a)))"
proof -
  let ?xs = "d_actions (au_definition a)"
  let ?r = "plan_steps E (au_id a) (fuel_of ?xs) ?xs [] (-1) new_planner"
  have steps: "p_steps (NewPlan E a) = fst ?r" "p_step_count (NewPlan E a) = pl_count (snd ?r)"
    using plan_conditions_count by (simp_all add: NewPlan_def Let_def case_prod_beta)
  have "keyed (au_id a) [] (fst ?r)" using plan_steps_keyed [of "au_id a" E "fuel_of ?xs"] by (auto simp: keyed_fn_def)
  moreover have "map s_type (steps_of (fst ?r)) = map a_type (Flatten E ?xs)"
      "pl_count (snd ?r) = length (Flatten E ?xs)"
    using plan_steps_counts [of E "fuel_of ?xs" "au_id a"] by (auto simp: counts_def Flatten_def new_planner_def)
  ultimately show ?thesis by (simp add: steps keyed_def)
qed

text \<open>A plan evaluates its conditions in the order of the definition, except that every cooldown comes
  after every other condition, so a cooldown is only claimed when all the others have passed.\<close>

theorem plan_cooldowns_last:
  "map pn_type (p_conditions (NewPlan E a)) =
     filter (\<lambda>t. t \<noteq> ''cooldown'') (map co_type (d_conditions (au_definition a)))
     @ filter (\<lambda>t. t = ''cooldown'') (map co_type (d_conditions (au_definition a)))"
  by (simp add: NewPlan_def Let_def case_prod_beta plan_conditions_types)

end
