(* ===== verification/AutoMatch.thy ===== *)
theory AutoMatch
  imports AutoPlan
begin

text \<open>
  Matching and indexing: \<open>match.go\<close>, \<open>index.go\<close> and the time-left entries of \<open>cooldown_left.go\<close>. The
  index is built by a fold over the enabled automations in run order; its lists only grow.
\<close>

section \<open>Matching text\<close>

text \<open>\<open>strings.EqualFold\<close>: rune by rune, ASCII letters by case, other runes by the simple-folding
  table \<open>e_fold\<close>.\<close>

definition fold_rune_eq :: "env \<Rightarrow> nat \<Rightarrow> nat \<Rightarrow> bool" where
  "fold_rune_eq E a b \<longleftrightarrow> a = b \<or>
     (if a < 128 \<and> b < 128 then lower_rune (\<lambda>r. r) a = lower_rune (\<lambda>r. r) b else e_fold E a b)"

definition equal_fold :: "env \<Rightarrow> string \<Rightarrow> string \<Rightarrow> bool" where
  "equal_fold E s t \<longleftrightarrow> list_all2 (fold_rune_eq E) (map fst (runes s)) (map fst (runes t))"

record match_name = mn_text :: string mn_lower :: string

definition dispatch_routed :: "command_trigger \<Rightarrow> string \<Rightarrow> bool" where
  "dispatch_routed t name = (if ct_match t \<noteq> ''start'' \<and> ct_match t \<noteq> ''exact'' then False
     else length name > 1 \<and> name ! 0 = CHR ''!'' \<and> \<not> list_ex (\<lambda>(r, _). is_space r) (runes name))"

definition subject_has_prefix :: "env \<Rightarrow> bool \<Rightarrow> string \<Rightarrow> string \<Rightarrow> bool" where
  "subject_has_prefix E fl text' prefix = (if length text' < length prefix then False
     else if fl then equal_fold E (take (length prefix) text') prefix
     else take (length prefix) text' = prefix)"

text \<open>\<open>None\<close> for no match, the arguments otherwise. The byte after the name is tested as a rune.\<close>

definition subject_start :: "env \<Rightarrow> bool \<Rightarrow> string \<Rightarrow> string \<Rightarrow> string option" where
  "subject_start E fl raw name = (let text' = trim_space raw in
     if \<not> subject_has_prefix E fl text' name then None
     else let rest = drop (length name) text' in
       if rest \<noteq> [] \<and> \<not> is_space (byte (rest ! 0)) then None else Some (trim_space rest))"

definition subject_exact :: "env \<Rightarrow> bool \<Rightarrow> string \<Rightarrow> string \<Rightarrow> bool" where
  "subject_exact E fl raw name = (let text' = trim_space raw in
     if fl then equal_fold E text' name else text' = name)"

definition subject_anywhere :: "env \<Rightarrow> bool \<Rightarrow> string \<Rightarrow> match_name \<Rightarrow> bool" where
  "subject_anywhere E fl raw n = (if fl then contains (to_lower (e_lower E) raw) (mn_lower n)
     else contains raw (mn_text n))"

fun any_start :: "env \<Rightarrow> bool \<Rightarrow> string \<Rightarrow> match_name list \<Rightarrow> string \<times> bool" where
  "any_start E fl raw [] = ([], False)"
| "any_start E fl raw (n # ns) = (case subject_start E fl raw (mn_text n) of
      Some args \<Rightarrow> (args, True) | None \<Rightarrow> any_start E fl raw ns)"

section \<open>Compiled triggers\<close>

record compiled =
  tg_plan :: plan
  tg_command :: command_trigger
  tg_filters :: "(string \<times> string) list"
  tg_kind :: "event_kind option"
  tg_reward_id :: string
  tg_left :: "cooldown_condition option"
  tg_scan_names :: "match_name list"
  tg_all_names :: "match_name list"
  tg_regex :: "string option"

definition new_compiled :: "plan \<Rightarrow> compiled" where
  "new_compiled p = \<lparr>tg_plan = p, tg_command = zero_command_trigger\<lparr>ct_match := [], ct_sources := []\<rparr>, tg_filters = [],
     tg_kind = None, tg_reward_id = [], tg_left = None, tg_scan_names = [], tg_all_names = [], tg_regex = None\<rparr>"

definition compile_trigger_regex :: "env \<Rightarrow> command_trigger \<Rightarrow> string option" where
  "compile_trigger_regex E c = (let pattern = (if \<not> ct_case_sensitive c then ''(?i)'' @ ct_name c else ct_name c) in
     if e_regex_ok E pattern then Some pattern else None)"

definition mk_name :: "env \<Rightarrow> string \<Rightarrow> match_name" where
  "mk_name E name = \<lparr>mn_text = name, mn_lower = to_lower (e_lower E) name\<rparr>"

definition compile_match :: "env \<Rightarrow> compiled \<Rightarrow> compiled" where
  "compile_match E t = (let names = command_names (tg_command t) in
     t\<lparr>tg_all_names := map (mk_name E) names,
       tg_scan_names := map (mk_name E) (filter (\<lambda>n. \<not> dispatch_routed (tg_command t) n) names),
       tg_regex := (if ct_match (tg_command t) = ''regex'' then compile_trigger_regex E (tg_command t) else tg_regex t)\<rparr>)"

definition match_names :: "env \<Rightarrow> compiled \<Rightarrow> match_name list \<Rightarrow> string \<Rightarrow> string \<times> bool" where
  "match_names E t names raw = (let fl = \<not> ct_case_sensitive (tg_command t); mode = ct_match (tg_command t) in
     if mode = ''regex'' then (raw, (case tg_regex t of None \<Rightarrow> False | Some re \<Rightarrow> e_regex_match E re raw))
     else if mode = ''start'' then any_start E fl raw names
     else if mode = ''exact'' then ([], list_ex (\<lambda>n. subject_exact E fl raw (mn_text n)) names)
     else if mode = ''anywhere'' then ([], list_ex (subject_anywhere E fl raw) names)
     else ([], False))"

definition match_chat :: "env \<Rightarrow> compiled \<Rightarrow> string \<Rightarrow> string \<times> bool" where
  "match_chat E t raw = match_names E t (tg_scan_names t) raw"

definition match_sub_message :: "env \<Rightarrow> compiled \<Rightarrow> string \<Rightarrow> string \<times> bool" where
  "match_sub_message E t raw = match_names E t (tg_all_names t) raw"

section \<open>The index\<close>

record trigger_index =
  ix_plans :: "string \<rightharpoonup> plan"
  ix_commands :: "string \<Rightarrow> compiled list"
  ix_kinds :: "string \<Rightarrow> compiled list"
  ix_chat_scan :: "compiled list"
  ix_sub_message :: "compiled list"

definition empty_index :: trigger_index where
  "empty_index = \<lparr>ix_plans = (\<lambda>_. None), ix_commands = (\<lambda>_. []), ix_kinds = (\<lambda>_. []),
     ix_chat_scan = [], ix_sub_message = []\<rparr>"

definition order_key :: "automation \<Rightarrow> string" where
  "order_key a = au_name a @ [char_of (0::nat)] @ au_id a"

definition run_order :: "automation list \<Rightarrow> automation list" where
  "run_order list = sort_key order_key (filter au_enabled list)"

fun chat_names_loop :: "env \<Rightarrow> compiled \<Rightarrow> string list \<Rightarrow> bool \<Rightarrow> string set \<Rightarrow> trigger_index \<Rightarrow> bool \<times> trigger_index" where
  "chat_names_loop E entry [] scanned seen idx = (scanned, idx)"
| "chat_names_loop E entry (n # ns) scanned seen idx =
    (if \<not> dispatch_routed (tg_command entry) n then chat_names_loop E entry ns True seen idx
     else let key = normalize_command_name E n in
       if key \<in> seen then chat_names_loop E entry ns scanned seen idx
       else chat_names_loop E entry ns scanned (insert key seen)
         (idx\<lparr>ix_commands := (ix_commands idx)(key := ix_commands idx key @ [entry])\<rparr>))"

definition add_chat_names :: "env \<Rightarrow> compiled \<Rightarrow> trigger_index \<Rightarrow> trigger_index" where
  "add_chat_names E entry idx = (case chat_names_loop E entry (command_names (tg_command entry)) False {} idx of
     (scanned, idx) \<Rightarrow> if scanned then idx\<lparr>ix_chat_scan := ix_chat_scan idx @ [entry]\<rparr> else idx)"

definition trigger_raw :: "plan \<Rightarrow> raw" where
  "trigger_raw p = tr_params (d_trigger (au_definition (p_automation p)))"

definition add_command :: "env \<Rightarrow> plan \<Rightarrow> trigger_index \<Rightarrow> trigger_index" where
  "add_command E plan idx = (case decode_params (u_command (e_rule E)) zero_command_trigger (trigger_raw plan) of (t, err) \<Rightarrow>
     if err \<noteq> None then idx
     else let entry = compile_match E ((new_compiled plan)\<lparr>tg_command := t\<rparr>);
              idx = (if ''chat'' \<in> set (ct_sources t) then add_chat_names E entry idx else idx)
          in if ''sub_message'' \<in> set (ct_sources t)
             then idx\<lparr>ix_sub_message := ix_sub_message idx @ [entry]\<rparr> else idx)"

definition add_kinded :: "'a \<times> dec_error option \<Rightarrow> ('a \<Rightarrow> string) \<Rightarrow> ('a \<Rightarrow> compiled \<Rightarrow> compiled) \<Rightarrow> plan
    \<Rightarrow> trigger_index \<Rightarrow> trigger_index" where
  "add_kinded decoded kind_name fill plan idx = (case decoded of (t, err) \<Rightarrow>
     if err \<noteq> None then idx
     else case lookup_event_kind (kind_name t) of None \<Rightarrow> idx
       | Some k \<Rightarrow> let entry = fill t ((new_compiled plan)\<lparr>tg_kind := Some k\<rparr>) in
           idx\<lparr>ix_kinds := (ix_kinds idx)(kind_name t := ix_kinds idx (kind_name t) @ [entry])\<rparr>)"

definition add_event :: "env \<Rightarrow> plan \<Rightarrow> trigger_index \<Rightarrow> trigger_index" where
  "add_event E plan idx = add_kinded (decode_params (u_event (e_rule E)) zero_event_trigger (trigger_raw plan))
     ev_kind (\<lambda>t e. e\<lparr>tg_filters := ev_filters t\<rparr>) plan idx"

definition reward_redemption_kind :: string where
  "reward_redemption_kind = ''channel.channel_points_custom_reward_redemption.add''"

definition add_reward :: "env \<Rightarrow> plan \<Rightarrow> trigger_index \<Rightarrow> trigger_index" where
  "add_reward E plan idx = add_kinded (decode_params (u_reward_trigger (e_rule E)) zero_reward_trigger (trigger_raw plan))
     (\<lambda>_. reward_redemption_kind) (\<lambda>t e. e\<lparr>tg_reward_id := rt_reward_id t\<rparr>) plan idx"

definition trigger_compiler :: "env \<Rightarrow> string \<Rightarrow> (plan \<Rightarrow> trigger_index \<Rightarrow> trigger_index) option" where
  "trigger_compiler E = map_of [(''command'', add_command E), (''event'', add_event E), (''reward'', add_reward E)]"

section \<open>Time-left commands\<close>

definition left_of :: "planned_condition \<Rightarrow> cooldown_condition list" where
  "left_of c = (case pn_params c of Some (P_cooldown p) \<Rightarrow> (if cd_left_command p \<noteq> [] then [p] else []) | _ \<Rightarrow> [])"

primrec left_walk :: "step \<Rightarrow> cooldown_condition list" where
  "left_walk (Step ty en ps ix key bs c) = (if \<not> en then []
     else (case c of None \<Rightarrow> [] | Some pc \<Rightarrow> left_of pc) @ concat (concat (map (map left_walk) bs)))"

definition left_cooldowns :: "plan \<Rightarrow> cooldown_condition list" where
  "left_cooldowns p = concat (map left_of (p_conditions p)) @ concat (map left_walk (p_steps p))"

definition left_entry :: "env \<Rightarrow> plan \<Rightarrow> cooldown_condition \<Rightarrow> compiled" where
  "left_entry E plan left = compile_match E ((new_compiled plan)\<lparr>tg_left := Some left,
     tg_command := \<lparr>ct_name = cd_left_command left, ct_aliases = [], ct_match = ''start'',
       ct_case_sensitive = False, ct_sources = [''chat'']\<rparr>\<rparr>)"

definition add_left_commands :: "env \<Rightarrow> plan \<Rightarrow> trigger_index \<Rightarrow> trigger_index" where
  "add_left_commands E plan idx =
     foldl (\<lambda>idx left. add_chat_names E (left_entry E plan left) idx) idx (left_cooldowns plan)"

definition index_automation :: "env \<Rightarrow> trigger_index \<Rightarrow> automation \<Rightarrow> trigger_index" where
  "index_automation E idx a = (let plan = NewPlan E a; idx = idx\<lparr>ix_plans := (ix_plans idx)(au_id a \<mapsto> plan)\<rparr>;
     idx = (case trigger_compiler E (tr_type (d_trigger (au_definition a))) of None \<Rightarrow> idx | Some add \<Rightarrow> add plan idx)
     in add_left_commands E plan idx)"

definition CompileIndex :: "env \<Rightarrow> automation list \<Rightarrow> trigger_index" where
  "CompileIndex E list = foldl (index_automation E) empty_index (run_order list)"

text \<open>\<open>Plan\<close>, \<open>Command\<close> and \<open>Kind\<close>; a nil index answers nil.\<close>

definition index_plan :: "trigger_index option \<Rightarrow> string \<Rightarrow> plan option" where
  "index_plan i ident = (case i of None \<Rightarrow> None | Some idx \<Rightarrow> ix_plans idx ident)"

definition index_command :: "env \<Rightarrow> trigger_index option \<Rightarrow> string \<Rightarrow> compiled list" where
  "index_command E i name = (case i of None \<Rightarrow> [] | Some idx \<Rightarrow> ix_commands idx (to_lower (e_lower E) name))"

definition index_kind :: "trigger_index option \<Rightarrow> string \<Rightarrow> compiled list" where
  "index_kind i k = (case i of None \<Rightarrow> [] | Some idx \<Rightarrow> ix_kinds idx k)"

section \<open>The order of the index\<close>

lemma NewPlan_automation [simp]: "p_automation (NewPlan E a) = a"
  by (simp add: NewPlan_def Let_def case_prod_beta)

abbreviation entry_key :: "compiled \<Rightarrow> string" where
  "entry_key e \<equiv> order_key (p_automation (tg_plan e))"

text \<open>A list of entries in run order, none after the automation keyed \<open>K\<close>.\<close>

definition in_order :: "(automation \<Rightarrow> bool) \<Rightarrow> string \<Rightarrow> compiled list \<Rightarrow> bool" where
  "in_order P K L \<longleftrightarrow> sorted (map entry_key L) \<and> (\<forall>e \<in> set L. P (p_automation (tg_plan e)) \<and> entry_key e \<le> K)"

text \<open>The chat scan of an entry holds exactly its names the command stage does not own, and there are some.\<close>

definition scans :: "env \<Rightarrow> compiled \<Rightarrow> bool" where
  "scans E e \<longleftrightarrow> tg_scan_names e = map (mk_name E) (filter (\<lambda>n. \<not> dispatch_routed (tg_command e) n) (command_names (tg_command e)))"

definition index_ok :: "env \<Rightarrow> (automation \<Rightarrow> bool) \<Rightarrow> string \<Rightarrow> trigger_index \<Rightarrow> bool" where
  "index_ok E P K idx \<longleftrightarrow> (\<forall>k. in_order P K (ix_commands idx k)) \<and> (\<forall>k. in_order P K (ix_kinds idx k))
     \<and> in_order P K (ix_sub_message idx) \<and> in_order P K (ix_chat_scan idx)
     \<and> (\<forall>e \<in> set (ix_chat_scan idx). scans E e \<and> tg_scan_names e \<noteq> [])
     \<and> (\<forall>k. \<forall>e \<in> set (ix_commands idx k). scans E e)"

lemma in_order_Nil [simp]: "in_order P K []"
  by (simp add: in_order_def)

lemma in_order_snoc:
  "\<lbrakk>in_order P K L; P (p_automation (tg_plan e)); entry_key e = K\<rbrakk> \<Longrightarrow> in_order P K (L @ [e])"
  by (auto simp: in_order_def sorted_append)

lemma in_order_mono: "\<lbrakk>in_order P K L; K \<le> K'\<rbrakk> \<Longrightarrow> in_order P K' L"
  by (auto simp: in_order_def)

lemma index_ok_mono: "\<lbrakk>index_ok E P K idx; K \<le> K'\<rbrakk> \<Longrightarrow> index_ok E P K' idx"
  by (auto simp: index_ok_def intro: in_order_mono)

lemma compile_match_sel [simp]:
  "tg_plan (compile_match E t) = tg_plan t" "tg_command (compile_match E t) = tg_command t" "scans E (compile_match E t)"
  by (simp_all add: compile_match_def Let_def scans_def)

lemma new_compiled_plan [simp]: "tg_plan (new_compiled p) = p"
  by (simp add: new_compiled_def)

lemma chat_names_loop_ok:
  assumes "index_ok E P K idx" "P (p_automation (tg_plan e))" "entry_key e = K" "scans E e"
  shows "index_ok E P K (snd (chat_names_loop E e ns sc seen idx))"
  using assms(1)
proof (induction ns arbitrary: sc seen idx)
  case (Cons n ns)
  have "index_ok E P K (idx\<lparr>ix_commands := (ix_commands idx)(key := ix_commands idx key @ [e])\<rparr>)" for key
    using Cons.prems assms(2-4) by (auto simp: index_ok_def intro: in_order_snoc)
  then show ?case using Cons by (simp add: Let_def)
qed simp

lemma chat_names_loop_scanned:
  "fst (chat_names_loop E e ns sc seen idx) \<longleftrightarrow> sc \<or> list_ex (\<lambda>n. \<not> dispatch_routed (tg_command e) n) ns"
  by (induction E e ns sc seen idx rule: chat_names_loop.induct) (auto simp: Let_def)

lemma add_chat_names_ok:
  assumes "index_ok E P K idx" "P (p_automation (tg_plan e))" "entry_key e = K" "scans E e"
  shows "index_ok E P K (add_chat_names E e idx)"
proof -
  let ?r = "chat_names_loop E e (command_names (tg_command e)) False {} idx"
  have ok: "index_ok E P K (snd ?r)" using chat_names_loop_ok [OF assms] .
  have "tg_scan_names e \<noteq> []" if "fst ?r"
    using that assms(4) by (auto simp: chat_names_loop_scanned scans_def list_ex_iff filter_empty_conv)
  then show ?thesis using ok assms(2-4)
    by (auto simp: add_chat_names_def case_prod_beta index_ok_def intro: in_order_snoc)
qed

lemma add_kinded_ok:
  assumes "index_ok E P (order_key (p_automation plan)) idx" "P (p_automation plan)"
    and "\<And>t c. tg_plan (fill t c) = tg_plan c"
  shows "index_ok E P (order_key (p_automation plan)) (add_kinded d kn fill plan idx)"
  using assms
  by (auto simp: add_kinded_def Let_def index_ok_def split: prod.splits option.splits intro!: in_order_snoc)

lemma index_automation_ok:
  assumes "index_ok E P K idx" "K \<le> order_key a" "P a"
  shows "index_ok E P (order_key a) (index_automation E idx a)"
proof -
  let ?plan = "NewPlan E a"
  have ok: "index_ok E P (order_key a) idx" using assms(1,2) by (rule index_ok_mono)
  have plans: "index_ok E P (order_key a) (i\<lparr>ix_plans := m\<rparr>) = index_ok E P (order_key a) i" for i m
    by (simp add: index_ok_def)
  have sub: "index_ok E P (order_key a) (i\<lparr>ix_sub_message := ix_sub_message i @ [e]\<rparr>)"
    if "index_ok E P (order_key a) i" "tg_plan e = ?plan" for i e
    using that assms(3) by (auto simp: index_ok_def intro: in_order_snoc)
  have chat: "index_ok E P (order_key a) (add_chat_names E e i)"
    if "index_ok E P (order_key a) i" "tg_plan e = ?plan" "scans E e" for i e
    using that assms(3) by (intro add_chat_names_ok) auto
  have cmd: "index_ok E P (order_key a) (add_command E ?plan i)" if "index_ok E P (order_key a) i" for i
    using that by (auto simp: add_command_def Let_def split: prod.splits intro!: sub chat)
  have ev: "index_ok E P (order_key a) (add_event E ?plan i)" "index_ok E P (order_key a) (add_reward E ?plan i)"
    if "index_ok E P (order_key a) i" for i
    using that assms(3)
    by (simp_all add: add_event_def add_reward_def add_kinded_ok [where plan = ?plan, simplified])
  have comp: "index_ok E P (order_key a) (f ?plan i)"
    if "trigger_compiler E ty = Some f" "index_ok E P (order_key a) i" for f ty i
    using that cmd ev by (auto simp: trigger_compiler_def split: if_splits)
  have left: "index_ok E P (order_key a) (foldl (\<lambda>idx left. add_chat_names E (left_entry E ?plan left) idx) i ls)"
    if "index_ok E P (order_key a) i" for i ls
    using that by (induction ls arbitrary: i) (simp_all add: chat left_entry_def)
  show ?thesis
    using ok comp
    by (auto simp: index_automation_def Let_def add_left_commands_def plans split: option.splits intro!: left)
qed

lemma CompileIndex_ok: "index_ok E (\<lambda>a. a \<in> set list \<and> au_enabled a) K
    (foldl (index_automation E) empty_index xs)"
  if "sorted (map order_key xs)" "set xs \<subseteq> {a \<in> set list. au_enabled a}" "\<forall>a \<in> set xs. order_key a \<le> K"
  using that
proof (induction xs arbitrary: K rule: rev_induct)
  case Nil
  then show ?case by (simp add: empty_index_def index_ok_def)
next
  case (snoc a xs)
  have "index_ok E (\<lambda>a. a \<in> set list \<and> au_enabled a) (order_key a) (foldl (index_automation E) empty_index xs)"
    using snoc.prems by (intro snoc.IH) (auto simp: sorted_append)
  then have "index_ok E (\<lambda>a. a \<in> set list \<and> au_enabled a) (order_key a)
      (foldl (index_automation E) empty_index (xs @ [a]))"
    using snoc.prems by (auto intro: index_automation_ok)
  then show ?case using snoc.prems by (auto intro: index_ok_mono)
qed

lemma run_order_sorted: "sorted (map order_key (run_order list))"
  by (simp add: run_order_def)

lemma sorted_le_last: "\<lbrakk>sorted xs; x \<in> set xs\<rbrakk> \<Longrightarrow> x \<le> last xs"
  by (induction xs) auto

lemma CompileIndex_index_ok:
  "\<exists>K. index_ok E (\<lambda>a. a \<in> set list \<and> au_enabled a) K (CompileIndex E list)"
proof (cases "run_order list")
  case Nil
  then show ?thesis unfolding CompileIndex_def by (auto simp: empty_index_def index_ok_def)
next
  case (Cons a xs)
  let ?K = "order_key (last (run_order list))"
  have "\<forall>b \<in> set (run_order list). order_key b \<le> ?K"
    using sorted_le_last [OF run_order_sorted [of list]] Cons by (auto simp: last_map)
  then have "index_ok E (\<lambda>a. a \<in> set list \<and> au_enabled a) ?K (CompileIndex E list)"
    unfolding CompileIndex_def by (intro CompileIndex_ok run_order_sorted) (auto simp: run_order_def)
  then show ?thesis by blast
qed

section \<open>Every chat name is indexed\<close>

definition grows :: "trigger_index \<Rightarrow> trigger_index \<Rightarrow> bool" where
  "grows i j \<longleftrightarrow> (\<forall>k. set (ix_commands i k) \<subseteq> set (ix_commands j k)) \<and> set (ix_chat_scan i) \<subseteq> set (ix_chat_scan j)"

lemma grows_refl [simp]: "grows i i" by (simp add: grows_def)

lemma grows_upd [simp]:
  "grows i (j\<lparr>ix_sub_message := m\<rparr>) = grows i j" "grows i (j\<lparr>ix_plans := ps\<rparr>) = grows i j"
  by (simp_all add: grows_def)

lemma grows_trans: "\<lbrakk>grows i j; grows j k\<rbrakk> \<Longrightarrow> grows i k"
  by (meson grows_def subset_trans)

lemma chat_names_loop_grows: "grows idx (snd (chat_names_loop E e ns sc seen idx))"
proof (induction E e ns sc seen idx rule: chat_names_loop.induct)
  case (2 E e n ns sc seen idx)
  have "grows idx (idx\<lparr>ix_commands := (ix_commands idx)(k := ix_commands idx k @ [e])\<rparr>)" for k
    by (auto simp: grows_def)
  with 2 show ?case by (auto simp: Let_def intro: grows_trans)
qed simp

lemma add_chat_names_grows: "grows idx (add_chat_names E e idx)"
  using chat_names_loop_grows [of idx E e "command_names (tg_command e)" False "{}"]
  by (auto simp: add_chat_names_def case_prod_beta grows_def)

lemma add_kinded_grows: "grows idx (add_kinded d kn fill plan idx)"
  by (auto simp: add_kinded_def Let_def grows_def split: prod.splits option.splits)

lemma add_command_grows: "grows idx (add_command E plan idx)"
  by (simp add: add_command_def Let_def case_prod_beta add_chat_names_grows)

lemma add_left_commands_grows: "grows idx (add_left_commands E plan idx)"
proof -
  have "grows i (foldl (\<lambda>idx left. add_chat_names E (left_entry E plan left) idx) i ls)" for i ls
    by (induction ls arbitrary: i) (auto intro: grows_trans add_chat_names_grows)
  then show ?thesis by (simp add: add_left_commands_def)
qed

lemma index_automation_grows: "grows idx (index_automation E idx a)"
proof -
  have comp: "grows i (f (NewPlan E a) i)" if "trigger_compiler E ty = Some f" for i ty f
  proof -
    have "f = add_command E \<or> f = add_event E \<or> f = add_reward E"
      using that by (auto simp: trigger_compiler_def split: if_splits)
    then show ?thesis
    proof (elim disjE)
      assume "f = add_event E"
      then show ?thesis by (simp only: add_event_def add_kinded_grows)
    next
      assume "f = add_reward E"
      then show ?thesis by (simp only: add_reward_def add_kinded_grows)
    qed (simp only: add_command_grows)
  qed
  let ?idx = "idx\<lparr>ix_plans := (ix_plans idx)(au_id a \<mapsto> NewPlan E a)\<rparr>"
  have mid: "grows idx (case trigger_compiler E (tr_type (d_trigger (au_definition a))) of
      None \<Rightarrow> ?idx | Some add \<Rightarrow> add (NewPlan E a) ?idx)"
  proof (cases "trigger_compiler E (tr_type (d_trigger (au_definition a)))")
    case (Some f)
    have "grows idx ?idx" by simp
    then show ?thesis using grows_trans [OF _ comp [OF Some]] Some by simp
  qed simp
  show ?thesis
    unfolding index_automation_def Let_def
    by (rule grows_trans [OF mid add_left_commands_grows])
qed

lemma foldl_index_grows: "grows idx (foldl (index_automation E) idx xs)"
  by (induction xs arbitrary: idx) (auto intro: grows_trans index_automation_grows)

lemma chat_names_loop_routed:
  "\<lbrakk>\<forall>k \<in> seen. e \<in> set (ix_commands idx k); n \<in> set ns; dispatch_routed (tg_command e) n\<rbrakk> \<Longrightarrow>
   e \<in> set (ix_commands (snd (chat_names_loop E e ns sc seen idx)) (normalize_command_name E n))"
proof (induction E e ns sc seen idx rule: chat_names_loop.induct)
  case (2 E e m ns sc seen idx)
  let ?key = "normalize_command_name E m"
  let ?idx = "idx\<lparr>ix_commands := (ix_commands idx)(?key := ix_commands idx ?key @ [e])\<rparr>"
  have first: "e \<in> set (ix_commands (snd (chat_names_loop E e ns sc seen' i)) ?key)"
    if "e \<in> set (ix_commands i ?key)" for i seen'
    using that chat_names_loop_grows [of i E e ns sc seen'] by (auto simp: grows_def)
  show ?case
  proof (cases "n = m")
    case True
    then show ?thesis using "2.prems" first [of idx seen] first [of ?idx "insert ?key seen"]
      by (auto simp: Let_def)
  next
    case False
    then show ?thesis using 2 by (auto simp: Let_def)
  qed
qed simp

lemma add_chat_names_complete:
  assumes "n \<in> set (command_names (tg_command e))" "scans E e"
  shows "if dispatch_routed (tg_command e) n
    then e \<in> set (ix_commands (add_chat_names E e idx) (normalize_command_name E n))
    else e \<in> set (ix_chat_scan (add_chat_names E e idx)) \<and> mk_name E n \<in> set (tg_scan_names e)"
proof (cases "dispatch_routed (tg_command e) n")
  case True
  then show ?thesis
    using chat_names_loop_routed [of "{}" e idx n "command_names (tg_command e)" E False] assms(1)
    by (simp add: add_chat_names_def case_prod_beta)
next
  case False
  then have "fst (chat_names_loop E e (command_names (tg_command e)) False {} idx)"
    using assms(1) by (auto simp: chat_names_loop_scanned list_ex_iff)
  then show ?thesis using False assms by (auto simp: add_chat_names_def case_prod_beta scans_def)
qed

lemma index_complete:
  assumes "a \<in> set list" "au_enabled a" "tr_type (d_trigger (au_definition a)) = ''command''"
    and "decode_params (u_command (e_rule E)) zero_command_trigger (tr_params (d_trigger (au_definition a))) = (t, None)"
    and "''chat'' \<in> set (ct_sources t)" "n \<in> set (command_names t)"
  shows "if dispatch_routed t n
    then \<exists>e \<in> set (ix_commands (CompileIndex E list) (normalize_command_name E n)). tg_plan e = NewPlan E a \<and> tg_command e = t
    else \<exists>e \<in> set (ix_chat_scan (CompileIndex E list)). tg_plan e = NewPlan E a \<and> tg_command e = t
      \<and> mk_name E n \<in> set (tg_scan_names e)"
proof -
  let ?e = "compile_match E ((new_compiled (NewPlan E a))\<lparr>tg_command := t\<rparr>)"
  have "a \<in> set (run_order list)" using assms(1,2) by (simp add: run_order_def)
  then obtain xs ys where xs: "run_order list = xs @ a # ys" by (auto dest: split_list)
  define i where "i = (foldl (index_automation E) empty_index xs)\<lparr>ix_plans :=
    (ix_plans (foldl (index_automation E) empty_index xs))(au_id a \<mapsto> NewPlan E a)\<rparr>"
  have step: "index_automation E (foldl (index_automation E) empty_index xs) a
      = add_left_commands E (NewPlan E a) (add_command E (NewPlan E a) i)"
    using assms(3) by (simp add: index_automation_def Let_def trigger_compiler_def i_def)
  have "grows (add_chat_names E ?e i) (add_command E (NewPlan E a) i)"
    using assms(4,5) by (simp add: add_command_def trigger_raw_def grows_def Let_def)
  then have "grows (add_chat_names E ?e i) (CompileIndex E list)"
    unfolding CompileIndex_def xs foldl_append foldl.simps step
    by (meson add_left_commands_grows foldl_index_grows grows_trans)
  then show ?thesis
    using add_chat_names_complete [of n ?e E i] assms(6)
    by (auto simp: grows_def split: if_splits intro!: bexI [of _ ?e])
qed

section \<open>Properties\<close>

text \<open>Every list of a compiled index holds enabled automations of the given list only, in run order (by
  name, then id); and no entry scans chat for a name the command stage owns, while every entry of the chat
  scan has a name to scan for.\<close>

theorem index_in_run_order:
  "sorted (map entry_key (ix_commands (CompileIndex E list) k))
   \<and> sorted (map entry_key (ix_kinds (CompileIndex E list) k'))
   \<and> sorted (map entry_key (ix_chat_scan (CompileIndex E list)))
   \<and> (\<lambda>e. p_automation (tg_plan e)) ` (set (ix_commands (CompileIndex E list) k) \<union> set (ix_kinds (CompileIndex E list) k')
       \<union> set (ix_chat_scan (CompileIndex E list))) \<subseteq> {a \<in> set list. au_enabled a}
   \<and> list_all (\<lambda>e. tg_scan_names e \<noteq> [] \<and> list_all (\<lambda>n. \<not> dispatch_routed (tg_command e) (mn_text n)) (tg_scan_names e))
       (ix_chat_scan (CompileIndex E list))"
proof -
  obtain K where ok: "index_ok E (\<lambda>a. a \<in> set list \<and> au_enabled a) K (CompileIndex E list)"
    using CompileIndex_index_ok by blast
  then have "list_all (\<lambda>n. \<not> dispatch_routed (tg_command e) (mn_text n)) (tg_scan_names e)"
    if "e \<in> set (ix_chat_scan (CompileIndex E list))" for e
    using that by (auto simp: index_ok_def scans_def list_all_iff mk_name_def)
  then show ?thesis using ok by (auto simp: index_ok_def in_order_def list_all_iff)
qed

text \<open>C19: Every name of an enabled command automation that listens to chat is found: under its normalized
  form in the command table when the command stage owns the name, else in the chat scan of the index, whose
  entry scans for it.\<close>

theorem index_finds_every_name:
  assumes "a \<in> set list" "au_enabled a" "tr_type (d_trigger (au_definition a)) = ''command''"
    and "decode_params (u_command (e_rule E)) zero_command_trigger (tr_params (d_trigger (au_definition a))) = (t, None)"
    and "''chat'' \<in> set (ct_sources t)" "n \<in> set (command_names t)"
  shows "if dispatch_routed t n
    then \<exists>e \<in> set (ix_commands (CompileIndex E list) (normalize_command_name E n)). tg_plan e = NewPlan E a \<and> tg_command e = t
    else \<exists>e \<in> set (ix_chat_scan (CompileIndex E list)). tg_plan e = NewPlan E a \<and> tg_command e = t
      \<and> mk_name E n \<in> set (tg_scan_names e)"
  by (rule index_complete [OF assms])

definition sample_automation :: automation where
  "sample_automation = \<lparr>au_id = ''a1'', au_user_id = 7, au_name = ''greet'', au_enabled = True, au_revision = 1,
     au_definition = sample_def\<lparr>d_trigger := \<lparr>tr_type = ''command'', tr_params = ''!hi''\<rparr>\<rparr>\<rparr>"

lemma index_finds_every_name_witness:
  "\<exists>e \<in> set (ix_commands (CompileIndex sample_env [sample_automation]) (normalize_command_name sample_env ''!hi'')).
     tg_plan e = NewPlan sample_env sample_automation"
proof -
  let ?t = "zero_command_trigger\<lparr>ct_name := ''!hi''\<rparr>"
  have d: "decode_params (u_command (e_rule sample_env)) zero_command_trigger
      (tr_params (d_trigger (au_definition sample_automation))) = (?t, None)" by code_simp
  have r: "dispatch_routed ?t ''!hi''" by code_simp
  show ?thesis
    using index_finds_every_name [of sample_automation "[sample_automation]" sample_env ?t "''!hi''"] d r
    by (auto simp: sample_automation_def command_names_def)
qed

end
