(* ===== verification/AutoText.thy ===== *)
theory AutoText
  imports AutoMatch
begin

text \<open>
  The value operations of automations: the comparisons of \<open>compare.go\<close>, stored variables
  (\<open>variables.go\<close>), the text step (\<open>text.go\<close>), and the cooldown arithmetic of \<open>cooldown_add.go\<close> and
  \<open>cooldown_marker.go\<close>. A finite float64 is the rational number it denotes; parsing and the formatted
  float sum are fields of the environment. The random source of \<open>split_pick\<close> is an argument and panics on
  a non-positive bound, as \<open>rand.IntN\<close> does.
\<close>

section \<open>Comparisons\<close>

definition trim_cutset :: "string \<Rightarrow> string \<Rightarrow> string" where
  "trim_cutset s cutset = rev (dropWhile (\<lambda>c. c \<in> set cutset) (rev (dropWhile (\<lambda>c. c \<in> set cutset) s)))"

definition blanks :: string where
  "blanks = [CHR '' '', char_of (9::nat), char_of (13::nat), char_of (10::nat)]"

definition decimal_value :: "env \<Rightarrow> string \<Rightarrow> rat option" where
  "decimal_value E s0 = (let s = trim_cutset s0 blanks in
     if s = [] \<or> trim_cutset s ''0123456789+-.eE'' \<noteq> [] then None else e_parse_float E s)"

definition ordered_passes :: "env \<Rightarrow> string \<Rightarrow> string \<Rightarrow> string \<Rightarrow> bool" where
  "ordered_passes E op left right = (case (decimal_value E left, decimal_value E right) of
      (Some a, Some b) \<Rightarrow> if op = ''lt'' then a < b else a \<ge> b
    | _ \<Rightarrow> False)"

definition ComparePasses :: "env \<Rightarrow> string \<Rightarrow> string \<Rightarrow> string \<Rightarrow> bool" where
  "ComparePasses E op left right =
    (if op = ''eq'' then left = right
     else if op = ''contains'' then right \<noteq> [] \<and> contains left right
     else if op = ''gte'' \<or> op = ''lt'' then ordered_passes E op left right
     else False)"

section \<open>Stored variables\<close>

record var_comparison = vq_op :: string vq_current :: string vq_value :: string vq_exists :: bool

definition cmp_compare :: "'a :: linorder \<Rightarrow> 'a \<Rightarrow> int" where
  "cmp_compare a b = (if a < b then -1 else if a > b then 1 else 0)"

definition value_compare :: "env \<Rightarrow> string \<Rightarrow> string \<Rightarrow> int" where
  "value_compare E v other = (case (decimal_value E v, decimal_value E other) of
      (Some a, Some b) \<Rightarrow> cmp_compare a b
    | _ \<Rightarrow> cmp_compare v other)"

definition order_holds :: "string \<Rightarrow> int \<Rightarrow> bool" where
  "order_holds op order = (if op = ''eq'' then order = 0 else if op = ''ne'' then order \<noteq> 0
     else if op = ''gt'' then order > 0 else if op = ''gte'' then order \<ge> 0
     else if op = ''lt'' then order < 0 else if op = ''lte'' then order \<le> 0 else False)"

definition var_passes :: "env \<Rightarrow> var_comparison \<Rightarrow> bool" where
  "var_passes E v = (if vq_op v = ''exists'' then vq_exists v
     else if vq_op v = ''contains'' then vq_value v \<noteq> [] \<and> contains (vq_current v) (vq_value v)
     else order_holds (vq_op v) (value_compare E (vq_current v) (vq_value v)))"

text \<open>Both guards are 64-bit expressions that cannot wrap on the side the sign selects.\<close>

definition add_integers :: "int \<Rightarrow> int \<Rightarrow> string \<times> bool" where
  "add_integers base amount =
    (let overflow = amount > 0 \<and> base > wrap64 (int64_max - amount);
         underflow = amount < 0 \<and> base < wrap64 (int64_min - amount)
     in if overflow \<or> underflow then ([], False) else (itoa (wrap64 (base + amount)), True))"

definition value_add :: "env \<Rightarrow> string \<Rightarrow> int \<Rightarrow> string \<times> bool" where
  "value_add E v amount = (let trimmed = trim_space v in
     case parse_int trimmed of (base, err) \<Rightarrow>
       if err = None then add_integers base amount
       else case decimal_value E trimmed of
           None \<Rightarrow> add_integers 0 amount
         | Some b \<Rightarrow> (e_format_sum E b amount, True))"

definition value_fits :: "string \<Rightarrow> bool" where
  "value_fits v \<longleftrightarrow> rune_count v \<le> MaxVariableValueRunes"

section \<open>The text step\<close>

record operands = op_input :: string op_arg1 :: string op_arg2 :: string

datatype text_result = TextOk string | TextError | TextPanic

text \<open>\<open>utils.TruncateRunes\<close>.\<close>

definition truncate_runes :: "string \<Rightarrow> nat \<Rightarrow> string" where
  "truncate_runes s limit = (if limit = 0 then [] else if length s \<le> limit then s
     else concat (map snd (take limit (runes s))))"

definition capped :: "operands \<Rightarrow> operands" where
  "capped ops = \<lparr>op_input = truncate_runes (op_input ops) MaxTextOperandRunes,
     op_arg1 = truncate_runes (op_arg1 ops) MaxTextOperandRunes,
     op_arg2 = truncate_runes (op_arg2 ops) MaxTextOperandRunes\<rparr>"

definition upper_rune :: "case_table \<Rightarrow> nat \<Rightarrow> nat" where
  "upper_rune up r = (if r < 128 then (if 97 \<le> r \<and> r \<le> 122 then r - 32 else r) else up r)"

definition to_upper :: "case_table \<Rightarrow> string \<Rightarrow> string" where
  "to_upper up s = concat (map (\<lambda>(r, _). encode_rune (upper_rune up r)) (runes s))"

text \<open>\<open>strings.Split\<close> and \<open>strings.ReplaceAll\<close> at any separator; an empty separator splits into runes.\<close>

function split_str :: "string \<Rightarrow> string \<Rightarrow> string \<Rightarrow> string list" where
  "split_str acc s sep = (if s = [] then [acc]
     else if sep \<noteq> [] \<and> has_prefix s sep then acc # split_str [] (drop (length sep) s) sep
     else split_str (acc @ [hd s]) (tl s) sep)"
  by pat_completeness auto
termination by (relation "measure (\<lambda>(acc, s, sep). length s)") (auto simp: has_prefix_append)

declare split_str.simps [simp del]

definition go_split :: "string \<Rightarrow> string \<Rightarrow> string list" where
  "go_split s sep = (if sep = [] then map snd (runes s) else split_str [] s sep)"

fun join_str :: "string list \<Rightarrow> string \<Rightarrow> string" where
  "join_str [] sep = []"
| "join_str [p] sep = p"
| "join_str (p # q # ps) sep = p @ sep @ join_str (q # ps) sep"

definition replace_all :: "operands \<Rightarrow> string" where
  "replace_all ops = (if op_arg1 ops = [] then op_input ops
     else join_str (go_split (op_input ops) (op_arg1 ops)) (op_arg2 ops))"

definition hex_upper :: "nat \<Rightarrow> char" where
  "hex_upper n = (if n < 10 then char_of (48 + n) else char_of (55 + n))"

definition query_escape :: "string \<Rightarrow> string" where
  "query_escape s = concat (map (\<lambda>c.
     if is_alphanumeric c \<or> c \<in> {CHR ''-'', CHR ''_'', CHR ''.'', CHR ''~''} then [c]
     else if c = CHR '' '' then ''+''
     else [CHR ''%'', hex_upper (byte c div 16), hex_upper (byte c mod 16)]) s)"

definition apply_simple_text :: "env \<Rightarrow> string \<Rightarrow> operands \<Rightarrow> text_result" where
  "apply_simple_text E op ops =
    (if op = ''upper'' then TextOk (to_upper (e_upper E) (op_input ops))
     else if op = ''lower'' then TextOk (to_lower (e_lower E) (op_input ops))
     else if op = ''trim'' then TextOk (trim_space (op_input ops))
     else if op = ''replace'' then TextOk (replace_all ops)
     else if op = ''contains'' then TextOk (if ComparePasses E ''contains'' (op_input ops) (op_arg1 ops) then ''true'' else ''false'')
     else if op = ''url_encode'' then TextOk (query_escape (op_input ops))
     else TextError)"

definition optional_int :: "string \<Rightarrow> int \<Rightarrow> int \<times> bool" where
  "optional_int raw fallback = (let trimmed = trim_space raw in
     if trimmed = [] then (fallback, True) else case parse_int trimmed of (v, err) \<Rightarrow> (v, err = None))"

text \<open>A conversion through \<open>[]rune\<close> re-encodes every rune, an invalid byte as U+FFFD.\<close>

definition substring_runes :: "operands \<Rightarrow> text_result" where
  "substring_runes ops = (case optional_int (op_arg1 ops) 0 of (start, startOK) \<Rightarrow>
     case optional_int (op_arg2 ops) (int MaxTextOperandRunes) of (len, lenOK) \<Rightarrow>
       if \<not> startOK \<or> \<not> lenOK then TextError
       else let rs = map fst (runes (op_input ops)); fr = min (max start 0) (int (length rs));
                count = min (max len 0) (int (length rs) - fr)
            in TextOk (concat (map encode_rune (slice rs (nat fr) (nat (fr + count))))))"

definition pick_position :: "env \<Rightarrow> rng \<Rightarrow> string \<Rightarrow> nat \<Rightarrow> (int \<times> bool) option" where
  "pick_position E draw raw parts = (let trimmed = trim_space raw in
     if equal_fold E trimmed ''random'' then map_option (\<lambda>k. (k, True)) (int_n draw (int parts))
     else case parse_int trimmed of (p, err) \<Rightarrow> Some (wrap64 (p - 1), err = None))"

definition split_pick :: "env \<Rightarrow> rng \<Rightarrow> operands \<Rightarrow> text_result" where
  "split_pick E draw ops = (let parts = go_split (op_input ops) (op_arg1 ops) in
     case pick_position E draw (op_arg2 ops) (length parts) of None \<Rightarrow> TextPanic
     | Some (position, ok) \<Rightarrow> if \<not> ok then TextError
         else if position < 0 \<or> position \<ge> int (length parts) then TextOk []
         else TextOk (parts ! nat position))"

definition ApplyText :: "env \<Rightarrow> rng \<Rightarrow> string \<Rightarrow> operands \<Rightarrow> text_result" where
  "ApplyText E draw op ops = (if op = ''length'' then TextOk (itoa (int (rune_count (op_input ops))))
     else let ops' = capped ops in
       if op = ''substring'' then substring_runes ops'
       else if op = ''split_pick'' then split_pick E draw ops'
       else apply_simple_text E op ops')"

section \<open>Cooldowns\<close>

definition long_cooldown_named_key :: "env \<Rightarrow> nat \<Rightarrow> string \<Rightarrow> string" where
  "long_cooldown_named_key E channel name =
     ''cooldown:named:'' @ nat_digits channel @ '':'' @ to_lower (e_lower E) name"

definition is_named_cooldown_key :: "string \<Rightarrow> bool" where
  "is_named_cooldown_key key \<longleftrightarrow> has_prefix key ''cooldown:named:''"

text \<open>Go division truncates towards zero; the product is a 64-bit one.\<close>

definition go_quot :: "int \<Rightarrow> int \<Rightarrow> int" where
  "go_quot a b = (if (a < 0) = (b < 0) then \<bar>a\<bar> div \<bar>b\<bar> else - (\<bar>a\<bar> div \<bar>b\<bar>))"

definition cooldown_add_seconds :: "cooldown_add_action \<Rightarrow> int \<Rightarrow> int \<times> bool" where
  "cooldown_add_seconds p amount = (if cda_per p \<le> 0 then (cda_seconds p, True)
     else let multiples = go_quot amount (cda_per p) in
       if multiples \<le> 0 then (0, False) else (wrap64 (cda_seconds p * multiples), True))"

definition long_marker_key :: "nat \<Rightarrow> string \<Rightarrow> string" where
  "long_marker_key channel window = ''cooldown:long:{'' @ nat_digits channel @ ''}:'' @ window"

definition long_marker_index_key :: "nat \<Rightarrow> string" where
  "long_marker_index_key channel = ''cooldown:long:{'' @ nat_digits channel @ ''}:#index''"

definition long_marker_value :: "int \<Rightarrow> string" where
  "long_marker_value expires_at_ms = itoa expires_at_ms"

text \<open>Durations are nanoseconds in 64 bits.\<close>

definition long_marker_ttl :: "int \<Rightarrow> int \<Rightarrow> int" where
  "long_marker_ttl expires_at_ms now_ms =
     min (wrap64 (wrap64 (expires_at_ms - now_ms) * 1000000)) (MaxValkeyCooldownSeconds * 1000000000)"

section \<open>Lemmas\<close>

lemma add_integers_exact:
  assumes "in64 base" "in64 amount"
  shows "add_integers base amount = (if in64 (base + amount) then (itoa (base + amount), True) else ([], False))"
proof -
  have hi: "wrap64 (int64_max - amount) = int64_max - amount" if "amount > 0"
    using that assms(2) by (intro wrap64_id) (auto simp: in64_def int64_min_def int64_max_def)
  have lo: "wrap64 (int64_min - amount) = int64_min - amount" if "amount < 0"
    using that assms(2) by (intro wrap64_id) (auto simp: in64_def int64_min_def int64_max_def)
  show ?thesis
  proof (cases "in64 (base + amount)")
    case True
    then have "\<not> (amount > 0 \<and> base > int64_max - amount)" "\<not> (amount < 0 \<and> base < int64_min - amount)"
      by (auto simp: in64_def)
    then show ?thesis using True hi lo by (auto simp: add_integers_def Let_def wrap64_id)
  next
    case False
    then have "amount > 0 \<and> base > int64_max - amount \<or> amount < 0 \<and> base < int64_min - amount"
      using assms by (auto simp: in64_def)
    then show ?thesis using False hi lo by (auto simp: add_integers_def Let_def)
  qed
qed

lemma split_str_not_Nil: "split_str acc s sep \<noteq> []"
  by (induction acc s sep rule: split_str.induct) (subst split_str.simps, auto)

lemma join_split_str: "sep \<noteq> [] \<Longrightarrow> join_str (split_str acc s sep) sep = acc @ s"
proof (induction acc s sep rule: split_str.induct)
  case (1 acc s sep)
  consider "s = []" | "s \<noteq> []" "has_prefix s sep" | "s \<noteq> []" "\<not> has_prefix s sep" by blast
  then show ?case
  proof cases
    case 2
    obtain t where t: "s = sep @ t" using 2 by (auto simp: has_prefix_append)
    obtain p ps where p: "split_str [] t sep = p # ps" using split_str_not_Nil by (meson neq_Nil_conv)
    have "join_str (split_str [] t sep) sep = t" using "1.IH"(1) 2 t "1.prems" by simp
    have step: "split_str acc s sep = acc # split_str [] t sep"
      by (subst split_str.simps [of acc s sep]) (use 2 t "1.prems" in auto)
    show ?thesis unfolding step p using \<open>join_str (split_str [] t sep) sep = t\<close> t p by simp
  next
    case 3
    have "join_str (split_str (acc @ [hd s]) (tl s) sep) sep = (acc @ [hd s]) @ tl s"
      using "1.IH"(2) 3 "1.prems" by blast
    then show ?thesis using 3 by (simp add: split_str.simps [of acc s])
  qed (simp add: split_str.simps)
qed

lemma go_split_Nil: "go_split s sep = [] \<longleftrightarrow> sep = [] \<and> s = []"
  by (cases s) (auto simp: go_split_def split_str_not_Nil runes_Cons)

lemma truncate_runes_Nil: "0 < n \<Longrightarrow> truncate_runes s n = [] \<longleftrightarrow> s = []"
proof (cases s)
  case (Cons a l)
  assume "0 < n"
  then obtain m where m: "n = Suc m" by (cases n) auto
  have "take (snd (decode_rune s)) s \<noteq> []"
    using decode_rune_width [of s] Cons by (simp add: Suc_le_eq del: decode_rune.simps)
  then show ?thesis
    by (simp add: truncate_runes_def m Cons runes_Cons del: decode_rune.simps)
qed (simp add: truncate_runes_def)

text \<open>The inverse of the escape: the reading of a query component.\<close>

definition hex_value :: "char \<Rightarrow> nat" where
  "hex_value c = (if byte c < 58 then byte c - 48 else byte c - 55)"

fun query_unescape :: "string \<Rightarrow> string" where
  "query_unescape (c # a # b # s) = (if c = CHR ''%'' then char_of (16 * hex_value a + hex_value b) # query_unescape s
     else (if c = CHR ''+'' then CHR '' '' else c) # query_unescape (a # b # s))"
| "query_unescape (c # s) = (if c = CHR ''+'' then CHR '' '' else c) # query_unescape s"
| "query_unescape [] = []"

lemma hex_value_upper: "n < 16 \<Longrightarrow> hex_value (hex_upper n) = n"
  by (auto simp: hex_value_def hex_upper_def)

lemma query_unescape_plain:
  "c \<noteq> CHR ''%'' \<Longrightarrow> query_unescape (c # s) = (if c = CHR ''+'' then CHR '' '' else c) # query_unescape s"
  by (cases "c # s" rule: query_unescape.cases) auto

lemma query_unescape_escape: "query_unescape (query_escape s) = s"
proof (induction s)
  case (Cons c s)
  have esc: "query_escape (c # s) = query_escape [c] @ query_escape s" by (simp add: query_escape_def)
  have safe: "c \<noteq> CHR ''%'' \<and> c \<noteq> CHR ''+''"
    if "is_alphanumeric c \<or> c \<in> {CHR ''-'', CHR ''_'', CHR ''.'', CHR ''~''}"
    using that by (auto simp: is_alphanumeric_def is_lower_byte_def is_upper_byte_def is_digit_byte_def less_eq_char_def)
  have "16 * (byte c div 16) + byte c mod 16 = byte c" by simp
  moreover have "byte c div 16 < 16" using nat_of_char_less_256 [of c] by (simp add: less_mult_imp_div_less)
  ultimately have hex: "char_of (16 * hex_value (hex_upper (byte c div 16)) + hex_value (hex_upper (byte c mod 16))) = c"
    by (simp add: hex_value_upper)
  show ?case
    unfolding esc using Cons safe hex
    by (cases "is_alphanumeric c \<or> c \<in> {CHR ''-'', CHR ''_'', CHR ''.'', CHR ''~''}"; cases "c = CHR '' ''")
      (auto simp: query_escape_def query_unescape_plain)
qed (simp add: query_escape_def)

section \<open>Properties\<close>

text \<open>Adding to a stored integer variable gives the exact sum or is refused, and it is refused exactly when
  the sum does not fit in 64 bits; text that is not a number counts as zero.\<close>

theorem value_add_exact:
  assumes "in64 amount"
  shows "(\<forall>base. parse_int (trim_space v) = (base, None) \<longrightarrow>
      value_add E v amount = (if in64 (base + amount) then (itoa (base + amount), True) else ([], False)))
    \<and> (snd (parse_int (trim_space v)) \<noteq> None \<and> decimal_value E (trim_space v) = None \<longrightarrow>
      value_add E v amount = (itoa amount, True))"
  using assms add_integers_exact parse_int_in64 add_integers_exact [of 0 amount]
  by (auto simp: value_add_def Let_def case_prod_beta in64_def int64_min_def int64_max_def)

lemma value_add_exact_witness:
  "value_add sample_env ''9223372036854775807'' 1 = ([], False) \<and> value_add sample_env ''41'' 1 = (itoa 42, True)"
proof -
  have "parse_int (trim_space ''9223372036854775807'') = (9223372036854775807, None)"
    "parse_int (trim_space ''41'') = (41, None)" by code_simp+
  then show ?thesis
    using value_add_exact [of 1 "''9223372036854775807''" sample_env] value_add_exact [of 1 "''41''" sample_env]
    by (simp add: in64_def int64_min_def int64_max_def)
qed


text \<open>Splitting at a separator and joining with it gives the input back, so a replacement of text by
  itself changes nothing; and the URL escape is undone by reading the query component.\<close>

theorem text_roundtrips:
  "replace_all \<lparr>op_input = s, op_arg1 = sep, op_arg2 = sep\<rparr> = s \<and> query_unescape (query_escape s) = s"
  by (simp add: replace_all_def go_split_def join_split_str query_unescape_escape)

end
