(* ===== verification/AutoMath.thy ===== *)
theory AutoMath
  imports GoText "HOL-Library.Monad_Syntax"
begin

text \<open>
  The expression evaluator of \<open>math.go\<close>: a recursive-descent parser over a byte position that
  evaluates as it parses. Floating point is a parameter, the record \<open>fops\<close>; the random source is a
  function of how many values were drawn before. The functions call each other without a bound in the
  code; here they run on fuel, \<open>None\<close> is running out of it, and \<open>eval_fuel\<close> is shown to be enough for
  every expression. A NUL byte is read as the end of the expression, as in the code.
\<close>

record 'f fops =
  ff_zero :: 'f
  ff_one :: 'f
  ff_add :: "'f \<Rightarrow> 'f \<Rightarrow> 'f"
  ff_sub :: "'f \<Rightarrow> 'f \<Rightarrow> 'f"
  ff_mul :: "'f \<Rightarrow> 'f \<Rightarrow> 'f"
  ff_div :: "'f \<Rightarrow> 'f \<Rightarrow> 'f"
  ff_mod :: "'f \<Rightarrow> 'f \<Rightarrow> 'f"
  ff_pow :: "'f \<Rightarrow> 'f \<Rightarrow> 'f"
  ff_neg :: "'f \<Rightarrow> 'f"
  ff_is_zero :: "'f \<Rightarrow> bool"
  ff_is_whole :: "'f \<Rightarrow> bool"
  ff_round :: "'f \<Rightarrow> 'f"
  ff_floor :: "'f \<Rightarrow> 'f"
  ff_ceil :: "'f \<Rightarrow> 'f"
  ff_abs :: "'f \<Rightarrow> 'f"
  ff_min :: "'f \<Rightarrow> 'f \<Rightarrow> 'f"
  ff_max :: "'f \<Rightarrow> 'f \<Rightarrow> 'f"
  ff_parse :: "string \<Rightarrow> 'f option"
  ff_nan_or_inf :: "'f \<Rightarrow> bool"
  ff_format :: "'f \<Rightarrow> string"
  ff_random :: "nat \<Rightarrow> 'f"

record math_parser =
  mp_src :: string
  mp_pos :: nat
  mp_failed :: bool
  mp_draws :: nat

section \<open>The functions\<close>

definition math_random :: "'f fops \<Rightarrow> 'f list \<Rightarrow> nat \<Rightarrow> 'f" where
  "math_random F args k = (let lo = ff_min F (args ! 0) (args ! 1); hi = ff_max F (args ! 0) (args ! 1);
       r = ff_random F k
     in if ff_is_whole F lo \<and> ff_is_whole F hi
        then ff_min F (ff_add F lo (ff_floor F (ff_mul F r (ff_add F (ff_sub F hi lo) (ff_one F))))) hi
        else ff_add F lo (ff_mul F r (ff_sub F hi lo)))"

record 'f math_func =
  mf_min_args :: nat
  mf_max_args :: nat
  mf_draws :: nat
  mf_apply :: "'f list \<Rightarrow> nat \<Rightarrow> 'f"

definition unary_math :: "('f \<Rightarrow> 'f) \<Rightarrow> 'f math_func" where
  "unary_math f = \<lparr>mf_min_args = 1, mf_max_args = 1, mf_draws = 0, mf_apply = (\<lambda>args k. f (args ! 0))\<rparr>"

definition math_funcs :: "'f fops \<Rightarrow> string \<Rightarrow> 'f math_func option" where
  "math_funcs F = map_of
    [(''round'', unary_math (ff_round F)), (''floor'', unary_math (ff_floor F)),
     (''ceil'', unary_math (ff_ceil F)), (''abs'', unary_math (ff_abs F)),
     (''min'', \<lparr>mf_min_args = 1, mf_max_args = 200, mf_draws = 0,
        mf_apply = (\<lambda>args k. foldl (ff_min F) (hd args) (tl args))\<rparr>),
     (''max'', \<lparr>mf_min_args = 1, mf_max_args = 200, mf_draws = 0,
        mf_apply = (\<lambda>args k. foldl (ff_max F) (hd args) (tl args))\<rparr>),
     (''random'', \<lparr>mf_min_args = 2, mf_max_args = 2, mf_draws = 1, mf_apply = math_random F\<rparr>)]"

definition accepts_args :: "'f math_func \<Rightarrow> nat \<Rightarrow> bool" where
  "accepts_args fn count \<longleftrightarrow> count \<ge> mf_min_args fn \<and> count \<le> mf_max_args fn"

section \<open>Reading bytes\<close>

abbreviation nul :: char where "nul \<equiv> CHR 0x00"

definition is_math_space :: "char \<Rightarrow> bool" where
  "is_math_space b \<longleftrightarrow> b = CHR '' '' \<or> b = char_of (9::nat)"

definition is_math_product_op :: "char \<Rightarrow> bool" where
  "is_math_product_op c \<longleftrightarrow> c = CHR ''*'' \<or> c = CHR ''/'' \<or> c = CHR ''%''"

definition is_math_digit :: "char \<Rightarrow> bool" where
  "is_math_digit b \<longleftrightarrow> is_digit b \<or> b = CHR ''.''"

definition is_math_letter :: "char \<Rightarrow> bool" where
  "is_math_letter b \<longleftrightarrow> 97 \<le> byte b \<and> byte b \<le> 122"

definition math_fail :: "math_parser \<Rightarrow> math_parser" where
  "math_fail p = p\<lparr>mp_failed := True, mp_pos := length (mp_src p)\<rparr>"

text \<open>The loops \<open>for p.pos < len(p.src) && P(p.src[p.pos]) { p.pos++ }\<close>.\<close>

definition skip_while :: "(char \<Rightarrow> bool) \<Rightarrow> math_parser \<Rightarrow> math_parser" where
  "skip_while P p = p\<lparr>mp_pos := mp_pos p + length (takeWhile P (drop (mp_pos p) (mp_src p)))\<rparr>"

definition peek :: "math_parser \<Rightarrow> char \<times> math_parser" where
  "peek p = (let q = skip_while is_math_space p in
     (if mp_pos q \<ge> length (mp_src q) then nul else mp_src q ! mp_pos q, q))"

definition advance :: "math_parser \<Rightarrow> math_parser" where
  "advance p = p\<lparr>mp_pos := Suc (mp_pos p)\<rparr>"

definition expect :: "char \<Rightarrow> math_parser \<Rightarrow> bool \<times> math_parser" where
  "expect want p = (let (b, q) = peek p in if b \<noteq> want then (False, q) else (True, advance q))"

definition multiply :: "'f fops \<Rightarrow> char \<Rightarrow> 'f \<Rightarrow> 'f \<Rightarrow> math_parser \<Rightarrow> 'f \<times> math_parser" where
  "multiply F op left right p =
    (if op = CHR ''*'' then (ff_mul F left right, p)
     else if ff_is_zero F right then (ff_zero F, math_fail p)
     else if op = CHR ''/'' then (ff_div F left right, p)
     else (ff_mod F left right, p))"

definition parse_number :: "'f fops \<Rightarrow> math_parser \<Rightarrow> 'f \<times> math_parser" where
  "parse_number F p = (let q = skip_while is_math_digit p in
     case ff_parse F (slice (mp_src p) (mp_pos p) (mp_pos q)) of
       None \<Rightarrow> (ff_zero F, math_fail q) | Some v \<Rightarrow> (v, q))"

section \<open>The parser\<close>

text \<open>The functions of the parser as levels, in the code's order; the calls go through \<open>rec\<close>, the parser with
  one unit of fuel less.\<close>

datatype level = Sum | SumLoop | Product | ProductLoop | Unary | Power | Primary | Group | Call | Args | ArgsLoop

text \<open>A loop level carries the value accumulated so far, the argument loop its list.\<close>

type_synonym 'f parse_fn = "level \<Rightarrow> 'f list \<Rightarrow> math_parser \<Rightarrow> ('f list \<times> math_parser) option"

fun parse_step :: "'f fops \<Rightarrow> 'f parse_fn \<Rightarrow> 'f parse_fn" where
  "parse_step F rec Sum acc p = do {
     (left, p) \<leftarrow> rec Product [] p;
     rec SumLoop left p }"
| "parse_step F rec SumLoop left p = (let (b, p) = peek p in
     if b = CHR ''+'' then do {
       (right, p) \<leftarrow> rec Product [] (advance p);
       rec SumLoop [ff_add F (hd left) (hd right)] p }
     else if b = CHR ''-'' then do {
       (right, p) \<leftarrow> rec Product [] (advance p);
       rec SumLoop [ff_sub F (hd left) (hd right)] p }
     else Some (left, p))"
| "parse_step F rec Product acc p = do {
     (left, p) \<leftarrow> rec Unary [] p;
     rec ProductLoop left p }"
| "parse_step F rec ProductLoop left p = (let (op, p) = peek p in
     if \<not> is_math_product_op op then Some (left, p)
     else do {
       (right, p) \<leftarrow> rec Unary [] (advance p);
       let (v, p) = multiply F op (hd left) (hd right) p;
       rec ProductLoop [v] p })"
| "parse_step F rec Unary acc p = (let (b, p) = peek p in
     if b = CHR ''-'' then do {
       (v, p) \<leftarrow> rec Unary [] (advance p);
       Some ([ff_neg F (hd v)], p) }
     else rec Power [] p)"
| "parse_step F rec Power acc p = do {
     (base, p) \<leftarrow> rec Primary [] p;
     let (b, p) = peek p;
     if b \<noteq> CHR ''^'' then Some (base, p)
     else do {
       (e, p) \<leftarrow> rec Unary [] (advance p);
       Some ([ff_pow F (hd base) (hd e)], p) } }"
| "parse_step F rec Primary acc p = (let (b, p) = peek p in
     if b = CHR ''('' then rec Group [] p
     else if is_math_digit b then (let (v, p) = parse_number F p in Some ([v], p))
     else if is_math_letter b then rec Call [] p
     else Some ([ff_zero F], math_fail p))"
| "parse_step F rec Group acc p = do {
     (v, p) \<leftarrow> rec Sum [] (advance p);
     let (ok, p) = expect CHR '')'' p;
     Some (if \<not> ok then ([ff_zero F], math_fail p) else (v, p)) }"
| "parse_step F rec Call acc p = (let q = skip_while is_math_letter p in
     case math_funcs F (slice (mp_src p) (mp_pos p) (mp_pos q)) of
       None \<Rightarrow> Some ([ff_zero F], math_fail q)
     | Some fn \<Rightarrow> (let (ok, q) = expect CHR ''('' q in
         if \<not> ok then Some ([ff_zero F], math_fail q)
         else do {
           (args, q) \<leftarrow> rec Args [] q;
           Some (if mp_failed q \<or> \<not> accepts_args fn (length args) then ([ff_zero F], math_fail q)
             else ([mf_apply fn args (mp_draws q)], q\<lparr>mp_draws := mp_draws q + mf_draws fn\<rparr>)) }))"
| "parse_step F rec Args acc p = do {
     (v, p) \<leftarrow> rec Sum [] p;
     (args, p) \<leftarrow> rec ArgsLoop v p;
     let (ok, p) = expect CHR '')'' p;
     Some (args, if \<not> ok then math_fail p else p) }"
| "parse_step F rec ArgsLoop args p = (let (ok, p) = expect CHR '','' p in
     if \<not> ok then Some (args, p)
     else do {
       (v, p) \<leftarrow> rec Sum [] p;
       rec ArgsLoop (args @ [hd v]) p })"

fun parse :: "'f fops \<Rightarrow> nat \<Rightarrow> 'f parse_fn" where
  "parse F 0 = (\<lambda>l acc p. None)"
| "parse F (Suc n) = parse_step F (parse F n)"

definition format_math :: "'f fops \<Rightarrow> 'f \<Rightarrow> string option" where
  "format_math F v = (if ff_nan_or_inf F v then None
     else if ff_is_zero F v then Some ''0'' else Some (ff_format F v))"

text \<open>The outer \<open>None\<close> is lack of fuel, the inner one the code's \<open>ErrMath\<close>.\<close>

definition eval_fuel :: "string \<Rightarrow> nat" where "eval_fuel s = 12 * Suc (length s)"

definition EvalMath :: "'f fops \<Rightarrow> string \<Rightarrow> string option option" where
  "EvalMath F expression = (if rune_count expression > 200 then Some None
     else do {
       (v, p) \<leftarrow> parse F (eval_fuel expression) Sum []
         \<lparr>mp_src = expression, mp_pos = 0, mp_failed = False, mp_draws = 0\<rparr>;
       let (b, p') = peek p;
       Some (if mp_failed p' \<or> b \<noteq> nul then None else format_math F (hd v)) })"

section \<open>The fuel is enough\<close>

definition in_src :: "math_parser \<Rightarrow> bool" where
  "in_src p \<longleftrightarrow> mp_pos p \<le> length (mp_src p)"

definition left_bytes :: "math_parser \<Rightarrow> nat" where
  "left_bytes p = length (mp_src p) - mp_pos p"

text \<open>\<open>q\<close> is the parser \<open>p\<close> some bytes further.\<close>

definition moved :: "math_parser \<Rightarrow> math_parser \<Rightarrow> bool" where
  "moved p q \<longleftrightarrow> mp_src q = mp_src p \<and> mp_pos p \<le> mp_pos q \<and> in_src q"

lemma moved_trans: "\<lbrakk>moved p q; moved q r\<rbrakk> \<Longrightarrow> moved p r"
  by (auto simp: moved_def)

lemma moved_refl: "in_src p \<Longrightarrow> moved p p"
  by (simp add: moved_def)

lemma moved_left: "moved p q \<Longrightarrow> left_bytes q \<le> left_bytes p"
  by (auto simp: moved_def left_bytes_def)

lemma moved_in_src: "moved p q \<Longrightarrow> in_src q"
  by (simp add: moved_def)

lemma skip_while_moved: "in_src p \<Longrightarrow> moved p (skip_while P p)"
  using length_takeWhile_le [of P "drop (mp_pos p) (mp_src p)"]
  by (simp add: moved_def in_src_def skip_while_def)

lemma peek_moved: "\<lbrakk>peek p = (b, q); in_src p\<rbrakk> \<Longrightarrow> moved p q"
  using skip_while_moved by (auto simp: peek_def Let_def)

lemma peek_more: "\<lbrakk>peek p = (b, q); b \<noteq> nul\<rbrakk> \<Longrightarrow> mp_pos q < length (mp_src q)"
  by (auto simp: peek_def Let_def split: if_splits)

lemma math_fail_moved: "in_src p \<Longrightarrow> moved p (math_fail p)"
  by (simp add: moved_def in_src_def math_fail_def)

lemma advance_moved:
  assumes "mp_pos p < length (mp_src p)"
  shows "moved p (advance p)" "left_bytes (advance p) < left_bytes p"
  using assms by (auto simp: moved_def in_src_def advance_def left_bytes_def)

lemma expect_moved:
  assumes "expect c p = (ok, q)" "in_src p" "c \<noteq> nul"
  shows "moved p q" "ok \<Longrightarrow> left_bytes q < left_bytes p"
proof -
  obtain b r where r: "peek p = (b, r)" by fastforce
  note m = peek_moved [OF r assms(2)]
  have "moved p q \<and> (ok \<longrightarrow> left_bytes q < left_bytes p)"
  proof (cases "b = c")
    case True
    then have "mp_pos r < length (mp_src r)" using peek_more [OF r] assms(3) by simp
    then show ?thesis
      using True assms(1) r m advance_moved [of r] moved_left [OF m]
      by (auto simp: expect_def Let_def intro: moved_trans)
  qed (use assms r m in \<open>auto simp: expect_def\<close>)
  then show "moved p q" "ok \<Longrightarrow> left_bytes q < left_bytes p" by auto
qed

lemma multiply_moved: "\<lbrakk>multiply F op a b p = (v, q); in_src p\<rbrakk> \<Longrightarrow> moved p q"
  by (auto simp: multiply_def intro: moved_refl math_fail_moved split: if_splits)

lemma parse_number_moved: "\<lbrakk>parse_number F p = (v, q); in_src p\<rbrakk> \<Longrightarrow> moved p q"
  using skip_while_moved [of p is_math_digit] moved_trans math_fail_moved [OF moved_in_src]
  by (fastforce simp: parse_number_def Let_def split: option.splits)

fun rank :: "level \<Rightarrow> nat" where
  "rank Args = 7" | "rank Sum = 6" | "rank Product = 5" | "rank Unary = 4" | "rank Power = 3"
| "rank Primary = 2" | "rank SumLoop = 1" | "rank ProductLoop = 1" | "rank Group = 1" | "rank Call = 1"
| "rank ArgsLoop = 1"

definition fuelled :: "nat \<Rightarrow> level \<Rightarrow> math_parser \<Rightarrow> bool" where
  "fuelled n l p \<longleftrightarrow> in_src p \<and> 12 * left_bytes p + rank l < n \<and> (l = Group \<longrightarrow> mp_pos p < length (mp_src p))"

definition returns :: "'f fops \<Rightarrow> nat \<Rightarrow> level \<Rightarrow> 'f list \<Rightarrow> math_parser \<Rightarrow> bool" where
  "returns F n l acc p \<longleftrightarrow> (\<exists>v q. parse F n l acc p = Some (v, q) \<and> moved p q)"

definition total_at :: "'f fops \<Rightarrow> nat \<Rightarrow> bool" where
  "total_at F n \<longleftrightarrow> (\<forall>l acc p. fuelled n l p \<longrightarrow> returns F n l acc p)"

lemma total_atE:
  assumes "total_at F n" "fuelled n l p"
  obtains v q where "parse F n l acc p = Some (v, q)" "moved p q"
  using assms unfolding total_at_def returns_def by blast

text \<open>Fuel for a call further on, and for one at a lower level.\<close>

lemma fuelled_less: "\<lbrakk>fuelled (Suc n) l p; moved p q; left_bytes q < left_bytes p; l' \<noteq> Group\<rbrakk> \<Longrightarrow> fuelled n l' q"
  by (cases l') (auto simp: fuelled_def moved_def)

lemma fuelled_lower: "\<lbrakk>fuelled (Suc n) l p; moved p q; rank l' < rank l; l' \<noteq> Group\<rbrakk> \<Longrightarrow> fuelled n l' q"
  using moved_left [of p q] by (auto simp: fuelled_def moved_def)

lemma binary_returns:
  assumes T: "total_at F n" and p: "fuelled (Suc n) l p" and q: "moved p q" "mp_pos q < length (mp_src q)"
    and l: "l1 \<noteq> Group" "l2 \<noteq> Group"
    and k: "\<And>v r. moved q r \<Longrightarrow> moved r (h v r)"
  shows "\<exists>v r. do { (v, r) \<leftarrow> parse F n l1 [] (advance q); parse F n l2 (g v r) (h v r) } = Some (v, r) \<and> moved p r"
proof -
  have adv: "moved p (advance q)" "left_bytes (advance q) < left_bytes p"
    using advance_moved [OF q(2)] q(1) moved_left [OF q(1)] by (auto intro: moved_trans)
  obtain v r where r: "parse F n l1 [] (advance q) = Some (v, r)" "moved (advance q) r"
    using total_atE [OF T fuelled_less [OF p adv l(1)]] by blast
  have "moved q r" using advance_moved(1) [OF q(2)] r(2) by (rule moved_trans)
  then have h: "moved p (h v r)" "left_bytes (h v r) < left_bytes p"
    using k [of r v] q(1) moved_left [OF r(2)] moved_left [OF k [of r v]] adv(2) by (auto intro: moved_trans)
  obtain v' r' where "parse F n l2 (g v r) (h v r) = Some (v', r')" "moved (h v r) r'"
    using total_atE [OF T fuelled_less [OF p h l(2)]] by blast
  then show ?thesis using r h by (auto intro: moved_trans)
qed

lemma sequence_returns:
  assumes T: "total_at F n" and p: "fuelled (Suc n) l p"
    and l: "l1 \<noteq> Group" "l2 \<noteq> Group" "rank l1 < rank l" "rank l2 < rank l"
  shows "\<exists>v r. do { (v, r) \<leftarrow> parse F n l1 [] p; parse F n l2 v r } = Some (v, r) \<and> moved p r"
proof -
  have in': "moved p p" using p by (simp add: fuelled_def moved_refl)
  obtain v r where r: "parse F n l1 [] p = Some (v, r)" "moved p r"
    using total_atE [OF T fuelled_lower [OF p in' l(3,1)]] by blast
  obtain v' r' where "parse F n l2 v r = Some (v', r')" "moved r r'"
    using total_atE [OF T fuelled_lower [OF p r(2) l(4,2)]] by blast
  then show ?thesis using r by (auto intro: moved_trans)
qed

lemma call_returns:
  assumes T: "total_at F n" and p: "fuelled (Suc n) l p" and q: "moved p q" "left_bytes q < left_bytes p" and l: "l' \<noteq> Group"
    and k: "\<And>v r. moved q r \<Longrightarrow> moved r (snd (h v r))"
  shows "\<exists>v r. do { (v, r) \<leftarrow> parse F n l' acc q; Some (h v r) } = Some (v, r) \<and> moved p r"
proof -
  obtain v r where r: "parse F n l' acc q = Some (v, r)" "moved q r"
    using total_atE [OF T fuelled_less [OF p q l]] by blast
  then have "moved p (snd (h v r))" using k [OF r(2)] q(1) by (blast intro: moved_trans)
  then show ?thesis using r(1) by (cases "h v r") auto
qed

lemma peek_cases:
  assumes "in_src p"
  obtains b q where "peek p = (b, q)" "moved p q" "b \<noteq> nul \<Longrightarrow> mp_pos q < length (mp_src q)"
  using assms peek_moved peek_more by (metis surj_pair)

lemma step_loops:
  assumes T: "total_at F n"
  shows "fuelled (Suc n) SumLoop p \<Longrightarrow> returns F (Suc n) SumLoop acc p"
    "fuelled (Suc n) ProductLoop p \<Longrightarrow> returns F (Suc n) ProductLoop acc p"
    "fuelled (Suc n) ArgsLoop p \<Longrightarrow> returns F (Suc n) ArgsLoop acc p"
proof -
  assume f: "fuelled (Suc n) SumLoop p"
  then obtain b q where q: "peek p = (b, q)" "moved p q" "b \<noteq> nul \<Longrightarrow> mp_pos q < length (mp_src q)"
    using peek_cases fuelled_def by metis
  have step: "\<exists>v r. do { (v, r) \<leftarrow> parse F n Product [] (advance q); parse F n SumLoop (g v r) r } = Some (v, r) \<and> moved p r"
    if "b \<noteq> nul" for g
    by (rule binary_returns [OF T f q(2) q(3) [OF that]]) (auto intro: moved_refl moved_in_src)
  show "returns F (Suc n) SumLoop acc p"
    using q step [of "\<lambda>v r. [ff_add F (hd acc) (hd v)]"] step [of "\<lambda>v r. [ff_sub F (hd acc) (hd v)]"]
    by (auto simp: returns_def)
next
  assume f: "fuelled (Suc n) ProductLoop p"
  then obtain b q where q: "peek p = (b, q)" "moved p q" "b \<noteq> nul \<Longrightarrow> mp_pos q < length (mp_src q)"
    using peek_cases fuelled_def by metis
  have nz: "is_math_product_op b \<Longrightarrow> b \<noteq> nul" by (auto simp: is_math_product_op_def)
  have mul: "moved r (snd (multiply F b x y r))" if "moved q r" for x y r
    using multiply_moved [of F b x y r] moved_in_src [OF that] by (cases "multiply F b x y r") auto
  have step: "\<exists>v r. do { (v, r) \<leftarrow> parse F n Unary [] (advance q);
      parse F n ProductLoop [fst (multiply F b (hd acc) (hd v) r)] (snd (multiply F b (hd acc) (hd v) r)) }
      = Some (v, r) \<and> moved p r" if "is_math_product_op b"
    by (rule binary_returns [OF T f q(2) q(3) [OF nz [OF that]]]) (auto intro: mul)
  show "returns F (Suc n) ProductLoop acc p"
    using q step by (auto simp: returns_def case_prod_beta' Let_def)
next
  assume f: "fuelled (Suc n) ArgsLoop p"
  obtain ok q where q: "expect CHR '','' p = (ok, q)" by fastforce
  have m: "moved p q" "ok \<Longrightarrow> left_bytes q < left_bytes p"
    using expect_moved [OF q] f by (auto simp: fuelled_def)
  show "returns F (Suc n) ArgsLoop acc p"
  proof (cases ok)
    case True
    obtain v r where r: "parse F n Sum [] q = Some (v, r)" "moved q r"
      using total_atE [OF T fuelled_less [OF f m(1) m(2) [OF True]]] by blast
    have r': "moved p r" "left_bytes r < left_bytes p"
      using m True r(2) moved_left [OF r(2)] by (auto intro: moved_trans)
    obtain v' r'' where "parse F n ArgsLoop (acc @ [hd v]) r = Some (v', r'')" "moved r r''"
      using total_atE [OF T fuelled_less [OF f r']] by blast
    then show ?thesis using q True r r' by (auto simp: returns_def intro: moved_trans)
  qed (use q m in \<open>simp add: returns_def\<close>)
qed

lemma step_operators:
  assumes T: "total_at F n"
  shows "fuelled (Suc n) Sum p \<Longrightarrow> returns F (Suc n) Sum acc p"
    "fuelled (Suc n) Product p \<Longrightarrow> returns F (Suc n) Product acc p"
    "fuelled (Suc n) Unary p \<Longrightarrow> returns F (Suc n) Unary acc p"
    "fuelled (Suc n) Power p \<Longrightarrow> returns F (Suc n) Power acc p"
proof -
  assume f: "fuelled (Suc n) Sum p"
  show "returns F (Suc n) Sum acc p"
    using sequence_returns [OF T f, of Product SumLoop] by (simp add: returns_def)
next
  assume f: "fuelled (Suc n) Product p"
  show "returns F (Suc n) Product acc p"
    using sequence_returns [OF T f, of Unary ProductLoop] by (simp add: returns_def)
next
  assume f: "fuelled (Suc n) Unary p"
  then obtain b q where q: "peek p = (b, q)" "moved p q" "b \<noteq> nul \<Longrightarrow> mp_pos q < length (mp_src q)"
    using peek_cases fuelled_def by metis
  show "returns F (Suc n) Unary acc p"
  proof (cases "b = CHR ''-''")
    case True
    then have adv: "moved p (advance q)" "left_bytes (advance q) < left_bytes p"
      using q advance_moved [of q] moved_left [OF q(2)] by (auto intro: moved_trans)
    have "\<exists>v r. do { (v, r) \<leftarrow> parse F n Unary [] (advance q); Some ([ff_neg F (hd v)], r) } = Some (v, r) \<and> moved p r"
      by (rule call_returns [OF T f adv]) (auto intro: moved_refl moved_in_src)
    then show ?thesis using q(1) True by (simp add: returns_def)
  next
    case False
    have "fuelled n Power q" by (rule fuelled_lower [OF f q(2)]) simp_all
    then obtain v r where "parse F n Power [] q = Some (v, r)" "moved q r"
      using total_atE [OF T] by blast
    then show ?thesis using q False by (auto simp: returns_def intro: moved_trans)
  qed
next
  assume f: "fuelled (Suc n) Power p"
  have in': "moved p p" using f by (simp add: fuelled_def moved_refl)
  have "fuelled n Primary p" by (rule fuelled_lower [OF f in']) simp_all
  then obtain v r where r: "parse F n Primary [] p = Some (v, r)" "moved p r"
    using total_atE [OF T] by blast
  obtain b q where q: "peek r = (b, q)" "moved r q" "b \<noteq> nul \<Longrightarrow> mp_pos q < length (mp_src q)"
    using peek_cases [OF moved_in_src [OF r(2)]] by metis
  have pq: "moved p q" using r q by (blast intro: moved_trans)
  show "returns F (Suc n) Power acc p"
  proof (cases "b = CHR ''^''")
    case True
    then have adv: "moved p (advance q)" "left_bytes (advance q) < left_bytes p"
      using q advance_moved [of q] moved_left [OF pq] pq by (auto intro: moved_trans)
    have "\<exists>v' r. do { (e, r) \<leftarrow> parse F n Unary [] (advance q); Some ([ff_pow F (hd v) (hd e)], r) } = Some (v', r) \<and> moved p r"
      by (rule call_returns [OF T f adv]) (auto intro: moved_refl moved_in_src)
    then show ?thesis using r q(1) True by (simp add: returns_def)
  qed (use r q pq in \<open>simp add: returns_def\<close>)
qed

lemma step_primary:
  assumes T: "total_at F n" and f: "fuelled (Suc n) Primary p"
  shows "returns F (Suc n) Primary acc p"
proof -
  from f obtain b q where q: "peek p = (b, q)" "moved p q" "b \<noteq> nul \<Longrightarrow> mp_pos q < length (mp_src q)"
    using peek_cases fuelled_def by metis
  have g: "fuelled n Group q" if "b = CHR ''(''"
    using f q moved_left [OF q(2)] that by (auto simp: fuelled_def moved_def)
  have c: "fuelled n Call q"
    by (rule fuelled_lower [OF f q(2)]) simp_all
  obtain v r where r: "parse_number F q = (v, r)" by fastforce
  have "moved p r" using parse_number_moved [OF r] q(2) by (blast intro: moved_trans moved_in_src)
  moreover have "moved p (math_fail q)" using q(2) by (blast intro: moved_trans math_fail_moved moved_in_src)
  moreover obtain v1 r1 where "parse F n Call [] q = Some (v1, r1)" "moved p r1"
    using total_atE [OF T c] q(2) by (metis moved_trans)
  moreover have "\<exists>v2 r2. parse F n Group [] q = Some (v2, r2) \<and> moved p r2" if "b = CHR ''(''"
    using total_atE [OF T g [OF that]] q(2) by (metis moved_trans)
  ultimately show ?thesis using q(1) r by (auto simp: returns_def)
qed

lemma step_brackets:
  assumes T: "total_at F n"
  shows "fuelled (Suc n) Group p \<Longrightarrow> returns F (Suc n) Group acc p"
    "fuelled (Suc n) Call p \<Longrightarrow> returns F (Suc n) Call acc p"
    "fuelled (Suc n) Args p \<Longrightarrow> returns F (Suc n) Args acc p"
proof -
  have close: "moved r (snd (if ok then (v, q) else (w, math_fail q)))"
    if "moved p0 r" "expect c r = (ok, q)" "c \<noteq> nul" for p0 r ok q v w c
    using expect_moved(1) [OF that(2) moved_in_src [OF that(1)] that(3)]
    by (auto intro: moved_trans math_fail_moved moved_in_src)
  { assume f: "fuelled (Suc n) Group p"
    then have adv: "moved p (advance p)" "left_bytes (advance p) < left_bytes p"
      using advance_moved [of p] by (auto simp: fuelled_def)
    obtain v r where r: "parse F n Sum [] (advance p) = Some (v, r)" "moved (advance p) r"
      using total_atE [OF T fuelled_less [OF f adv]] by blast
    obtain ok q where q: "expect CHR '')'' r = (ok, q)" by fastforce
    have "moved p (snd (if ok then (v, q) else ([ff_zero F], math_fail q)))"
      using close [OF r(2) q] adv r(2) by (auto intro: moved_trans)
    then show "returns F (Suc n) Group acc p" using r q by (auto simp: returns_def split: if_splits) }
  { assume f: "fuelled (Suc n) Args p"
    then have p0: "moved p p" by (simp add: fuelled_def moved_refl)
    obtain v r where r: "do { (v, p) \<leftarrow> parse F n Sum [] p; parse F n ArgsLoop v p } = Some (v, r)" "moved p r"
      using sequence_returns [OF T f, of Sum ArgsLoop] by auto
    obtain ok q where q: "expect CHR '')'' r = (ok, q)" by fastforce
    have "moved p (if ok then q else math_fail q)"
      using close [OF r(2) q, of v v] r(2) by (auto intro: moved_trans split: if_splits)
    moreover have "parse F (Suc n) Args acc p = Some (v, if \<not> ok then math_fail q else q)"
      using r(1) q by (auto simp: Option.bind_eq_Some_conv case_prod_beta')
    ultimately show "returns F (Suc n) Args acc p" by (auto simp: returns_def) }
  assume f: "fuelled (Suc n) Call p"
  let ?q = "skip_while is_math_letter p"
  have m: "moved p ?q" using f by (simp add: fuelled_def skip_while_moved)
  obtain ok q where q: "expect CHR ''('' ?q = (ok, q)" by fastforce
  note e = expect_moved [OF q moved_in_src [OF m]]
  have pq: "moved p q" "ok \<Longrightarrow> left_bytes q < left_bytes p"
    using e m moved_left [OF m] by (auto intro: moved_trans)
  have upd: "moved r (r\<lparr>mp_draws := k\<rparr>)" if "moved q r" for r k
    using that by (auto simp: moved_def in_src_def)
  have args: "\<exists>v r. do { (args, q) \<leftarrow> parse F n Args [] q;
      Some (if mp_failed q \<or> \<not> accepts_args fn (length args) then ([ff_zero F], math_fail q)
        else ([mf_apply fn args (mp_draws q)], q\<lparr>mp_draws := mp_draws q + mf_draws fn\<rparr>)) } = Some (v, r) \<and> moved p r"
    if ok for fn
    by (rule call_returns [OF T f pq(1) pq(2) [OF that]]) (auto intro: upd math_fail_moved moved_in_src)
  have "moved p (math_fail ?q)" "moved p (math_fail q)"
    using m pq by (blast intro: moved_trans math_fail_moved moved_in_src)+
  then show "returns F (Suc n) Call acc p"
    using q args by (auto simp: returns_def Let_def split: option.splits)
qed

lemma parse_total: "total_at F n"
proof (induction n)
  case (Suc n)
  show ?case
    unfolding total_at_def
  proof (intro allI impI)
    fix l acc p
    assume "fuelled (Suc n) l p"
    then show "returns F (Suc n) l acc p"
      using step_loops [OF Suc] step_operators [OF Suc] step_primary [OF Suc] step_brackets [OF Suc]
      by (cases l) auto
  qed
qed (simp add: total_at_def fuelled_def)

section \<open>Properties\<close>

text \<open>C30: The evaluator always returns: on every expression the recursive parser stops within the fuel that is
  linear in the expression's length, with a formatted value or the math error; an expression of more than
  200 runes is the math error.\<close>

theorem eval_math_returns:
  "(\<exists>r. EvalMath F expression = Some r) \<and> (200 < rune_count expression \<longrightarrow> EvalMath F expression = Some None)"
proof -
  let ?p = "\<lparr>mp_src = expression, mp_pos = 0, mp_failed = False, mp_draws = 0\<rparr>"
  have "fuelled (eval_fuel expression) Sum ?p"
    by (simp add: fuelled_def in_src_def left_bytes_def eval_fuel_def)
  then obtain v q where "parse F (eval_fuel expression) Sum [] ?p = Some (v, q)"
    using total_atE [OF parse_total] by blast
  then show ?thesis by (simp add: EvalMath_def case_prod_beta' Let_def)
qed

lemma eval_math_returns_witness: "EvalMath (undefined :: unit fops) (replicate 201 CHR ''1'') = Some None"
proof -
  have "200 < rune_count (replicate 201 CHR ''1'')" by code_simp
  then show ?thesis using eval_math_returns [of "undefined :: unit fops" "replicate 201 CHR ''1''"] by simp
qed

text \<open>A toy arithmetic: the integers, to run the parser.\<close>

definition int_fops :: "int fops" where
  "int_fops = \<lparr>ff_zero = 0, ff_one = 1, ff_add = (+), ff_sub = (-), ff_mul = (*), ff_div = (div), ff_mod = (mod),
     ff_pow = (\<lambda>a b. a ^ nat b), ff_neg = uminus, ff_is_zero = (\<lambda>a. a = 0), ff_is_whole = (\<lambda>a. True),
     ff_round = (\<lambda>a. a), ff_floor = (\<lambda>a. a), ff_ceil = (\<lambda>a. a), ff_abs = abs, ff_min = min, ff_max = max,
     ff_parse = (\<lambda>s. if list_all is_digit s then Some (digits_value s) else None),
     ff_nan_or_inf = (\<lambda>a. False), ff_format = itoa, ff_random = (\<lambda>k. 0)\<rparr>"

text \<open>Precedence, associativity and the sign, and the NUL byte that ends an expression early.\<close>

lemma eval_math_examples:
  "EvalMath int_fops ''10-4-3*2'' = Some (Some ''0'')" "EvalMath int_fops ''-2^2'' = Some (Some ''-4'')"
  "EvalMath int_fops ''2^3^2'' = Some (Some ''512'')" "EvalMath int_fops ''max(1, (2+3)*4)'' = Some (Some ''20'')"
  "EvalMath int_fops ''1+'' = Some None" "EvalMath int_fops (''1'' @ nul # ''junk'') = Some (Some ''1'')"
  by code_simp+

end
