(* ===== verification/Budget.thy ===== *)
theory Budget
  imports Prelude
begin

text \<open>
  The contract every rate limiter of the program promises, as two locales: a budget that never
  admits more than its capacity plus what its rate has accrued (\<open>token_budget\<close>), and one
  that moreover admits whenever a token has accrued (\<open>live_budget\<close>).  The limiters of
  pkg/ratelimit interpret them on their own operations.  Also Go's \<open>time.Time\<close> and
  \<open>time.Duration\<close>, in nanoseconds.
\<close>

section \<open>Time\<close>

text \<open>
  A \<open>time.Time\<close> is its distance from the Unix epoch in nanoseconds, a
  \<open>time.Duration\<close> a 64-bit count of nanoseconds; the zero time is the first instant of
  year 1.
\<close>

type_synonym gtime = int
type_synonym duration = int

definition zero_time :: gtime where
  "zero_time = - 62135596800 * 10 ^ 9"

abbreviation (input) "one_ns \<equiv> (1 :: duration)"
abbreviation (input) "one_ms \<equiv> (1000000 :: duration)"
abbreviation (input) "one_second \<equiv> (1000000000 :: duration)"
abbreviation (input) "one_minute \<equiv> (60000000000 :: duration)"

text \<open>\<open>Time.Sub\<close> saturates; the integer readings are 64 bits wide.\<close>

definition time_sub :: "gtime \<Rightarrow> gtime \<Rightarrow> duration" where
  "time_sub a b = max int64_min (min int64_max (a - b))"

definition unix_milli :: "gtime \<Rightarrow> int" where
  "unix_milli t = t div one_ms"

definition of_unix_milli :: "int \<Rightarrow> gtime" where
  "of_unix_milli ms = ms * one_ms"

definition unix_nano :: "gtime \<Rightarrow> int" where
  "unix_nano t = wrap64 t"

text \<open>\<open>Duration.Seconds\<close>, as the exact rational.\<close>

definition seconds :: "duration \<Rightarrow> rat" where
  "seconds d = of_int d / of_int one_second"

lemma seconds_0 [simp]: "seconds 0 = 0"
  by (simp add: seconds_def)

lemma seconds_nonneg [simp]: "0 \<le> d \<Longrightarrow> 0 \<le> seconds d"
  by (simp add: seconds_def)

lemma seconds_mono: "d \<le> e \<Longrightarrow> seconds d \<le> seconds e"
  by (simp add: seconds_def divide_right_mono)

lemma seconds_add: "seconds (d + e) = seconds d + seconds e"
  by (simp add: seconds_def add_divide_distrib)

lemma time_sub_le: "b \<le> a \<Longrightarrow> time_sub a b \<le> a - b"
  by (simp add: time_sub_def int64_min_def int64_max_def)

lemma time_sub_nonneg: "b \<le> a \<Longrightarrow> 0 \<le> time_sub a b"
  by (simp add: time_sub_def int64_min_def int64_max_def)

lemma time_sub_exact: "in64 (a - b) \<Longrightarrow> time_sub a b = a - b"
  by (simp add: time_sub_def in64_def)

section \<open>The contract of a budget\<close>

text \<open>
  A run feeds the limiter a list of events and counts those it admits.  An event carries the time
  it happens at; a run is forward when no event is earlier than the limiter's clock and each is
  admissible in the state it meets.
\<close>

fun run_attempts :: "('e \<Rightarrow> 's \<Rightarrow> bool \<times> 's) \<Rightarrow> 'e list \<Rightarrow> 's \<Rightarrow> nat \<times> 's" where
  "run_attempts attempt [] s = (0, s)"
| "run_attempts attempt (e # es) s =
    (let (granted, s1) = attempt e s; (n, s2) = run_attempts attempt es s1
     in ((if granted then 1 else 0) + n, s2))"

fun forward_run ::
  "('e \<Rightarrow> 's \<Rightarrow> bool) \<Rightarrow> ('e \<Rightarrow> int) \<Rightarrow> ('s \<Rightarrow> int) \<Rightarrow> ('e \<Rightarrow> 's \<Rightarrow> bool \<times> 's) \<Rightarrow> 'e list \<Rightarrow> 's \<Rightarrow> bool" where
  "forward_run admissible time clock attempt [] s \<longleftrightarrow> True"
| "forward_run admissible time clock attempt (e # es) s \<longleftrightarrow>
    admissible e s \<and> clock s \<le> time e
    \<and> forward_run admissible time clock attempt es (snd (attempt e s))"

locale token_budget =
  fixes level :: "'s \<Rightarrow> rat"
    and clock :: "'s \<Rightarrow> int"
    and usable :: "'s \<Rightarrow> bool"
    and rate :: rat
    and capacity :: rat
    and time :: "'e \<Rightarrow> int"
    and admissible :: "'e \<Rightarrow> 's \<Rightarrow> bool"
    and attempt :: "'e \<Rightarrow> 's \<Rightarrow> bool \<times> 's"
  assumes rate_nonneg: "0 \<le> rate"
    and level_bounds: "usable s \<Longrightarrow> 0 \<le> level s \<and> level s \<le> capacity"
    and attempt_usable: "\<lbrakk>usable s; admissible e s; clock s \<le> time e\<rbrakk> \<Longrightarrow> usable (snd (attempt e s))"
    and attempt_clock: "\<lbrakk>usable s; admissible e s; clock s \<le> time e\<rbrakk> \<Longrightarrow>
      clock s \<le> clock (snd (attempt e s)) \<and> clock (snd (attempt e s)) \<le> time e"
    and attempt_account: "\<lbrakk>usable s; admissible e s; clock s \<le> time e\<rbrakk> \<Longrightarrow>
      level (snd (attempt e s)) + (if fst (attempt e s) then 1 else 0)
        \<le> level s + rate * of_int (clock (snd (attempt e s)) - clock s)"
begin

lemma run_usable:
  "\<lbrakk>usable s; forward_run admissible time clock attempt es s\<rbrakk> \<Longrightarrow>
    usable (snd (run_attempts attempt es s))"
  by (induction es arbitrary: s) (auto simp: case_prod_beta Let_def attempt_usable)

text \<open>Tokens are conserved over a run: what is admitted comes out of the start level or the rate.\<close>

lemma run_account:
  "\<lbrakk>usable s; forward_run admissible time clock attempt es s\<rbrakk> \<Longrightarrow>
    level (snd (run_attempts attempt es s)) + of_nat (fst (run_attempts attempt es s))
      \<le> level s + rate * of_int (clock (snd (run_attempts attempt es s)) - clock s)"
proof (induction es arbitrary: s)
  case Nil
  then show ?case by simp
next
  case (Cons e es)
  define s1 where "s1 = snd (attempt e s)"
  define s2 where "s2 = snd (run_attempts attempt es s1)"
  have here: "admissible e s" "clock s \<le> time e"
    and rest: "forward_run admissible time clock attempt es s1"
    using Cons.prems by (simp_all add: s1_def)
  have "level s2 + of_nat (fst (run_attempts attempt es s1)) \<le> level s1 + rate * of_int (clock s2 - clock s1)"
    using Cons.IH [of s1] rest attempt_usable [OF Cons.prems(1) here] by (simp add: s1_def s2_def)
  moreover have "level s1 + (if fst (attempt e s) then 1 else 0)
      \<le> level s + rate * of_int (clock s1 - clock s)"
    using attempt_account [OF Cons.prems(1) here] by (simp add: s1_def)
  ultimately show ?case
    by (simp add: case_prod_beta Let_def s1_def s2_def algebra_simps split: if_splits)
qed

lemma run_clock:
  "\<lbrakk>usable s; forward_run admissible time clock attempt es s; clock s \<le> until;
    list_all (\<lambda>e. time e \<le> until) es\<rbrakk> \<Longrightarrow>
    clock s \<le> clock (snd (run_attempts attempt es s))
    \<and> clock (snd (run_attempts attempt es s)) \<le> until"
proof (induction es arbitrary: s)
  case Nil
  then show ?case by simp
next
  case (Cons e es)
  have here: "admissible e s" "clock s \<le> time e" using Cons.prems(2) by simp_all
  note step = attempt_clock [OF Cons.prems(1) here] attempt_usable [OF Cons.prems(1) here]
  have "clock (snd (attempt e s)) \<le> until" using step Cons.prems(4) by simp
  then show ?case
    using Cons.IH [of "snd (attempt e s)"] Cons.prems(2,4) step by (simp add: case_prod_beta Let_def)
qed

text \<open>The promise to callers: in a window, at most the capacity plus the rate times its length.\<close>

lemma run_bound:
  assumes "usable s" "forward_run admissible time clock attempt es s" "clock s \<le> until"
    "list_all (\<lambda>e. time e \<le> until) es"
  shows "of_nat (fst (run_attempts attempt es s)) \<le> level s + rate * of_int (until - clock s)"
proof -
  have "clock (snd (run_attempts attempt es s)) - clock s \<le> until - clock s"
    using run_clock [OF assms] by simp
  then have "rate * of_int (clock (snd (run_attempts attempt es s)) - clock s) \<le> rate * of_int (until - clock s)"
    using rate_nonneg by (intro mult_left_mono) (simp_all only: of_int_le_iff)
  moreover have "0 \<le> level (snd (run_attempts attempt es s))"
    using level_bounds run_usable assms by blast
  ultimately show ?thesis using run_account [OF assms(1,2)] by linarith
qed

lemma run_capacity:
  assumes "usable s" "forward_run admissible time clock attempt es s" "clock s \<le> until"
    "list_all (\<lambda>e. time e \<le> until) es"
  shows "of_nat (fst (run_attempts attempt es s)) \<le> capacity + rate * of_int (until - clock s)"
  using run_bound [OF assms] level_bounds [OF assms(1)] by linarith

end

locale live_budget = token_budget +
  fixes horizon :: int
  assumes attempt_accrues: "\<lbrakk>usable s; admissible e s; clock s \<le> time e; time e - clock s \<le> horizon;
      1 \<le> level s + rate * of_int (time e - clock s)\<rbrakk> \<Longrightarrow> fst (attempt e s)"
begin

text \<open>Waiting for one token to accrue is always enough, however empty the budget is.\<close>

lemma wait_one:
  assumes "usable s" "admissible e s" "clock s \<le> time e" "time e - clock s \<le> horizon"
    "1 \<le> rate * of_int (time e - clock s)"
  shows "fst (attempt e s)"
proof (rule attempt_accrues [OF assms(1-4)])
  show "1 \<le> level s + rate * of_int (time e - clock s)"
    using level_bounds [OF assms(1)] assms(5) by linarith
qed

end

end
