(* ===== verification/RateBucket.thy ===== *)
theory RateBucket
  imports Budget
begin

text \<open>
  The in-memory token buckets of a pod (pkg/ratelimit/local.go) and the store that holds them
  (store.go).  Token counts and rates are exact rationals where the code has float64; the bit
  pattern of a float64, which only the configuration signature reads, is a parameter.  A method
  that mutates its receiver returns the new receiver.
\<close>

unbundle bit_operations_syntax

section \<open>tokenBucket\<close>

record token_bucket =
  tb_tokens :: rat
  tb_last :: gtime
  tb_rate :: rat
  tb_burst :: rat

definition empty_token_bucket :: token_bucket where
  "empty_token_bucket = \<lparr>tb_tokens = 0, tb_last = zero_time, tb_rate = 0, tb_burst = 0\<rparr>"

definition tb_init :: "gtime \<Rightarrow> rat \<Rightarrow> int \<Rightarrow> token_bucket \<Rightarrow> token_bucket" where
  "tb_init now ratePerSec burst t =
    t\<lparr>tb_rate := ratePerSec, tb_burst := of_int burst, tb_tokens := 0, tb_last := now\<rparr>"

text \<open>The level after \<open>refill\<close>; \<open>TokensAt\<close> returns it without storing it.\<close>

definition TokensAt :: "gtime \<Rightarrow> token_bucket \<Rightarrow> rat" where
  "TokensAt now t =
    (if tb_last t < now
     then (let tokens = tb_tokens t + seconds (time_sub now (tb_last t)) * tb_rate t
           in if tb_burst t < tokens then tb_burst t else tokens)
     else tb_tokens t)"

definition refill :: "gtime \<Rightarrow> token_bucket \<Rightarrow> token_bucket" where
  "refill now t =
    (if tb_last t < now
     then (let tokens = tb_tokens t + seconds (time_sub now (tb_last t)) * tb_rate t
           in t\<lparr>tb_tokens := (if tb_burst t < tokens then tb_burst t else tokens), tb_last := now\<rparr>)
     else t)"

definition tb_allow :: "gtime \<Rightarrow> token_bucket \<Rightarrow> bool \<times> token_bucket" where
  "tb_allow now t =
    (let t = refill now t
     in if tb_tokens t < 1 then (False, t) else (True, t\<lparr>tb_tokens := tb_tokens t - 1\<rparr>))"

definition set_rate :: "gtime \<Rightarrow> rat \<Rightarrow> token_bucket \<Rightarrow> token_bucket" where
  "set_rate now ratePerSec t = (refill now t)\<lparr>tb_rate := ratePerSec\<rparr>"

definition set_burst :: "gtime \<Rightarrow> int \<Rightarrow> token_bucket \<Rightarrow> token_bucket" where
  "set_burst now burst t =
    (let t = (refill now t)\<lparr>tb_burst := of_int burst\<rparr>
     in if tb_burst t < tb_tokens t then t\<lparr>tb_tokens := tb_burst t\<rparr> else t)"

section \<open>LocalBucket\<close>

record local_bucket =
  lb_epoch :: "64 word"
  lb_generation :: "64 word"
  lb_holder :: string
  lb_shared :: token_bucket
  lb_standard :: token_bucket
  lb_has_shared :: bool
  lb_has_standard :: bool
  lb_not_before :: gtime
  lb_not_after :: gtime
  lb_config :: "64 word"

definition NewLocalBucket :: local_bucket where
  "NewLocalBucket = \<lparr>lb_epoch = 0, lb_generation = 0, lb_holder = [],
    lb_shared = empty_token_bucket, lb_standard = empty_token_bucket,
    lb_has_shared = False, lb_has_standard = False,
    lb_not_before = zero_time, lb_not_after = zero_time, lb_config = 0\<rparr>"

record bucket_config =
  bc_epoch :: "64 word"
  bc_generation :: "64 word"
  bc_holder :: string
  bc_not_before :: gtime
  bc_not_after :: gtime
  bc_shared_rate :: rat
  bc_shared_burst :: int
  bc_standard_rate :: rat
  bc_standard_burst :: int

definition config_valid :: "bucket_config \<Rightarrow> bool" where
  "config_valid c =
    (if bc_generation c = 0 \<or> bc_holder c = [] then False
     else if \<not> bc_not_before c < bc_not_after c then False
     else if bc_shared_rate c \<le> 0 \<or> bc_shared_burst c \<le> 0 then False
     else if bc_standard_burst c < 0 then False
     else bc_standard_burst c = 0 \<or> 0 < bc_standard_rate c)"

definition bucketConfigSignature ::
  "(rat \<Rightarrow> 64 word) \<Rightarrow> rat \<Rightarrow> int \<Rightarrow> rat \<Rightarrow> int \<Rightarrow> 64 word" where
  "bucketConfigSignature float_bits sharedRate sharedBurst standardRate standardBurst =
    (let signature = float_bits sharedRate;
         signature = signature XOR (float_bits standardRate * 0x9e3779b97f4a7c15);
         signature = signature XOR (word_of_int sharedBurst * 0xbf58476d1ce4e5b9);
         signature = signature XOR (word_of_int standardBurst * 0x94d049bb133111eb)
     in if signature = 0 then 1 else signature)"

definition lb_reset :: "local_bucket \<Rightarrow> local_bucket" where
  "lb_reset b = b\<lparr>lb_epoch := 0, lb_generation := 0, lb_holder := [], lb_has_shared := False,
    lb_has_standard := False, lb_shared := empty_token_bucket, lb_standard := empty_token_bucket,
    lb_not_before := zero_time, lb_not_after := zero_time, lb_config := 0\<rparr>"

definition applyShared :: "gtime \<Rightarrow> bucket_config \<Rightarrow> bool \<Rightarrow> local_bucket \<Rightarrow> local_bucket" where
  "applyShared now cfg incarnationChanged b =
    (if \<not> lb_has_shared b \<or> incarnationChanged
     then b\<lparr>lb_shared := tb_init now (bc_shared_rate cfg) (bc_shared_burst cfg) (lb_shared b),
            lb_has_shared := True\<rparr>
     else b\<lparr>lb_shared := set_burst now (bc_shared_burst cfg)
              (set_rate now (bc_shared_rate cfg) (lb_shared b))\<rparr>)"

definition applyStandard :: "gtime \<Rightarrow> bucket_config \<Rightarrow> bool \<Rightarrow> local_bucket \<Rightarrow> local_bucket" where
  "applyStandard now cfg incarnationChanged b =
    (if bc_standard_burst cfg \<le> 0
     then b\<lparr>lb_has_standard := False, lb_standard := empty_token_bucket\<rparr>
     else if \<not> lb_has_standard b \<or> incarnationChanged
     then b\<lparr>lb_standard := tb_init now (bc_standard_rate cfg) (bc_standard_burst cfg) (lb_standard b),
            lb_has_standard := True\<rparr>
     else b\<lparr>lb_standard := set_burst now (bc_standard_burst cfg)
              (set_rate now (bc_standard_rate cfg) (lb_standard b))\<rparr>)"

definition lb_update ::
  "(rat \<Rightarrow> 64 word) \<Rightarrow> gtime \<Rightarrow> bucket_config \<Rightarrow> local_bucket \<Rightarrow> local_bucket" where
  "lb_update float_bits now cfg b =
    (if \<not> config_valid cfg then lb_reset b
     else
       (let incarnationChanged = lb_holder b \<noteq> bc_holder cfg \<or> lb_generation b \<noteq> bc_generation cfg;
            b = b\<lparr>lb_epoch := bc_epoch cfg, lb_generation := bc_generation cfg,
                  lb_not_before := bc_not_before cfg, lb_not_after := bc_not_after cfg,
                  lb_holder := bc_holder cfg\<rparr>;
            b = applyShared now cfg incarnationChanged b;
            b = applyStandard now cfg incarnationChanged b
        in b\<lparr>lb_config := bucketConfigSignature float_bits (bc_shared_rate cfg) (bc_shared_burst cfg)
              (bc_standard_rate cfg) (bc_standard_burst cfg)\<rparr>))"

definition MatchesConfig :: "(rat \<Rightarrow> 64 word) \<Rightarrow> rat \<Rightarrow> int \<Rightarrow> rat \<Rightarrow> int \<Rightarrow> local_bucket \<Rightarrow> bool" where
  "MatchesConfig float_bits sharedRate sharedBurst standardRate standardBurst b \<longleftrightarrow>
    lb_config b = bucketConfigSignature float_bits sharedRate sharedBurst standardRate standardBurst"

definition MatchesSignature :: "64 word \<Rightarrow> local_bucket \<Rightarrow> bool" where
  "MatchesSignature signature b \<longleftrightarrow> lb_config b = signature"

definition lb_renew :: "64 word \<Rightarrow> gtime \<Rightarrow> gtime \<Rightarrow> local_bucket \<Rightarrow> local_bucket" where
  "lb_renew epoch notBefore notAfter b =
    b\<lparr>lb_epoch := epoch, lb_not_before := notBefore, lb_not_after := notAfter\<rparr>"

text \<open>\<open>(ok, stale)\<close>.\<close>

definition windowValid :: "gtime \<Rightarrow> 64 word \<Rightarrow> 64 word \<Rightarrow> local_bucket \<Rightarrow> bool \<times> bool" where
  "windowValid now epoch generation b =
    (if epoch \<noteq> 0 then
       (if lb_epoch b \<noteq> epoch \<or> lb_generation b \<noteq> generation then (False, True) else (True, False))
     else if now < lb_not_before b \<or> \<not> now < lb_not_after b then (False, False)
     else (True, False))"

text \<open>\<open>((allowed, stale), bucket)\<close>.\<close>

definition TryPremiumLease ::
  "gtime \<Rightarrow> 64 word \<Rightarrow> 64 word \<Rightarrow> local_bucket \<Rightarrow> (bool \<times> bool) \<times> local_bucket" where
  "TryPremiumLease now epoch generation b =
    (let (ok, stale) = windowValid now epoch generation b
     in if \<not> ok then ((False, stale), b)
        else if \<not> lb_has_shared b then ((False, False), b)
        else (let (allowed, t) = tb_allow now (lb_shared b)
              in ((allowed, False), b\<lparr>lb_shared := t\<rparr>)))"

definition TryPremium :: "gtime \<Rightarrow> local_bucket \<Rightarrow> bool \<times> local_bucket" where
  "TryPremium now b = (let ((allowed, stale), b) = TryPremiumLease now 0 0 b in (allowed, b))"

text \<open>\<open>((standard, shared, stale), bucket)\<close>.\<close>

definition TryStandardLease ::
  "gtime \<Rightarrow> 64 word \<Rightarrow> 64 word \<Rightarrow> local_bucket \<Rightarrow> (bool \<times> bool \<times> bool) \<times> local_bucket" where
  "TryStandardLease now epoch generation b =
    (let (ok, stale) = windowValid now epoch generation b
     in if \<not> ok then ((False, False, stale), b)
        else if \<not> lb_has_standard b \<or> \<not> lb_has_shared b then ((False, False, False), b)
        else
          (let b = b\<lparr>lb_standard := refill now (lb_standard b)\<rparr>
           in if tb_tokens (lb_standard b) < 1 then ((False, False, False), b)
              else
                (let b = b\<lparr>lb_shared := refill now (lb_shared b)\<rparr>
                 in if tb_tokens (lb_shared b) < 1 then ((False, False, False), b)
                    else ((True, True, False),
                          b\<lparr>lb_standard := (lb_standard b)\<lparr>tb_tokens := tb_tokens (lb_standard b) - 1\<rparr>,
                            lb_shared := (lb_shared b)\<lparr>tb_tokens := tb_tokens (lb_shared b) - 1\<rparr>\<rparr>))))"

definition TryStandard :: "gtime \<Rightarrow> local_bucket \<Rightarrow> (bool \<times> bool) \<times> local_bucket" where
  "TryStandard now b =
    (let ((standard, shared, stale), b) = TryStandardLease now 0 0 b in ((standard, shared), b))"

definition lb_is_valid :: "gtime \<Rightarrow> local_bucket \<Rightarrow> bool" where
  "lb_is_valid now b \<longleftrightarrow> \<not> now < lb_not_before b \<and> now < lb_not_after b"

definition ExpiredUnixNano :: "int \<Rightarrow> local_bucket \<Rightarrow> bool" where
  "ExpiredUnixNano now b \<longleftrightarrow> lb_not_after b = zero_time \<or> unix_nano (lb_not_after b) \<le> now"

section \<open>BucketStore\<close>

text \<open>The concurrent map of the store, one operation at a time.\<close>

record bucket_id =
  bi_scope :: string
  bi_value :: string

type_synonym bucket_store = "bucket_id \<rightharpoonup> local_bucket"

definition NewBucketStore :: "int \<Rightarrow> bucket_store" where
  "NewBucketStore sizeHint = Map.empty"

definition store_load :: "bucket_id \<Rightarrow> bucket_store \<Rightarrow> local_bucket option" where
  "store_load key s = s key"

definition load_or_store ::
  "bucket_id \<Rightarrow> local_bucket \<Rightarrow> bucket_store \<Rightarrow> (local_bucket \<times> bool) \<times> bucket_store" where
  "load_or_store key v s =
    (case s key of Some b \<Rightarrow> ((b, True), s) | None \<Rightarrow> ((v, False), s(key \<mapsto> v)))"

definition store_store :: "bucket_id \<Rightarrow> local_bucket \<Rightarrow> bucket_store \<Rightarrow> bucket_store" where
  "store_store key v s = s(key \<mapsto> v)"

definition store_delete :: "bucket_id \<Rightarrow> bucket_store \<Rightarrow> bucket_store" where
  "store_delete key s = s(key := None)"

definition DeleteExpired :: "int \<Rightarrow> bucket_store \<Rightarrow> bucket_store" where
  "DeleteExpired nowUnixNano s = (\<lambda>key. case s key of None \<Rightarrow> None
    | Some b \<Rightarrow> if ExpiredUnixNano nowUnixNano b then None else Some b)"

section \<open>The token bucket is a budget\<close>

text \<open>A bucket holds between no token and its burst.\<close>

definition tb_ok :: "token_bucket \<Rightarrow> bool" where
  "tb_ok t \<longleftrightarrow> 0 \<le> tb_tokens t \<and> tb_tokens t \<le> tb_burst t \<and> 0 \<le> tb_rate t"

lemma tokens_refill [bucket_simps]: "tb_tokens (refill now t) = TokensAt now t"
  by (simp add: refill_def TokensAt_def Let_def)

lemma refill_fields [bucket_simps]:
  "tb_last (refill now t) = max (tb_last t) now"
  "tb_rate (refill now t) = tb_rate t"
  "tb_burst (refill now t) = tb_burst t"
  by (auto simp: refill_def Let_def)

lemma TokensAt_nonneg: "tb_ok t \<Longrightarrow> 0 \<le> TokensAt now t"
  using time_sub_nonneg [of "tb_last t" now]
  by (auto simp: TokensAt_def tb_ok_def Let_def)

lemma TokensAt_burst: "tb_ok t \<Longrightarrow> TokensAt now t \<le> tb_burst t"
  by (auto simp: TokensAt_def tb_ok_def Let_def)

lemma refill_ok [bucket_simps]: "tb_ok t \<Longrightarrow> tb_ok (refill now t)"
  using TokensAt_nonneg TokensAt_burst by (simp add: tb_ok_def bucket_simps)

text \<open>A refill adds at most the rate times the time that has passed.\<close>

lemma TokensAt_le:
  assumes "0 \<le> tb_rate t"
  shows "TokensAt now t \<le> tb_tokens t + seconds (max (tb_last t) now - tb_last t) * tb_rate t"
proof (cases "tb_last t < now")
  case True
  have "seconds (time_sub now (tb_last t)) * tb_rate t \<le> seconds (now - tb_last t) * tb_rate t"
    using True assms by (intro mult_right_mono seconds_mono time_sub_le) simp_all
  then show ?thesis using True by (auto simp: TokensAt_def Let_def max_def)
qed (simp add: TokensAt_def max_def)

lemma TokensAt_exact:
  assumes "tb_last t \<le> now" "now - tb_last t \<le> int64_max" "tb_tokens t \<le> tb_burst t"
  shows "TokensAt now t = min (tb_burst t) (tb_tokens t + seconds (now - tb_last t) * tb_rate t)"
proof -
  have "time_sub now (tb_last t) = now - tb_last t"
    using assms(1,2) by (intro time_sub_exact) (simp add: in64_def int64_min_def)
  then show ?thesis using assms by (auto simp: TokensAt_def Let_def min_def)
qed

lemma tb_allow_simps [bucket_simps]:
  "fst (tb_allow now t) \<longleftrightarrow> 1 \<le> TokensAt now t"
  "tb_tokens (snd (tb_allow now t)) = TokensAt now t - (if 1 \<le> TokensAt now t then 1 else 0)"
  "tb_last (snd (tb_allow now t)) = max (tb_last t) now"
  "tb_rate (snd (tb_allow now t)) = tb_rate t"
  "tb_burst (snd (tb_allow now t)) = tb_burst t"
  by (auto simp: tb_allow_def Let_def bucket_simps not_less)

lemma tb_allow_ok [bucket_simps]: "tb_ok t \<Longrightarrow> tb_ok (snd (tb_allow now t))"
  using TokensAt_nonneg TokensAt_burst [of t now] by (auto simp: tb_ok_def bucket_simps)

lemma tb_init_ok [bucket_simps]: "\<lbrakk>0 \<le> ratePerSec; 0 \<le> burst\<rbrakk> \<Longrightarrow> tb_ok (tb_init now ratePerSec burst t)"
  by (simp add: tb_ok_def tb_init_def)

lemma tb_init_simps [bucket_simps]:
  "tb_tokens (tb_init now r burst t) = 0" "tb_last (tb_init now r burst t) = now"
  "tb_rate (tb_init now r burst t) = r" "tb_burst (tb_init now r burst t) = of_int burst"
  by (simp_all add: tb_init_def)

lemma set_rate_ok [bucket_simps]: "\<lbrakk>tb_ok t; 0 \<le> ratePerSec\<rbrakk> \<Longrightarrow> tb_ok (set_rate now ratePerSec t)"
  using refill_ok [of t now] by (simp add: tb_ok_def set_rate_def)

lemma set_burst_ok [bucket_simps]: "\<lbrakk>tb_ok t; 0 \<le> burst\<rbrakk> \<Longrightarrow> tb_ok (set_burst now burst t)"
  using refill_ok [of t now] by (auto simp: tb_ok_def set_burst_def Let_def)

definition tb_usable :: "rat \<Rightarrow> rat \<Rightarrow> token_bucket \<Rightarrow> bool" where
  "tb_usable r burst t \<longleftrightarrow> tb_ok t \<and> tb_rate t = r \<and> tb_burst t = burst \<and> 1 \<le> burst"

lemma TokensAt_account:
  assumes "tb_ok t" "tb_rate t \<le> r"
  shows "TokensAt now t \<le> tb_tokens t + r / of_int one_second * of_int (max (tb_last t) now - tb_last t)"
proof -
  have "seconds (max (tb_last t) now - tb_last t) * tb_rate t
      \<le> seconds (max (tb_last t) now - tb_last t) * r"
    using assms(2) by (intro mult_left_mono) simp_all
  moreover have "seconds (max (tb_last t) now - tb_last t) * r
      = r / of_int one_second * of_int (max (tb_last t) now - tb_last t)"
    by (simp add: seconds_def)
  ultimately show ?thesis
    using TokensAt_le [of t now] assms(1) unfolding tb_ok_def by linarith
qed

interpretation tb: live_budget tb_tokens tb_last "tb_usable r burst" "max 0 r / of_int one_second"
    burst "\<lambda>now. now" "\<lambda>_ _. True" tb_allow int64_max for r burst :: rat
proof unfold_locales
  fix t now
  assume usable: "tb_usable r burst t" and fwd: "tb_last t \<le> now"
  then have ok: "tb_ok t" and r: "tb_rate t = r" "max 0 r = r" and b: "tb_burst t = burst" "1 \<le> burst"
    by (auto simp: tb_usable_def tb_ok_def)
  show "tb_usable r burst (snd (tb_allow now t))"
    using usable by (simp add: tb_usable_def bucket_simps)
  show "tb_last t \<le> tb_last (snd (tb_allow now t)) \<and> tb_last (snd (tb_allow now t)) \<le> now"
    using fwd by (simp add: bucket_simps)
  show "tb_tokens (snd (tb_allow now t)) + (if fst (tb_allow now t) then 1 else 0)
      \<le> tb_tokens t + max 0 r / of_int one_second * of_int (tb_last (snd (tb_allow now t)) - tb_last t)"
    using TokensAt_account [OF ok, of r now] r by (simp add: bucket_simps)
  assume near: "now - tb_last t \<le> int64_max"
    and enough: "1 \<le> tb_tokens t + max 0 r / of_int one_second * of_int (now - tb_last t)"
  have "TokensAt now t = min burst (tb_tokens t + seconds (now - tb_last t) * r)"
    using TokensAt_exact [OF fwd near] ok r b by (simp add: tb_ok_def)
  then show "fst (tb_allow now t)"
    using enough b r by (simp add: bucket_simps seconds_def min_le_iff_disj ac_simps)
qed (auto simp: tb_usable_def tb_ok_def)

section \<open>The local bucket is a budget\<close>

text \<open>
  What happens to a bucket between two resets: requests of either kind, renewals, and updates
  with a valid configuration.  An event is admitted when it takes a token.
\<close>

datatype bucket_event =
    Premium gtime "64 word" "64 word"
  | Standard gtime "64 word" "64 word"
  | Refresh gtime bucket_config
  | Renewal gtime "64 word" gtime gtime

fun event_time :: "bucket_event \<Rightarrow> gtime" where
  "event_time (Premium now _ _) = now"
| "event_time (Standard now _ _) = now"
| "event_time (Refresh now _) = now"
| "event_time (Renewal now _ _ _) = now"

fun bucket_step :: "(rat \<Rightarrow> 64 word) \<Rightarrow> bucket_event \<Rightarrow> local_bucket \<Rightarrow> bool \<times> local_bucket" where
  "bucket_step fb (Premium now epoch generation) b =
    (fst (fst (TryPremiumLease now epoch generation b)), snd (TryPremiumLease now epoch generation b))"
| "bucket_step fb (Standard now epoch generation) b =
    (fst (snd (fst (TryStandardLease now epoch generation b))), snd (TryStandardLease now epoch generation b))"
| "bucket_step fb (Refresh now cfg) b = (False, lb_update fb now cfg b)"
| "bucket_step fb (Renewal now epoch notBefore notAfter) b = (False, lb_renew epoch notBefore notAfter b)"

fun config_within :: "rat \<Rightarrow> rat \<Rightarrow> bucket_event \<Rightarrow> local_bucket \<Rightarrow> bool" where
  "config_within r burst (Refresh now cfg) b \<longleftrightarrow>
    config_valid cfg \<and> bc_shared_rate cfg \<le> r \<and> of_int (bc_shared_burst cfg) \<le> burst"
| "config_within r burst _ b \<longleftrightarrow> True"

definition shared_usable :: "rat \<Rightarrow> rat \<Rightarrow> local_bucket \<Rightarrow> bool" where
  "shared_usable r burst b \<longleftrightarrow>
    tb_ok (lb_shared b) \<and> tb_rate (lb_shared b) \<le> r \<and> tb_burst (lb_shared b) \<le> burst"

lemma update_shared:
  "config_valid cfg \<Longrightarrow> lb_shared (lb_update fb now cfg b) =
    (if \<not> lb_has_shared b \<or> lb_holder b \<noteq> bc_holder cfg \<or> lb_generation b \<noteq> bc_generation cfg
     then tb_init now (bc_shared_rate cfg) (bc_shared_burst cfg) (lb_shared b)
     else set_burst now (bc_shared_burst cfg) (set_rate now (bc_shared_rate cfg) (lb_shared b)))"
  by (auto simp: lb_update_def applyShared_def applyStandard_def Let_def)

lemma premium_shared:
  "TryPremiumLease now epoch generation b =
    (if fst (windowValid now epoch generation b) \<and> lb_has_shared b
     then ((fst (tb_allow now (lb_shared b)), False), b\<lparr>lb_shared := snd (tb_allow now (lb_shared b))\<rparr>)
     else ((False, snd (windowValid now epoch generation b) \<and> \<not> fst (windowValid now epoch generation b)), b))"
  by (auto simp: TryPremiumLease_def windowValid_def case_prod_beta Let_def)

text \<open>A configuration change never adds tokens and never moves the clock back.\<close>

lemma set_config_simps [bucket_simps]:
  "tb_last (set_burst now burst (set_rate now r t)) = max (tb_last t) now"
  "tb_rate (set_burst now burst (set_rate now r t)) = r"
  "tb_burst (set_burst now burst (set_rate now r t)) = of_int burst"
  "tb_tokens (set_burst now burst (set_rate now r t)) = min (of_int burst) (TokensAt now t)"
proof -
  have again: "TokensAt now (set_rate now r t) = TokensAt now t"
    by (auto simp: TokensAt_def set_rate_def refill_def Let_def)
  show "tb_last (set_burst now burst (set_rate now r t)) = max (tb_last t) now"
    "tb_rate (set_burst now burst (set_rate now r t)) = r"
    "tb_burst (set_burst now burst (set_rate now r t)) = of_int burst"
    by (auto simp: set_burst_def set_rate_def Let_def bucket_simps)
  show "tb_tokens (set_burst now burst (set_rate now r t)) = min (of_int burst) (TokensAt now t)"
    by (auto simp: set_burst_def Let_def bucket_simps again)
qed

text \<open>An ordered request spends from both buckets or from neither.\<close>

lemma standard_lease_cases:
  obtains (both) "fst (TryStandardLease now epoch generation b) = (True, True, False)"
      "1 \<le> TokensAt now (lb_standard b)" "1 \<le> TokensAt now (lb_shared b)"
      "snd (TryStandardLease now epoch generation b)
        = b\<lparr>lb_standard := snd (tb_allow now (lb_standard b)),
            lb_shared := snd (tb_allow now (lb_shared b))\<rparr>"
  | (neither) "fst (fst (TryStandardLease now epoch generation b)) = False"
      "fst (snd (fst (TryStandardLease now epoch generation b))) = False"
      "lb_standard (snd (TryStandardLease now epoch generation b)) \<in> {lb_standard b, refill now (lb_standard b)}"
      "lb_shared (snd (TryStandardLease now epoch generation b)) \<in> {lb_shared b, refill now (lb_shared b)}"
proof (cases "fst (windowValid now epoch generation b) \<and> lb_has_standard b \<and> lb_has_shared b
    \<and> 1 \<le> TokensAt now (lb_standard b) \<and> 1 \<le> TokensAt now (lb_shared b)")
  case True
  then show thesis
    by (intro both)
      (auto simp: TryStandardLease_def tb_allow_def case_prod_beta Let_def bucket_simps not_less)
next
  case False
  then show thesis
    by (intro neither)
      (auto simp: TryStandardLease_def case_prod_beta Let_def bucket_simps not_less not_le split: if_splits)
qed

lemma bucket_step_refill:
  assumes "\<And>now cfg. e \<noteq> Refresh now cfg"
  shows "lb_shared (snd (bucket_step fb e b))
      \<in> (if fst (bucket_step fb e b) then {snd (tb_allow (event_time e) (lb_shared b))}
         else {lb_shared b, refill (event_time e) (lb_shared b)})
    \<and> (fst (bucket_step fb e b) \<longrightarrow> 1 \<le> TokensAt (event_time e) (lb_shared b))"
proof (cases e)
  case (Standard now epoch generation)
  then show ?thesis
    by (cases rule: standard_lease_cases [of now epoch generation b]) (simp_all add: bucket_simps)
next
  case (Premium now epoch generation)
  then show ?thesis
    by (auto simp: premium_shared bucket_simps tb_allow_def Let_def not_less)
qed (use assms in \<open>simp_all add: lb_renew_def\<close>)

lemma refresh_shared_account:
  fixes fb :: "rat \<Rightarrow> 64 word"
  assumes "config_valid cfg" "bc_shared_rate cfg \<le> r" "of_int (bc_shared_burst cfg) \<le> burst"
    "shared_usable r burst b" "tb_last (lb_shared b) \<le> now"
  defines "b' \<equiv> lb_update fb now cfg b"
  shows "shared_usable r burst b'"
    "tb_last (lb_shared b) \<le> tb_last (lb_shared b')" "tb_last (lb_shared b') \<le> now"
    "tb_tokens (lb_shared b') \<le> tb_tokens (lb_shared b)
      + max 0 r / of_int one_second * of_int (tb_last (lb_shared b') - tb_last (lb_shared b))"
proof -
  have cfg: "0 \<le> bc_shared_rate cfg" "0 \<le> bc_shared_burst cfg"
    using assms(1) by (auto simp: config_valid_def split: if_splits)
  have ok: "tb_ok (lb_shared b)" and rate: "tb_rate (lb_shared b) \<le> max 0 r"
    using assms(4) by (auto simp: shared_usable_def)
  show "shared_usable r burst b'"
    using assms(2,3) cfg ok
    by (auto simp: b'_def shared_usable_def update_shared [OF assms(1)] bucket_simps)
  show "tb_last (lb_shared b) \<le> tb_last (lb_shared b')" "tb_last (lb_shared b') \<le> now"
    using assms(5) by (simp_all add: b'_def update_shared [OF assms(1)] bucket_simps)
  show "tb_tokens (lb_shared b') \<le> tb_tokens (lb_shared b)
      + max 0 r / of_int one_second * of_int (tb_last (lb_shared b') - tb_last (lb_shared b))"
  proof (cases "\<not> lb_has_shared b \<or> lb_holder b \<noteq> bc_holder cfg \<or> lb_generation b \<noteq> bc_generation cfg")
    case True
    have "0 \<le> max 0 r / of_int one_second * of_int (now - tb_last (lb_shared b))"
      using assms(5) by (intro mult_nonneg_nonneg) simp_all
    moreover have "0 \<le> tb_tokens (lb_shared b)" using ok by (simp add: tb_ok_def)
    moreover have "tb_tokens (lb_shared b') = 0" "tb_last (lb_shared b') = now"
      using True by (simp_all add: b'_def update_shared [OF assms(1)] tb_init_def)
    ultimately show ?thesis by (simp only:)
  next
    case False
    then show ?thesis
      using TokensAt_account [OF ok rate, of now]
      by (simp add: b'_def update_shared [OF assms(1)] bucket_simps min.coboundedI2)
  qed
qed

interpretation lb: token_budget "\<lambda>b. tb_tokens (lb_shared b)" "\<lambda>b. tb_last (lb_shared b)"
    "shared_usable r burst" "max 0 r / of_int one_second" burst event_time "config_within r burst"
    "bucket_step fb" for r burst :: rat and fb :: "rat \<Rightarrow> 64 word"
proof unfold_locales
  fix b e
  assume usable: "shared_usable r burst b" and within: "config_within r burst e b"
    and fwd: "tb_last (lb_shared b) \<le> event_time e"
  define b' where "b' = snd (bucket_step fb e b)"
  have ok: "tb_ok (lb_shared b)" and rate: "tb_rate (lb_shared b) \<le> max 0 r"
    using usable by (auto simp: shared_usable_def)
  note account = TokensAt_account [OF ok rate, of "event_time e"]
  have "shared_usable r burst b' \<and> tb_last (lb_shared b) \<le> tb_last (lb_shared b')
    \<and> tb_last (lb_shared b') \<le> event_time e
    \<and> tb_tokens (lb_shared b') + (if fst (bucket_step fb e b) then 1 else 0) \<le> tb_tokens (lb_shared b)
      + max 0 r / of_int one_second * of_int (tb_last (lb_shared b') - tb_last (lb_shared b))"
  proof (cases "\<exists>now cfg. e = Refresh now cfg")
    case True
    then obtain now cfg where e: "e = Refresh now cfg" by blast
    show ?thesis
      using refresh_shared_account [of cfg r burst b now fb] within usable fwd
      by (simp add: b'_def e)
  next
    case False
    then have step: "lb_shared b' \<in> (if fst (bucket_step fb e b) then {snd (tb_allow (event_time e) (lb_shared b))}
         else {lb_shared b, refill (event_time e) (lb_shared b)})"
       "fst (bucket_step fb e b) \<longrightarrow> 1 \<le> TokensAt (event_time e) (lb_shared b)"
      using bucket_step_refill [of e fb b] by (simp_all add: b'_def)
    show ?thesis
      using step usable fwd account
      by (auto simp: shared_usable_def bucket_simps split: if_splits)
  qed
  then show "shared_usable r burst (snd (bucket_step fb e b))"
    and "tb_last (lb_shared b) \<le> tb_last (lb_shared (snd (bucket_step fb e b)))
      \<and> tb_last (lb_shared (snd (bucket_step fb e b))) \<le> event_time e"
    and "tb_tokens (lb_shared (snd (bucket_step fb e b))) + (if fst (bucket_step fb e b) then 1 else 0)
      \<le> tb_tokens (lb_shared b) + max 0 r / of_int one_second
        * of_int (tb_last (lb_shared (snd (bucket_step fb e b))) - tb_last (lb_shared b))"
    by (simp_all only: b'_def)
qed (auto simp: shared_usable_def tb_ok_def)

section \<open>Properties\<close>

definition example_config :: bucket_config where
  "example_config = \<lparr>bc_epoch = 7, bc_generation = 9, bc_holder = ''pod'', bc_not_before = 0,
    bc_not_after = 30 * one_second, bc_shared_rate = 3, bc_shared_burst = 90,
    bc_standard_rate = 1, bc_standard_burst = 40\<rparr>"

text \<open>However a pod's local bucket is used between two resets (requests of either kind, lease
  renewals, configuration updates in any order), the requests it admits against the shared budget
  up to a given time are at most the tokens it held plus its rate times the elapsed time, and so at
  most its burst plus the rate times the elapsed time.
\<close>

theorem local_bucket_bound:
  assumes "shared_usable r burst b"
    and "forward_run (config_within r burst) event_time (\<lambda>b. tb_last (lb_shared b)) (bucket_step fb) es b"
    and "list_all (\<lambda>e. event_time e \<le> until) es" and "tb_last (lb_shared b) \<le> until"
  shows "of_nat (fst (run_attempts (bucket_step fb) es b))
    \<le> tb_tokens (lb_shared b) + max 0 r / of_int one_second * of_int (until - tb_last (lb_shared b))
    \<and> tb_tokens (lb_shared b) \<le> burst"
  using lb.run_bound [OF assms(1,2,4,3)] lb.level_bounds [OF assms(1)] by simp

lemma local_bucket_bound_witness:
  "of_nat (fst (run_attempts (bucket_step (\<lambda>_. 5))
      [Refresh 0 example_config, Premium one_second 7 9, Standard (2 * one_second) 7 9, Premium (2 * one_second) 7 9]
      NewLocalBucket))
    \<le> tb_tokens (lb_shared NewLocalBucket)
      + max 0 3 / of_int one_second * of_int (2 * one_second - tb_last (lb_shared NewLocalBucket))
    \<and> tb_tokens (lb_shared NewLocalBucket) \<le> 90"
proof (rule local_bucket_bound)
  show "shared_usable 3 90 NewLocalBucket" by code_simp
  show "forward_run (config_within 3 90) event_time (\<lambda>b. tb_last (lb_shared b)) (bucket_step (\<lambda>_. 5))
    [Refresh 0 example_config, Premium one_second 7 9, Standard (2 * one_second) 7 9, Premium (2 * one_second) 7 9]
    NewLocalBucket" by code_simp
qed code_simp+

text \<open>An ordered request takes a token from the standard and from the shared bucket together or
  from neither: it is admitted exactly when the lease window is current and both buckets exist and
  hold a token at that time, and then each loses exactly one; a refused request leaves both at the
  level that their refill alone gives them.
\<close>

theorem standard_lease_atomic:
  "let ((standard, shared, stale), b') = TryStandardLease now epoch generation b;
       (ok, expired) = windowValid now epoch generation b;
       enough = (ok \<and> lb_has_standard b \<and> lb_has_shared b
         \<and> 1 \<le> TokensAt now (lb_standard b) \<and> 1 \<le> TokensAt now (lb_shared b));
       taken = (if enough then 1 else 0)
   in standard = enough \<and> shared = enough \<and> stale = expired
     \<and> TokensAt now (lb_standard b') = TokensAt now (lb_standard b) - taken
     \<and> TokensAt now (lb_shared b') = TokensAt now (lb_shared b) - taken
     \<and> lb_epoch b' = lb_epoch b \<and> lb_generation b' = lb_generation b"
proof -
  have twice: "TokensAt now (refill now t) = TokensAt now t" for t
    by (auto simp: TokensAt_def refill_def Let_def)
  have spent: "TokensAt now ((refill now t)\<lparr>tb_tokens := x\<rparr>) = x" for t x
    by (auto simp: TokensAt_def refill_def Let_def)
  show ?thesis
    by (auto simp: TryStandardLease_def windowValid_def Let_def bucket_simps twice spent not_less)
qed
end
