(* ===== verification/RateSpec.thy ===== *)
theory RateSpec
  imports RateBucket GoText
begin

text \<open>
  Limits, requests and the central limiter of pkg/ratelimit/valkey.go: the construction of a
  \<open>Spec\<close> with its emergency share, the profiles of borrow.go, the Lua script that Valkey runs
  for one or two buckets, and the calls that feed it.  float64 values are exact rationals;
  strconv's float formats and Lua's \<open>tonumber\<close> are parameters.  A Valkey database is a map
  from keys to entries with an expiry, read at the server's clock.
\<close>

record number_text =
  format_f :: "rat \<Rightarrow> string"
  format_g :: "rat \<Rightarrow> string"
  tonumber :: "string \<Rightarrow> rat option"

section \<open>Spec\<close>

record spec =
  sp_capacity_arg :: string
  sp_refill_arg :: string
  sp_ttl_arg :: string
  sp_capacity :: int
  sp_refill_per_sec :: rat
  sp_emergency_args :: "string \<times> string \<times> string"
  sp_emergency_burst :: int
  sp_emergency_rate :: rat
  sp_profile :: nat

definition zero_spec :: spec where
  "zero_spec = \<lparr>sp_capacity_arg = [], sp_refill_arg = [], sp_ttl_arg = [], sp_capacity = 0,
    sp_refill_per_sec = 0, sp_emergency_args = ([], [], []), sp_emergency_burst = 0,
    sp_emergency_rate = 0, sp_profile = 0\<rparr>"

abbreviation (input) "profileUnknown \<equiv> (0 :: nat)"
abbreviation (input) "profileChat \<equiv> (1 :: nat)"
abbreviation (input) "profileChatMod \<equiv> (2 :: nat)"
abbreviation (input) "profileHelixGeneral \<equiv> (3 :: nat)"
abbreviation (input) "profileHelixSystem \<equiv> (4 :: nat)"
abbreviation (input) "profileHelixUser \<equiv> (5 :: nat)"

definition detectProfile :: "int \<Rightarrow> rat \<Rightarrow> nat" where
  "detectProfile capacity refillPerSec =
    (if capacity = 20 then profileChat
     else if capacity = 100 then (if 2 < refillPerSec then profileChatMod else profileHelixSystem)
     else if capacity = 700 then profileHelixGeneral
     else if capacity = 800 then profileHelixUser
     else profileUnknown)"

text \<open>\<open>NewSpec\<close> panics, here \<open>None\<close>, on a limit that is not positive or not whole.\<close>

definition emergency_burst :: "rat \<Rightarrow> int" where
  "emergency_burst capacity =
    (let burst = \<lfloor>capacity * (1 / 10)\<rfloor>;
         burst = (if burst < 1 then 1 else burst)
     in if \<lfloor>capacity\<rfloor> < burst then \<lfloor>capacity\<rfloor> else burst)"

definition NewSpec :: "number_text \<Rightarrow> rat \<Rightarrow> rat \<Rightarrow> spec option" where
  "NewSpec nt capacity refillPerSecond =
    (if capacity \<le> 0 \<or> refillPerSecond \<le> 0 \<or> capacity \<noteq> of_int \<lfloor>capacity\<rfloor> then None
     else
       (let ttl = wrap64 (\<lceil>capacity / refillPerSecond\<rceil> * 2);
            emergencyBurst = emergency_burst capacity;
            emergencyRate = refillPerSecond * (of_int emergencyBurst / capacity);
            emergencyTTL = wrap64 (\<lceil>of_int emergencyBurst / emergencyRate\<rceil> * 2)
        in Some \<lparr>sp_capacity_arg = format_f nt capacity,
                 sp_refill_arg = format_g nt (refillPerSecond / 1000),
                 sp_ttl_arg = itoa ttl,
                 sp_capacity = \<lfloor>capacity\<rfloor>,
                 sp_refill_per_sec = refillPerSecond,
                 sp_emergency_args = (itoa emergencyBurst, format_g nt (emergencyRate / 1000), itoa emergencyTTL),
                 sp_emergency_burst = emergencyBurst,
                 sp_emergency_rate = emergencyRate,
                 sp_profile = detectProfile \<lfloor>capacity\<rfloor> refillPerSecond\<rparr>))"

definition spec_emergency :: "spec \<Rightarrow> spec" where
  "spec_emergency s =
    (let (capacityArg, refillArg, ttlArg) = sp_emergency_args s
     in zero_spec\<lparr>sp_capacity_arg := capacityArg, sp_refill_arg := refillArg, sp_ttl_arg := ttlArg,
          sp_capacity := sp_emergency_burst s, sp_refill_per_sec := sp_emergency_rate s,
          sp_profile := sp_profile s\<rparr>)"

definition specsForProfile :: "number_text \<Rightarrow> nat \<Rightarrow> spec \<times> spec \<times> bool" where
  "specsForProfile nt profile =
    (let new = (\<lambda>capacity refillPerSecond. the (NewSpec nt capacity refillPerSecond))
     in if profile = profileChat then (new 20 (20 / 30), new 10 (10 / 30), True)
        else if profile = profileChatMod then (new 100 (100 / 30), new 50 (50 / 30), True)
        else if profile = profileHelixGeneral then (new 700 (700 / 60), new 350 (350 / 60), True)
        else if profile = profileHelixSystem then (new 100 (100 / 60), zero_spec, True)
        else if profile = profileHelixUser then (new 800 (800 / 60), new 400 (400 / 60), True)
        else (zero_spec, zero_spec, False))"

section \<open>Requests\<close>

record request =
  rq_key :: string
  rq_dynamic_prefix :: string
  rq_bucket :: bucket_id
  rq_spec :: spec

definition zero_bucket_id :: bucket_id where
  "zero_bucket_id = \<lparr>bi_scope = [], bi_value = []\<rparr>"

definition ForKey :: "string \<Rightarrow> spec \<Rightarrow> request" where
  "ForKey key s = \<lparr>rq_key = key, rq_dynamic_prefix = [], rq_bucket = zero_bucket_id, rq_spec = s\<rparr>"

definition ForDynamicKey :: "string \<Rightarrow> string \<Rightarrow> string \<Rightarrow> spec \<Rightarrow> request" where
  "ForDynamicKey valkeyPrefix scope value s =
    \<lparr>rq_key = [], rq_dynamic_prefix = valkeyPrefix,
     rq_bucket = \<lparr>bi_scope = scope, bi_value = value\<rparr>, rq_spec = s\<rparr>"

definition bucketID :: "request \<Rightarrow> bucket_id" where
  "bucketID r =
    (if bi_scope (rq_bucket r) \<noteq> [] then rq_bucket r
     else \<lparr>bi_scope = trim_prefix (rq_key r) ''ratelimit:'', bi_value = []\<rparr>)"

definition valkeyKey :: "request \<Rightarrow> string" where
  "valkeyKey r =
    (if rq_key r \<noteq> [] then rq_key r else rq_dynamic_prefix r @ bi_value (rq_bucket r))"

definition generationKey :: "string \<Rightarrow> string \<Rightarrow> 64 word \<Rightarrow> string" where
  "generationKey key class generation = key @ '':'' @ class @ '':g'' @ itoa (uint generation)"

definition emergencyKey :: "string \<Rightarrow> 64 word \<Rightarrow> string" where
  "emergencyKey key generation = generationKey key ''emergency'' generation"

definition HelixAppRequest :: "number_text \<Rightarrow> request" where
  "HelixAppRequest nt = ForKey ''ratelimit:helix:app'' (fst (specsForProfile nt profileHelixGeneral))"

definition HelixBotRequest :: "number_text \<Rightarrow> request" where
  "HelixBotRequest nt = ForKey ''ratelimit:helix:user:bot'' (fst (specsForProfile nt profileHelixUser))"

definition HelixUserRequest :: "number_text \<Rightarrow> string \<Rightarrow> request" where
  "HelixUserRequest nt broadcasterID =
    ForDynamicKey ''ratelimit:helix:user:'' ''helix:user'' broadcasterID
      (fst (specsForProfile nt profileHelixUser))"

section \<open>The Lua token bucket\<close>

text \<open>
  A key holds a hash, of which the script reads the two fields through \<open>tonumber\<close>, or a value
  of another type.  Its expiry is an absolute server time in milliseconds.
\<close>

datatype valkey_entry = WrongType | Hash (h_tokens: "rat option") (h_last_ms: "rat option") (h_expires: "int option")

type_synonym valkey_db = "string \<rightharpoonup> valkey_entry"

definition has_expired :: "int \<Rightarrow> int option \<Rightarrow> bool" where
  "has_expired now_ms expires = (case expires of None \<Rightarrow> False | Some e \<Rightarrow> e \<le> now_ms)"

text \<open>\<open>HMGET\<close>: an error on another type; an expired hash reads as a missing one.\<close>

definition hmget :: "int \<Rightarrow> string \<Rightarrow> valkey_db \<Rightarrow> (rat option \<times> rat option) option" where
  "hmget now_ms key db =
    (case db key of
       None \<Rightarrow> Some (None, None)
     | Some WrongType \<Rightarrow> None
     | Some (Hash tokens last_ms expires) \<Rightarrow>
         Some (if has_expired now_ms expires then (None, None) else (tokens, last_ms)))"

text \<open>The arguments of one bucket: capacity, refill per millisecond, time to live, empty origin.\<close>

definition lua_args :: "number_text \<Rightarrow> string list \<Rightarrow> (rat \<times> rat \<times> rat \<times> rat) option" where
  "lua_args nt as =
    (case map (tonumber nt) as of
       [Some capacity, Some refill_per_ms, Some ttl_s, Some empty_origin_ms] \<Rightarrow>
         if capacity \<le> 0 \<or> refill_per_ms \<le> 0 \<or> ttl_s \<le> 0 \<or> empty_origin_ms < 0 then None
         else Some (capacity, refill_per_ms, ttl_s, empty_origin_ms)
     | _ \<Rightarrow> None)"

definition lua_level :: "int \<Rightarrow> rat \<Rightarrow> rat \<Rightarrow> rat \<Rightarrow> rat option \<times> rat option \<Rightarrow> rat" where
  "lua_level now_ms capacity refill_per_ms empty_origin_ms stored =
    (let (tokens, last_ms) =
       (case stored of
          (Some tokens, Some last_ms) \<Rightarrow> (tokens, last_ms)
        | _ \<Rightarrow> ((if empty_origin_ms = 0 then capacity
                 else min capacity (max 0 (of_int now_ms - empty_origin_ms) * refill_per_ms)),
               of_int now_ms));
       elapsed = max 0 (of_int now_ms - last_ms)
     in min capacity (tokens + elapsed * refill_per_ms))"

text \<open>The read pass: every key is validated before any is written.\<close>

fun lua_read ::
  "number_text \<Rightarrow> int \<Rightarrow> valkey_db \<Rightarrow> string list \<Rightarrow> string list \<Rightarrow> (string \<times> rat \<times> rat) list option" where
  "lua_read nt now_ms db [] argv = Some []"
| "lua_read nt now_ms db (key # keys) argv =
    (case lua_args nt (take 4 argv) of
       None \<Rightarrow> None
     | Some (capacity, refill_per_ms, ttl_s, empty_origin_ms) \<Rightarrow>
         (case hmget now_ms key db of
            None \<Rightarrow> None
          | Some stored \<Rightarrow>
              map_option ((#) (key, lua_level now_ms capacity refill_per_ms empty_origin_ms stored, ttl_s))
                (lua_read nt now_ms db keys (drop 4 argv))))"

text \<open>The one-based position of the first bucket without a token; 0 when all have one.\<close>

fun lua_denied :: "nat \<Rightarrow> (string \<times> rat \<times> rat) list \<Rightarrow> nat" where
  "lua_denied i [] = 0"
| "lua_denied i ((key, tokens, ttl_s) # states) = (if tokens < 1 then i else lua_denied (i + 1) states)"

text \<open>\<open>HSET\<close> keeps the expiry of the hash it writes into.\<close>

definition kept_expiry :: "int \<Rightarrow> valkey_entry option \<Rightarrow> int option" where
  "kept_expiry now_ms entry =
    (case entry of Some (Hash _ _ expires) \<Rightarrow> if has_expired now_ms expires then None else expires
     | _ \<Rightarrow> None)"

text \<open>The write pass; \<open>EXPIRE\<close> refuses a time to live that is not whole.\<close>

fun lua_write :: "int \<Rightarrow> (string \<times> rat \<times> rat) list \<Rightarrow> valkey_db \<Rightarrow> bool \<times> valkey_db" where
  "lua_write now_ms [] db = (True, db)"
| "lua_write now_ms ((key, tokens, ttl_s) # states) db =
    (if of_int \<lfloor>ttl_s\<rfloor> = ttl_s
     then lua_write now_ms states
       (db(key \<mapsto> Hash (Some (tokens - 1)) (Some (of_int now_ms)) (Some (now_ms + \<lfloor>ttl_s\<rfloor> * 1000))))
     else (False, db(key \<mapsto> Hash (Some (tokens - 1)) (Some (of_int now_ms))
       (kept_expiry now_ms (db key)))))"

text \<open>\<open>None\<close> is an error reply.\<close>

definition luaOrderedTokenBucket ::
  "number_text \<Rightarrow> int \<Rightarrow> string list \<Rightarrow> string list \<Rightarrow> valkey_db \<Rightarrow> int option \<times> valkey_db" where
  "luaOrderedTokenBucket nt now_ms keys argv db =
    (let count = length keys
     in if count < 1 \<or> 2 < count then (None, db)
        else if length argv \<noteq> count * 4 then (None, db)
        else (case lua_read nt now_ms db keys argv of
            None \<Rightarrow> (None, db)
          | Some states \<Rightarrow>
              (let denied = lua_denied 1 states
               in if denied \<noteq> 0 then (Some (int denied), db)
                  else (case lua_write now_ms states db of
                      (True, db') \<Rightarrow> (Some 0, db')
                    | (False, db') \<Rightarrow> (None, db')))))"
end
