(* ===== verification/RateLimiter.thy ===== *)
theory RateLimiter
  imports RateSpec
begin

text \<open>
  The central limiter of pkg/ratelimit/valkey.go: the calls that run the Lua token bucket, and
  what they promise.  The script is a budget (\<open>interpretation\<close> of \<open>live_budget\<close>), its
  expiry never changes a decision, and an ordered request spends from both buckets or from none.
\<close>

section \<open>Limiter\<close>

datatype limiter_error = ErrEmptyKey | ErrScript | ErrInvalidDecision

definition originArg :: "int \<Rightarrow> string" where
  "originArg originMS = (if originMS = 0 then ''0'' else itoa originMS)"

definition limiter_allow_at ::
  "number_text \<Rightarrow> int \<Rightarrow> request \<Rightarrow> request option \<Rightarrow> int \<Rightarrow> int \<Rightarrow> valkey_db
    \<Rightarrow> (limiter_error + nat) \<times> valkey_db" where
  "limiter_allow_at nt now_ms first second firstOriginMS secondOriginMS db =
    (let firstKey = valkeyKey first
     in if firstKey = [] then (Inl ErrEmptyKey, db)
        else if (case second of None \<Rightarrow> False | Some r \<Rightarrow> valkeyKey r = []) then (Inl ErrEmptyKey, db)
        else
          (let args = (\<lambda>r origin. [sp_capacity_arg (rq_spec r), sp_refill_arg (rq_spec r),
                         sp_ttl_arg (rq_spec r), originArg origin]);
               (keys, argv) = (case second of
                   None \<Rightarrow> ([firstKey], args first firstOriginMS)
                 | Some r \<Rightarrow> ([firstKey, valkeyKey r], args first firstOriginMS @ args r secondOriginMS))
           in case luaOrderedTokenBucket nt now_ms keys argv db of
                (None, db') \<Rightarrow> (Inl ErrScript, db')
              | (Some result, db') \<Rightarrow>
                  if result < 0 \<or> int (length keys) < result then (Inl ErrInvalidDecision, db')
                  else (Inr (nat result), db')))"

definition limiter_allow ::
  "number_text \<Rightarrow> int \<Rightarrow> request \<Rightarrow> request option \<Rightarrow> valkey_db \<Rightarrow> (limiter_error + nat) \<times> valkey_db" where
  "limiter_allow nt now_ms first second db = limiter_allow_at nt now_ms first second 0 0 db"

definition limiter_Allow ::
  "number_text \<Rightarrow> int \<Rightarrow> request \<Rightarrow> valkey_db \<Rightarrow> (limiter_error + bool) \<times> valkey_db" where
  "limiter_Allow nt now_ms req db =
    (case limiter_allow nt now_ms req None db of
       (Inl err, db') \<Rightarrow> (Inl err, db')
     | (Inr denied, db') \<Rightarrow> (Inr (denied = 0), db'))"

definition limiter_AllowOrdered ::
  "number_text \<Rightarrow> int \<Rightarrow> request \<Rightarrow> request \<Rightarrow> valkey_db \<Rightarrow> (limiter_error + nat) \<times> valkey_db" where
  "limiter_AllowOrdered nt now_ms first second db = limiter_allow nt now_ms first (Some second) db"

definition emergency_request :: "request \<Rightarrow> 64 word \<Rightarrow> request" where
  "emergency_request req generation =
    ForKey (emergencyKey (valkeyKey req) generation) (spec_emergency (rq_spec req))"

definition AllowEmergency ::
  "number_text \<Rightarrow> int \<Rightarrow> request \<Rightarrow> 64 word \<Rightarrow> int \<Rightarrow> valkey_db \<Rightarrow> (limiter_error + bool) \<times> valkey_db" where
  "AllowEmergency nt now_ms req generation validFromMS db =
    (case limiter_allow_at nt now_ms (emergency_request req generation) None validFromMS validFromMS db of
       (Inl err, db') \<Rightarrow> (Inl err, db')
     | (Inr denied, db') \<Rightarrow> (Inr (denied = 0), db'))"

definition AllowEmergencyOrdered ::
  "number_text \<Rightarrow> int \<Rightarrow> request \<Rightarrow> request \<Rightarrow> 64 word \<Rightarrow> int \<Rightarrow> valkey_db
    \<Rightarrow> (limiter_error + nat) \<times> valkey_db" where
  "AllowEmergencyOrdered nt now_ms first second generation validFromMS db =
    limiter_allow_at nt now_ms (emergency_request first generation)
      (Some (emergency_request second generation)) validFromMS validFromMS db"

section \<open>Specs the script can read\<close>

text \<open>
  What the code relies on: Lua reads back the numbers strconv prints.
\<close>

definition exact_text :: "number_text \<Rightarrow> bool" where
  "exact_text nt \<longleftrightarrow> (\<forall>x. tonumber nt (format_f nt x) = Some x) \<and> (\<forall>x. tonumber nt (format_g nt x) = Some x)
    \<and> (\<forall>n. tonumber nt (itoa n) = Some (of_int n))"

text \<open>
  A spec the script accepts and that keeps a bucket for as long as it takes to fill: its arguments
  read as a capacity of at least one token, a positive rate, and a whole time to live that covers
  the time a bucket takes to fill.
\<close>

definition spec_sound :: "number_text \<Rightarrow> spec \<Rightarrow> bool" where
  "spec_sound nt s \<longleftrightarrow>
    tonumber nt (sp_capacity_arg s) = Some (of_int (sp_capacity s))
    \<and> tonumber nt (sp_refill_arg s) = Some (sp_refill_per_sec s / 1000)
    \<and> 1 \<le> sp_capacity s \<and> 0 < sp_refill_per_sec s
    \<and> (\<exists>ttl::int. tonumber nt (sp_ttl_arg s) = Some (of_int ttl) \<and> 0 < ttl
        \<and> of_int (sp_capacity s) \<le> of_int ttl * sp_refill_per_sec s)"

definition spec_ttl :: "number_text \<Rightarrow> spec \<Rightarrow> int" where
  "spec_ttl nt s = (case tonumber nt (sp_ttl_arg s) of Some ttl \<Rightarrow> \<lfloor>ttl\<rfloor> | None \<Rightarrow> 0)"

lemma ttl_covers:
  fixes capacity refillPerSecond :: rat
  assumes "0 < capacity" "0 < refillPerSecond" "in64 (\<lceil>capacity / refillPerSecond\<rceil> * 2)"
  shows "0 < wrap64 (\<lceil>capacity / refillPerSecond\<rceil> * 2)"
    and "capacity \<le> of_int (wrap64 (\<lceil>capacity / refillPerSecond\<rceil> * 2)) * refillPerSecond"
proof -
  define c where "c = \<lceil>capacity / refillPerSecond\<rceil>"
  have pos: "0 < c" using assms(1,2) by (simp add: c_def)
  have "capacity / refillPerSecond \<le> of_int c" by (simp add: c_def)
  then have "capacity \<le> of_int c * refillPerSecond" using assms(2) by (simp add: field_simps)
  also have "\<dots> \<le> of_int (c * 2) * refillPerSecond"
    using pos assms(2) by simp
  finally show "capacity \<le> of_int (wrap64 (\<lceil>capacity / refillPerSecond\<rceil> * 2)) * refillPerSecond"
    using assms(3) by (simp add: wrap64_id c_def)
  show "0 < wrap64 (\<lceil>capacity / refillPerSecond\<rceil> * 2)"
    using pos assms(3) by (simp add: wrap64_id c_def)
qed

lemma emergency_burst_bounds:
  assumes "1 \<le> \<lfloor>capacity\<rfloor>" shows "1 \<le> emergency_burst capacity \<and> emergency_burst capacity \<le> \<lfloor>capacity\<rfloor>"
  using assms by (auto simp: emergency_burst_def Let_def)

lemma NewSpec_sound:
  assumes nt: "exact_text nt" and s: "NewSpec nt capacity r = Some s"
    and range: "in64 (\<lceil>capacity / r\<rceil> * 2)"
  shows "spec_sound nt s" and "spec_sound nt (spec_emergency s)"
proof -
  have whole: "of_int \<lfloor>capacity\<rfloor> = capacity" and pos: "0 < capacity" "0 < r"
    using s by (auto simp: NewSpec_def split: if_splits)
  have one: "1 \<le> \<lfloor>capacity\<rfloor>" using whole pos by linarith
  define b where "b = emergency_burst capacity"
  define er where "er = r * (of_int b / capacity)"
  have b: "1 \<le> b" "b \<le> \<lfloor>capacity\<rfloor>" using emergency_burst_bounds [OF one] by (simp_all add: b_def)
  have er: "0 < er" "of_int b / er = capacity / r"
    using b(1) pos by (simp_all add: er_def)
  note ttl = ttl_covers [OF pos range]
  have ettl: "in64 (\<lceil>of_int b / er\<rceil> * 2)" using range er by simp
  have "0 < (of_int b :: rat)" using b by simp
  note ettl = ttl_covers [OF this er(1) ettl]
  have fields: "s = \<lparr>sp_capacity_arg = format_f nt capacity, sp_refill_arg = format_g nt (r / 1000),
      sp_ttl_arg = itoa (wrap64 (\<lceil>capacity / r\<rceil> * 2)), sp_capacity = \<lfloor>capacity\<rfloor>, sp_refill_per_sec = r,
      sp_emergency_args = (itoa b, format_g nt (er / 1000), itoa (wrap64 (\<lceil>of_int b / er\<rceil> * 2))),
      sp_emergency_burst = b, sp_emergency_rate = er, sp_profile = detectProfile \<lfloor>capacity\<rfloor> r\<rparr>"
    using s by (auto simp: NewSpec_def Let_def b_def er_def split: if_splits)
  show "spec_sound nt s"
    using nt whole pos one ttl unfolding spec_sound_def fields
    by (auto simp: exact_text_def)
  show "spec_sound nt (spec_emergency s)"
    using nt b er(1) ettl unfolding spec_sound_def fields spec_emergency_def zero_spec_def
    by (auto simp: exact_text_def)
qed

section \<open>What the script decides\<close>

text \<open>The level a sound spec reads at its key, in the code's unit of tokens.\<close>

definition spec_level :: "number_text \<Rightarrow> spec \<Rightarrow> int \<Rightarrow> string \<Rightarrow> valkey_db \<Rightarrow> rat" where
  "spec_level nt s now_ms key db =
    (case hmget now_ms key db of
       None \<Rightarrow> 0
     | Some stored \<Rightarrow> lua_level now_ms (of_int (sp_capacity s)) (sp_refill_per_sec s / 1000) 0 stored)"

definition spent_entry :: "number_text \<Rightarrow> spec \<Rightarrow> int \<Rightarrow> rat \<Rightarrow> valkey_entry" where
  "spent_entry nt s now_ms level =
    Hash (Some (level - 1)) (Some (of_int now_ms)) (Some (now_ms + spec_ttl nt s * 1000))"

text \<open>Lua reads the literal zero the code sends as the origin.\<close>

lemma origin_zero: "exact_text nt \<Longrightarrow> tonumber nt (originArg 0) = Some 0"
proof -
  have "itoa 0 = ''0''" by code_simp
  then show "exact_text nt \<Longrightarrow> tonumber nt (originArg 0) = Some 0"
    unfolding exact_text_def originArg_def by (metis of_int_0)
qed

lemma lua_args_sound:
  assumes "exact_text nt" "spec_sound nt s"
  shows "lua_args nt [sp_capacity_arg s, sp_refill_arg s, sp_ttl_arg s, originArg 0]
    = Some (of_int (sp_capacity s), sp_refill_per_sec s / 1000, of_int (spec_ttl nt s), 0)"
proof -
  obtain ttl :: int where "tonumber nt (sp_ttl_arg s) = Some (of_int ttl)" "0 < ttl"
    using assms(2) unfolding spec_sound_def by blast
  moreover have "tonumber nt (sp_capacity_arg s) = Some (of_int (sp_capacity s))"
    "tonumber nt (sp_refill_arg s) = Some (sp_refill_per_sec s / 1000)"
    "1 \<le> sp_capacity s" "0 < sp_refill_per_sec s"
    using assms(2) unfolding spec_sound_def by blast+
  ultimately show ?thesis
    using origin_zero [OF assms(1)] by (simp add: lua_args_def spec_ttl_def)
qed

lemma spec_ttl_covers:
  "spec_sound nt s \<Longrightarrow> 0 < spec_ttl nt s \<and> of_int (sp_capacity s) \<le> of_int (spec_ttl nt s) * sp_refill_per_sec s"
  by (auto simp: spec_sound_def spec_ttl_def)

lemma limiter_single:
  assumes "exact_text nt" "spec_sound nt (rq_spec req)" "valkeyKey req \<noteq> []"
    "hmget now_ms (valkeyKey req) db \<noteq> None"
  defines "level \<equiv> spec_level nt (rq_spec req) now_ms (valkeyKey req) db"
  shows "limiter_allow_at nt now_ms req None 0 x db =
    (if level < 1 then (Inr 1, db)
     else (Inr 0, db(valkeyKey req \<mapsto> spent_entry nt (rq_spec req) now_ms level)))"
  using assms(3,4) lua_args_sound [OF assms(1,2)]
  by (auto simp: limiter_allow_at_def luaOrderedTokenBucket_def Let_def level_def spec_level_def
      spent_entry_def)

lemma limiter_pair:
  assumes "exact_text nt" "spec_sound nt (rq_spec a)" "spec_sound nt (rq_spec b)"
    "valkeyKey a \<noteq> []" "valkeyKey b \<noteq> []"
    "hmget now_ms (valkeyKey a) db \<noteq> None" "hmget now_ms (valkeyKey b) db \<noteq> None"
  defines "level \<equiv> (\<lambda>r. spec_level nt (rq_spec r) now_ms (valkeyKey r) db)"
  shows "limiter_allow_at nt now_ms a (Some b) 0 0 db =
    (if level a < 1 then (Inr 1, db)
     else if level b < 1 then (Inr 2, db)
     else (Inr 0, db(valkeyKey a \<mapsto> spent_entry nt (rq_spec a) now_ms (level a),
                     valkeyKey b \<mapsto> spent_entry nt (rq_spec b) now_ms (level b))))"
  using assms(4-7) lua_args_sound [OF assms(1,2)] lua_args_sound [OF assms(1,3)]
  by (auto simp: limiter_allow_at_def luaOrderedTokenBucket_def Let_def level_def spec_level_def
      spent_entry_def)

section \<open>Expiry\<close>

text \<open>
  The level of an entry written at \<open>since\<close> with \<open>tokens\<close> left, had it never expired.
\<close>

definition accrued_level :: "spec \<Rightarrow> int \<Rightarrow> rat \<Rightarrow> int \<Rightarrow> rat" where
  "accrued_level s now_ms tokens since =
    min (of_int (sp_capacity s)) (tokens + of_int (max 0 (now_ms - since)) * (sp_refill_per_sec s / 1000))"

lemma expiry_harmless:
  assumes "spec_sound nt s" "0 \<le> tokens"
    and entry: "db key = Some (Hash (Some tokens) (Some (of_int since)) (Some (since + spec_ttl nt s * 1000)))"
  shows "spec_level nt s now_ms key db = accrued_level s now_ms tokens since"
proof (cases "since + spec_ttl nt s * 1000 \<le> now_ms")
  case True
  have pos: "0 < sp_refill_per_sec s" "1 \<le> sp_capacity s" using assms(1) by (auto simp: spec_sound_def)
  have "of_int (sp_capacity s) \<le> of_int (spec_ttl nt s * 1000) * (sp_refill_per_sec s / 1000)"
    using spec_ttl_covers [OF assms(1)] by simp
  also have "\<dots> \<le> of_int (now_ms - since) * (sp_refill_per_sec s / 1000)"
    using True pos by (intro mult_right_mono) (simp_all del: of_int_mult of_int_diff)
  finally have full: "of_int (sp_capacity s) \<le> of_int (now_ms - since) * (sp_refill_per_sec s / 1000)" .
  moreover have "since \<le> now_ms"
    using True spec_ttl_covers [OF assms(1)] by simp
  ultimately have "of_int (sp_capacity s) \<le> tokens + of_int (max 0 (now_ms - since)) * (sp_refill_per_sec s / 1000)"
    using assms(2) by (simp add: max_def)
  then show ?thesis
    using True entry by (simp add: spec_level_def hmget_def has_expired_def lua_level_def accrued_level_def)
next
  case False
  have "max 0 (of_int now_ms - of_int since) = (of_int (max 0 (now_ms - since)) :: rat)"
    by (simp add: max_def)
  with False entry show ?thesis
    by (simp add: spec_level_def hmget_def has_expired_def lua_level_def accrued_level_def)
qed

section \<open>The central limiter is a budget\<close>

text \<open>The database states in which the limiter has already written the key of a request.\<close>

fun entry_tokens :: "valkey_entry option \<Rightarrow> rat" where
  "entry_tokens (Some (Hash (Some tokens) _ _)) = tokens"
| "entry_tokens _ = 0"

fun entry_clock :: "valkey_entry option \<Rightarrow> int" where
  "entry_clock (Some (Hash _ (Some last_ms) _)) = \<lfloor>last_ms\<rfloor>"
| "entry_clock _ = 0"

definition limiter_usable :: "number_text \<Rightarrow> request \<Rightarrow> rat \<Rightarrow> rat \<Rightarrow> valkey_db \<Rightarrow> bool" where
  "limiter_usable nt req r capacity db \<longleftrightarrow>
    exact_text nt \<and> spec_sound nt (rq_spec req) \<and> valkeyKey req \<noteq> []
    \<and> r = sp_refill_per_sec (rq_spec req) \<and> capacity = of_int (sp_capacity (rq_spec req))
    \<and> (\<exists>tokens since. db (valkeyKey req)
          = Some (Hash (Some tokens) (Some (of_int since)) (Some (since + spec_ttl nt (rq_spec req) * 1000)))
        \<and> 0 \<le> tokens \<and> tokens \<le> capacity)"

definition limiter_step :: "number_text \<Rightarrow> request \<Rightarrow> int \<Rightarrow> valkey_db \<Rightarrow> bool \<times> valkey_db" where
  "limiter_step nt req now_ms db =
    (fst (limiter_Allow nt now_ms req db) = Inr True, snd (limiter_Allow nt now_ms req db))"

lemma limiter_step_eq:
  assumes "limiter_usable nt req r capacity db"
  shows "limiter_step nt req now_ms db =
    (let level = accrued_level (rq_spec req) now_ms (entry_tokens (db (valkeyKey req))) (entry_clock (db (valkeyKey req)))
     in if level < 1 then (False, db)
        else (True, db(valkeyKey req \<mapsto> spent_entry nt (rq_spec req) now_ms level)))"
proof -
  obtain tokens since where entry: "db (valkeyKey req)
      = Some (Hash (Some tokens) (Some (of_int since)) (Some (since + spec_ttl nt (rq_spec req) * 1000)))"
    and tokens: "0 \<le> tokens" and usable: "exact_text nt" "spec_sound nt (rq_spec req)" "valkeyKey req \<noteq> []"
    using assms by (auto simp: limiter_usable_def)
  have "hmget now_ms (valkeyKey req) db \<noteq> None"
    using entry by (simp add: hmget_def)
  note limiter_single [OF usable this, of 0]
  then show ?thesis
    using expiry_harmless [where db = db and key = "valkeyKey req", OF usable(2) tokens entry, of now_ms]
    by (simp add: limiter_step_def limiter_Allow_def limiter_allow_def entry)
qed

interpretation central: live_budget "\<lambda>db. entry_tokens (db (valkeyKey req))"
    "\<lambda>db. entry_clock (db (valkeyKey req))" "limiter_usable nt req r capacity" "max 0 r / 1000" capacity
    "\<lambda>now. now" "\<lambda>_ _. True" "limiter_step nt req" horizon
    for nt :: number_text and req :: request and r capacity :: rat and horizon :: int
proof unfold_locales
  fix db :: valkey_db and now_ms :: int
  assume usable: "limiter_usable nt req r capacity db" and fwd: "entry_clock (db (valkeyKey req)) \<le> now_ms"
  obtain tokens since where entry: "db (valkeyKey req)
      = Some (Hash (Some tokens) (Some (of_int since)) (Some (since + spec_ttl nt (rq_spec req) * 1000)))"
    and tokens: "0 \<le> tokens" "tokens \<le> capacity" and sound: "spec_sound nt (rq_spec req)"
    and r: "r = sp_refill_per_sec (rq_spec req)" and capacity: "capacity = of_int (sp_capacity (rq_spec req))"
    using usable by (auto simp: limiter_usable_def)
  define level where "level = accrued_level (rq_spec req) now_ms tokens since"
  have pos: "0 < r" "1 \<le> capacity" using sound by (auto simp: spec_sound_def r capacity)
  have since: "since \<le> now_ms" using fwd entry by simp
  have level: "level = min capacity (tokens + of_int (now_ms - since) * (r / 1000))"
    using since by (simp add: level_def accrued_level_def r capacity)
  have step: "limiter_step nt req now_ms db =
      (if level < 1 then (False, db) else (True, db(valkeyKey req \<mapsto> spent_entry nt (rq_spec req) now_ms level)))"
    by (simp add: limiter_step_eq [OF usable] entry level_def)
  show "limiter_usable nt req r capacity (snd (limiter_step nt req now_ms db))"
    using usable level by (auto simp: step limiter_usable_def spent_entry_def)
  show "entry_clock (db (valkeyKey req)) \<le> entry_clock (snd (limiter_step nt req now_ms db) (valkeyKey req))
      \<and> entry_clock (snd (limiter_step nt req now_ms db) (valkeyKey req)) \<le> now_ms"
    using since by (simp add: step entry spent_entry_def)
  show "entry_tokens (snd (limiter_step nt req now_ms db) (valkeyKey req))
        + (if fst (limiter_step nt req now_ms db) then 1 else 0)
      \<le> entry_tokens (db (valkeyKey req)) + max 0 r / 1000
        * of_int (entry_clock (snd (limiter_step nt req now_ms db) (valkeyKey req)) - entry_clock (db (valkeyKey req)))"
    using level pos by (simp add: step entry spent_entry_def max_def min_le_iff_disj mult.commute)
  assume "1 \<le> entry_tokens (db (valkeyKey req)) + max 0 r / 1000 * of_int (now_ms - entry_clock (db (valkeyKey req)))"
  then have "1 \<le> level"
    using pos by (simp add: level entry max_def mult.commute)
  then show "fst (limiter_step nt req now_ms db)" by (simp add: step)
qed (auto simp: limiter_usable_def)

section \<open>Properties\<close>

text \<open>A number format Lua reads back: numerator and denominator in decimal.\<close>

definition read_int :: "string \<Rightarrow> int" where
  "read_int s = (case s of c # ds \<Rightarrow> if c = CHR ''-'' then - digits_value ds else digits_value s | [] \<Rightarrow> 0)"

definition plain_number :: "rat \<Rightarrow> string" where
  "plain_number x = (let (n, d) = quotient_of x in itoa n @ (if d = 1 then [] else CHR ''/'' # itoa d))"

definition read_number :: "string \<Rightarrow> rat option" where
  "read_number s = (let (n, d, ok) = cut s (CHR ''/'')
     in Some (if ok then of_int (read_int n) / of_int (read_int d) else of_int (read_int n)))"

definition plain_text :: number_text where
  "plain_text = \<lparr>format_f = plain_number, format_g = plain_number, tonumber = read_number\<rparr>"

lemma nat_digits_free: "\<not> is_digit c \<Longrightarrow> c \<notin> set (nat_digits n)"
  using nat_digits_all [of n] by (auto simp: list_all_iff)

lemma itoa_free: "\<lbrakk>\<not> is_digit c; c \<noteq> CHR ''-''\<rbrakk> \<Longrightarrow> c \<notin> set (itoa n)"
  by (simp add: itoa_def nat_digits_free)

lemma read_int_itoa: "read_int (itoa n) = n"
proof (cases "n < 0")
  case True
  then show ?thesis by (simp add: itoa_def read_int_def digits_value_nat_digits)
next
  case False
  obtain c ds where digits: "nat_digits (nat n) = c # ds"
    using nat_digits_all [of "nat n"] by (cases "nat_digits (nat n)") auto
  have "c \<noteq> CHR ''-''"
    using nat_digits_free [of "CHR ''-''" "nat n"] digits by (auto simp: is_digit_def)
  then show ?thesis
    using False digits_value_nat_digits [of "nat n"] digits by (simp add: itoa_def read_int_def)
qed

lemma plain_text_exact: "exact_text plain_text"
proof -
  have slash: "CHR ''/'' \<notin> set (itoa n)" for n
    by (rule itoa_free) (simp_all add: is_digit_def)
  have int: "read_number (itoa n) = Some (of_int n)" for n
    by (simp add: read_number_def cut_def index_byte_absent slash read_int_itoa)
  have frac: "read_number (plain_number x) = Some x" for x
  proof -
    obtain n d where q: "quotient_of x = (n, d)" by (cases "quotient_of x")
    have x: "x = of_int n / of_int d" using quotient_of_div [OF q] .
    have shape: "plain_number x = itoa n @ (if d = 1 then [] else CHR ''/'' # itoa d)"
      by (simp add: plain_number_def q)
    show ?thesis
    proof (cases "d = 1")
      case True
      then show ?thesis using int [of n] by (simp add: shape) (simp add: x True)
    next
      case False
      then show ?thesis
        by (simp add: shape read_number_def cut_append slash read_int_itoa) (simp add: x)
    qed
  qed
  show ?thesis by (simp add: exact_text_def plain_text_def int frac)
qed

text \<open>Whatever the central limiter has stored for a request built on a spec of \<open>NewSpec\<close>, a
  run of \<open>Allow\<close> calls with server times that do not go back admits at most the tokens stored
  plus the rate times the elapsed time, and never more than the capacity plus that; the expiry of the
  key, which resets the bucket to full, is accounted for.
\<close>

theorem limiter_bound:
  assumes "exact_text nt" and "NewSpec nt capacity r = Some s" and "in64 (\<lceil>capacity / r\<rceil> * 2)"
    and "rq_spec req = s" and "valkeyKey req \<noteq> []"
    and "db (valkeyKey req)
      = Some (Hash (Some tokens) (Some (of_int since)) (Some (since + spec_ttl nt s * 1000)))"
    and "0 \<le> tokens" and "tokens \<le> of_int (sp_capacity s)"
    and "forward_run (\<lambda>_ _. True) (\<lambda>now. now) (\<lambda>db. entry_clock (db (valkeyKey req)))
      (limiter_step nt req) calls db"
    and "list_all (\<lambda>t. t \<le> until) calls" and "since \<le> until"
  shows "of_nat (fst (run_attempts (limiter_step nt req) calls db))
    \<le> tokens + sp_refill_per_sec s / 1000 * of_int (until - since)"
proof -
  have sound: "spec_sound nt (rq_spec req)"
    using NewSpec_sound(1) [OF assms(1-3)] assms(4) by simp
  then have usable: "limiter_usable nt req (sp_refill_per_sec s) (of_int (sp_capacity s)) db"
    using assms(1,4-8) by (auto simp: limiter_usable_def)
  have "0 < sp_refill_per_sec s" using sound assms(4) by (simp add: spec_sound_def)
  then show ?thesis
    using central.run_bound [OF usable assms(9)] assms(6,10,11) by (simp add: max_def)
qed

definition example_spec :: spec where
  "example_spec = the (NewSpec plain_text 20 (20 / 30))"

definition example_request :: request where
  "example_request = ForKey ''ratelimit:chat'' example_spec"

definition example_db :: valkey_db where
  "example_db = [''ratelimit:chat'' \<mapsto> Hash (Some 1) (Some (of_int 5000)) (Some (5000 + spec_ttl plain_text example_spec * 1000))]"

lemma example_spec_eq: "NewSpec plain_text 20 (20 / 30) = Some example_spec"
proof -
  have "NewSpec plain_text 20 (20 / 30) \<noteq> None" by (simp add: NewSpec_def Let_def)
  then show ?thesis by (auto simp: example_spec_def)
qed

lemma limiter_bound_witness:
  "of_nat (fst (run_attempts (limiter_step plain_text example_request) [5500, 6500, 70000] example_db))
    \<le> 1 + sp_refill_per_sec example_spec / 1000 * of_int (70000 - 5000)"
proof (rule limiter_bound [OF plain_text_exact example_spec_eq])
  show "rq_spec example_request = example_spec" by (simp add: example_request_def ForKey_def)
  show "forward_run (\<lambda>_ _. True) (\<lambda>now. now) (\<lambda>db. entry_clock (db (valkeyKey example_request)))
    (limiter_step plain_text example_request) [5500, 6500, 70000] example_db" by code_simp
  show "(1 :: rat) \<le> of_int (sp_capacity example_spec)" by code_simp
  show "example_db (valkeyKey example_request) = Some (Hash (Some 1) (Some (of_int 5000))
      (Some (5000 + spec_ttl plain_text example_spec * 1000)))" by code_simp
qed (code_simp+)

text \<open>An ordered request on two distinct keys, both built on specs of \<open>NewSpec\<close>, is refused by
  the first bucket that holds less than a token and then writes nothing; otherwise it takes exactly
  one token from each.
\<close>

theorem limiter_ordered_atomic:
  assumes "exact_text nt" and "NewSpec nt c1 r1 = Some s1" and "NewSpec nt c2 r2 = Some s2"
    and "in64 (\<lceil>c1 / r1\<rceil> * 2)" and "in64 (\<lceil>c2 / r2\<rceil> * 2)"
    and "rq_spec first = s1" and "rq_spec second = s2"
    and "valkeyKey first \<noteq> []" and "valkeyKey second \<noteq> []" and "valkeyKey first \<noteq> valkeyKey second"
    and "hmget now_ms (valkeyKey first) db \<noteq> None" and "hmget now_ms (valkeyKey second) db \<noteq> None"
  shows "let (result, db') = limiter_AllowOrdered nt now_ms first second db;
             l1 = spec_level nt s1 now_ms (valkeyKey first) db;
             l2 = spec_level nt s2 now_ms (valkeyKey second) db
         in result = Inr (if l1 < 1 then 1 else if l2 < 1 then 2 else 0)
            \<and> db' = (if l1 < 1 \<or> l2 < 1 then db
                else db(valkeyKey first \<mapsto> spent_entry nt s1 now_ms l1,
                        valkeyKey second \<mapsto> spent_entry nt s2 now_ms l2))"
proof -
  have s1: "spec_sound nt (rq_spec first)" using NewSpec_sound(1) [OF assms(1,2,4)] assms(6) by simp
  have s2: "spec_sound nt (rq_spec second)" using NewSpec_sound(1) [OF assms(1,3,5)] assms(7) by simp
  show ?thesis
    using limiter_pair [OF assms(1) s1 s2 assms(8,9,11,12)] assms(6,7)
    by (simp add: limiter_AllowOrdered_def limiter_allow_def Let_def)
qed

lemma limiter_ordered_atomic_witness:
  "let first = ForKey ''standard'' example_spec;
       (result, db') = limiter_AllowOrdered plain_text 70000 first example_request example_db;
       l1 = spec_level plain_text example_spec 70000 (valkeyKey first) example_db;
       l2 = spec_level plain_text example_spec 70000 (valkeyKey example_request) example_db
   in result = Inr (if l1 < 1 then 1 else if l2 < 1 then 2 else 0)
      \<and> db' = (if l1 < 1 \<or> l2 < 1 then example_db
          else example_db(valkeyKey first \<mapsto> spent_entry plain_text example_spec 70000 l1,
                  valkeyKey example_request \<mapsto> spent_entry plain_text example_spec 70000 l2))"
  unfolding Let_def
proof (rule limiter_ordered_atomic [OF plain_text_exact example_spec_eq example_spec_eq, unfolded Let_def])
  show "rq_spec example_request = example_spec" "rq_spec (ForKey ''standard'' example_spec) = example_spec"
    by (simp_all add: example_request_def ForKey_def)
qed (code_simp+)

text \<open>A bucket key may expire between two requests, and a missing key starts full; for a spec of
  \<open>NewSpec\<close> the level a later request sees is nevertheless the one the stored tokens and the rate
  give, so that the time to live it computes is long enough.  This holds for its emergency share too.
\<close>

theorem spec_expiry_harmless:
  assumes "exact_text nt" and "NewSpec nt capacity r = Some s" and "in64 (\<lceil>capacity / r\<rceil> * 2)"
    and "s' = s \<or> s' = spec_emergency s" and "0 \<le> tokens"
    and "db key = Some (Hash (Some tokens) (Some (of_int since)) (Some (since + spec_ttl nt s' * 1000)))"
  shows "spec_level nt s' now_ms key db = accrued_level s' now_ms tokens since"
  using expiry_harmless [where db = db and key = key, OF _ assms(5,6)] NewSpec_sound [OF assms(1-3)] assms(4)
  by blast

lemma spec_expiry_harmless_witness:
  "spec_level plain_text example_spec 90000 ''ratelimit:chat'' example_db
    = accrued_level example_spec 90000 1 5000"
proof (rule spec_expiry_harmless [OF plain_text_exact example_spec_eq])
  show "example_db ''ratelimit:chat'' = Some (Hash (Some 1) (Some (of_int 5000))
      (Some (5000 + spec_ttl plain_text example_spec * 1000)))"
    by (simp add: example_db_def)
qed (simp_all add: in64_def int64_min_def int64_max_def)
end
