(* ===== verification/KvState.thy ===== *)
theory KvState
  imports Budget
begin

text \<open>
  Optimistic read-modify-write on a JetStream key-value bucket (pkg/kvstate/state.go), and the
  in-memory store of pkg/kvstate/kvtest that implements its \<open>Store\<close> interface.  The locale
  \<open>cas_store\<close> states what a store must promise for \<open>Change\<close> to be atomic; it is interpreted on
  the in-memory store under arbitrary interference of other clients.  Revisions, 64-bit counters
  of writes in the code, are natural numbers.
\<close>

section \<open>Values and errors\<close>

datatype kv_error = KeyNotFound | KeyDeleted | KeyExists | RevisionMismatch | Contention | StoreFailure | EditFailed

record kv_value =
  kv_data :: string
  kv_revision :: nat
  kv_created :: gtime

definition no_value :: kv_value where
  "no_value = \<lparr>kv_data = [], kv_revision = 0, kv_created = zero_time\<rparr>"

text \<open>The operations of a store, over the state of the world \<open>'st\<close>.\<close>

record 'st kv_ops =
  op_get :: "string \<Rightarrow> 'st \<Rightarrow> (kv_error + kv_value) \<times> 'st"
  op_create :: "string \<Rightarrow> string \<Rightarrow> 'st \<Rightarrow> (kv_error + nat) \<times> 'st"
  op_update :: "string \<Rightarrow> string \<Rightarrow> nat \<Rightarrow> 'st \<Rightarrow> (kv_error + nat) \<times> 'st"

definition kv_read :: "'st kv_ops \<Rightarrow> string \<Rightarrow> 'st \<Rightarrow> (kv_error + kv_value) \<times> 'st" where
  "kv_read store key s =
    (case op_get store key s of
       (Inr v, s1) \<Rightarrow> (Inr v, s1)
     | (Inl err, s1) \<Rightarrow> (if err = KeyNotFound \<or> err = KeyDeleted then Inr no_value else Inl err, s1))"

definition lostRace :: "kv_error option \<Rightarrow> bool" where
  "lostRace err \<longleftrightarrow> err = Some KeyExists \<or> err = Some RevisionMismatch"

definition kv_write :: "'st kv_ops \<Rightarrow> string \<Rightarrow> string \<Rightarrow> nat \<Rightarrow> 'st \<Rightarrow> (kv_error + nat) \<times> 'st" where
  "kv_write store key data revision s =
    (if revision = 0 then op_create store key data s else op_update store key data revision s)"

text \<open>
  The edit is a closure that may also set a variable \<open>'a\<close> of its caller; it may run several times.
  \<open>change_loop n\<close> has \<open>n\<close> attempts left.
\<close>

type_synonym 'a kv_edit = "kv_value \<Rightarrow> 'a \<Rightarrow> (kv_error + string) \<times> 'a"

primrec change_loop ::
  "nat \<Rightarrow> 'st kv_ops \<Rightarrow> string \<Rightarrow> 'a kv_edit \<Rightarrow> 'a \<Rightarrow> 'st \<Rightarrow> (kv_error + nat) \<times> 'a \<times> 'st" where
  "change_loop 0 store key edit a s = (Inl Contention, a, s)"
| "change_loop (Suc n) store key edit a s =
    (case kv_read store key s of
       (Inl err, s1) \<Rightarrow> (Inl err, a, s1)
     | (Inr old, s1) \<Rightarrow>
         (case edit old a of
            (Inl err, a1) \<Rightarrow> (Inl err, a1, s1)
          | (Inr data, a1) \<Rightarrow>
              (case kv_write store key data (kv_revision old) s1 of
                 (Inr rv, s2) \<Rightarrow> (Inr rv, a1, s2)
               | (Inl err, s2) \<Rightarrow>
                   if lostRace (Some err) then change_loop n store key edit a1 s2
                   else (Inl err, a1, s2))))"

definition Change :: "'st kv_ops \<Rightarrow> string \<Rightarrow> 'a kv_edit \<Rightarrow> 'a \<Rightarrow> 'st \<Rightarrow> (kv_error + nat) \<times> 'a \<times> 'st" where
  "Change store key edit a s = change_loop 16 store key edit a s"

section \<open>What a store must promise\<close>

text \<open>
  \<open>current s key\<close> is the value a client would read; \<open>later s s'\<close> says that the world may go from
  one state to the other without this client writing.
\<close>

locale cas_store =
  fixes store :: "'st kv_ops"
    and current :: "'st \<Rightarrow> string \<Rightarrow> kv_value"
    and valid :: "'st \<Rightarrow> bool"
    and later :: "'st \<Rightarrow> 'st \<Rightarrow> bool"
  assumes later_refl: "later s s"
    and later_trans: "\<lbrakk>later s1 s2; later s2 s3\<rbrakk> \<Longrightarrow> later s1 s3"
    and later_valid: "\<lbrakk>valid s1; later s1 s2\<rbrakk> \<Longrightarrow> valid s2"
    and get_later: "valid s \<Longrightarrow> later s (snd (op_get store key s))"
    and get_value: "\<lbrakk>valid s; op_get store key s = (Inr v, s1)\<rbrakk> \<Longrightarrow> current s1 key = v"
    and get_absent: "\<lbrakk>valid s; op_get store key s = (Inl err, s1); err = KeyNotFound \<or> err = KeyDeleted\<rbrakk>
      \<Longrightarrow> current s1 key = no_value"
    and revision_stable: "\<lbrakk>valid s1; later s1 s2; kv_revision (current s2 key) = kv_revision (current s1 key)\<rbrakk>
      \<Longrightarrow> current s2 key = current s1 key"
    and write_swaps: "\<lbrakk>valid s; kv_write store key data revision s = (Inr rv, s2)\<rbrakk> \<Longrightarrow>
      \<exists>mid. later s mid \<and> kv_revision (current mid key) = revision
        \<and> kv_data (current s2 key) = data \<and> kv_revision (current s2 key) = rv
        \<and> (\<forall>other. other \<noteq> key \<longrightarrow> current s2 other = current mid other)"
    and write_fails: "\<lbrakk>valid s; kv_write store key data revision s = (Inl err, s2)\<rbrakk> \<Longrightarrow> later s s2"
begin

lemma read_current:
  assumes "valid s" "kv_read store key s = (Inr v, s1)"
  shows "later s s1 \<and> valid s1 \<and> current s1 key = v"
proof -
  have later: "later s s1"
    using assms get_later [of s key]
    by (cases "op_get store key s"; cases "fst (op_get store key s)") (auto simp: kv_read_def split: if_splits)
  moreover have "current s1 key = v"
  proof (cases "op_get store key s")
    case (Pair r s')
    then show ?thesis
      using assms get_value [of s key] get_absent [of s key]
      by (cases r) (auto simp: kv_read_def split: if_splits)
  qed
  ultimately show ?thesis using later_valid assms(1) by blast
qed

text \<open>
  A successful change is atomic: at one moment \<open>mid\<close> between call and return the edit is applied to
  the value current at that moment, and its result is stored there, other keys untouched.
\<close>

lemma change_loop_atomic:
  assumes "valid s" "change_loop n store key edit a s = (Inr rv, a', s')"
  shows "\<exists>mid a0 data. later s mid \<and> edit (current mid key) a0 = (Inr data, a')
    \<and> kv_data (current s' key) = data \<and> kv_revision (current s' key) = rv
    \<and> (\<forall>other. other \<noteq> key \<longrightarrow> current s' other = current mid other)"
  using assms
proof (induction n arbitrary: a s)
  case 0
  then show ?case by simp
next
  case (Suc n)
  obtain old s1 where read: "kv_read store key s = (Inr old, s1)"
    using Suc.prems(2) by (cases "kv_read store key s"; cases "fst (kv_read store key s)") auto
  note cur = read_current [OF Suc.prems(1) read]
  obtain data a1 where edit: "edit old a = (Inr data, a1)"
    using Suc.prems(2) read by (cases "edit old a"; cases "fst (edit old a)") auto
  obtain res s2 where wr: "kv_write store key data (kv_revision old) s1 = (res, s2)"
    by (cases "kv_write store key data (kv_revision old) s1")
  show ?case
  proof (cases res)
    case (Inr r)
    then have fin: "r = rv" "a1 = a'" "s2 = s'"
      using Suc.prems(2) read edit wr by simp_all
    obtain mid where mid: "later s1 mid" "kv_revision (current mid key) = kv_revision old"
      "kv_data (current s' key) = data" "kv_revision (current s' key) = rv"
      "\<forall>other. other \<noteq> key \<longrightarrow> current s' other = current mid other"
      using write_swaps [of s1 key data "kv_revision old" r s2] wr Inr cur fin by blast
    have "current mid key = old"
      using revision_stable [of s1 mid key] mid cur by simp
    then show ?thesis
      using mid edit fin cur later_trans by metis
  next
    case (Inl err)
    then have "later s1 s2" using write_fails wr cur by blast
    then have s2: "valid s2" "later s s2" using cur later_valid later_trans by blast+
    have "change_loop n store key edit a1 s2 = (Inr rv, a', s')"
      using Suc.prems(2) read edit wr Inl by (simp split: if_splits)
    from Suc.IH [OF s2(1) this] show ?thesis using s2(2) later_trans by metis
  qed
qed

lemma change_atomic:
  assumes "valid s" "Change store key edit a s = (Inr rv, a', s')"
  shows "\<exists>mid a0 data. later s mid \<and> edit (current mid key) a0 = (Inr data, a')
    \<and> kv_data (current s' key) = data \<and> kv_revision (current s' key) = rv
    \<and> (\<forall>other. other \<noteq> key \<longrightarrow> current s' other = current mid other)"
  using change_loop_atomic [OF assms(1), of 16 key edit a rv a' s'] assms(2) by (simp add: Change_def)

text \<open>A failed change writes nothing: the world has only moved on by itself.\<close>

lemma change_loop_fails:
  assumes "valid s" "change_loop n store key edit a s = (Inl err, a', s')"
  shows "later s s'"
  using assms
proof (induction n arbitrary: a s)
  case 0
  then show ?case by (simp add: later_refl)
next
  case (Suc n)
  obtain r s1 where read: "kv_read store key s = (r, s1)" by (cases "kv_read store key s")
  have s1: "later s s1" "valid s1"
    using read get_later [OF Suc.prems(1), of key] later_valid Suc.prems(1)
    by (auto simp: kv_read_def split: prod.splits sum.splits)
  show ?case
  proof (cases r)
    case (Inl e)
    then show ?thesis using Suc.prems(2) read s1 by simp
  next
    case (Inr old)
    obtain d a1 where edit: "edit old a = (d, a1)" by (cases "edit old a")
    show ?thesis
    proof (cases d)
      case (Inl e)
      then show ?thesis using Suc.prems(2) read Inr edit s1 by simp
    next
      case data: (Inr data)
      obtain w s2 where wr: "kv_write store key data (kv_revision old) s1 = (w, s2)"
        by (cases "kv_write store key data (kv_revision old) s1")
      obtain e where w: "w = Inl e"
        using Suc.prems(2) read Inr edit data wr by (cases w) auto
      have s2: "later s s2" "valid s2"
        using write_fails [OF s1(2)] wr w s1 later_trans later_valid by blast+
      show ?thesis
      proof (cases "lostRace (Some e)")
        case True
        then have "change_loop n store key edit a1 s2 = (Inl err, a', s')"
          using Suc.prems(2) read Inr edit data wr w by simp
        then show ?thesis using Suc.IH s2 later_trans by blast
      qed (use Suc.prems(2) read Inr edit data wr w s2 in simp)
    qed
  qed
qed

lemma change_fails: "\<lbrakk>valid s; Change store key edit a s = (Inl err, a', s')\<rbrakk> \<Longrightarrow> later s s'"
  by (rule change_loop_fails [of s 16 key edit a err a' s']) (simp_all add: Change_def)

end

section \<open>The in-memory store\<close>

record kvt_entry =
  kve_data :: string
  kve_revision :: nat
  kve_created :: gtime

text \<open>\<open>Err\<close> is true when every operation fails.\<close>

record kvt_store =
  kvt_entries :: "string \<rightharpoonup> kvt_entry"
  kvt_revision :: nat
  kvt_err :: bool
  kvt_now :: gtime

definition kvt_new :: kvt_store where
  "kvt_new = \<lparr>kvt_entries = Map.empty, kvt_revision = 0, kvt_err = False, kvt_now = 100 * one_second\<rparr>"

definition kvt_conflict :: "nat \<Rightarrow> kv_error" where
  "kvt_conflict revision = (if revision = 0 then KeyExists else RevisionMismatch)"

definition kvt_get :: "string \<Rightarrow> kvt_store \<Rightarrow> (kv_error + kv_value) \<times> kvt_store" where
  "kvt_get key s =
    (if kvt_err s then (Inl StoreFailure, s)
     else case kvt_entries s key of
         None \<Rightarrow> (Inl KeyNotFound, s)
       | Some e \<Rightarrow> (Inr \<lparr>kv_data = kve_data e, kv_revision = kve_revision e, kv_created = kve_created e\<rparr>, s))"

definition kvt_update :: "string \<Rightarrow> string \<Rightarrow> nat \<Rightarrow> kvt_store \<Rightarrow> (kv_error + nat) \<times> kvt_store" where
  "kvt_update key data revision s =
    (if kvt_err s then (Inl StoreFailure, s)
     else if (case kvt_entries s key of None \<Rightarrow> 0 | Some e \<Rightarrow> kve_revision e) \<noteq> revision
     then (Inl (kvt_conflict revision), s)
     else
       (let s = s\<lparr>kvt_revision := kvt_revision s + 1\<rparr>
        in (Inr (kvt_revision s),
            s\<lparr>kvt_entries := (kvt_entries s)(key \<mapsto>
              \<lparr>kve_data = data, kve_revision = kvt_revision s, kve_created = kvt_now s\<rparr>)\<rparr>)))"

definition kvt_create :: "string \<Rightarrow> string \<Rightarrow> kvt_store \<Rightarrow> (kv_error + nat) \<times> kvt_store" where
  "kvt_create key data s = kvt_update key data 0 s"

section \<open>Interference\<close>

text \<open>
  The world of a client: the store, and what happens to it before each of the client's operations:
  other clients write, the clock moves, the store starts or stops failing.
\<close>

datatype kv_event = OtherWrite string string | ClockMoves gtime | StoreFails bool

fun happen :: "kv_event \<Rightarrow> kvt_store \<Rightarrow> kvt_store" where
  "happen (OtherWrite key data) s =
    snd (kvt_update key data (case kvt_entries s key of None \<Rightarrow> 0 | Some e \<Rightarrow> kve_revision e) s)"
| "happen (ClockMoves t) s = s\<lparr>kvt_now := t\<rparr>"
| "happen (StoreFails b) s = s\<lparr>kvt_err := b\<rparr>"

type_synonym kv_world = "kvt_store \<times> kv_event list list"

definition interfere :: "kv_world \<Rightarrow> kv_world" where
  "interfere w = (case w of (s, []) \<Rightarrow> (s, []) | (s, es # rest) \<Rightarrow> (List.fold happen es s, rest))"

definition raced :: "(kvt_store \<Rightarrow> 'r \<times> kvt_store) \<Rightarrow> kv_world \<Rightarrow> 'r \<times> kv_world" where
  "raced f w = (let (s, rest) = interfere w; (r, s') = f s in (r, s', rest))"

definition raced_ops :: "kv_world kv_ops" where
  "raced_ops = \<lparr>op_get = (\<lambda>key. raced (kvt_get key)),
    op_create = (\<lambda>key data. raced (kvt_create key data)),
    op_update = (\<lambda>key data revision. raced (kvt_update key data revision))\<rparr>"

definition kvt_value :: "kvt_entry option \<Rightarrow> kv_value" where
  "kvt_value e = (case e of None \<Rightarrow> no_value
    | Some e \<Rightarrow> \<lparr>kv_data = kve_data e, kv_revision = kve_revision e, kv_created = kve_created e\<rparr>)"

definition world_value :: "kv_world \<Rightarrow> string \<Rightarrow> kv_value" where
  "world_value w key = kvt_value (kvt_entries (fst w) key)"

text \<open>Revisions are positive and no larger than the store's counter.\<close>

definition kvt_valid :: "kvt_store \<Rightarrow> bool" where
  "kvt_valid s \<longleftrightarrow> (\<forall>e \<in> ran (kvt_entries s). 0 < kve_revision e \<and> kve_revision e \<le> kvt_revision s)"

text \<open>A key that has changed since then has a newer revision than any of that time.\<close>

definition kvt_later :: "kvt_store \<Rightarrow> kvt_store \<Rightarrow> bool" where
  "kvt_later s s' \<longleftrightarrow> kvt_revision s \<le> kvt_revision s' \<and> (kvt_valid s \<longrightarrow> kvt_valid s')
    \<and> (\<forall>key. kvt_entries s' key = kvt_entries s key
        \<or> kvt_revision s < kv_revision (kvt_value (kvt_entries s' key)))"

lemma kvt_later_refl: "kvt_later s s"
  by (simp add: kvt_later_def)

lemma kvt_later_trans: "\<lbrakk>kvt_later s1 s2; kvt_later s2 s3\<rbrakk> \<Longrightarrow> kvt_later s1 s3"
  unfolding kvt_later_def by (metis order_trans order_le_less_trans)

lemma kvt_update_later: "kvt_later s (snd (kvt_update key data revision s))"
  by (auto simp: kvt_later_def kvt_update_def Let_def kvt_value_def kvt_valid_def ran_def)

lemma happen_later: "kvt_later s (happen e s)"
  by (cases e) (use kvt_update_later in \<open>auto simp: kvt_later_def kvt_valid_def\<close>)

lemma fold_happen_later: "kvt_later s (List.fold happen es s)"
proof (induction es arbitrary: s)
  case (Cons e es)
  then show ?case using kvt_later_trans [OF happen_later Cons.IH] by simp
qed (simp add: kvt_later_refl)

lemma interfere_later: "kvt_later (fst w) (fst (interfere w))"
  using fold_happen_later kvt_later_refl
  by (auto simp: interfere_def split: prod.splits list.splits)

lemma kvt_update_Inr:
  "kvt_update key data revision s = (Inr rv, s') \<Longrightarrow>
    kv_revision (kvt_value (kvt_entries s key)) = revision
    \<and> kvt_value (kvt_entries s' key) = \<lparr>kv_data = data, kv_revision = rv, kv_created = kvt_now s\<rparr>
    \<and> (\<forall>other. other \<noteq> key \<longrightarrow> kvt_entries s' other = kvt_entries s other)"
  by (auto simp: kvt_update_def Let_def kvt_value_def no_value_def split: if_splits option.splits)

lemma kvt_update_Inl: "kvt_update key data revision s = (Inl err, s') \<Longrightarrow> s' = s"
  by (auto simp: kvt_update_def Let_def split: if_splits)

lemma raced_eq:
  "raced f w = (fst (f (fst (interfere w))), snd (f (fst (interfere w))), snd (interfere w))"
  by (simp add: raced_def case_prod_beta Let_def)

lemma raced_write:
  "kv_write raced_ops key data revision w = raced (kvt_update key data revision) w"
  by (auto simp: kv_write_def raced_ops_def kvt_create_def [abs_def])

lemma kvt_revision_stable:
  "\<lbrakk>kvt_valid s; kvt_later s s'; kv_revision (kvt_value (kvt_entries s' key)) = kv_revision (kvt_value (kvt_entries s key))\<rbrakk>
    \<Longrightarrow> kvt_entries s' key = kvt_entries s key"
proof -
  assume valid: "kvt_valid s" and later: "kvt_later s s'"
    and same: "kv_revision (kvt_value (kvt_entries s' key)) = kv_revision (kvt_value (kvt_entries s key))"
  have "kv_revision (kvt_value (kvt_entries s key)) \<le> kvt_revision s"
    using valid by (auto simp: kvt_value_def no_value_def kvt_valid_def ran_def split: option.splits)
  then show ?thesis using later same unfolding kvt_later_def by (metis not_le)
qed

interpretation kvt: cas_store raced_ops world_value "\<lambda>w. kvt_valid (fst w)" "\<lambda>w w'. kvt_later (fst w) (fst w')"
proof unfold_locales
  show "kvt_later (fst s) (fst s)" for s :: kv_world by (rule kvt_later_refl)
  show "kvt_later (fst s1) (fst s3)"
    if "kvt_later (fst s1) (fst s2)" "kvt_later (fst s2) (fst s3)" for s1 s2 s3 :: kv_world
    using kvt_later_trans that by blast
  show "kvt_valid (fst s2)" if "kvt_valid (fst s1)" "kvt_later (fst s1) (fst s2)" for s1 s2 :: kv_world
    using that by (simp add: kvt_later_def)
  show "kvt_later (fst s) (fst (snd (op_get raced_ops key s)))" for s key
    using interfere_later [of s]
    by (auto simp: raced_ops_def raced_def kvt_get_def Let_def split: prod.splits option.splits)
  show "world_value s1 key = v" if "op_get raced_ops key s = (Inr v, s1)" for s key v s1
    using that by (auto simp: raced_ops_def raced_def kvt_get_def Let_def world_value_def kvt_value_def
        split: prod.splits option.splits if_splits)
  show "world_value s1 key = no_value"
    if "op_get raced_ops key s = (Inl err, s1)" "err = KeyNotFound \<or> err = KeyDeleted" for s key err s1
    using that by (auto simp: raced_ops_def raced_def kvt_get_def Let_def world_value_def kvt_value_def
        split: prod.splits option.splits if_splits)
  show "world_value s2 key = world_value s1 key"
    if "kvt_valid (fst s1)" "kvt_later (fst s1) (fst s2)"
      "kv_revision (world_value s2 key) = kv_revision (world_value s1 key)" for s1 s2 key
    using that kvt_revision_stable [of "fst s1" "fst s2" key] by (simp add: world_value_def)
  show "\<exists>mid. kvt_later (fst s) (fst mid) \<and> kv_revision (world_value mid key) = revision
      \<and> kv_data (world_value s2 key) = data \<and> kv_revision (world_value s2 key) = rv
      \<and> (\<forall>other. other \<noteq> key \<longrightarrow> world_value s2 other = world_value mid other)"
    if "kv_write raced_ops key data revision s = (Inr rv, s2)" for s key data revision rv s2
  proof -
    have upd: "kvt_update key data revision (fst (interfere s)) = (Inr rv, fst s2)"
      using that by (auto simp: raced_write raced_eq prod_eq_iff)
    show ?thesis
      using kvt_update_Inr [OF upd] interfere_later [of s]
      by (intro exI [of _ "interfere s"]) (simp add: world_value_def)
  qed
  show "kvt_later (fst s) (fst s2)"
    if "kv_write raced_ops key data revision s = (Inl err, s2)" for s key data revision err s2
  proof -
    have "kvt_update key data revision (fst (interfere s)) = (Inl err, fst s2)"
      using that by (auto simp: raced_write raced_eq prod_eq_iff)
    then show ?thesis using kvt_update_Inl interfere_later [of s] by fastforce
  qed
qed

section \<open>Properties\<close>

text \<open>On the in-memory store, whatever other clients write before each of its operations, a change
  that returns a revision is atomic: there is one moment between call and return at which the edit
  was applied to the value then current and its result stored, with no other key touched.
\<close>

theorem change_is_atomic:
  assumes "kvt_valid (fst w)" and "Change raced_ops key edit a w = (Inr rv, a', w')"
  shows "\<exists>mid a0 data. kvt_later (fst w) (fst mid) \<and> edit (world_value mid key) a0 = (Inr data, a')
    \<and> kv_data (world_value w' key) = data \<and> kv_revision (world_value w' key) = rv
    \<and> (\<forall>other. other \<noteq> key \<longrightarrow> world_value w' other = world_value mid other)"
  by (rule kvt.change_atomic [OF assms])

definition append_edit :: "string kv_edit" where
  "append_edit old a = (Inr (kv_data old @ ''!''), kv_data old)"

definition racy_world :: kv_world where
  "racy_world = (kvt_new, [[], [OtherWrite ''k'' ''one''], [OtherWrite ''j'' ''x''], [OtherWrite ''k'' ''two''], [], []])"

lemma change_is_atomic_witness:
  "\<exists>mid a0 data. kvt_later (fst racy_world) (fst mid)
    \<and> append_edit (world_value mid ''k'') a0 = (Inr data, ''two'')
    \<and> kv_data (world_value (snd (snd (Change raced_ops ''k'' append_edit [] racy_world))) ''k'') = data
    \<and> kv_revision (world_value (snd (snd (Change raced_ops ''k'' append_edit [] racy_world))) ''k'') = 4
    \<and> (\<forall>other. other \<noteq> ''k'' \<longrightarrow>
        world_value (snd (snd (Change raced_ops ''k'' append_edit [] racy_world))) other = world_value mid other)"
proof (rule change_is_atomic)
  show "kvt_valid (fst racy_world)" by (simp add: racy_world_def kvt_new_def kvt_valid_def)
  have "fst (Change raced_ops ''k'' append_edit [] racy_world) = Inr 4"
    "fst (snd (Change raced_ops ''k'' append_edit [] racy_world)) = ''two''"
    by code_simp+
  then show "Change raced_ops ''k'' append_edit [] racy_world
      = (Inr 4, ''two'', snd (snd (Change raced_ops ''k'' append_edit [] racy_world)))"
    by (simp add: prod_eq_iff)
qed

text \<open>A change that returns an error has not written: the store only shows what others did.  When
  every attempt loses its race this is the contention error, after sixteen attempts.
\<close>

theorem failed_change_writes_nothing:
  assumes "kvt_valid (fst w)" and "Change raced_ops key edit a w = (Inl err, a', w')"
  shows "kvt_later (fst w) (fst w')"
  by (rule kvt.change_fails [OF assms])

definition hostile_world :: kv_world where
  "hostile_world = (kvt_new, concat (replicate 16 [[], [OtherWrite ''k'' ''one'']]))"

lemma failed_change_writes_nothing_witness:
  "kvt_later (fst hostile_world) (fst (snd (snd (Change raced_ops ''k'' append_edit [] hostile_world))))
    \<and> fst (Change raced_ops ''k'' append_edit [] hostile_world) = Inl Contention"
proof
  show contention: "fst (Change raced_ops ''k'' append_edit [] hostile_world) = Inl Contention"
    by code_simp
  show "kvt_later (fst hostile_world) (fst (snd (snd (Change raced_ops ''k'' append_edit [] hostile_world))))"
  proof (rule failed_change_writes_nothing)
    show "kvt_valid (fst hostile_world)" by (simp add: hostile_world_def kvt_new_def kvt_valid_def)
    show "Change raced_ops ''k'' append_edit [] hostile_world = (Inl Contention,
      fst (snd (Change raced_ops ''k'' append_edit [] hostile_world)),
      snd (snd (Change raced_ops ''k'' append_edit [] hostile_world)))"
      using contention by (simp add: prod_eq_iff)
  qed
qed
end
