(* ===== verification/RateDurable.thy ===== *)
theory RateDurable
  imports RateSpec KvState
begin

text \<open>
  The replicated limiter of pkg/ratelimit/jetstream.go: the budget arithmetic on the stored map of
  token counts, and the manager that runs it inside \<open>kvstate.Change\<close>.  The hash that names a key
  and the codec of the stored map are parameters.
\<close>

section \<open>The stored budgets\<close>

record durable_tokens =
  dt_tokens :: rat
  dt_at :: gtime

type_synonym durable_budget = "string \<rightharpoonup> durable_tokens"

definition requestID :: "request \<Rightarrow> string" where
  "requestID req = bi_scope (bucketID req) @ CHR 0x00 # bi_value (bucketID req)"

text \<open>One bucket, brought up to date and clamped to the capacity of the request.\<close>

definition durable_refill :: "gtime \<Rightarrow> request \<Rightarrow> durable_tokens option \<Rightarrow> durable_tokens" where
  "durable_refill now req stored =
    (let capacity = of_int (sp_capacity (rq_spec req));
         bucket = (case stored of None \<Rightarrow> \<lparr>dt_tokens = capacity, dt_at = now\<rparr> | Some b \<Rightarrow> b);
         bucket = (if dt_at bucket = zero_time then bucket\<lparr>dt_at := now\<rparr> else bucket);
         elapsed = max 0 (seconds (time_sub now (dt_at bucket)));
         bucket = bucket\<lparr>dt_tokens :=
           min capacity (dt_tokens bucket + elapsed * sp_refill_per_sec (rq_spec req))\<rparr>
     in if dt_at bucket < now then bucket\<lparr>dt_at := now\<rparr> else bucket)"

fun spendBudget :: "request list \<Rightarrow> durable_budget \<Rightarrow> durable_budget" where
  "spendBudget [] state = state"
| "spendBudget (req # reqs) state =
    (let key = requestID req;
         bucket = (case state key of None \<Rightarrow> \<lparr>dt_tokens = 0, dt_at = zero_time\<rparr> | Some b \<Rightarrow> b)
     in spendBudget reqs (state(key \<mapsto> bucket\<lparr>dt_tokens := dt_tokens bucket - 1\<rparr>)))"

text \<open>The loop over the requests, with the index \<open>i\<close> and the verdict so far.\<close>

fun evaluate_loop :: "nat \<Rightarrow> request list \<Rightarrow> gtime \<Rightarrow> nat \<Rightarrow> durable_budget \<Rightarrow> nat \<times> durable_budget" where
  "evaluate_loop i [] now denied state = (denied, state)"
| "evaluate_loop i (req # reqs) now denied state =
    (let key = requestID req;
         bucket = durable_refill now req (state key)
     in evaluate_loop (i + 1) reqs now
          (if dt_tokens bucket < 1 \<and> denied = 0 then i + 1 else denied)
          (state(key \<mapsto> bucket)))"

definition evaluateBudget :: "durable_budget \<Rightarrow> request list \<Rightarrow> gtime \<Rightarrow> nat \<times> durable_budget" where
  "evaluateBudget state requests now =
    (let (denied, state) = evaluate_loop 0 requests now 0 state
     in (denied, if denied = 0 then spendBudget requests state else state))"

section \<open>The manager\<close>

record durable_codec =
  key_hash :: "string \<Rightarrow> string"
  unmarshal_budget :: "string \<Rightarrow> durable_budget option"
  marshal_budget :: "durable_budget \<Rightarrow> string option"

definition durable_edit :: "durable_codec \<Rightarrow> request list \<Rightarrow> nat kv_edit" where
  "durable_edit cd requests old denied =
    (case (if kv_data old \<noteq> [] then unmarshal_budget cd (kv_data old) else Some Map.empty) of
       None \<Rightarrow> (Inl EditFailed, denied)
     | Some state \<Rightarrow>
         (let (denied, state) = evaluateBudget state requests (kv_created old)
          in (case marshal_budget cd state of None \<Rightarrow> Inl EditFailed | Some data \<Rightarrow> Inr data, denied)))"

text \<open>\<open>(denied, err, world)\<close>.\<close>

definition durable_allow ::
  "durable_codec \<Rightarrow> 'st kv_ops \<Rightarrow> request \<Rightarrow> request list \<Rightarrow> 'st \<Rightarrow> nat \<times> kv_error option \<times> 'st" where
  "durable_allow cd store shared requests w =
    (case Change store (key_hash cd (requestID shared)) (durable_edit cd requests) 0 w of
       (Inl err, denied, w') \<Rightarrow> (denied, Some err, w')
     | (Inr _, denied, w') \<Rightarrow> (denied, None, w'))"

definition durable_Allow ::
  "durable_codec \<Rightarrow> 'st kv_ops \<Rightarrow> request \<Rightarrow> 'st \<Rightarrow> bool \<times> kv_error option \<times> 'st" where
  "durable_Allow cd store req w =
    (case durable_allow cd store req [req] w of (denied, err, w') \<Rightarrow> (denied = 0 \<and> err = None, err, w'))"

definition durable_AllowOrdered ::
  "durable_codec \<Rightarrow> 'st kv_ops \<Rightarrow> request \<Rightarrow> request \<Rightarrow> 'st \<Rightarrow> nat \<times> kv_error option \<times> 'st" where
  "durable_AllowOrdered cd store first second w = durable_allow cd store second [first, second] w"

section \<open>What the evaluation does\<close>

definition with_keys :: "request list \<Rightarrow> (request \<Rightarrow> durable_tokens) \<Rightarrow> durable_budget \<Rightarrow> durable_budget" where
  "with_keys reqs f state = state ++ map_of (map (\<lambda>r. (requestID r, f r)) reqs)"

lemma with_keys_other: "k \<notin> requestID ` set reqs \<Longrightarrow> with_keys reqs f state k = state k"
  by (auto simp: with_keys_def map_add_def map_of_eq_None_iff split: option.splits dest!: map_of_SomeD)

lemma with_keys_Cons:
  "with_keys (r # reqs) f state
    = (if requestID r \<in> requestID ` set reqs then with_keys reqs f state
       else with_keys reqs f (state(requestID r \<mapsto> f r)))"
  if "distinct (map requestID (r # reqs))"
  using that by (auto simp: with_keys_def fun_eq_iff map_add_def map_of_eq_None_iff image_iff
      split: option.splits dest!: map_of_SomeD)

lemma with_keys_at:
  "\<lbrakk>distinct (map requestID reqs); r \<in> set reqs\<rbrakk> \<Longrightarrow> with_keys reqs f state (requestID r) = Some (f r)"
proof (induction reqs arbitrary: state)
  case (Cons q reqs)
  show ?case
  proof (cases "r = q")
    case True
    then show ?thesis
      using Cons.prems with_keys_Cons [OF Cons.prems(1)] with_keys_other [of "requestID q" reqs] by auto
  next
    case False
    then show ?thesis
      using Cons with_keys_Cons [OF Cons.prems(1)] by auto
  qed
qed simp

lemma distinct_head_ne:
  "\<lbrakk>distinct (map requestID (r # reqs)); q \<in> set reqs\<rbrakk> \<Longrightarrow> requestID q \<noteq> requestID r"
  by (metis distinct.simps(2) imageI list.set_map list.simps(9))

lemma with_keys_pair:
  "requestID a \<noteq> requestID b \<Longrightarrow>
    with_keys [a, b] f state = state(requestID a \<mapsto> f a, requestID b \<mapsto> f b)"
  by (auto simp: with_keys_def fun_eq_iff)

text \<open>The first refused position, counted from one; 0 when none is refused.\<close>

fun first_refused :: "nat \<Rightarrow> bool list \<Rightarrow> nat" where
  "first_refused i [] = 0"
| "first_refused i (refused # rest) = (if refused then i else first_refused (i + 1) rest)"

lemma first_refused_0: "first_refused (Suc i) bs = 0 \<longleftrightarrow> list_all (\<lambda>b. \<not> b) bs"
  by (induction bs arbitrary: i) auto

lemma evaluate_loop_eq:
  "distinct (map requestID reqs) \<Longrightarrow>
    evaluate_loop i reqs now denied state =
      ((if denied \<noteq> 0 then denied
        else first_refused (i + 1) (map (\<lambda>r. dt_tokens (durable_refill now r (state (requestID r))) < 1) reqs)),
       with_keys reqs (\<lambda>r. durable_refill now r (state (requestID r))) state)"
proof (induction reqs arbitrary: i denied state)
  case Nil
  then show ?case by (simp add: with_keys_def)
next
  case (Cons r reqs)
  define state' where "state' = state(requestID r \<mapsto> durable_refill now r (state (requestID r)))"
  have same: "state' (requestID q) = state (requestID q)" if "q \<in> set reqs" for q
    using distinct_head_ne [OF Cons.prems that] by (simp add: state'_def)
  then have refills: "with_keys reqs (\<lambda>q. durable_refill now q (state' (requestID q))) state'
      = with_keys reqs (\<lambda>q. durable_refill now q (state (requestID q))) state'"
    by (auto simp: with_keys_def cong: map_cong)
  have "with_keys (r # reqs) (\<lambda>q. durable_refill now q (state (requestID q))) state
      = with_keys reqs (\<lambda>q. durable_refill now q (state (requestID q))) state'"
    using Cons.prems with_keys_Cons [OF Cons.prems] by (auto simp: state'_def)
  then show ?case
    using Cons.IH [of "i + 1" _ state'] Cons.prems refills
    by (simp add: Let_def state'_def [symmetric] same cong: map_cong)
qed

lemma spendBudget_eq:
  "distinct (map requestID reqs) \<Longrightarrow>
    spendBudget reqs (with_keys reqs f state)
      = with_keys reqs (\<lambda>r. (f r)\<lparr>dt_tokens := dt_tokens (f r) - 1\<rparr>) state"
proof -
  have gen: "\<lbrakk>distinct (map requestID reqs); \<And>r. r \<in> set reqs \<Longrightarrow> st (requestID r) = Some (f r)\<rbrakk> \<Longrightarrow>
      spendBudget reqs st = with_keys reqs (\<lambda>r. (f r)\<lparr>dt_tokens := dt_tokens (f r) - 1\<rparr>) st" for reqs st
  proof (induction reqs arbitrary: st)
    case Nil
    then show ?case by (simp add: with_keys_def)
  next
    case (Cons r reqs)
    have "\<And>q. q \<in> set reqs \<Longrightarrow>
        (st(requestID r \<mapsto> (f r)\<lparr>dt_tokens := dt_tokens (f r) - 1\<rparr>)) (requestID q) = Some (f q)"
      using Cons.prems distinct_head_ne by fastforce
    then show ?case
      using Cons.IH Cons.prems with_keys_Cons [OF Cons.prems(1)] by (auto simp: Let_def)
  qed
  assume dist: "distinct (map requestID reqs)"
  have "spendBudget reqs (with_keys reqs f state)
      = with_keys reqs (\<lambda>r. (f r)\<lparr>dt_tokens := dt_tokens (f r) - 1\<rparr>) (with_keys reqs f state)"
    using gen [OF dist] with_keys_at [OF dist] by blast
  also have "\<dots> = with_keys reqs (\<lambda>r. (f r)\<lparr>dt_tokens := dt_tokens (f r) - 1\<rparr>) state"
  proof
    fix k
    show "with_keys reqs (\<lambda>r. (f r)\<lparr>dt_tokens := dt_tokens (f r) - 1\<rparr>) (with_keys reqs f state) k
        = with_keys reqs (\<lambda>r. (f r)\<lparr>dt_tokens := dt_tokens (f r) - 1\<rparr>) state k"
      using with_keys_at [OF dist] with_keys_other by (cases "k \<in> requestID ` set reqs") auto
  qed
  finally show ?thesis .
qed

text \<open>
  The evaluation in closed form: refuse at the first bucket without a token and only store the
  refills, or take one token from every bucket.
\<close>

lemma evaluateBudget_eq:
  assumes "distinct (map requestID reqs)"
  shows "evaluateBudget state reqs now =
    (let refilled = (\<lambda>r. durable_refill now r (state (requestID r)));
         denied = first_refused 1 (map (\<lambda>r. dt_tokens (refilled r) < 1) reqs)
     in (denied, if denied = 0
           then with_keys reqs (\<lambda>r. (refilled r)\<lparr>dt_tokens := dt_tokens (refilled r) - 1\<rparr>) state
           else with_keys reqs refilled state))"
  using assms by (simp add: evaluateBudget_def evaluate_loop_eq spendBudget_eq Let_def)

section \<open>A stored bucket is a budget\<close>

definition stored_tokens :: "string \<Rightarrow> durable_budget \<Rightarrow> rat" where
  "stored_tokens key state = (case state key of None \<Rightarrow> 0 | Some b \<Rightarrow> dt_tokens b)"

definition stored_at :: "string \<Rightarrow> durable_budget \<Rightarrow> gtime" where
  "stored_at key state = (case state key of None \<Rightarrow> 0 | Some b \<Rightarrow> dt_at b)"

definition durable_usable :: "request \<Rightarrow> request list \<Rightarrow> durable_budget \<Rightarrow> bool" where
  "durable_usable req reqs state \<longleftrightarrow>
    distinct (map requestID reqs) \<and> req \<in> set reqs
    \<and> 1 \<le> sp_capacity (rq_spec req) \<and> 0 \<le> sp_refill_per_sec (rq_spec req)
    \<and> (\<exists>b. state (requestID req) = Some b \<and> 0 \<le> dt_tokens b
        \<and> dt_tokens b \<le> of_int (sp_capacity (rq_spec req)) \<and> zero_time < dt_at b)"

definition durable_step :: "request list \<Rightarrow> gtime \<Rightarrow> durable_budget \<Rightarrow> bool \<times> durable_budget" where
  "durable_step reqs now state =
    (fst (evaluateBudget state reqs now) = 0, snd (evaluateBudget state reqs now))"

lemma durable_refill_Some:
  assumes "zero_time < dt_at b" "dt_at b \<le> now"
  shows "durable_refill now req (Some b) =
    \<lparr>dt_tokens = min (of_int (sp_capacity (rq_spec req)))
       (dt_tokens b + seconds (time_sub now (dt_at b)) * sp_refill_per_sec (rq_spec req)), dt_at = now\<rparr>"
  using assms time_sub_nonneg [OF assms(2)]
  by (cases b) (auto simp: durable_refill_def Let_def max_def dest: seconds_nonneg)

lemma durable_step_at:
  fixes now :: gtime
  assumes "durable_usable req reqs state"
  defines "b \<equiv> durable_refill now req (state (requestID req))"
  shows "snd (durable_step reqs now state) (requestID req) =
      Some (if fst (durable_step reqs now state) then b\<lparr>dt_tokens := dt_tokens b - 1\<rparr> else b)"
    and "fst (durable_step reqs now state) \<Longrightarrow> 1 \<le> dt_tokens b"
    and "reqs = [req] \<Longrightarrow> fst (durable_step reqs now state) \<longleftrightarrow> 1 \<le> dt_tokens b"
proof -
  have dist: "distinct (map requestID reqs)" and req: "req \<in> set reqs"
    using assms(1) by (auto simp: durable_usable_def)
  show "snd (durable_step reqs now state) (requestID req) =
      Some (if fst (durable_step reqs now state) then b\<lparr>dt_tokens := dt_tokens b - 1\<rparr> else b)"
    by (simp add: durable_step_def evaluateBudget_eq [OF dist] Let_def with_keys_at [OF dist req] b_def)
  show "fst (durable_step reqs now state) \<Longrightarrow> 1 \<le> dt_tokens b"
    using req first_refused_0 [of 0]
    by (auto simp: durable_step_def evaluateBudget_eq [OF dist] Let_def b_def list_all_iff not_less)
  show "reqs = [req] \<Longrightarrow> fst (durable_step reqs now state) \<longleftrightarrow> 1 \<le> dt_tokens b"
    using dist by (auto simp: durable_step_def evaluateBudget_eq Let_def b_def)
qed

interpretation durable: token_budget "stored_tokens (requestID req)" "stored_at (requestID req)"
    "\<lambda>state. durable_usable req reqs state" "max 0 (sp_refill_per_sec (rq_spec req)) / of_int one_second"
    "of_int (max 0 (sp_capacity (rq_spec req)))" "\<lambda>now. now" "\<lambda>_ _. True" "durable_step reqs"
    for req :: request and reqs :: "request list"
proof unfold_locales
  fix state :: durable_budget and now :: gtime
  assume usable: "durable_usable req reqs state" and fwd: "stored_at (requestID req) state \<le> now"
  obtain b where b: "state (requestID req) = Some b" "0 \<le> dt_tokens b"
      "dt_tokens b \<le> of_int (sp_capacity (rq_spec req))" "zero_time < dt_at b"
    and pos: "0 \<le> sp_refill_per_sec (rq_spec req)" "1 \<le> sp_capacity (rq_spec req)"
    using usable by (auto simp: durable_usable_def)
  have now: "dt_at b \<le> now" using fwd b by (simp add: stored_at_def)
  define b' where "b' = durable_refill now req (state (requestID req))"
  have b': "dt_at b' = now" "dt_tokens b' = min (of_int (sp_capacity (rq_spec req)))
      (dt_tokens b + seconds (time_sub now (dt_at b)) * sp_refill_per_sec (rq_spec req))"
    using durable_refill_Some [OF b(4) now] b(1) by (simp_all add: b'_def)
  note step = durable_step_at [OF usable, of now, folded b'_def]
  have elapsed: "0 \<le> seconds (time_sub now (dt_at b))" "seconds (time_sub now (dt_at b)) \<le> seconds (now - dt_at b)"
    using time_sub_nonneg [OF now] time_sub_le [OF now] by (auto intro: seconds_mono)
  have room: "0 \<le> dt_tokens b'"
    using b b' pos mult_nonneg_nonneg [OF elapsed(1) pos(1)] by simp
  have "seconds (time_sub now (dt_at b)) * sp_refill_per_sec (rq_spec req)
      \<le> seconds (now - dt_at b) * sp_refill_per_sec (rq_spec req)"
    using elapsed pos by (intro mult_right_mono)
  then have account: "dt_tokens b' \<le> dt_tokens b + sp_refill_per_sec (rq_spec req) / of_int one_second * of_int (now - dt_at b)"
    using b' by (simp add: seconds_def min_le_iff_disj mult.commute)
  show "durable_usable req reqs (snd (durable_step reqs now state))"
    using usable step room b' b now by (auto simp: durable_usable_def)
  show "stored_at (requestID req) state \<le> stored_at (requestID req) (snd (durable_step reqs now state))
      \<and> stored_at (requestID req) (snd (durable_step reqs now state)) \<le> now"
    using step b b' now by (simp add: stored_at_def)
  show "stored_tokens (requestID req) (snd (durable_step reqs now state))
        + (if fst (durable_step reqs now state) then 1 else 0)
      \<le> stored_tokens (requestID req) state + max 0 (sp_refill_per_sec (rq_spec req)) / of_int one_second
        * of_int (stored_at (requestID req) (snd (durable_step reqs now state)) - stored_at (requestID req) state)"
    using step b b' account pos by (simp add: stored_tokens_def stored_at_def max_def)
qed (auto simp: durable_usable_def stored_tokens_def)

section \<open>Properties\<close>


text \<open>A codec that stores the two buckets of the example under fixed names.\<close>

definition example_first :: request where
  "example_first = ForKey ''a'' (zero_spec\<lparr>sp_capacity := 3, sp_refill_per_sec := 1\<rparr>)"

definition example_second :: request where
  "example_second = ForKey ''b'' (zero_spec\<lparr>sp_capacity := 1, sp_refill_per_sec := 1\<rparr>)"

definition example_codec :: durable_codec where
  "example_codec = \<lparr>key_hash = (\<lambda>k. k),
    unmarshal_budget = (\<lambda>d. if d = ''drained'' then Some [requestID example_second \<mapsto> \<lparr>dt_tokens = 0, dt_at = 5\<rparr>] else None),
    marshal_budget = (\<lambda>b. Some (if stored_tokens (requestID example_second) b < 1 then ''drained'' else ''full''))\<rparr>"

definition drained_world :: kv_world where
  "drained_world = (kvt_new\<lparr>kvt_entries :=
      [requestID example_second \<mapsto> \<lparr>kve_data = ''drained'', kve_revision = 1, kve_created = 5\<rparr>],
    kvt_revision := 1, kvt_now := 3600 * one_second\<rparr>, [])"


text \<open>Over any run of evaluations of the same requests whose timestamps do not go back, the
  requests admitted are at most the tokens stored for each bucket at the start plus its rate times the
  elapsed time.
\<close>

theorem durable_bound:
  assumes "durable_usable req reqs state"
    and "forward_run (\<lambda>_ _. True) (\<lambda>now. now) (stored_at (requestID req)) (durable_step reqs) calls state"
    and "stored_at (requestID req) state \<le> until" and "list_all (\<lambda>t. t \<le> until) calls"
  shows "of_nat (fst (run_attempts (durable_step reqs) calls state))
    \<le> stored_tokens (requestID req) state
      + max 0 (sp_refill_per_sec (rq_spec req)) / of_int one_second * of_int (until - stored_at (requestID req) state)"
  by (rule durable.run_bound [OF assms])

lemma durable_bound_witness:
  "of_nat (fst (run_attempts (durable_step [example_first, example_second]) [one_second, one_second, 3 * one_second]
      [requestID example_second \<mapsto> \<lparr>dt_tokens = 0, dt_at = 5\<rparr>]))
    \<le> stored_tokens (requestID example_second) [requestID example_second \<mapsto> \<lparr>dt_tokens = 0, dt_at = 5\<rparr>]
      + max 0 (sp_refill_per_sec (rq_spec example_second)) / of_int one_second
        * of_int (3 * one_second - stored_at (requestID example_second)
            [requestID example_second \<mapsto> \<lparr>dt_tokens = 0, dt_at = 5\<rparr>])"
proof (rule durable_bound)
  show "durable_usable example_second [example_first, example_second]
      [requestID example_second \<mapsto> \<lparr>dt_tokens = 0, dt_at = 5\<rparr>]"
  proof -
    have "requestID example_first \<noteq> requestID example_second" by code_simp
    then show ?thesis
      by (simp add: durable_usable_def example_second_def ForKey_def zero_time_def)
  qed
qed code_simp+

section \<open>The clock of an idle budget\<close>

text \<open>
  The clock is the timestamp of the value's last write, so a drained bucket is still empty to the
  first request after any idle time: here an hour later, with a rate of one token per second.  That
  refusal is itself a write, and the second request is admitted.
\<close>

lemma idle_budget_refuses_once:
  "let (first_ok, _, w1) = durable_Allow (example_codec\<lparr>unmarshal_budget :=
          (\<lambda>_. Some [requestID example_second \<mapsto> \<lparr>dt_tokens = 0, dt_at = 5\<rparr>])\<rparr>)
        raced_ops example_second drained_world;
       (second_ok, _, _) = durable_Allow (example_codec\<lparr>unmarshal_budget :=
          (\<lambda>_. Some [requestID example_second \<mapsto> \<lparr>dt_tokens = 0, dt_at = 5\<rparr>])\<rparr>)
        raced_ops example_second w1
   in \<not> first_ok \<and> second_ok"
  by code_simp
end
