(* ===== verification/RatePlan.thy ===== *)
theory RatePlan
  imports RateLimiter "HOL-Library.Product_Lexorder" "HOL-Library.Multiset" "HOL-Library.AList"
begin

text \<open>
  Lease plans of pkg/ratelimit: the plan and its digest (protocol.go), its construction from the
  discovered members (allocator.go), the member registry entries and the retention of a plan
  (lease_client.go), and the timing of the coordinator (coordinator.go).  The hash of a marshalled
  plan and xxhash are parameters.
\<close>

section \<open>Plans\<close>

record member =
  mb_pod_id :: string
  mb_region :: string

record lease_plan =
  pl_version :: nat
  pl_epoch :: "64 word"
  pl_generation :: "64 word"
  pl_digest :: string
  pl_valid_from :: int
  pl_valid_until :: int
  pl_members :: "member list"

abbreviation (input) "planVersion \<equiv> (3 :: nat)"

definition canonicalPlan :: "lease_plan \<Rightarrow> lease_plan" where
  "canonicalPlan p = p\<lparr>pl_digest := [],
    pl_members := sort_key (\<lambda>m. (mb_pod_id m, mb_region m)) (pl_members p)\<rparr>"

text \<open>The SHA-256 of the marshalled plan, 32 bytes; \<open>None\<close> when it cannot be marshalled.\<close>

type_synonym plan_hash = "lease_plan \<Rightarrow> string option"

definition digestPlan :: "plan_hash \<Rightarrow> lease_plan \<Rightarrow> string option" where
  "digestPlan hash p = hash (canonicalPlan p)"

definition hex_char :: "nat \<Rightarrow> char" where
  "hex_char n = (if n < 10 then char_of (48 + n) else char_of (87 + n))"

definition hex_encode :: "string \<Rightarrow> string" where
  "hex_encode s = concat (map (\<lambda>c. [hex_char (of_char c div 16), hex_char (of_char c mod 16)]) s)"

fun hex_decode :: "string \<Rightarrow> string option" where
  "hex_decode [] = Some []"
| "hex_decode [_] = None"
| "hex_decode (a # b # s) =
    (case (hex_digit a, hex_digit b) of
       (Some x, Some y) \<Rightarrow> map_option ((#) (char_of (nat (16 * x + y)))) (hex_decode s)
     | _ \<Rightarrow> None)"

definition ComputeDigest :: "plan_hash \<Rightarrow> lease_plan \<Rightarrow> lease_plan option" where
  "ComputeDigest hash p = map_option (\<lambda>d. p\<lparr>pl_digest := hex_encode d\<rparr>) (digestPlan hash p)"

text \<open>The walk over the members with the set of pods seen so far.\<close>

fun members_valid :: "string set \<Rightarrow> member list \<Rightarrow> bool" where
  "members_valid seen [] \<longleftrightarrow> True"
| "members_valid seen (m # ms) \<longleftrightarrow>
    mb_pod_id m \<noteq> [] \<and> mb_region m \<noteq> [] \<and> mb_pod_id m \<notin> seen
    \<and> members_valid (insert (mb_pod_id m) seen) ms"

definition plan_valid :: "plan_hash \<Rightarrow> lease_plan \<Rightarrow> bool" where
  "plan_valid hash p =
    (if pl_version p \<noteq> planVersion \<or> pl_epoch p = 0 \<or> pl_generation p = 0
        \<or> pl_valid_until p \<le> pl_valid_from p \<or> pl_members p = [] \<or> length (pl_digest p) \<noteq> 64
     then False
     else if \<not> members_valid {} (pl_members p) then False
     else (case hex_decode (pl_digest p) of
         None \<Rightarrow> False
       | Some want \<Rightarrow> (case digestPlan hash p of None \<Rightarrow> False | Some got \<Rightarrow> want = got)))"

section \<open>Building a plan\<close>

definition sort_members :: "member list \<Rightarrow> member list" where
  "sort_members ms = sort_key mb_pod_id ms"

definition membership_bytes :: "member list \<Rightarrow> string" where
  "membership_bytes ms =
    concat (map (\<lambda>m. mb_pod_id m @ CHR 0x00 # mb_region m @ [CHR 0x00]) ms)"

definition membershipGeneration :: "(string \<Rightarrow> 64 word) \<Rightarrow> member list \<Rightarrow> 64 word" where
  "membershipGeneration xxhash members =
    (let generation = xxhash (membership_bytes (sort_members members))
     in if generation = 0 then 1 else generation)"

definition BuildPlan ::
  "plan_hash \<Rightarrow> (string \<Rightarrow> 64 word) \<Rightarrow> 64 word \<Rightarrow> int \<Rightarrow> int \<Rightarrow> member list \<Rightarrow> lease_plan option" where
  "BuildPlan hash xxhash epoch validFromMS validUntilMS members =
    (let ordered = sort_members members
     in ComputeDigest hash \<lparr>pl_version = planVersion, pl_epoch = epoch,
          pl_generation = membershipGeneration xxhash ordered, pl_digest = [],
          pl_valid_from = validFromMS, pl_valid_until = validUntilMS, pl_members = ordered\<rparr>)"

section \<open>The registry of members\<close>

definition encodeMember :: "member \<Rightarrow> string" where
  "encodeMember m = mb_pod_id m @ ''|'' @ mb_region m"

definition decodeMember :: "string \<Rightarrow> member option" where
  "decodeMember entry =
    (let (podID, region, ok) = cut entry (CHR ''|'')
     in if \<not> ok then None
        else if podID = [] \<or> region = [] then None
        else Some \<lparr>mb_pod_id = podID, mb_region = region\<rparr>)"

text \<open>
  The registry is a sorted set, here the list of its entries with their scores, unique by entry.
  A client error on the read is the parameter \<open>reply\<close> of the code's caller and not modelled.
\<close>

type_synonym member_set = "(string \<times> rat) list"

definition Heartbeat :: "member \<Rightarrow> gtime \<Rightarrow> duration \<Rightarrow> member_set \<Rightarrow> member_set" where
  "Heartbeat self now ttl zs =
    AList.update (encodeMember self) (of_int (unix_milli (now + ttl))) zs"

definition RemoveMember :: "member \<Rightarrow> member_set \<Rightarrow> member_set" where
  "RemoveMember self zs = AList.delete (encodeMember self) zs"

definition ListMembers :: "gtime \<Rightarrow> member_set \<Rightarrow> member list \<times> member_set" where
  "ListMembers now zs =
    (let nowMS = of_int (unix_milli now);
         zs = [z \<leftarrow> zs. nowMS \<le> snd z];
         entries = map fst [z \<leftarrow> zs. nowMS \<le> snd z]
     in (sort_members (List.map_filter decodeMember entries), zs))"

text \<open>The coordinator adds itself when the registry does not list it.\<close>

definition list_members_with :: "member \<Rightarrow> gtime \<Rightarrow> member_set \<Rightarrow> member list \<times> member_set" where
  "list_members_with self now zs =
    (let (members, zs) = ListMembers now zs
     in if list_ex (\<lambda>m. mb_pod_id m = mb_pod_id self) members then (members, zs)
        else (sort_members (members @ [self]), zs))"

section \<open>Timing\<close>

definition planRetention :: "lease_plan \<Rightarrow> duration" where
  "planRetention p =
    (let retention = wrap64 (3 * (pl_valid_until p - pl_valid_from p) * one_ms)
     in if retention < one_minute then one_minute else retention)"

definition plan_key :: "64 word \<Rightarrow> string" where
  "plan_key epoch = ''outgress:plan:v2:'' @ itoa (uint epoch)"

text \<open>\<open>ServerTime\<close> reads the two decimal parts of a \<open>TIME\<close> reply.\<close>

definition ServerTime :: "string list \<Rightarrow> gtime option" where
  "ServerTime parts =
    (case parts of
       [s, us] \<Rightarrow>
         (case parse_int s of
            (secs, Some _) \<Rightarrow> None
          | (secs, None) \<Rightarrow>
              (case parse_int us of
                 (micros, Some _) \<Rightarrow> None
               | (micros, None) \<Rightarrow> Some (secs * one_second + wrap64 (micros * 1000))))
     | _ \<Rightarrow> None)"

record coordinator_config =
  cc_epoch :: duration
  cc_guard :: duration
  cc_min_members :: int
  cc_replicas :: int
  cc_replica_timeout :: duration

definition withDefaults :: "coordinator_config \<Rightarrow> coordinator_config" where
  "withDefaults c =
    (let c = (if cc_epoch c \<le> 0 then c\<lparr>cc_epoch := 30 * one_second\<rparr> else c);
         c = (if cc_guard c \<le> 0 then c\<lparr>cc_guard := 250 * one_ms\<rparr> else c);
         c = (if cc_min_members c \<le> 0 then c\<lparr>cc_min_members := 1\<rparr> else c)
     in if cc_replica_timeout c \<le> 0 then c\<lparr>cc_replica_timeout := 2 * one_second\<rparr> else c)"

definition membershipCadence :: "duration \<Rightarrow> duration \<times> duration" where
  "membershipCadence epoch =
    (let every = epoch div 6;
         every = (if every < 3 * one_second then 3 * one_second else every);
         every = (if 10 * one_second < every then 10 * one_second else every)
     in (every, 3 * every))"

abbreviation (input) "leaseReconcileInterval \<equiv> 2 * one_second"
abbreviation (input) "leaseMissingPlanRetry \<equiv> 250 * one_ms"
abbreviation (input) "leaseMinimumWake \<equiv> 10 * one_ms"

definition nextLeaseReconcileDelay :: "gtime \<Rightarrow> int \<Rightarrow> duration \<Rightarrow> duration" where
  "nextLeaseReconcileDelay serverNow nextBoundaryMS uncertainty =
    (let delay = wrap64 (time_sub (of_unix_milli nextBoundaryMS) serverNow + uncertainty)
     in if delay < leaseMinimumWake then leaseMinimumWake
        else if leaseReconcileInterval < delay then leaseReconcileInterval
        else delay)"

section \<open>Hexadecimal\<close>

lemma hex_digit_char: "n < 16 \<Longrightarrow> hex_digit (hex_char n) = Some (int n)"
proof -
  have "list_all (\<lambda>n. hex_digit (hex_char n) = Some (int n)) [0..<16]" by code_simp
  then show "n < 16 \<Longrightarrow> hex_digit (hex_char n) = Some (int n)" by (simp add: list_all_iff)
qed

lemma hex_decode_encode: "hex_decode (hex_encode s) = Some s"
proof (induction s)
  case (Cons c s)
  have "of_char c < (256 :: nat)" by simp
  then have byte: "of_char c div 16 < (16 :: nat)" by presburger
  have "16 * (of_char c div 16) + of_char c mod 16 = (of_char c :: nat)" by simp
  then have "nat (16 * int (of_char c div 16) + int (of_char c mod 16)) = of_char c"
    by (metis nat_int of_nat_add of_nat_mult of_nat_numeral)
  then show ?case
    using Cons byte by (simp add: hex_encode_def hex_digit_char)
qed (simp add: hex_encode_def)

lemma hex_encode_length: "length (hex_encode s) = 2 * length s"
  by (induction s) (simp_all add: hex_encode_def)

section \<open>Well-formed plans\<close>

lemma members_valid_iff:
  "members_valid seen ms \<longleftrightarrow>
    list_all (\<lambda>m. mb_pod_id m \<noteq> [] \<and> mb_region m \<noteq> [] \<and> mb_pod_id m \<notin> seen) ms
    \<and> distinct (map mb_pod_id ms)"
proof (induction ms arbitrary: seen)
  case (Cons m ms)
  have "(\<forall>x\<in>set ms. mb_pod_id x \<noteq> mb_pod_id m) \<longleftrightarrow> mb_pod_id m \<notin> mb_pod_id ` set ms"
    by (metis imageE imageI)
  with Cons show ?case by (auto simp: list_all_iff)
qed simp

definition good_members :: "member list \<Rightarrow> bool" where
  "good_members ms \<longleftrightarrow>
    list_all (\<lambda>m. mb_pod_id m \<noteq> [] \<and> mb_region m \<noteq> []) ms \<and> distinct (map mb_pod_id ms)"

lemma good_members_valid: "good_members ms \<longleftrightarrow> members_valid {} ms"
  by (auto simp: members_valid_iff good_members_def list_all_iff)

lemma good_members_mset: "mset ms = mset ms' \<Longrightarrow> good_members ms \<longleftrightarrow> good_members ms'"
proof -
  assume eq: "mset ms = mset ms'"
  then have "mset (map mb_pod_id ms) = mset (map mb_pod_id ms')" by simp
  then have "distinct (map mb_pod_id ms) = distinct (map mb_pod_id ms')" by (rule mset_eq_imp_distinct_iff)
  then show ?thesis using mset_eq_setD [OF eq] by (simp add: good_members_def list_all_iff)
qed

lemma sort_members_good: "good_members (sort_members ms) \<longleftrightarrow> good_members ms"
  by (rule good_members_mset) (simp add: sort_members_def)

lemma plan_valid_iff:
  "plan_valid hash p \<longleftrightarrow>
    pl_version p = planVersion \<and> pl_epoch p \<noteq> 0 \<and> pl_generation p \<noteq> 0
    \<and> pl_valid_from p < pl_valid_until p \<and> pl_members p \<noteq> [] \<and> length (pl_digest p) = 64
    \<and> good_members (pl_members p)
    \<and> (\<exists>d. digestPlan hash p = Some d \<and> hex_decode (pl_digest p) = Some d)"
  by (auto simp: plan_valid_def good_members_valid split: option.splits)

lemma digest_ignores_digest: "digestPlan hash (p\<lparr>pl_digest := d\<rparr>) = digestPlan hash p"
  by (simp add: digestPlan_def canonicalPlan_def)

lemma sort_members_unique:
  assumes "good_members ms" "mset ms = mset ms'"
  shows "sort_members ms = sort_members ms'"
  unfolding sort_members_def
  by (rule sort_key_inj_key_eq)
    (use assms in \<open>simp_all add: good_members_def distinct_map\<close>)

lemma canonical_build:
  assumes "good_members ms"
  shows "sort_key (\<lambda>m. (mb_pod_id m, mb_region m)) (sort_members ms) = sort_members ms"
proof (rule sort_key_inj_key_eq)
  have good: "good_members (sort_members ms)" using assms by (simp add: sort_members_good)
  show "inj_on (\<lambda>m. (mb_pod_id m, mb_region m)) (set (sort_members ms))"
    by (auto simp: inj_on_def)
  have "sorted (map mb_pod_id (sort_members ms))" by (simp add: sort_members_def)
  moreover have "distinct (map mb_pod_id (sort_members ms))" using good by (simp add: good_members_def)
  ultimately have "sorted_wrt (<) (map mb_pod_id (sort_members ms))"
    by (simp only: strict_sorted_iff)
  then show "sorted (map (\<lambda>m. (mb_pod_id m, mb_region m)) (sort_members ms))"
    unfolding sorted_wrt_map by (rule sorted_wrt_mono_rel [rotated]) (simp add: less_eq_prod_def)
qed simp

lemma build_plan_valid:
  assumes "good_members members" "members \<noteq> []" "epoch \<noteq> 0" "start < finish"
    "\<forall>p. \<exists>d. hash p = Some d \<and> length d = 32"
  shows "\<exists>p. BuildPlan hash xxhash epoch start finish members = Some p \<and> plan_valid hash p
    \<and> pl_members p = sort_members members"
proof -
  define q where "q = \<lparr>pl_version = planVersion, pl_epoch = epoch,
        pl_generation = membershipGeneration xxhash (sort_members members), pl_digest = [],
        pl_valid_from = start, pl_valid_until = finish, pl_members = sort_members members\<rparr>"
  obtain d where d: "digestPlan hash q = Some d" "length d = 32"
    using assms(5) by (metis digestPlan_def)
  have "BuildPlan hash xxhash epoch start finish members = Some (q\<lparr>pl_digest := hex_encode d\<rparr>)"
    using d by (simp add: BuildPlan_def ComputeDigest_def q_def Let_def)
  moreover have "set (sort_members members) \<noteq> {}" using assms(2) by (simp add: sort_members_def)
  then have "plan_valid hash (q\<lparr>pl_digest := hex_encode d\<rparr>)"
    using assms(1,3,4) d unfolding plan_valid_iff digest_ignores_digest
    by (auto simp: q_def hex_decode_encode hex_encode_length sort_members_good membershipGeneration_def Let_def)
  ultimately show ?thesis by (simp add: q_def)
qed

section \<open>Properties\<close>

text \<open>From members that are named, placed and pairwise distinct, and for a non-zero epoch and a
  non-empty interval, \<open>BuildPlan\<close> makes a plan that validates, whatever order the registry
  listed the members in: two pods that see the same members build the same plan.\<close>

theorem build_plan_agrees:
  assumes "good_members members" and "members \<noteq> []" and "mset members = mset members'"
    and "epoch \<noteq> 0" and "start < finish" and "\<forall>p. \<exists>d. hash p = Some d \<and> length d = 32"
  shows "\<exists>p. BuildPlan hash xxhash epoch start finish members = Some p \<and> plan_valid hash p
    \<and> pl_members p = sort_members members
    \<and> BuildPlan hash xxhash epoch start finish members' = Some p"
proof -
  have "BuildPlan hash xxhash epoch start finish members' = BuildPlan hash xxhash epoch start finish members"
    using sort_members_unique [OF assms(1,3)] by (simp add: BuildPlan_def)
  then show ?thesis using build_plan_valid [OF assms(1,2,4-6)] by metis
qed

definition example_members :: "member list" where
  "example_members = [\<lparr>mb_pod_id = ''pod-b'', mb_region = ''eu''\<rparr>, \<lparr>mb_pod_id = ''pod-a'', mb_region = ''us''\<rparr>]"

definition example_hash :: plan_hash where
  "example_hash p = Some (replicate 31 CHR 0x07 @ [char_of (length (pl_members p))])"

lemma build_plan_agrees_witness:
  "\<exists>p. BuildPlan example_hash (\<lambda>_. 0) 5 150 180 example_members = Some p \<and> plan_valid example_hash p
    \<and> pl_members p = sort_members example_members
    \<and> BuildPlan example_hash (\<lambda>_. 0) 5 150 180 (rev example_members) = Some p"
  by (rule build_plan_agrees)
    (simp_all add: example_members_def good_members_def example_hash_def)

text \<open>A pod whose name has no separator is found in the registry after its heartbeat, and reads
  back as itself, until the time to live of the heartbeat has run out, at whatever time other pods
  wrote theirs.\<close>

theorem heartbeat_listed:
  assumes "mb_pod_id self \<noteq> []" and "mb_region self \<noteq> []" and "CHR ''|'' \<notin> set (mb_pod_id self)"
    and "unix_milli later \<le> unix_milli (now + ttl)"
  shows "self \<in> set (fst (ListMembers later (Heartbeat self now ttl zs)))"
proof -
  have entry: "decodeMember (encodeMember self) = Some self"
    using assms(1-3) by (cases self) (simp add: decodeMember_def encodeMember_def cut_append)
  have "map_of (Heartbeat self now ttl zs) (encodeMember self) = Some (of_int (unix_milli (now + ttl)))"
    by (simp add: Heartbeat_def update_conv')
  then have "(encodeMember self, of_int (unix_milli (now + ttl))) \<in> set (Heartbeat self now ttl zs)"
    by (rule map_of_SomeD)
  then show ?thesis
    using assms(4) entry
    by (force simp: ListMembers_def Let_def sort_members_def List.map_filter_def intro: image_eqI)
qed

lemma heartbeat_listed_witness:
  "\<lparr>mb_pod_id = ''pod-a'', mb_region = ''us''\<rparr>
    \<in> set (fst (ListMembers (5 * one_second)
        (Heartbeat \<lparr>mb_pod_id = ''pod-a'', mb_region = ''us''\<rparr> 0 (9 * one_second) [(''pod-b|eu'', 1)])))"
  by (rule heartbeat_listed) (simp_all add: unix_milli_def)
text \<open>A plan the examples of the lease theories share.\<close>

definition example_plan :: lease_plan where
  "example_plan = the (BuildPlan example_hash (\<lambda>_. 0) 5 150 180 example_members)"

lemma built_example_valid:
  assumes "epoch \<noteq> 0" "start < finish"
  shows "plan_valid example_hash (the (BuildPlan example_hash (\<lambda>_. 0) epoch start finish example_members))"
proof -
  obtain p where "BuildPlan example_hash (\<lambda>_. 0) epoch start finish example_members = Some p"
      "plan_valid example_hash p"
    using build_plan_valid [of example_members epoch start finish example_hash "\<lambda>_. 0"] assms
    by (auto simp: example_members_def good_members_def example_hash_def)
  then show ?thesis by simp
qed

lemma example_plan_valid: "plan_valid example_hash example_plan"
  unfolding example_plan_def by (rule built_example_valid) simp_all

end
