(* ===== verification/LeaseProtocol.thy ===== *)
theory LeaseProtocol
  imports RatePlan
begin

text \<open>
  The agreement of the pods on the lease plan of an epoch: \<open>ProposePlan\<close> and \<open>LoadPlan\<close> of
  pkg/ratelimit/lease_client.go.  Each Valkey command of a proposer is one step, proposers
  interleave, and every command may fail with or without its effect.  The two keys of the epoch are
  the plan and its commit mark; their expiry, at least three plan intervals away
  (\<open>planRetention\<close>), is outside the model, as is a stored value that does not unmarshal.
\<close>

section \<open>The keys of an epoch\<close>

text \<open>The plan, the count of its modifications, which \<open>WATCH\<close> compares, and the commit mark.\<close>

record plan_keys =
  pk_plan :: "lease_plan option"
  pk_version :: nat
  pk_committed :: "string option"

definition no_keys :: plan_keys where
  "no_keys = \<lparr>pk_plan = None, pk_version = 0, pk_committed = None\<rparr>"

definition store_plan :: "lease_plan \<Rightarrow> plan_keys \<Rightarrow> plan_keys" where
  "store_plan p k = k\<lparr>pk_plan := Some p, pk_version := pk_version k + 1\<rparr>"

definition extend_plan :: "plan_keys \<Rightarrow> plan_keys" where
  "extend_plan k = k\<lparr>pk_version := pk_version k + 1\<rparr>"

definition commit_plan :: "lease_plan \<Rightarrow> plan_keys \<Rightarrow> plan_keys" where
  "commit_plan p k = k\<lparr>pk_committed := Some (pl_digest p)\<rparr>"

definition LoadPlan :: "plan_hash \<Rightarrow> plan_keys \<Rightarrow> lease_plan option" where
  "LoadPlan hash k =
    (case (pk_plan k, pk_committed k) of
       (Some p, Some committed) \<Rightarrow>
         if \<not> plan_valid hash p then None else if committed \<noteq> pl_digest p then None else Some p
     | _ \<Rightarrow> None)"

section \<open>A proposer\<close>

text \<open>
  Where a call of \<open>ProposePlan\<close> is: after \<open>WATCH\<close> with the version it saw, after a \<open>GET\<close> that
  found nothing or a plan, after \<open>EXEC\<close> or \<open>PEXPIRE\<close>, after the first \<open>WAIT\<close>, after the commit
  mark, returned (with \<open>won\<close>), or returned with an error.
\<close>

datatype phase = Idle | Watched nat | Absent nat | Present lease_plan | Renewed lease_plan | Stored
  | Held lease_plan bool | Published bool | Finished bool | Failed

inductive propose_step :: "plan_hash \<Rightarrow> lease_plan \<Rightarrow> plan_keys \<times> phase \<Rightarrow> plan_keys \<times> phase \<Rightarrow> bool"
  for hash :: plan_hash and p :: lease_plan where
  watch: "plan_valid hash p \<Longrightarrow> propose_step hash p (k, Idle) (k, Watched (pk_version k))"
| get_nil: "pk_plan k = None \<Longrightarrow> propose_step hash p (k, Watched v) (k, Absent v)"
| get_plan: "\<lbrakk>pk_plan k = Some q; plan_valid hash q\<rbrakk> \<Longrightarrow> propose_step hash p (k, Watched v) (k, Present q)"
| pexpire: "propose_step hash p (k, Present q) (extend_plan k, Renewed q)"
| exec: "pk_version k = v \<Longrightarrow> propose_step hash p (k, Absent v) (store_plan p k, Stored)"
| exec_nil: "pk_version k \<noteq> v \<Longrightarrow> propose_step hash p (k, Absent v) (k, Finished False)"
| wait_stored: "propose_step hash p (k, Stored) (k, Held p True)"
| wait_renewed: "propose_step hash p (k, Renewed q) (k, Held q False)"
| commit: "propose_step hash p (k, Held q won) (commit_plan q k, Published won)"
| wait_committed: "propose_step hash p (k, Published won) (k, Finished won)"
| fails: "\<forall>won. ph \<noteq> Finished won \<Longrightarrow> propose_step hash p (k, ph) (k, Failed)"
| pexpire_fails: "propose_step hash p (k, Present q) (extend_plan k, Failed)"
| exec_fails: "pk_version k = v \<Longrightarrow> propose_step hash p (k, Absent v) (store_plan p k, Failed)"
| commit_fails: "propose_step hash p (k, Held q won) (commit_plan q k, Failed)"

inductive_cases propose_stepE: "propose_step hash p (k, ph) (k', ph')"
inductive_simps finished_stays: "propose_step hash p (k, Finished won) s"

section \<open>All proposers of an epoch\<close>

text \<open>Proposer \<open>i\<close> proposes \<open>plans i\<close>; a step is one command of one proposer.\<close>

type_synonym agreement = "plan_keys \<times> (nat \<Rightarrow> phase)"

inductive agree_step :: "plan_hash \<Rightarrow> (nat \<Rightarrow> lease_plan) \<Rightarrow> agreement \<Rightarrow> agreement \<Rightarrow> bool"
  for hash :: plan_hash and plans :: "nat \<Rightarrow> lease_plan" where
  "propose_step hash (plans i) (k, phs i) (k', ph') \<Longrightarrow>
    agree_step hash plans (k, phs) (k', phs(i := ph'))"

inductive agree_steps :: "plan_hash \<Rightarrow> (nat \<Rightarrow> lease_plan) \<Rightarrow> agreement \<Rightarrow> agreement \<Rightarrow> bool"
  for hash :: plan_hash and plans :: "nat \<Rightarrow> lease_plan" where
  agree_refl: "agree_steps hash plans s s"
| agree_more: "\<lbrakk>agree_steps hash plans s t; agree_step hash plans t u\<rbrakk> \<Longrightarrow> agree_steps hash plans s u"

definition start :: agreement where
  "start = (no_keys, \<lambda>_. Idle)"

section \<open>The invariant\<close>

fun winning :: "phase \<Rightarrow> bool" where
  "winning Stored \<longleftrightarrow> True"
| "winning (Held _ won) \<longleftrightarrow> won"
| "winning (Published won) \<longleftrightarrow> won"
| "winning (Finished won) \<longleftrightarrow> won"
| "winning _ \<longleftrightarrow> False"

text \<open>What a proposer may rely on in each phase.\<close>

fun phase_ok :: "plan_keys \<Rightarrow> lease_plan \<Rightarrow> phase \<Rightarrow> bool" where
  "phase_ok k p (Watched v) \<longleftrightarrow> v \<le> pk_version k"
| "phase_ok k p (Absent v) \<longleftrightarrow> v \<le> pk_version k \<and> (v = pk_version k \<longrightarrow> pk_plan k = None)"
| "phase_ok k p (Present q) \<longleftrightarrow> pk_plan k = Some q"
| "phase_ok k p (Renewed q) \<longleftrightarrow> pk_plan k = Some q"
| "phase_ok k p Stored \<longleftrightarrow> pk_plan k = Some p"
| "phase_ok k p (Held q won) \<longleftrightarrow> pk_plan k = Some q"
| "phase_ok k p (Published won) \<longleftrightarrow> pk_plan k \<noteq> None"
| "phase_ok k p (Finished won) \<longleftrightarrow> (won \<longrightarrow> pk_plan k \<noteq> None)"
| "phase_ok k p _ \<longleftrightarrow> True"

text \<open>The keys hold a proposed plan, and no mark but that of the stored plan.\<close>

definition keys_ok :: "(nat \<Rightarrow> lease_plan) \<Rightarrow> plan_keys \<Rightarrow> bool" where
  "keys_ok plans k \<longleftrightarrow>
    (case pk_plan k of
       None \<Rightarrow> pk_committed k = None
     | Some q \<Rightarrow> q \<in> range plans \<and> (pk_committed k = None \<or> pk_committed k = Some (pl_digest q)))"

definition agreement_inv :: "(nat \<Rightarrow> lease_plan) \<Rightarrow> agreement \<Rightarrow> bool" where
  "agreement_inv plans s \<longleftrightarrow>
    (\<forall>i. phase_ok (fst s) (plans i) (snd s i))
    \<and> (\<forall>i j. winning (snd s i) \<longrightarrow> winning (snd s j) \<longrightarrow> i = j)
    \<and> keys_ok plans (fst s)"

lemma winning_has_plan: "\<lbrakk>phase_ok k p ph; winning ph\<rbrakk> \<Longrightarrow> pk_plan k \<noteq> None"
  by (cases ph) auto

lemma start_inv: "agreement_inv plans start"
  by (simp add: agreement_inv_def start_def no_keys_def keys_ok_def)

text \<open>
  A command leaves the keys alone, stores a first plan, bumps the version, or sets the mark of the
  stored plan.
\<close>

lemma propose_step_keys:
  assumes "propose_step hash p (k, ph) (k', ph')" "phase_ok k p ph"
  shows "k' = k \<or> (pk_plan k = None \<and> k' = store_plan p k) \<or> (pk_plan k \<noteq> None \<and> k' = extend_plan k)
    \<or> (\<exists>q. pk_plan k = Some q \<and> k' = commit_plan q k)"
  using assms by (auto elim!: propose_stepE)

lemma other_phase_ok:
  assumes "k' = k \<or> (pk_plan k = None \<and> k' = store_plan q k) \<or> (pk_plan k \<noteq> None \<and> k' = extend_plan k)
    \<or> (\<exists>q. pk_plan k = Some q \<and> k' = commit_plan q k)" "phase_ok k p ph"
  shows "phase_ok k' p ph"
  using assms by (cases ph) (auto simp: store_plan_def extend_plan_def commit_plan_def)

lemma own_phase_ok:
  "\<lbrakk>propose_step hash p (k, ph) (k', ph'); phase_ok k p ph\<rbrakk> \<Longrightarrow> phase_ok k' p ph'"
  by (auto elim!: propose_stepE simp: store_plan_def extend_plan_def commit_plan_def)

lemma becomes_winning:
  "\<lbrakk>propose_step hash p (k, ph) (k', ph'); phase_ok k p ph; winning ph'\<rbrakk> \<Longrightarrow>
    winning ph \<or> pk_plan k = None"
  by (auto elim!: propose_stepE)

lemma keys_ok_step:
  assumes "k' = k \<or> (pk_plan k = None \<and> k' = store_plan p k) \<or> (pk_plan k \<noteq> None \<and> k' = extend_plan k)
    \<or> (\<exists>q. pk_plan k = Some q \<and> k' = commit_plan q k)" "keys_ok plans k" "p \<in> range plans"
  shows "keys_ok plans k'"
  using assms by (auto simp: keys_ok_def store_plan_def extend_plan_def commit_plan_def split: option.splits)

lemma agree_step_inv:
  assumes "agree_step hash plans s t" "agreement_inv plans s"
  shows "agreement_inv plans t"
  using assms
proof (induction rule: agree_step.induct)
  case (1 i k phs k' ph')
  have inv: "(\<forall>j. phase_ok k (plans j) (phs j))
      \<and> (\<forall>j l. winning (phs j) \<longrightarrow> winning (phs l) \<longrightarrow> j = l) \<and> keys_ok plans k"
    using 1(2) unfolding agreement_inv_def fst_conv snd_conv .
  then have ok: "phase_ok k (plans j) (phs j)" for j by (elim conjE allE)
  from inv have one: "winning (phs j) \<longrightarrow> winning (phs l) \<longrightarrow> j = l" for j l by (elim conjE allE)
  from inv have keys: "keys_ok plans k" by (elim conjE)
  note moved = propose_step_keys [OF 1(1) ok]
  have phases: "phase_ok k' (plans j) ((phs(i := ph')) j)" for j
  proof (cases "j = i")
    case True
    then show ?thesis using own_phase_ok [OF 1(1) ok] by simp
  next
    case False
    then show ?thesis using other_phase_ok [OF moved ok [of j]] by simp
  qed
  have alone: "l = i" if "winning ph'" "winning (phs l)" for l
    using becomes_winning [OF 1(1) ok that(1)] one [of l i] winning_has_plan [OF ok that(2)] that(2)
    by (elim disjE) simp_all
  have single: "j = l" if "winning ((phs(i := ph')) j)" "winning ((phs(i := ph')) l)" for j l
  proof (cases "j = i")
    case True
    then show ?thesis using that alone [of l] by (cases "l = i") simp_all
  next
    case False
    then show ?thesis using that alone [of j] one [of j l] by (cases "l = i") simp_all
  qed
  have "keys_ok plans k'"
    by (rule keys_ok_step [OF moved keys]) simp
  then show ?case
    using phases single by (simp add: agreement_inv_def del: fun_upd_apply)
qed

text \<open>Once stored, the plan of the epoch is never replaced.\<close>

lemma agree_step_plan:
  assumes "agree_step hash plans s t" "agreement_inv plans s" "pk_plan (fst s) = Some q"
  shows "pk_plan (fst t) = Some q"
  using assms
proof (induction rule: agree_step.induct)
  case (1 i k phs k' ph')
  then have "phase_ok k (plans i) (phs i)" by (simp add: agreement_inv_def)
  from propose_step_keys [OF 1(1) this] show ?case
    using 1(3) by (auto simp: extend_plan_def commit_plan_def)
qed

lemma agree_steps_inv: "\<lbrakk>agree_steps hash plans s t; agreement_inv plans s\<rbrakk> \<Longrightarrow> agreement_inv plans t"
  by (induction rule: agree_steps.induct) (auto intro: agree_step_inv)

lemma agree_steps_plan:
  "\<lbrakk>agree_steps hash plans s t; agreement_inv plans s; pk_plan (fst s) = Some q\<rbrakk> \<Longrightarrow> pk_plan (fst t) = Some q"
  by (induction rule: agree_steps.induct) (auto intro: agree_step_plan agree_steps_inv)

lemma load_plan_stored: "LoadPlan hash k = Some p \<Longrightarrow> pk_plan k = Some p"
  by (auto simp: LoadPlan_def split: option.splits if_splits)

lemma agree_steps_trans:
  "\<lbrakk>agree_steps hash plans t u; agree_steps hash plans s t\<rbrakk> \<Longrightarrow> agree_steps hash plans s u"
  by (induction rule: agree_steps.induct) (auto intro: agree_more)

section \<open>Properties\<close>

text \<open>C21: All pods that load the plan of an epoch load the same plan, whatever commands of however many
  proposers ran before and between the loads, and however they failed; the plan is one that was
  proposed, and at most one proposer is told that it won.\<close>

theorem plan_agreement:
  assumes "agree_steps hash plans start s" and "agree_steps hash plans s t"
    and "LoadPlan hash (fst s) = Some p" and "LoadPlan hash (fst t) = Some q"
  shows "p = q \<and> p \<in> range plans \<and> plan_valid hash p
    \<and> (\<forall>i j. snd t i = Finished True \<longrightarrow> snd t j = Finished True \<longrightarrow> i = j)"
proof -
  have s: "agreement_inv plans s" using agree_steps_inv [OF assms(1) start_inv] .
  have t: "agreement_inv plans t" using agree_steps_inv [OF assms(2) s] .
  have "pk_plan (fst s) = Some p" "pk_plan (fst t) = Some q"
    using assms(3,4) by (simp_all add: load_plan_stored)
  moreover from this have "pk_plan (fst t) = Some p" using agree_steps_plan [OF assms(2) s] by blast
  moreover have "plan_valid hash p" using assms(3) by (auto simp: LoadPlan_def split: option.splits if_splits)
  moreover have "\<forall>i j. snd t i = Finished True \<longrightarrow> snd t j = Finished True \<longrightarrow> i = j"
    using t unfolding agreement_inv_def by (metis winning.simps(4))
  ultimately show ?thesis using s by (simp add: agreement_inv_def keys_ok_def)
qed


text \<open>One proposer moves; the others keep their phases.\<close>

lemma proposer_moves:
  assumes "agree_steps hash plans s (k, phs(i := ph))" "propose_step hash (plans i) (k, ph) (k', ph')"
  shows "agree_steps hash plans s (k', phs(i := ph'))"
proof -
  have "agree_step hash plans (k, phs(i := ph)) (k', (phs(i := ph))(i := ph'))"
    using assms(2) by (intro agree_step.intros) simp
  then show ?thesis using agree_more [OF assms(1)] by simp
qed

lemma proposer_starts: "phs i = Idle \<Longrightarrow> agree_steps hash plans (k, phs) (k, phs(i := Idle))"
  by (metis agree_refl fun_upd_triv)

text \<open>A proposer alone, without failures, from the keys it finds.\<close>

lemma lone_winner:
  assumes "plan_valid hash (plans i)" "phs i = Idle" "pk_plan k = None"
  shows "agree_steps hash plans (k, phs)
    (commit_plan (plans i) (store_plan (plans i) k), phs(i := Finished True))"
proof -
  note intros = propose_step.intros
  let ?p = "plans i"
  have "agree_steps hash plans (k, phs) (k, phs(i := Watched (pk_version k)))"
    by (rule proposer_moves [where ph = Idle])
      (rule proposer_starts [where phs = phs, OF assms(2)], rule watch [OF assms(1)])
  then have "agree_steps hash plans (k, phs) (k, phs(i := Absent (pk_version k)))"
    by (rule proposer_moves) (auto intro: intros assms(3))
  then have "agree_steps hash plans (k, phs) (store_plan ?p k, phs(i := Stored))"
    by (rule proposer_moves) (auto intro: intros)
  then have "agree_steps hash plans (k, phs) (store_plan ?p k, phs(i := Held ?p True))"
    by (rule proposer_moves) (auto intro: intros)
  then have "agree_steps hash plans (k, phs)
      (commit_plan ?p (store_plan ?p k), phs(i := Published True))"
    by (rule proposer_moves) (auto intro: intros)
  then have "agree_steps hash plans (k, phs)
      (commit_plan ?p (store_plan ?p k), phs(i := Finished True))"
    by (rule proposer_moves) (auto intro: intros)
  then show ?thesis by simp
qed

lemma lone_helper:
  assumes "plan_valid hash (plans i)" "phs i = Idle" "pk_plan k = Some q" "plan_valid hash q"
  shows "agree_steps hash plans (k, phs) (commit_plan q (extend_plan k), phs(i := Finished False))"
proof -
  note intros = propose_step.intros
  have "agree_steps hash plans (k, phs) (k, phs(i := Watched (pk_version k)))"
    by (rule proposer_moves [where ph = Idle])
      (rule proposer_starts [where phs = phs, OF assms(2)], rule watch [OF assms(1)])
  then have "agree_steps hash plans (k, phs) (k, phs(i := Present q))"
    by (rule proposer_moves) (auto intro: intros assms(3,4))
  then have "agree_steps hash plans (k, phs) (extend_plan k, phs(i := Renewed q))"
    by (rule proposer_moves) (auto intro: intros)
  then have "agree_steps hash plans (k, phs) (extend_plan k, phs(i := Held q False))"
    by (rule proposer_moves) (auto intro: intros)
  then have "agree_steps hash plans (k, phs)
      (commit_plan q (extend_plan k), phs(i := Published False))"
    by (rule proposer_moves) (auto intro: intros)
  then have "agree_steps hash plans (k, phs)
      (commit_plan q (extend_plan k), phs(i := Finished False))"
    by (rule proposer_moves) (auto intro: intros)
  then show ?thesis by simp
qed

lemma plan_agreement_witness:
  "let t = (commit_plan example_plan (store_plan example_plan no_keys),
      (\<lambda>_. Idle)(0 := Finished True) :: nat \<Rightarrow> phase)
   in example_plan = example_plan \<and> example_plan \<in> range (\<lambda>_::nat. example_plan)
    \<and> plan_valid example_hash example_plan
    \<and> (\<forall>i j. snd t i = Finished True \<longrightarrow> snd t j = Finished True \<longrightarrow> i = j)"
  unfolding Let_def
proof (rule plan_agreement)
  show "agree_steps example_hash (\<lambda>_. example_plan) start
    (commit_plan example_plan (store_plan example_plan no_keys), (\<lambda>_. Idle)(0 := Finished True))"
    using lone_winner [of example_hash "\<lambda>_. example_plan" 0 "\<lambda>_. Idle" no_keys] example_plan_valid
    by (simp add: start_def no_keys_def)
  show "LoadPlan example_hash (fst (commit_plan example_plan (store_plan example_plan no_keys),
      (\<lambda>_. Idle)(0 := Finished True))) = Some example_plan"
    using example_plan_valid by (simp add: LoadPlan_def commit_plan_def store_plan_def)
  then show "LoadPlan example_hash (fst (commit_plan example_plan (store_plan example_plan no_keys),
      (\<lambda>_. Idle)(0 := Finished True))) = Some example_plan" .
qed (rule agree_refl)

text \<open>An epoch never gets stuck: from every reachable state, however many proposers have failed on the
  way, a proposer that has not started yet and then runs without failures returns, and from then on the
  plan of the epoch can be loaded.\<close>

theorem plan_progress:
  assumes "agree_steps hash plans start s" and "\<forall>j. plan_valid hash (plans j)" and "snd s i = Idle"
  shows "\<exists>t won. agree_steps hash plans s t \<and> snd t i = Finished won \<and> LoadPlan hash (fst t) \<noteq> None"
proof -
  have inv: "keys_ok plans (fst s)"
    using agree_steps_inv [OF assms(1) start_inv] by (simp add: agreement_inv_def)
  show ?thesis
  proof (cases "pk_plan (fst s)")
    case None
    have "agree_steps hash plans s (commit_plan (plans i) (store_plan (plans i) (fst s)), (snd s)(i := Finished True))"
      using lone_winner [of hash plans i "snd s" "fst s"] assms(2,3) None by simp
    then show ?thesis
      using assms(2)
      by (intro exI [of _ "(commit_plan (plans i) (store_plan (plans i) (fst s)), (snd s)(i := Finished True))"]
          exI [of _ True]) (simp add: LoadPlan_def commit_plan_def store_plan_def)
  next
    case (Some q)
    then have q: "plan_valid hash q" using inv assms(2) by (auto simp: keys_ok_def)
    have "agree_steps hash plans s (commit_plan q (extend_plan (fst s)), (snd s)(i := Finished False))"
      using lone_helper [of hash plans i "snd s" "fst s" q] assms(2,3) Some q by simp
    then show ?thesis
      using Some q
      by (intro exI [of _ "(commit_plan q (extend_plan (fst s)), (snd s)(i := Finished False))"]
          exI [of _ False]) (simp add: LoadPlan_def commit_plan_def extend_plan_def)
  qed
qed

lemma plan_progress_witness:
  "\<exists>t won. agree_steps example_hash (\<lambda>_. example_plan)
      (store_plan example_plan no_keys, (\<lambda>_. Idle)(0 := Failed)) t
    \<and> snd t 1 = Finished won \<and> LoadPlan example_hash (fst t) \<noteq> None"
proof (rule plan_progress)
  have "agree_steps example_hash (\<lambda>_. example_plan) start (no_keys, (\<lambda>_. Idle)(0 := Watched 0))"
    unfolding start_def
    by (rule proposer_moves [OF proposer_starts])
      (use watch [OF example_plan_valid, of no_keys] in \<open>simp_all add: no_keys_def\<close>)
  then have "agree_steps example_hash (\<lambda>_. example_plan) start
      (no_keys, (\<lambda>_. Idle)(0 := Absent 0))"
    by (rule proposer_moves) (auto intro: propose_step.intros simp: no_keys_def)
  then have "agree_steps example_hash (\<lambda>_. example_plan) start
      (store_plan example_plan no_keys, (\<lambda>_. Idle)(0 := Failed))"
    by (rule proposer_moves) (auto intro: exec_fails simp: no_keys_def)
  then show "agree_steps example_hash (\<lambda>_. example_plan) start
      (store_plan example_plan no_keys, (\<lambda>_. Idle)(0 := Failed))"
    by simp
  show "\<forall>j::nat. plan_valid example_hash example_plan" using example_plan_valid by simp
qed simp

end
