(* ===== verification/LeaseShares.thy ===== *)
theory LeaseShares
  imports RatePlan
begin

text \<open>
  A pod's share of the limits and the window it may spend it in (pkg/ratelimit/lease_manager.go):
  the division of every profile among the members of a plan, and the activation of a plan under an
  uncertain server clock.
\<close>

section \<open>Shares\<close>

definition validRank :: "int \<Rightarrow> int \<Rightarrow> bool" where
  "validRank rank members \<longleftrightarrow> 0 < members \<and> 0 \<le> rank \<and> rank < members"

text \<open>The leased burst is never negative, so division and remainder agree with the code's.\<close>

definition localShare :: "spec \<Rightarrow> int \<Rightarrow> int \<Rightarrow> rat \<times> int" where
  "localShare s members rank =
    (if \<not> validRank rank members then (0, 0)
     else
       (let leasedBurst = sp_capacity s - sp_emergency_burst s;
            leasedRate = sp_refill_per_sec s - sp_emergency_rate s;
            burst = leasedBurst div members;
            burst = (if rank < leasedBurst mod members then burst + 1 else burst)
        in (leasedRate / of_int members, burst)))"

record self_share =
  ss_shared_rate :: rat
  ss_shared_burst :: int
  ss_standard_rate :: rat
  ss_standard_burst :: int
  ss_signature :: "64 word"
  ss_valid :: bool

definition zero_share :: self_share where
  "zero_share = \<lparr>ss_shared_rate = 0, ss_shared_burst = 0, ss_standard_rate = 0,
    ss_standard_burst = 0, ss_signature = 0, ss_valid = False\<rparr>"

definition computeShare ::
  "(rat \<Rightarrow> 64 word) \<Rightarrow> number_text \<Rightarrow> nat \<Rightarrow> int \<Rightarrow> int \<Rightarrow> self_share \<times> bool" where
  "computeShare fb nt profile members selfIndex =
    (let (shared, standard, ok) = specsForProfile nt profile
     in if \<not> ok then (zero_share, False)
        else
          (let (sharedRate, sharedBurst) = localShare shared members selfIndex
           in if sharedBurst \<le> 0 then (zero_share, False)
              else
                (let (standardRate, standardBurst) =
                       (if sp_capacity standard \<noteq> 0 then localShare standard members selfIndex else (0, 0))
                 in (\<lparr>ss_shared_rate = sharedRate, ss_shared_burst = sharedBurst,
                       ss_standard_rate = standardRate, ss_standard_burst = standardBurst,
                       ss_signature = bucketConfigSignature fb sharedRate sharedBurst standardRate standardBurst,
                       ss_valid = True\<rparr>, True))))"

definition buildShares ::
  "(rat \<Rightarrow> 64 word) \<Rightarrow> number_text \<Rightarrow> int \<Rightarrow> int \<Rightarrow> self_share list" where
  "buildShares fb nt members selfIndex =
    zero_share # map (\<lambda>profile.
      let (share, ok) = computeShare fb nt profile members selfIndex
      in if ok then share else zero_share) [profileChat..<profileHelixUser + 1]"

section \<open>The active plan\<close>

record active_plan =
  ap_epoch :: "64 word"
  ap_generation :: "64 word"
  ap_valid_from :: int
  ap_not_before :: gtime
  ap_not_after :: gtime
  ap_next_not_before :: gtime
  ap_members :: "member list"
  ap_self_index :: int
  ap_self_pod :: string
  ap_shares :: "self_share list"

definition coversNow :: "active_plan \<Rightarrow> gtime \<Rightarrow> bool" where
  "coversNow p now \<longleftrightarrow> \<not> now < ap_not_before p \<and> now < ap_not_after p"

definition plan_matches :: "active_plan option \<Rightarrow> 64 word \<Rightarrow> 64 word \<Rightarrow> bool" where
  "plan_matches p epoch generation =
    (case p of None \<Rightarrow> False | Some p \<Rightarrow> ap_epoch p = epoch \<and> ap_generation p = generation)"

definition shareFor :: "active_plan \<Rightarrow> nat \<Rightarrow> self_share option" where
  "shareFor p profile =
    (if ap_self_index p < 0 \<or> length (ap_shares p) \<le> profile then None
     else (let share = ap_shares p ! profile in if ss_valid share then Some share else None))"

text \<open>The index of the first member with the pod's name, or -1.\<close>

fun self_index :: "int \<Rightarrow> string \<Rightarrow> member list \<Rightarrow> int" where
  "self_index i podID [] = -1"
| "self_index i podID (m # ms) = (if mb_pod_id m = podID then i else self_index (i + 1) podID ms)"

text \<open>The plan an activation makes; \<open>None\<close> is either of its two errors.\<close>

definition activated_plan ::
  "plan_hash \<Rightarrow> (rat \<Rightarrow> 64 word) \<Rightarrow> number_text \<Rightarrow> string \<Rightarrow> lease_plan \<Rightarrow> gtime \<Rightarrow> gtime \<Rightarrow> duration
    \<Rightarrow> active_plan option" where
  "activated_plan hash fb nt podID plan serverNow localNow guard =
    (if \<not> plan_valid hash plan then None
     else
       (let canonical = canonicalPlan plan;
            selfIndex = self_index 0 podID (pl_members canonical);
            starts = time_sub (of_unix_milli (pl_valid_from canonical)) serverNow;
            ends = time_sub (of_unix_milli (pl_valid_until canonical)) serverNow;
            notBefore = localNow + wrap64 (starts + guard);
            notAfter = localNow + wrap64 (ends - guard);
            nextNotBefore = localNow + wrap64 (ends + guard)
        in if \<not> notBefore < notAfter then None
           else Some
             (let ap = \<lparr>ap_epoch = pl_epoch canonical, ap_generation = pl_generation canonical,
                    ap_valid_from = pl_valid_from canonical, ap_not_before = notBefore,
                    ap_not_after = notAfter, ap_next_not_before = nextNotBefore,
                    ap_members = pl_members canonical, ap_self_index = selfIndex,
                    ap_self_pod = [], ap_shares = replicate 6 zero_share\<rparr>
              in if 0 \<le> selfIndex
                 then ap\<lparr>ap_self_pod := mb_pod_id (pl_members canonical ! nat selfIndex),
                         ap_shares := buildShares fb nt (int (length (pl_members canonical))) selfIndex\<rparr>
                 else ap)))"

section \<open>Lemmas\<close>

lemma count_below_mod:
  fixes n k :: int
  assumes "0 \<le> k" "k \<le> n"
  shows "(\<Sum>r \<in> {0..<n}. if r < k then 1 else 0) = k"
proof -
  have "(\<Sum>r \<in> {0..<n}. if r < k then 1 else (0::int)) = (\<Sum>r \<in> {0..<n} \<inter> {r. r < k}. 1)"
    by (simp add: sum.If_cases)
  also have "{0..<n} \<inter> {r. r < k} = {0..<k}" using assms by auto
  finally show ?thesis using assms by simp
qed

lemma burst_shares_sum:
  fixes b n :: int
  assumes "0 < n"
  shows "(\<Sum>r \<in> {0..<n}. b div n + (if r < b mod n then 1 else 0)) = b"
proof -
  have "(\<Sum>r \<in> {0..<n}. b div n + (if r < b mod n then 1 else 0))
      = n * (b div n) + (\<Sum>r \<in> {0..<n}. if r < b mod n then 1 else 0)"
    using assms by (simp add: sum.distrib)
  also have "\<dots> = n * (b div n) + b mod n"
    using count_below_mod [of "b mod n" n] pos_mod_bound [OF assms, of b] pos_mod_sign [OF assms, of b]
    by simp
  also have "\<dots> = b" by (rule mult_div_mod_eq)
  finally show ?thesis .
qed

lemma activated_window:
  assumes "activated_plan hash fb nt podID plan serverNow localNow guard = Some p"
    "in64 (of_unix_milli (pl_valid_from plan) - serverNow)"
    "in64 (of_unix_milli (pl_valid_until plan) - serverNow)"
    "in64 (of_unix_milli (pl_valid_from plan) - serverNow + guard)"
    "in64 (of_unix_milli (pl_valid_until plan) - serverNow - guard)"
  shows "ap_not_before p = localNow + (of_unix_milli (pl_valid_from plan) - serverNow) + guard
    \<and> ap_not_after p = localNow + (of_unix_milli (pl_valid_until plan) - serverNow) - guard"
proof -
  have same: "pl_valid_from (canonicalPlan plan) = pl_valid_from plan"
    "pl_valid_until (canonicalPlan plan) = pl_valid_until plan"
    by (simp_all add: canonicalPlan_def)
  show ?thesis
    using assms by (auto simp: activated_plan_def Let_def same time_sub_exact wrap64_id split: if_splits)
qed

section \<open>Properties\<close>

text \<open>The burst and the rate of a limit are divided without remainder: over all ranks of a plan the
  leased bursts add up to the capacity less the emergency share, and the leased rates to the refill rate
  less the emergency rate, so pods and emergency bucket together never exceed the limit and waste none of it.\<close>

theorem shares_add_up:
  assumes "0 < members"
  shows "(\<Sum>rank \<in> {0..<members}. snd (localShare s members rank)) + sp_emergency_burst s = sp_capacity s
    \<and> (\<Sum>rank \<in> {0..<members}. fst (localShare s members rank)) + sp_emergency_rate s = sp_refill_per_sec s"
proof
  have "(\<Sum>rank \<in> {0..<members}. snd (localShare s members rank))
      = (\<Sum>rank \<in> {0..<members}. (sp_capacity s - sp_emergency_burst s) div members
          + (if rank < (sp_capacity s - sp_emergency_burst s) mod members then 1 else 0))"
    by (rule sum.cong) (auto simp: localShare_def validRank_def Let_def)
  then show "(\<Sum>rank \<in> {0..<members}. snd (localShare s members rank)) + sp_emergency_burst s = sp_capacity s"
    unfolding burst_shares_sum [OF assms] by linarith
  have "(\<Sum>rank \<in> {0..<members}. fst (localShare s members rank))
      = (\<Sum>rank \<in> {0..<members}. (sp_refill_per_sec s - sp_emergency_rate s) / of_int members)"
    by (rule sum.cong) (auto simp: localShare_def validRank_def Let_def)
  also have "\<dots> = sp_refill_per_sec s - sp_emergency_rate s"
    using assms by (simp only: sum_constant) simp
  finally show "(\<Sum>rank \<in> {0..<members}. fst (localShare s members rank)) + sp_emergency_rate s
      = sp_refill_per_sec s"
    by linarith
qed

lemma shares_add_up_witness:
  "(\<Sum>rank \<in> {0..<3}. snd (localShare example_spec 3 rank)) + sp_emergency_burst example_spec
      = sp_capacity example_spec
    \<and> (\<Sum>rank \<in> {0..<3}. fst (localShare example_spec 3 rank)) + sp_emergency_rate example_spec
      = sp_refill_per_sec example_spec"
  by (rule shares_add_up) simp

text \<open>C25: The leased windows of two consecutive plans never overlap, on whatever two pods they are
  active: when each pod knows the server's clock up to its guard, no instant lies in the window of the
  earlier plan on one pod and in that of the later plan on another.\<close>

theorem windows_disjoint:
  fixes offA offB :: int
  assumes "activated_plan hash fb nt podA p1 serverA localA guardA = Some a"
    and "activated_plan hash fb nt podB p2 serverB localB guardB = Some b"
    and "pl_valid_until p1 \<le> pl_valid_from p2"
    and "\<bar>localA + offA - serverA\<bar> \<le> guardA" and "\<bar>localB + offB - serverB\<bar> \<le> guardB"
    and "list_all in64 [of_unix_milli (pl_valid_from p1) - serverA, of_unix_milli (pl_valid_until p1) - serverA,
      of_unix_milli (pl_valid_from p1) - serverA + guardA, of_unix_milli (pl_valid_until p1) - serverA - guardA]"
    and "list_all in64 [of_unix_milli (pl_valid_from p2) - serverB, of_unix_milli (pl_valid_until p2) - serverB,
      of_unix_milli (pl_valid_from p2) - serverB + guardB, of_unix_milli (pl_valid_until p2) - serverB - guardB]"
  shows "\<not> (coversNow a (instant - offA) \<and> coversNow b (instant - offB))"
proof -
  have "ap_not_after a = localA + (of_unix_milli (pl_valid_until p1) - serverA) - guardA"
    using activated_window [OF assms(1)] assms(6) by simp
  moreover have "ap_not_before b = localB + (of_unix_milli (pl_valid_from p2) - serverB) + guardB"
    using activated_window [OF assms(2)] assms(7) by simp
  moreover have "of_unix_milli (pl_valid_until p1) \<le> of_unix_milli (pl_valid_from p2)"
    using assms(3) by (simp add: of_unix_milli_def)
  ultimately show ?thesis using assms(4,5) by (auto simp: coversNow_def)
qed

definition later_plan :: lease_plan where
  "later_plan = the (BuildPlan example_hash (\<lambda>_. 0) 6 180 210 example_members)"

definition pod_window :: "string \<Rightarrow> lease_plan \<Rightarrow> active_plan" where
  "pod_window pod p = the (activated_plan example_hash (\<lambda>_. 1) plain_text pod p (170 * one_ms) (1000 * one_ms) (2 * one_ms))"

lemma activated_plan_exists:
  "activated_plan hash fb nt podID plan serverNow localNow guard \<noteq> None \<longleftrightarrow>
    plan_valid hash plan
    \<and> wrap64 (time_sub (of_unix_milli (pl_valid_from plan)) serverNow + guard)
      < wrap64 (time_sub (of_unix_milli (pl_valid_until plan)) serverNow - guard)"
  by (auto simp: activated_plan_def Let_def canonicalPlan_def)

lemma later_plan_valid: "plan_valid example_hash later_plan"
  by (rule built_example_valid [of 6 180 210, folded later_plan_def]) simp_all

lemma pod_windows:
  "activated_plan example_hash (\<lambda>_. 1) plain_text ''pod-a'' example_plan (170 * one_ms) (1000 * one_ms) (2 * one_ms)
    = Some (pod_window ''pod-a'' example_plan)"
  "activated_plan example_hash (\<lambda>_. 1) plain_text ''pod-b'' later_plan (170 * one_ms) (1000 * one_ms) (2 * one_ms)
    = Some (pod_window ''pod-b'' later_plan)"
proof -
  have times: "pl_valid_from example_plan = 150" "pl_valid_until example_plan = 180"
    "pl_valid_from later_plan = 180" "pl_valid_until later_plan = 210"
    by code_simp+
  have "activated_plan example_hash (\<lambda>_. 1) plain_text ''pod-a'' example_plan (170 * one_ms) (1000 * one_ms) (2 * one_ms) \<noteq> None"
    "activated_plan example_hash (\<lambda>_. 1) plain_text ''pod-b'' later_plan (170 * one_ms) (1000 * one_ms) (2 * one_ms) \<noteq> None"
    unfolding activated_plan_exists times
    using example_plan_valid later_plan_valid by (simp_all add: of_unix_milli_def time_sub_def
      int64_min_def int64_max_def wrap64_def)
  then show "activated_plan example_hash (\<lambda>_. 1) plain_text ''pod-a'' example_plan (170 * one_ms) (1000 * one_ms) (2 * one_ms)
      = Some (pod_window ''pod-a'' example_plan)"
    "activated_plan example_hash (\<lambda>_. 1) plain_text ''pod-b'' later_plan (170 * one_ms) (1000 * one_ms) (2 * one_ms)
      = Some (pod_window ''pod-b'' later_plan)"
    unfolding pod_window_def by (metis option.collapse)+
qed

lemma windows_disjoint_witness:
  "\<not> (coversNow (pod_window ''pod-a'' example_plan) (178 * one_ms - (- 830 * one_ms))
    \<and> coversNow (pod_window ''pod-b'' later_plan) (178 * one_ms - (- 829 * one_ms)))"
proof (rule windows_disjoint [OF pod_windows])
  show "pl_valid_until example_plan \<le> pl_valid_from later_plan" by code_simp
qed code_simp+

end
