(* ===== verification/LeaseManager.thy ===== *)
theory LeaseManager
  imports LeaseShares
begin

text \<open>
  The lease manager of a pod (pkg/ratelimit/lease_manager.go) with the peer permits of borrow.go: it
  admits from its own buckets, borrows from at most two peers, and falls back on the emergency share
  of the central limiter.  A peer's answer to a request and the state of the semaphores are inputs;
  the buckets are those of RateBucket, the central limiter that of RateLimiter.
\<close>

unbundle bit_operations_syntax

section \<open>State\<close>

record lease_manager =
  lm_pod_id :: string
  lm_region :: string
  lm_plan :: "active_plan option"
  lm_local :: bucket_store

abbreviation (input) "needStandard \<equiv> (1 :: 8 word)"
abbreviation (input) "needShared \<equiv> (2 :: 8 word)"
abbreviation (input) "needSystem \<equiv> (4 :: 8 word)"
abbreviation (input) "validNeeds \<equiv> (7 :: 8 word)"
abbreviation (input) "permitTTL \<equiv> 250 * one_ms"

record borrow_request =
  br_version :: nat
  br_request_id :: string
  br_epoch :: "64 word"
  br_generation :: "64 word"
  br_bucket :: bucket_id
  br_need :: "8 word"
  br_profile :: nat
  br_shared_rate_micros :: int
  br_shared_burst :: int
  br_standard_rate_micros :: int
  br_standard_burst :: int
  br_deadline_ms :: int

record borrow_reply =
  rp_version :: nat
  rp_epoch :: "64 word"
  rp_grant_id :: string
  rp_paid :: "8 word"
  rp_remaining_ms :: int
  rp_status :: string

text \<open>
  The world a request meets: whether a permit service is attached and a slot is free, whether the
  central limiter is attached and has a free slot, and the answer to the \<open>n\<close>-th peer asked, \<open>None\<close>
  for an error or a timeout.
\<close>

record lease_env =
  le_permit :: bool
  le_borrow_slot :: bool
  le_central :: bool
  le_emergency_slot :: bool
  le_peer :: "nat \<Rightarrow> member \<Rightarrow> borrow_request \<Rightarrow> borrow_reply option"

section \<open>Local buckets\<close>

definition plan_config :: "active_plan \<Rightarrow> self_share \<Rightarrow> bucket_config" where
  "plan_config plan share = \<lparr>bc_epoch = ap_epoch plan, bc_generation = ap_generation plan,
    bc_holder = ap_self_pod plan, bc_not_before = ap_not_before plan, bc_not_after = ap_not_after plan,
    bc_shared_rate = ss_shared_rate share, bc_shared_burst = ss_shared_burst share,
    bc_standard_rate = ss_standard_rate share, bc_standard_burst = ss_standard_burst share\<rparr>"

definition refreshBucket ::
  "(rat \<Rightarrow> 64 word) \<Rightarrow> gtime \<Rightarrow> active_plan \<Rightarrow> self_share \<Rightarrow> local_bucket \<Rightarrow> local_bucket" where
  "refreshBucket fb now plan share b = lb_update fb now (plan_config plan share) b"

text \<open>The bucket under an id, whether it existed, and the store that holds it.\<close>

definition configuredBucket ::
  "(rat \<Rightarrow> 64 word) \<Rightarrow> gtime \<Rightarrow> active_plan \<Rightarrow> bucket_id \<Rightarrow> self_share \<Rightarrow> bucket_store
    \<Rightarrow> (local_bucket \<times> bool) \<times> bucket_store" where
  "configuredBucket fb now plan bid share st =
    (case store_load bid st of
       Some bucket \<Rightarrow>
         (let bucket = (if MatchesSignature (ss_signature share) bucket then bucket
                        else refreshBucket fb now plan share bucket)
          in ((bucket, True), st(bid \<mapsto> bucket)))
     | None \<Rightarrow>
         (let bucket = refreshBucket fb now plan share NewLocalBucket
          in ((bucket, False), st(bid \<mapsto> bucket))))"

definition premiumLease ::
  "(rat \<Rightarrow> 64 word) \<Rightarrow> gtime \<Rightarrow> active_plan \<Rightarrow> self_share \<Rightarrow> local_bucket \<Rightarrow> bool \<times> local_bucket" where
  "premiumLease fb now plan share b =
    (let ((allowed, stale), b) = TryPremiumLease now (ap_epoch plan) (ap_generation plan) b
     in if stale
        then (let ((allowed, _), b) = TryPremiumLease now (ap_epoch plan) (ap_generation plan)
                    (refreshBucket fb now plan share b)
              in (allowed, b))
        else (allowed, b))"

definition standardLease ::
  "(rat \<Rightarrow> 64 word) \<Rightarrow> gtime \<Rightarrow> active_plan \<Rightarrow> self_share \<Rightarrow> local_bucket \<Rightarrow> (bool \<times> bool) \<times> local_bucket" where
  "standardLease fb now plan share b =
    (let ((standard, shared, stale), b) = TryStandardLease now (ap_epoch plan) (ap_generation plan) b
     in if stale
        then (let ((standard, shared, _), b) = TryStandardLease now (ap_epoch plan) (ap_generation plan)
                    (refreshBucket fb now plan share b)
              in ((standard, shared), b))
        else ((standard, shared), b))"

text \<open>\<open>((allowed, existed), store)\<close>.\<close>

definition tryLocalPremiumState ::
  "(rat \<Rightarrow> 64 word) \<Rightarrow> gtime \<Rightarrow> active_plan \<Rightarrow> bucket_id \<Rightarrow> nat \<Rightarrow> bucket_store
    \<Rightarrow> (bool \<times> bool) \<times> bucket_store" where
  "tryLocalPremiumState fb now plan bid profile st =
    (case shareFor plan profile of
       None \<Rightarrow> ((False, False), st)
     | Some share \<Rightarrow>
         (let ((bucket, existed), st) = configuredBucket fb now plan bid share st;
              (allowed, bucket) = premiumLease fb now plan share bucket
          in ((allowed, existed), st(bid \<mapsto> bucket))))"

text \<open>\<open>((standard, shared, existed), store)\<close>.\<close>

definition tryLocalStandardState ::
  "(rat \<Rightarrow> 64 word) \<Rightarrow> gtime \<Rightarrow> active_plan \<Rightarrow> bucket_id \<Rightarrow> nat \<Rightarrow> bucket_store
    \<Rightarrow> (bool \<times> bool \<times> bool) \<times> bucket_store" where
  "tryLocalStandardState fb now plan bid profile st =
    (case shareFor plan profile of
       None \<Rightarrow> ((False, False, False), st)
     | Some share \<Rightarrow>
         if ss_standard_burst share \<le> 0 then ((False, False, False), st)
         else
           (let ((bucket, existed), st) = configuredBucket fb now plan bid share st;
                ((standard, shared), bucket) = standardLease fb now plan share bucket
            in ((standard, shared, existed), st(bid \<mapsto> bucket))))"

text \<open>Activation stores the plan, primes the buckets of the fixed limits and drops the long expired.\<close>

definition prime_bucket ::
  "(rat \<Rightarrow> 64 word) \<Rightarrow> gtime \<Rightarrow> active_plan \<Rightarrow> bucket_id \<times> nat \<Rightarrow> bucket_store \<Rightarrow> bucket_store" where
  "prime_bucket fb now plan fixed st =
    (let (bid, profile) = fixed; share = ap_shares plan ! profile
     in if \<not> ss_valid share then st
        else
          (let ((bucket, _), st) = configuredBucket fb now plan bid share st
           in st(bid \<mapsto>
                (if lb_generation bucket \<noteq> ap_generation plan \<or> lb_holder bucket \<noteq> ap_self_pod plan
                 then refreshBucket fb now plan share bucket
                 else lb_renew (ap_epoch plan) (ap_not_before plan) (ap_not_after plan) bucket))))"

definition primeFixedBuckets ::
  "(rat \<Rightarrow> 64 word) \<Rightarrow> gtime \<Rightarrow> active_plan \<Rightarrow> bucket_store \<Rightarrow> bucket_store" where
  "primeFixedBuckets fb now plan st =
    (if ap_self_index plan < 0 then st
     else List.fold (prime_bucket fb now plan)
       [(\<lparr>bi_scope = ''helix:app'', bi_value = []\<rparr>, profileHelixGeneral),
        (\<lparr>bi_scope = ''helix:system'', bi_value = []\<rparr>, profileHelixSystem),
        (\<lparr>bi_scope = ''helix:user:bot'', bi_value = []\<rparr>, profileHelixUser)] st)"

definition ActivatePlan ::
  "plan_hash \<Rightarrow> (rat \<Rightarrow> 64 word) \<Rightarrow> number_text \<Rightarrow> lease_plan \<Rightarrow> gtime \<Rightarrow> gtime \<Rightarrow> duration
    \<Rightarrow> lease_manager \<Rightarrow> bool \<times> lease_manager" where
  "ActivatePlan hash fb nt plan serverNow localNow guard m =
    (case activated_plan hash fb nt (lm_pod_id m) plan serverNow localNow guard of
       None \<Rightarrow> (False, m)
     | Some ap \<Rightarrow>
         (let st = primeFixedBuckets fb localNow ap (lm_local m);
              cutoff = unix_nano (localNow + wrap64 (- 2 * time_sub (ap_not_after ap) (ap_not_before ap)))
          in (True, m\<lparr>lm_plan := Some ap, lm_local := DeleteExpired cutoff st\<rparr>)))"

definition lease_active :: "gtime \<Rightarrow> lease_manager \<Rightarrow> active_plan option" where
  "lease_active now m =
    (case lm_plan m of None \<Rightarrow> None | Some plan \<Rightarrow> if coversNow plan now then Some plan else None)"

definition guardRetryAfterAt :: "gtime \<Rightarrow> lease_manager \<Rightarrow> duration" where
  "guardRetryAfterAt now m =
    (case lm_plan m of
       None \<Rightarrow> 0
     | Some plan \<Rightarrow>
         if now < ap_not_before plan then time_sub (ap_not_before plan) now
         else if \<not> now < ap_not_after plan \<and> now < ap_next_not_before plan
         then time_sub (ap_next_not_before plan) now
         else 0)"

section \<open>Granting permits\<close>

definition limitMicros :: "rat \<Rightarrow> int" where
  "limitMicros limit = \<lfloor>limit * 1000000\<rfloor>"

definition matchesShare :: "borrow_request \<Rightarrow> self_share \<Rightarrow> bool" where
  "matchesShare r share \<longleftrightarrow>
    br_shared_rate_micros r = limitMicros (ss_shared_rate share)
    \<and> br_shared_burst r = ss_shared_burst share
    \<and> br_standard_rate_micros r = limitMicros (ss_standard_rate share)
    \<and> br_standard_burst r = ss_standard_burst share"

definition validateBorrow ::
  "gtime \<Rightarrow> borrow_request \<Rightarrow> lease_manager \<Rightarrow> string + active_plan \<times> self_share" where
  "validateBorrow now request m =
    (if \<not> plan_matches (lease_active now m) (br_epoch request) (br_generation request) then Inl ''stale''
     else
       (case lease_active now m of
          None \<Rightarrow> Inl ''stale''
        | Some plan \<Rightarrow>
            (case shareFor plan (br_profile request) of
               None \<Rightarrow> Inl ''invalid''
             | Some share \<Rightarrow> if matchesShare request share then Inr (plan, share) else Inl ''invalid'')))"

text \<open>\<open>((paid, status), bucket)\<close>.\<close>

definition grantNeed ::
  "(rat \<Rightarrow> 64 word) \<Rightarrow> gtime \<Rightarrow> active_plan \<Rightarrow> self_share \<Rightarrow> 8 word \<Rightarrow> local_bucket
    \<Rightarrow> (8 word \<times> string) \<times> local_bucket" where
  "grantNeed fb now plan share need b =
    (if need = needShared \<or> need = needSystem then
       (let (allowed, b) = premiumLease fb now plan share b
        in ((if allowed then (need, ''granted'') else (0, ''empty'')), b))
     else if need = needStandard OR needShared then
       (let ((standard, shared), b) = standardLease fb now plan share b
        in ((if standard \<and> shared then (needStandard OR needShared, ''granted'') else (0, ''empty'')), b))
     else ((0, ''invalid''), b))"

definition GrantPermit ::
  "(rat \<Rightarrow> 64 word) \<Rightarrow> gtime \<Rightarrow> borrow_request \<Rightarrow> lease_manager \<Rightarrow> borrow_reply \<times> lease_manager" where
  "GrantPermit fb now request m =
    (let reply = \<lparr>rp_version = planVersion, rp_epoch = br_epoch request, rp_grant_id = [],
           rp_paid = 0, rp_remaining_ms = 0, rp_status = ''stale''\<rparr>
     in case validateBorrow now request m of
          Inl status \<Rightarrow> (reply\<lparr>rp_status := status\<rparr>, m)
        | Inr (plan, share) \<Rightarrow>
            (let ((bucket, _), st) = configuredBucket fb now plan (br_bucket request) share (lm_local m);
                 ((paid, status), bucket) = grantNeed fb now plan share (br_need request) bucket
             in (reply\<lparr>rp_paid := paid, rp_status := status\<rparr>,
                 m\<lparr>lm_local := st(br_bucket request \<mapsto> bucket)\<rparr>)))"

section \<open>Borrowing\<close>

definition skipColdChatBorrow :: "active_plan \<Rightarrow> bool \<Rightarrow> nat \<Rightarrow> bool" where
  "skipColdChatBorrow plan existed profile \<longleftrightarrow>
    0 \<le> ap_self_index plan \<and> \<not> existed \<and> (profile = profileChat \<or> profile = profileChatMod)"

definition borrowOrder :: "lease_manager \<Rightarrow> active_plan \<Rightarrow> nat list" where
  "borrowOrder m plan = concat (map (\<lambda>wantLocal.
      filter (\<lambda>i. int i \<noteq> ap_self_index plan
          \<and> (mb_region (ap_members plan ! i) = lm_region m) = wantLocal)
        [0..<length (ap_members plan)]) [True, False])"

record borrow_target =
  bt_bucket :: bucket_id
  bt_need :: "8 word"
  bt_shared :: spec
  bt_standard :: spec

definition reply_valid_for :: "borrow_reply \<Rightarrow> borrow_request \<Rightarrow> bool" where
  "reply_valid_for r request \<longleftrightarrow>
    rp_version r = planVersion \<and> rp_epoch r = br_epoch request \<and> rp_paid r AND NOT (br_need request) = 0"

definition borrow_request_for :: "active_plan \<Rightarrow> borrow_target \<Rightarrow> nat \<Rightarrow> 8 word \<Rightarrow> borrow_request" where
  "borrow_request_for plan target index paid =
    (let members = int (length (ap_members plan));
         (sharedRate, sharedBurst) = localShare (bt_shared target) members (int index);
         (standardRate, standardBurst) = localShare (bt_standard target) members (int index)
     in \<lparr>br_version = planVersion, br_request_id = [], br_epoch = ap_epoch plan,
          br_generation = ap_generation plan, br_bucket = bt_bucket target,
          br_need = bt_need target AND NOT paid, br_profile = sp_profile (bt_shared target),
          br_shared_rate_micros = limitMicros sharedRate, br_shared_burst = sharedBurst,
          br_standard_rate_micros = limitMicros standardRate, br_standard_burst = standardBurst,
          br_deadline_ms = 0\<rparr>)"

text \<open>One ask: a reply that is not valid for the request is an error.\<close>

definition askPeer ::
  "lease_env \<Rightarrow> active_plan \<Rightarrow> borrow_target \<Rightarrow> nat \<Rightarrow> nat \<Rightarrow> 8 word \<Rightarrow> borrow_reply option" where
  "askPeer env plan target attempt index paid =
    (let request = borrow_request_for plan target index paid
     in case le_peer env attempt (ap_members plan ! index) request of
          None \<Rightarrow> None
        | Some reply \<Rightarrow> if reply_valid_for reply request then Some reply else None)"

fun borrow_loop ::
  "lease_env \<Rightarrow> active_plan \<Rightarrow> borrow_target \<Rightarrow> nat \<Rightarrow> nat list \<Rightarrow> 8 word \<Rightarrow> 8 word" where
  "borrow_loop env plan target attempts [] paid = paid"
| "borrow_loop env plan target attempts (i # order) paid =
    (if 2 \<le> attempts then paid
     else case askPeer env plan target attempts i paid of
         None \<Rightarrow> borrow_loop env plan target (attempts + 1) order paid
       | Some reply \<Rightarrow>
           (let paid = paid OR rp_paid reply
            in if paid AND bt_need target = bt_need target then paid
               else borrow_loop env plan target (attempts + 1) order paid))"

definition borrow :: "lease_env \<Rightarrow> lease_manager \<Rightarrow> active_plan \<Rightarrow> borrow_target \<Rightarrow> 8 word" where
  "borrow env m plan target =
    (if \<not> le_permit env \<or> length (ap_members plan) < 2 then 0
     else if \<not> le_borrow_slot env then 0
     else borrow_loop env plan target 0 (borrowOrder m plan) 0)"

section \<open>Admitting requests\<close>

definition reserveEmergency :: "lease_env \<Rightarrow> bool" where
  "reserveEmergency env \<longleftrightarrow> le_central env \<and> le_emergency_slot env"

definition emergencyAllow ::
  "number_text \<Rightarrow> lease_env \<Rightarrow> int \<Rightarrow> request \<Rightarrow> 64 word \<Rightarrow> valkey_db \<Rightarrow> (limiter_error + bool) \<times> valkey_db" where
  "emergencyAllow nt env server_ms req generation db =
    (if \<not> reserveEmergency env then (Inr False, db)
     else AllowEmergency nt server_ms req generation 0 db)"

definition emergencyAllowOrdered ::
  "number_text \<Rightarrow> lease_env \<Rightarrow> int \<Rightarrow> request \<Rightarrow> request \<Rightarrow> 64 word \<Rightarrow> valkey_db
    \<Rightarrow> (limiter_error + nat) \<times> valkey_db" where
  "emergencyAllowOrdered nt env server_ms first second generation db =
    (if \<not> reserveEmergency env then (Inr 2, db)
     else AllowEmergencyOrdered nt server_ms first second generation 0 db)"

definition lease_allow_at ::
  "number_text \<Rightarrow> (rat \<Rightarrow> 64 word) \<Rightarrow> lease_env \<Rightarrow> int \<Rightarrow> request \<Rightarrow> gtime
    \<Rightarrow> lease_manager \<times> valkey_db \<Rightarrow> (limiter_error + bool) \<times> lease_manager \<times> valkey_db" where
  "lease_allow_at nt fb env server_ms req now s =
    (let (m, db) = s
     in case lease_active now m of
          None \<Rightarrow>
            if lm_plan m \<noteq> None then (Inr False, m, db)
            else (let (r, db) = emergencyAllow nt env server_ms req 1 db in (r, m, db))
        | Some plan \<Rightarrow>
            (let ((allowed, existed), st) =
                   tryLocalPremiumState fb now plan (bucketID req) (sp_profile (rq_spec req)) (lm_local m);
                 m = m\<lparr>lm_local := st\<rparr>;
                 fallback = (let (r, db) = emergencyAllow nt env server_ms req (ap_generation plan) db in (r, m, db))
             in if allowed then (Inr True, m, db)
                else if skipColdChatBorrow plan existed (sp_profile (rq_spec req)) then fallback
                else
                  (let need = (if sp_profile (rq_spec req) = profileHelixSystem then needSystem else needShared);
                       (_, standard, _) = specsForProfile nt (sp_profile (rq_spec req));
                       target = \<lparr>bt_bucket = bucketID req, bt_need = need, bt_shared = rq_spec req,
                         bt_standard = standard\<rparr>
                   in if borrow env m plan target = need then (Inr True, m, db) else fallback)))"

definition lease_allow_ordered_at ::
  "number_text \<Rightarrow> (rat \<Rightarrow> 64 word) \<Rightarrow> lease_env \<Rightarrow> int \<Rightarrow> request \<Rightarrow> request \<Rightarrow> gtime
    \<Rightarrow> lease_manager \<times> valkey_db \<Rightarrow> (limiter_error + nat) \<times> lease_manager \<times> valkey_db" where
  "lease_allow_ordered_at nt fb env server_ms first second now s =
    (let (m, db) = s
     in case lease_active now m of
          None \<Rightarrow>
            if lm_plan m \<noteq> None then (Inr 2, m, db)
            else (let (r, db) = emergencyAllowOrdered nt env server_ms first second 1 db in (r, m, db))
        | Some plan \<Rightarrow>
            (let ((localFirst, localShared, existed), st) =
                   tryLocalStandardState fb now plan (bucketID second) (sp_profile (rq_spec second)) (lm_local m);
                 m = m\<lparr>lm_local := st\<rparr>;
                 fallback = (let (r, db) = emergencyAllowOrdered nt env server_ms first second (ap_generation plan) db
                             in (r, m, db))
             in if localFirst \<and> localShared then (Inr 0, m, db)
                else if skipColdChatBorrow plan existed (sp_profile (rq_spec second)) then fallback
                else
                  (let target = \<lparr>bt_bucket = bucketID second, bt_need = needStandard OR needShared,
                         bt_shared = rq_spec second, bt_standard = rq_spec first\<rparr>
                   in if borrow env m plan target = needStandard OR needShared then (Inr 0, m, db)
                      else fallback)))"

section \<open>Buckets only lose tokens\<close>

definition lb_ok :: "local_bucket \<Rightarrow> bool" where
  "lb_ok b \<longleftrightarrow> tb_ok (lb_shared b) \<and> tb_ok (lb_standard b)"

text \<open>Between two states of a bucket at one time, \<open>n\<close> tokens of the shared budget were taken.\<close>

definition spends :: "gtime \<Rightarrow> rat \<Rightarrow> local_bucket \<Rightarrow> local_bucket \<Rightarrow> bool" where
  "spends now n b b' \<longleftrightarrow> (lb_ok b \<longrightarrow> lb_ok b' \<and> TokensAt now (lb_shared b') + n \<le> TokensAt now (lb_shared b))"

lemma spends_refl: "spends now 0 b b"
  by (simp add: spends_def)

lemma spends_trans: "\<lbrakk>spends now n b c; spends now n' c d\<rbrakk> \<Longrightarrow> spends now (n + n') b d"
  by (auto simp: spends_def)

lemma spends_first: "\<lbrakk>spends now 0 b c; spends now n c d\<rbrakk> \<Longrightarrow> spends now n b d"
  using spends_trans [of now 0 b c n d] by simp

lemma TokensAt_again [bucket_simps]:
  "TokensAt now (refill now t) = TokensAt now t"
  "TokensAt now (snd (tb_allow now t)) = TokensAt now t - (if 1 \<le> TokensAt now t then 1 else 0)"
  by (auto simp: TokensAt_def refill_def tb_allow_def Let_def)

lemma TokensAt_init [bucket_simps]: "TokensAt now (tb_init now r burst t) = 0"
  by (simp add: TokensAt_def bucket_simps)

lemma TokensAt_empty: "TokensAt now empty_token_bucket \<le> 0"
  by (simp add: TokensAt_def empty_token_bucket_def Let_def)

lemma empty_ok: "tb_ok empty_token_bucket"
  by (simp add: tb_ok_def empty_token_bucket_def)

lemma TokensAt_set_config: "TokensAt now (set_burst now burst (set_rate now r t)) \<le> TokensAt now t"
proof -
  have "tb_tokens (set_burst now burst (set_rate now r t)) \<le> TokensAt now t"
    by (simp add: bucket_simps)
  moreover have "TokensAt now (set_burst now burst (set_rate now r t)) = tb_tokens (set_burst now burst (set_rate now r t))"
    by (simp add: TokensAt_def bucket_simps)
  ultimately show ?thesis by simp
qed

lemma update_standard:
  "config_valid cfg \<Longrightarrow> lb_standard (lb_update fb now cfg b) =
    (if bc_standard_burst cfg \<le> 0 then empty_token_bucket
     else if \<not> lb_has_standard b \<or> lb_holder b \<noteq> bc_holder cfg \<or> lb_generation b \<noteq> bc_generation cfg
     then tb_init now (bc_standard_rate cfg) (bc_standard_burst cfg) (lb_standard b)
     else set_burst now (bc_standard_burst cfg) (set_rate now (bc_standard_rate cfg) (lb_standard b)))"
  by (auto simp: lb_update_def applyShared_def applyStandard_def Let_def)

lemma update_ok: "lb_ok b \<Longrightarrow> lb_ok (lb_update fb now cfg b)"
proof (cases "config_valid cfg")
  case True
  moreover from True have "0 \<le> bc_shared_rate cfg" "0 \<le> bc_shared_burst cfg"
    "bc_standard_burst cfg \<le> 0 \<or> 0 \<le> bc_standard_rate cfg"
    by (auto simp: config_valid_def split: if_splits)
  ultimately show "lb_ok b \<Longrightarrow> ?thesis"
    by (auto simp: lb_ok_def update_shared update_standard bucket_simps empty_ok)
next
  case False
  then show ?thesis by (simp add: lb_update_def lb_reset_def lb_ok_def empty_ok)
qed

lemma update_spends: "spends now 0 b (lb_update fb now cfg b)"
proof -
  have "TokensAt now (lb_shared (lb_update fb now cfg b)) \<le> TokensAt now (lb_shared b)" if "lb_ok b"
  proof (cases "config_valid cfg")
    case True
    then show ?thesis
      using that TokensAt_nonneg [of "lb_shared b" now] TokensAt_set_config
      by (simp add: update_shared bucket_simps lb_ok_def)
  next
    case False
    then show ?thesis
      using that TokensAt_nonneg [of "lb_shared b" now] TokensAt_empty [of now]
      by (simp add: lb_update_def lb_reset_def lb_ok_def)
  qed
  then show ?thesis using update_ok by (simp add: spends_def)
qed

lemma refresh_spends: "spends now 0 b (refreshBucket fb now plan share b)"
  by (simp add: refreshBucket_def update_spends)

lemma premium_try_spends:
  "spends now (if fst (fst (TryPremiumLease now e g b)) then 1 else 0) b (snd (TryPremiumLease now e g b))"
  by (auto simp: premium_shared spends_def lb_ok_def bucket_simps)

lemma standard_try_spends:
  "spends now (if fst (fst (TryStandardLease now e g b)) then 1 else 0) b (snd (TryStandardLease now e g b))"
  by (cases rule: standard_lease_cases [of now e g b]) (auto simp: spends_def lb_ok_def bucket_simps)

lemma standard_try_pair: "fst (snd (fst (TryStandardLease now e g b))) = fst (fst (TryStandardLease now e g b))"
  by (cases rule: standard_lease_cases [of now e g b]) auto

lemma premium_stale: "snd (fst (TryPremiumLease now e g b)) \<Longrightarrow> \<not> fst (fst (TryPremiumLease now e g b))"
  by (auto simp: premium_shared split: if_splits)

lemma standard_stale: "snd (snd (fst (TryStandardLease now e g b))) \<Longrightarrow> \<not> fst (fst (TryStandardLease now e g b))"
  by (auto simp: TryStandardLease_def windowValid_def Let_def split: if_splits)

lemma premiumLease_spends:
  "spends now (if fst (premiumLease fb now plan share b) then 1 else 0) b (snd (premiumLease fb now plan share b))"
proof (cases "snd (fst (TryPremiumLease now (ap_epoch plan) (ap_generation plan) b))")
  case True
  let ?b = "snd (TryPremiumLease now (ap_epoch plan) (ap_generation plan) b)"
  have "spends now 0 b ?b"
    using premium_try_spends [of now "ap_epoch plan" "ap_generation plan" b] premium_stale [OF True] by simp
  then have "spends now 0 b (refreshBucket fb now plan share ?b)"
    by (rule spends_first [OF _ refresh_spends])
  from spends_first [OF this premium_try_spends [of now "ap_epoch plan" "ap_generation plan"]]
  show ?thesis using True by (simp add: premiumLease_def case_prod_beta Let_def)
next
  case False
  then show ?thesis
    using premium_try_spends [of now "ap_epoch plan" "ap_generation plan" b]
    by (simp add: premiumLease_def case_prod_beta Let_def)
qed

lemma standardLease_spends:
  "spends now (if fst (fst (standardLease fb now plan share b)) then 1 else 0) b (snd (standardLease fb now plan share b))"
proof (cases "snd (snd (fst (TryStandardLease now (ap_epoch plan) (ap_generation plan) b)))")
  case True
  let ?b = "snd (TryStandardLease now (ap_epoch plan) (ap_generation plan) b)"
  have "spends now 0 b ?b"
    using standard_try_spends [of now "ap_epoch plan" "ap_generation plan" b] standard_stale [OF True] by simp
  then have "spends now 0 b (refreshBucket fb now plan share ?b)"
    by (rule spends_first [OF _ refresh_spends])
  from spends_first [OF this standard_try_spends [of now "ap_epoch plan" "ap_generation plan"]]
  show ?thesis using True by (simp add: standardLease_def case_prod_beta Let_def)
next
  case False
  then show ?thesis
    using standard_try_spends [of now "ap_epoch plan" "ap_generation plan" b]
    by (simp add: standardLease_def case_prod_beta Let_def)
qed

lemma standardLease_pair: "snd (fst (standardLease fb now plan share b)) = fst (fst (standardLease fb now plan share b))"
  by (auto simp: standardLease_def case_prod_beta Let_def standard_try_pair)

section \<open>The store of a pod\<close>

definition bucket_level :: "gtime \<Rightarrow> bucket_store \<Rightarrow> bucket_id \<Rightarrow> rat" where
  "bucket_level now st i = (case st i of None \<Rightarrow> 0 | Some b \<Rightarrow> TokensAt now (lb_shared b))"

definition store_ok :: "bucket_store \<Rightarrow> bool" where
  "store_ok st \<longleftrightarrow> (\<forall>i b. st i = Some b \<longrightarrow> lb_ok b)"

text \<open>One bucket of a store lost \<open>n\<close> tokens of the shared budget; the others are as they were.\<close>

definition store_spends :: "gtime \<Rightarrow> rat \<Rightarrow> bucket_id \<Rightarrow> bucket_store \<Rightarrow> bucket_store \<Rightarrow> bool" where
  "store_spends now n i st st' \<longleftrightarrow>
    (store_ok st \<longrightarrow> store_ok st' \<and> bucket_level now st' i + n \<le> bucket_level now st i
      \<and> (\<forall>other. other \<noteq> i \<longrightarrow> st' other = st other))"

lemma store_spends_refl: "store_spends now 0 i st st"
  by (simp add: store_spends_def)

lemma new_bucket_ok: "lb_ok NewLocalBucket"
  by (simp add: lb_ok_def NewLocalBucket_def empty_ok)

lemma new_bucket_level: "TokensAt now (lb_shared NewLocalBucket) \<le> 0"
  by (simp add: NewLocalBucket_def TokensAt_empty)

lemma configuredBucket_store:
  obtains b0 where "snd (configuredBucket fb now plan i share st)
      = st(i \<mapsto> fst (fst (configuredBucket fb now plan i share st)))"
    "spends now 0 b0 (fst (fst (configuredBucket fb now plan i share st)))"
    "store_ok st \<longrightarrow> lb_ok b0 \<and> TokensAt now (lb_shared b0) \<le> bucket_level now st i"
proof (cases "st i")
  case None
  then show thesis
    using that [of NewLocalBucket] refresh_spends new_bucket_ok new_bucket_level [of now]
    by (simp add: configuredBucket_def store_load_def Let_def bucket_level_def)
next
  case (Some b)
  then show thesis
    using that [of b] refresh_spends [of now b] spends_refl [of now b]
    by (auto simp: configuredBucket_def store_load_def Let_def bucket_level_def store_ok_def)
qed

text \<open>Whatever spends from the configured bucket spends from the store.\<close>

lemma configured_spends:
  assumes "spends now n (fst (fst (configuredBucket fb now plan i share st))) b'"
  shows "store_spends now n i st ((snd (configuredBucket fb now plan i share st))(i \<mapsto> b'))"
proof (rule configuredBucket_store [of fb now plan i share st])
  fix b0
  assume conf: "snd (configuredBucket fb now plan i share st)
      = st(i \<mapsto> fst (fst (configuredBucket fb now plan i share st)))"
    and b0: "spends now 0 b0 (fst (fst (configuredBucket fb now plan i share st)))"
      "store_ok st \<longrightarrow> lb_ok b0 \<and> TokensAt now (lb_shared b0) \<le> bucket_level now st i"
  have "spends now n b0 b'" by (rule spends_first [OF b0(1) assms])
  then show ?thesis
    using b0(2) unfolding conf store_spends_def
    by (auto simp: store_ok_def bucket_level_def spends_def)
qed

lemma tryLocalPremium_spends:
  "store_spends now (if fst (fst (tryLocalPremiumState fb now plan i profile st)) then 1 else 0) i st
    (snd (tryLocalPremiumState fb now plan i profile st))"
proof (cases "shareFor plan profile")
  case (Some share)
  show ?thesis
    unfolding tryLocalPremiumState_def Some option.case case_prod_beta Let_def fst_conv snd_conv
    by (rule configured_spends [OF premiumLease_spends])
qed (simp add: tryLocalPremiumState_def store_spends_refl)

lemma tryLocalStandard_spends:
  "store_spends now (if fst (fst (tryLocalStandardState fb now plan i profile st)) then 1 else 0) i st
    (snd (tryLocalStandardState fb now plan i profile st))"
proof (cases "shareFor plan profile")
  case (Some share)
  show ?thesis
  proof (cases "ss_standard_burst share \<le> 0")
    case False
    show ?thesis
      unfolding tryLocalStandardState_def Some option.case case_prod_beta Let_def fst_conv snd_conv if_not_P [OF False]
      by (rule configured_spends [OF standardLease_spends])
  qed (simp add: tryLocalStandardState_def Some store_spends_refl)
qed (simp add: tryLocalStandardState_def store_spends_refl)

lemma grantNeed_spends:
  "spends now (if fst (fst (grantNeed fb now plan share need b)) \<noteq> 0 then 1 else 0) b
    (snd (grantNeed fb now plan share need b))"
  using premiumLease_spends [of now fb plan share b] standardLease_spends [of now fb plan share b]
  by (auto simp: grantNeed_def case_prod_beta Let_def standardLease_pair spends_refl)

lemma grantNeed_paid: "fst (fst (grantNeed fb now plan share need b)) \<in> {0, need}"
  by (auto simp: grantNeed_def case_prod_beta Let_def)

lemma validateBorrow_Inr:
  assumes "validateBorrow now r m = Inr (plan, share)"
  shows "lm_plan m = Some plan \<and> coversNow plan now \<and> ap_epoch plan = br_epoch r
    \<and> ap_generation plan = br_generation r \<and> shareFor plan (br_profile r) = Some share \<and> matchesShare r share"
  using assms
  by (auto simp: validateBorrow_def lease_active_def plan_matches_def split: option.splits if_splits)

lemma prime_bucket_ok: "store_ok st \<Longrightarrow> store_ok (prime_bucket fb now plan fixed st)"
proof -
  assume ok: "store_ok st"
  obtain i profile where fixed: "fixed = (i, profile)" by (cases fixed)
  let ?c = "configuredBucket fb now plan i (ap_shares plan ! profile) st"
  have "lb_ok (fst (fst ?c)) \<Longrightarrow> spends now 0 (fst (fst ?c)) (lb_renew e nb na (fst (fst ?c)))" for e nb na
    by (simp add: spends_def lb_ok_def lb_renew_def)
  then have "spends now 0 (fst (fst ?c)) (lb_renew e nb na (fst (fst ?c)))" for e nb na
    by (auto simp: spends_def)
  from configured_spends [OF this] configured_spends [OF refresh_spends] show ?thesis
    using ok by (auto simp: prime_bucket_def fixed case_prod_beta Let_def store_spends_def)
qed

lemma fold_prime_ok: "store_ok st \<Longrightarrow> store_ok (List.fold (prime_bucket fb now plan) fs st)"
  by (induction fs arbitrary: st) (simp_all add: prime_bucket_ok)

lemma activate_store_ok:
  assumes "store_ok (lm_local m)"
  shows "store_ok (lm_local (snd (ActivatePlan hash fb nt plan serverNow localNow guard m)))"
proof -
  have delete_ok: "store_ok (DeleteExpired t st)" if "store_ok st" for t st
    using that by (auto simp: store_ok_def DeleteExpired_def split: option.splits if_splits)
  show ?thesis
    using assms by (auto simp: ActivatePlan_def primeFixedBuckets_def Let_def split: option.splits
        intro!: delete_ok prime_bucket_ok)
qed

section \<open>Borrowing from peers\<close>

lemma borrow_loop_within:
  "paid AND NOT (bt_need target) = 0 \<Longrightarrow>
    borrow_loop env plan target n order paid AND NOT (bt_need target) = 0"
proof (induction order arbitrary: n paid)
  case (Cons i order)
  have "rp_paid reply AND NOT (bt_need target) = 0" if "askPeer env plan target n i paid = Some reply" for reply
  proof -
    have "rp_paid reply AND NOT (bt_need target AND NOT paid) = 0"
      using that by (auto simp: askPeer_def Let_def reply_valid_for_def borrow_request_for_def case_prod_beta
          split: option.splits if_splits)
    then show ?thesis
      by (simp add: bit.de_Morgan_conj bit.conj_disj_distrib or_eq_0_iff)
  qed
  then show ?case
    using Cons by (auto simp: Let_def bit.conj_disj_distrib2 split: option.splits)
qed simp

lemma borrow_loop_two:
  assumes "le_peer env 0 = le_peer env' 0" "le_peer env 1 = le_peer env' 1"
  shows "borrow_loop env plan target n order paid = borrow_loop env' plan target n order paid"
proof (induction order arbitrary: n paid)
  case (Cons i order)
  have "askPeer env plan target n i p = askPeer env' plan target n i p" if "\<not> 2 \<le> n" for p
  proof -
    have "n = 0 \<or> n = 1" using that by auto
    then have "le_peer env n = le_peer env' n" using assms by auto
    then show ?thesis by (simp add: askPeer_def)
  qed
  then show ?case using Cons by (auto simp: Let_def split: option.split)
qed simp

lemma sorted_wrt_all: "\<forall>x \<in> set xs. Q x \<Longrightarrow> sorted_wrt (\<lambda>i j. Q j \<longrightarrow> Q i) xs"
  by (induction xs) auto

lemma sorted_wrt_none: "\<forall>x \<in> set xs. \<not> Q x \<Longrightarrow> sorted_wrt (\<lambda>i j. Q j \<longrightarrow> Q i) xs"
  by (induction xs) auto

lemma set_borrowOrder:
  "set (borrowOrder m plan) = {i. i < length (ap_members plan) \<and> int i \<noteq> ap_self_index plan}"
  by (auto simp: borrowOrder_def)

lemma distinct_borrowOrder: "distinct (borrowOrder m plan)"
  by (auto simp: borrowOrder_def)

section \<open>Properties\<close>

text \<open>A pod with a plan and one bucket, alone in its world, for the witnesses.\<close>

definition empty_manager :: lease_manager where
  "empty_manager = \<lparr>lm_pod_id = ''pod-a'', lm_region = ''us'',
    lm_plan = Some \<lparr>ap_epoch = 5, ap_generation = 1, ap_valid_from = 150, ap_not_before = 0,
      ap_not_after = 30 * one_second, ap_next_not_before = 31 * one_second, ap_members = example_members,
      ap_self_index = 0, ap_self_pod = ''pod-a'',
      ap_shares = replicate 6 \<lparr>ss_shared_rate = 1, ss_shared_burst = 5, ss_standard_rate = 1,
        ss_standard_burst = 2, ss_signature = 9, ss_valid = True\<rparr>\<rparr>,
    lm_local = [zero_bucket_id \<mapsto> NewLocalBucket\<lparr>lb_epoch := 5, lb_generation := 1, lb_holder := ''pod-a'',
      lb_has_shared := True, lb_shared := \<lparr>tb_tokens = 2, tb_last = 0, tb_rate = 1, tb_burst = 5\<rparr>,
      lb_config := 9\<rparr>]\<rparr>"

definition example_borrow :: borrow_request where
  "example_borrow = \<lparr>br_version = 3, br_request_id = ''r'', br_epoch = 5, br_generation = 1,
    br_bucket = zero_bucket_id, br_need = needShared, br_profile = profileHelixUser,
    br_shared_rate_micros = 1000000, br_shared_burst = 5, br_standard_rate_micros = 1000000,
    br_standard_burst = 2, br_deadline_ms = 0\<rparr>"

definition alone_env :: lease_env where
  "alone_env = \<lparr>le_permit = False, le_borrow_slot = False, le_central = False, le_emergency_slot = False,
    le_peer = (\<lambda>_ _ _. None)\<rparr>"

definition user_request :: request where
  "user_request = ForKey [] (zero_spec\<lparr>sp_profile := profileHelixUser\<rparr>)"

lemma empty_manager_ok: "store_ok (lm_local empty_manager)"
  by (simp add: store_ok_def empty_manager_def lb_ok_def NewLocalBucket_def empty_token_bucket_def tb_ok_def)

text \<open>C31: Every operation of a lease manager (activation of a plan, requests of either kind, permits for
  peers) keeps each bucket of the pod within its bounds: never a negative number of tokens, never more
  than its burst.\<close>

theorem lease_store_invariant:
  assumes "store_ok (lm_local m)"
  shows "store_ok (lm_local (snd (ActivatePlan hash fb nt plan serverNow localNow guard m)))
    \<and> store_ok (lm_local (fst (snd (lease_allow_at nt fb env ms req now (m, db)))))
    \<and> store_ok (lm_local (fst (snd (lease_allow_ordered_at nt fb env ms first second now (m, db)))))
    \<and> store_ok (lm_local (snd (GrantPermit fb now r m)))"
proof (intro conjI)
  show "store_ok (lm_local (snd (ActivatePlan hash fb nt plan serverNow localNow guard m)))"
    by (rule activate_store_ok [OF assms])
  have "store_ok (snd (tryLocalPremiumState fb now p i profile (lm_local m)))" for p i profile
    using tryLocalPremium_spends assms by (auto simp: store_spends_def)
  then show "store_ok (lm_local (fst (snd (lease_allow_at nt fb env ms req now (m, db)))))"
    using assms by (auto simp: lease_allow_at_def case_prod_beta Let_def split: option.splits)
  have "store_ok (snd (tryLocalStandardState fb now p i profile (lm_local m)))" for p i profile
    using tryLocalStandard_spends assms by (auto simp: store_spends_def)
  then show "store_ok (lm_local (fst (snd (lease_allow_ordered_at nt fb env ms first second now (m, db)))))"
    using assms by (auto simp: lease_allow_ordered_at_def case_prod_beta Let_def split: option.splits)
  have "store_ok ((snd (configuredBucket fb now p i share (lm_local m)))
      (i \<mapsto> snd (grantNeed fb now p share need (fst (fst (configuredBucket fb now p i share (lm_local m)))))))"
    for p i share need
    using configured_spends [OF grantNeed_spends] assms by (auto simp: store_spends_def)
  then show "store_ok (lm_local (snd (GrantPermit fb now r m)))"
    using assms by (auto simp: GrantPermit_def case_prod_beta Let_def split: sum.splits)
qed

lemma lease_store_invariant_witness:
  "store_ok (lm_local (snd (ActivatePlan example_hash (\<lambda>_. 1) plain_text example_plan 170 1000 2 empty_manager)))
    \<and> store_ok (lm_local (fst (snd (lease_allow_at plain_text (\<lambda>_. 1) alone_env 0 user_request one_second (empty_manager, Map.empty)))))
    \<and> store_ok (lm_local (fst (snd (lease_allow_ordered_at plain_text (\<lambda>_. 1) alone_env 0 user_request user_request one_second
        (empty_manager, Map.empty)))))
    \<and> store_ok (lm_local (snd (GrantPermit (\<lambda>_. 1) one_second example_borrow empty_manager)))"
  by (rule lease_store_invariant [OF empty_manager_ok])

text \<open>C23: A permit granted to a peer is paid for: the reply pays nothing or exactly what was asked; it
  pays only for a request of the plan that is active now, on the share the pod itself computes for that
  profile; and then the bucket named by the request has lost a token that it held, and no other bucket has
  changed.\<close>

theorem permit_is_paid:
  assumes "store_ok (lm_local m)" and "GrantPermit fb now r m = (reply, m')"
  shows "rp_paid reply \<in> {0, br_need r}
    \<and> (rp_paid reply \<noteq> 0 \<longrightarrow> (\<exists>plan share. lm_plan m = Some plan \<and> coversNow plan now
        \<and> ap_epoch plan = br_epoch r \<and> ap_generation plan = br_generation r
        \<and> shareFor plan (br_profile r) = Some share \<and> matchesShare r share))
    \<and> bucket_level now (lm_local m') (br_bucket r) + (if rp_paid reply \<noteq> 0 then 1 else 0)
        \<le> bucket_level now (lm_local m) (br_bucket r)
    \<and> (\<forall>other. other \<noteq> br_bucket r \<longrightarrow> lm_local m' other = lm_local m other)"
proof (cases "validateBorrow now r m")
  case (Inl status)
  then show ?thesis using assms(2) by (auto simp: GrantPermit_def Let_def)
next
  case (Inr ps)
  obtain plan share where ps: "ps = (plan, share)" by (cases ps)
  let ?b = "fst (fst (configuredBucket fb now plan (br_bucket r) share (lm_local m)))"
  let ?g = "grantNeed fb now plan share (br_need r) ?b"
  have paid: "rp_paid reply = fst (fst ?g)"
    and st: "lm_local m' = (snd (configuredBucket fb now plan (br_bucket r) share (lm_local m)))(br_bucket r \<mapsto> snd ?g)"
    using assms(2) Inr ps by (auto simp: GrantPermit_def Let_def case_prod_beta)
  have spent: "store_spends now (if rp_paid reply \<noteq> 0 then 1 else 0) (br_bucket r) (lm_local m) (lm_local m')"
    unfolding paid st by (rule configured_spends [OF grantNeed_spends])
  have "\<exists>plan share. lm_plan m = Some plan \<and> coversNow plan now
      \<and> ap_epoch plan = br_epoch r \<and> ap_generation plan = br_generation r
      \<and> shareFor plan (br_profile r) = Some share \<and> matchesShare r share"
    using validateBorrow_Inr Inr ps by blast
  moreover have "rp_paid reply \<in> {0, br_need r}" unfolding paid by (rule grantNeed_paid)
  ultimately show ?thesis using spent assms(1) by (simp add: store_spends_def)
qed

lemma permit_is_paid_witness:
  "let (reply, m') = GrantPermit (\<lambda>_. 1) one_second example_borrow empty_manager
   in rp_paid reply = needShared \<and> rp_paid reply \<in> {0, br_need example_borrow}
    \<and> (rp_paid reply \<noteq> 0 \<longrightarrow> (\<exists>plan share. lm_plan empty_manager = Some plan \<and> coversNow plan one_second
        \<and> ap_epoch plan = br_epoch example_borrow \<and> ap_generation plan = br_generation example_borrow
        \<and> shareFor plan (br_profile example_borrow) = Some share \<and> matchesShare example_borrow share))
    \<and> bucket_level one_second (lm_local m') (br_bucket example_borrow) + (if rp_paid reply \<noteq> 0 then 1 else 0)
        \<le> bucket_level one_second (lm_local empty_manager) (br_bucket example_borrow)
    \<and> (\<forall>other. other \<noteq> br_bucket example_borrow \<longrightarrow> lm_local m' other = lm_local empty_manager other)"
proof -
  obtain reply m' where res: "GrantPermit (\<lambda>_. 1) one_second example_borrow empty_manager = (reply, m')"
    by (metis prod.collapse)
  have "rp_paid (fst (GrantPermit (\<lambda>_. 1) one_second example_borrow empty_manager)) = needShared"
    by code_simp
  then have "rp_paid reply = needShared" using res by simp
  then show ?thesis
    unfolding res Let_def prod.case using permit_is_paid [OF empty_manager_ok res] by blast
qed

text \<open>C22: An admission is paid for: when a request is admitted, either its local bucket has lost a token it
  held; or no local token was gained and the peers' valid replies together paid for what was needed; or the
  emergency share of the central limiter admitted it. While a plan is loaded whose window is not open nothing
  is admitted and nothing changes.\<close>

theorem admission_is_paid:
  assumes "store_ok (lm_local m)" and "lease_allow_at nt fb env ms req now (m, db) = (Inr True, m', db')"
  defines "i \<equiv> bucketID req"
  shows "(lm_plan m = None \<and> m' = m \<and> AllowEmergency nt ms req 1 0 db = (Inr True, db'))
    \<or> (\<exists>plan target. lm_plan m = Some plan \<and> coversNow plan now \<and>
        ((bucket_level now (lm_local m') i + 1 \<le> bucket_level now (lm_local m) i \<and> db' = db)
         \<or> (bucket_level now (lm_local m') i \<le> bucket_level now (lm_local m) i
            \<and> (borrow env m' plan target = bt_need target \<and> bt_bucket target = i \<and> bt_need target \<noteq> 0 \<and> db' = db
               \<or> AllowEmergency nt ms req (ap_generation plan) 0 db = (Inr True, db')))))"
proof (cases "lease_active now m")
  case None
  then show ?thesis
    using assms(2) by (auto simp: lease_allow_at_def Let_def emergencyAllow_def case_prod_beta prod_eq_iff split: if_splits)
next
  case (Some plan)
  then have plan: "lm_plan m = Some plan" "coversNow plan now"
    by (auto simp: lease_active_def split: option.splits if_splits)
  let ?l = "tryLocalPremiumState fb now plan i (sp_profile (rq_spec req)) (lm_local m)"
  have spent: "bucket_level now (snd ?l) i + (if fst (fst ?l) then 1 else 0) \<le> bucket_level now (lm_local m) i"
    using tryLocalPremium_spends [of now fb plan i "sp_profile (rq_spec req)" "lm_local m"] assms(1)
    by (simp add: store_spends_def)
  have m': "lm_local m' = snd ?l"
    using assms(2) Some by (auto simp: lease_allow_at_def Let_def case_prod_beta i_def split: if_splits)
  show ?thesis
  proof (cases "fst (fst ?l)")
    case True
    then have "db' = db"
      using assms(2) Some by (auto simp: lease_allow_at_def Let_def case_prod_beta i_def)
    then show ?thesis using plan spent m' True by auto
  next
    case False
    then have less: "bucket_level now (lm_local m') i \<le> bucket_level now (lm_local m) i"
      using spent m' by simp
    define target where "target = \<lparr>bt_bucket = i,
      bt_need = (if sp_profile (rq_spec req) = profileHelixSystem then needSystem else needShared),
      bt_shared = rq_spec req, bt_standard = fst (snd (specsForProfile nt (sp_profile (rq_spec req))))\<rparr>"
    have "borrow env m' plan target = bt_need target \<and> db' = db
        \<or> AllowEmergency nt ms req (ap_generation plan) 0 db = (Inr True, db')"
      using assms(2) Some False
      by (auto simp: lease_allow_at_def Let_def case_prod_beta i_def target_def emergencyAllow_def
          prod_eq_iff split: if_splits)
    moreover have "bt_bucket target = i" "bt_need target \<noteq> 0" by (simp_all add: target_def)
    ultimately show ?thesis using plan less by blast
  qed
qed

lemma admission_is_paid_witness:
  "let (r, m', db') = lease_allow_at plain_text (\<lambda>_. 1) alone_env 0 user_request one_second (empty_manager, Map.empty);
       i = bucketID user_request
   in \<exists>plan target. lm_plan empty_manager = Some plan \<and> coversNow plan one_second \<and>
        ((bucket_level one_second (lm_local m') i + 1 \<le> bucket_level one_second (lm_local empty_manager) i \<and> db' = Map.empty)
         \<or> (bucket_level one_second (lm_local m') i \<le> bucket_level one_second (lm_local empty_manager) i
            \<and> (borrow alone_env m' plan target = bt_need target \<and> bt_bucket target = i \<and> bt_need target \<noteq> 0 \<and> db' = Map.empty
               \<or> AllowEmergency plain_text 0 user_request (ap_generation plan) 0 Map.empty = (Inr True, db'))))"
proof -
  obtain r m' db' where res: "lease_allow_at plain_text (\<lambda>_. 1) alone_env 0 user_request one_second (empty_manager, Map.empty) = (r, m', db')"
    by (metis prod.collapse)
  have "fst (lease_allow_at plain_text (\<lambda>_. 1) alone_env 0 user_request one_second (empty_manager, Map.empty)) = Inr True"
    by code_simp
  then have "lease_allow_at plain_text (\<lambda>_. 1) alone_env 0 user_request one_second (empty_manager, Map.empty) = (Inr True, m', db')"
    using res by simp
  from admission_is_paid [OF empty_manager_ok this] show ?thesis
    unfolding res by (simp add: empty_manager_def)
qed

text \<open>Borrowing is bounded and asks the right pods: the order names every other member of the plan once
  and never the pod itself, those of its own region first; only the first two answers matter; and what the
  peers pay stays within what was needed.\<close>

theorem borrow_bounded:
  assumes "le_permit env' = le_permit env" and "le_borrow_slot env' = le_borrow_slot env"
    and "le_peer env' 0 = le_peer env 0" and "le_peer env' 1 = le_peer env 1"
  shows "borrow env' m plan target = borrow env m plan target
    \<and> borrow env m plan target AND NOT (bt_need target) = 0
    \<and> distinct (borrowOrder m plan)
    \<and> set (borrowOrder m plan) = {i. i < length (ap_members plan) \<and> int i \<noteq> ap_self_index plan}
    \<and> sorted_wrt (\<lambda>i j. mb_region (ap_members plan ! j) = lm_region m \<longrightarrow> mb_region (ap_members plan ! i) = lm_region m)
        (borrowOrder m plan)"
proof (intro conjI)
  show "borrow env' m plan target = borrow env m plan target"
    using borrow_loop_two [of env' env plan target 0 "borrowOrder m plan" 0] assms
    by (simp add: borrow_def)
  show "borrow env m plan target AND NOT (bt_need target) = 0"
    using borrow_loop_within [of 0 target env plan 0 "borrowOrder m plan"] by (simp add: borrow_def)
  show "sorted_wrt (\<lambda>i j. mb_region (ap_members plan ! j) = lm_region m \<longrightarrow> mb_region (ap_members plan ! i) = lm_region m)
        (borrowOrder m plan)"
    unfolding borrowOrder_def list.map concat.simps append_Nil2 sorted_wrt_append
    by (intro conjI, rule sorted_wrt_all, force, rule sorted_wrt_none, force, force)
qed (rule distinct_borrowOrder set_borrowOrder)+

lemma borrow_bounded_witness:
  "let plan = the (lm_plan empty_manager);
       target = \<lparr>bt_bucket = zero_bucket_id, bt_need = needShared, bt_shared = zero_spec, bt_standard = zero_spec\<rparr>
   in borrow (alone_env\<lparr>le_peer := (\<lambda>n m r. if n < 2 then None else le_peer alone_env n m r)\<rparr>) empty_manager plan target
      = borrow alone_env empty_manager plan target
    \<and> borrow alone_env empty_manager plan target AND NOT (bt_need target) = 0
    \<and> distinct (borrowOrder empty_manager plan)
    \<and> set (borrowOrder empty_manager plan) = {i. i < length (ap_members plan) \<and> int i \<noteq> ap_self_index plan}
    \<and> sorted_wrt (\<lambda>i j. mb_region (ap_members plan ! j) = lm_region empty_manager
          \<longrightarrow> mb_region (ap_members plan ! i) = lm_region empty_manager) (borrowOrder empty_manager plan)"
  unfolding Let_def by (rule borrow_bounded) (simp_all add: alone_env_def)

end
