(* ===== verification/LeaseService.thy ===== *)
theory LeaseService
  imports LeaseManager
begin

text \<open>
  What drives a lease manager: the permit endpoint that serves peers (\<open>PermitService\<close> in
  pkg/ratelimit/borrow.go), with the cache that makes a retried request free, and one pass of the
  coordinator (\<open>reconcile\<close> in coordinator.go).  The cache, the message ids and the answers of Valkey
  are parameters; the clock readings are inputs.
\<close>

unbundle bit_operations_syntax

section \<open>The permit endpoint\<close>

record cached_grant =
  cg_reply :: borrow_reply
  cg_expires :: gtime

text \<open>The context's deadline, when it has one, capped by the life of a permit.\<close>

definition borrowDeadline :: "gtime option \<Rightarrow> gtime \<Rightarrow> gtime" where
  "borrowDeadline deadline now =
    (case deadline of
       None \<Rightarrow> now + permitTTL
     | Some d \<Rightarrow> if now + permitTTL < d then now + permitTTL else d)"

definition validNeed :: "8 word \<Rightarrow> bool" where
  "validNeed need \<longleftrightarrow> need \<noteq> 0 \<and> need AND NOT validNeeds = 0"

definition wellFormed :: "borrow_request \<Rightarrow> gtime \<Rightarrow> bool" where
  "wellFormed r now =
    (if br_version r \<noteq> planVersion then False
     else if br_request_id r = [] \<or> bi_scope (br_bucket r) = [] then False
     else if \<not> validNeed (br_need r) then False
     else unix_milli now < br_deadline_ms r)"

definition agedGrant :: "gtime \<Rightarrow> cached_grant \<Rightarrow> borrow_reply" where
  "agedGrant now cached =
    (let reply = cg_reply cached; remaining = time_sub (cg_expires cached) now
     in if remaining \<le> 0 then reply\<lparr>rp_paid := 0, rp_status := ''stale'', rp_remaining_ms := 0\<rparr>
        else reply\<lparr>rp_remaining_ms := remaining div one_ms\<rparr>)"

text \<open>The cache of grants by request id: its lookup, and its store with a time to live.\<close>

record 'c grant_cache =
  gc_get :: "string \<Rightarrow> 'c \<Rightarrow> cached_grant option"
  gc_set :: "string \<Rightarrow> cached_grant \<Rightarrow> duration \<Rightarrow> 'c \<Rightarrow> 'c"

text \<open>
  One request: \<open>body\<close> is \<open>None\<close> when it does not unmarshal, \<open>aged\<close> the reading of the clock when a
  cached grant is aged, \<open>grantor\<close> the manager that is set.  The reply is \<open>None\<close> for the 400 error.
\<close>

definition handleRequest ::
  "'c grant_cache \<Rightarrow> (rat \<Rightarrow> 64 word) \<Rightarrow> string \<Rightarrow> borrow_request option \<Rightarrow> gtime \<Rightarrow> gtime
    \<Rightarrow> 'c \<times> lease_manager option \<Rightarrow> borrow_reply option \<times> 'c \<times> lease_manager option" where
  "handleRequest ops fb grantID body now aged s =
    (let (cache, grantor) = s
     in case body of
          None \<Rightarrow> (None, s)
        | Some r \<Rightarrow>
            (let invalid = \<lparr>rp_version = planVersion, rp_epoch = br_epoch r, rp_grant_id = [], rp_paid = 0,
                   rp_remaining_ms = 0, rp_status = ''invalid''\<rparr>
             in if \<not> wellFormed r now then (Some invalid, s)
                else (case gc_get ops (br_request_id r) cache of
                    Some cached \<Rightarrow> (Some (agedGrant aged cached), s)
                  | None \<Rightarrow>
                      (let (reply, grantor) = (case grantor of
                             None \<Rightarrow> (invalid, None)
                           | Some m \<Rightarrow> (let (reply, m) = GrantPermit fb now r m in (reply, Some m)))
                       in if rp_paid reply \<noteq> 0
                          then (let reply = reply\<lparr>rp_grant_id := grantID, rp_remaining_ms := permitTTL div one_ms\<rparr>
                                in (Some reply,
                                    gc_set ops (br_request_id r) \<lparr>cg_reply = reply, cg_expires = now + permitTTL\<rparr>
                                      permitTTL cache,
                                    grantor))
                          else (Some reply, cache, grantor)))))"

section \<open>The coordinator\<close>

datatype load_result = Loaded lease_plan | LoadNil | LoadError

text \<open>
  What one pass reads: the server's time with the local clock before and after, the plan of the
  current epoch, the members, the outcome of the proposal and whether the next plan can be loaded.
\<close>

record reconcile_env =
  re_server_now :: "gtime option"
  re_local_start :: gtime
  re_local_end :: gtime
  re_load_current :: load_result
  re_members :: "member list option"
  re_proposed :: "bool option"
  re_load_next :: bool

text \<open>The two epochs the loop remembers, 0 at the start.\<close>

record coordinator_state =
  co_activated :: "64 word"
  co_proposed :: "64 word"
  co_manager :: lease_manager

text \<open>
  The delay until the next pass and whether the pass failed.  \<open>None\<close> is the division by zero for an
  epoch shorter than a millisecond.
\<close>

definition propose_next ::
  "plan_hash \<Rightarrow> (string \<Rightarrow> 64 word) \<Rightarrow> coordinator_config \<Rightarrow> reconcile_env \<Rightarrow> gtime \<Rightarrow> int \<Rightarrow> int
    \<Rightarrow> duration \<Rightarrow> 64 word \<Rightarrow> coordinator_state \<Rightarrow> (duration \<times> bool) \<times> coordinator_state" where
  "propose_next hash xxhash config env serverNow epochMS nextBoundary next nextEpoch s =
    (if co_proposed s = nextEpoch \<or> unix_milli serverNow < nextBoundary - 10000 then ((next, True), s)
     else
       (case re_members env of
          None \<Rightarrow> ((leaseReconcileInterval, False), s)
        | Some members \<Rightarrow>
            if int (length members) < cc_min_members config then ((leaseReconcileInterval, True), s)
            else
              (case BuildPlan hash xxhash nextEpoch nextBoundary (nextBoundary + epochMS) members of
                 None \<Rightarrow> ((leaseReconcileInterval, False), s)
               | Some plan \<Rightarrow>
                   if \<not> plan_valid hash plan then ((leaseReconcileInterval, False), s)
                   else (case re_proposed env of
                       None \<Rightarrow> ((leaseReconcileInterval, False), s)
                     | Some won \<Rightarrow> ((next, True),
                         if won \<or> re_load_next env then s\<lparr>co_proposed := nextEpoch\<rparr> else s)))))"

definition reconcile ::
  "plan_hash \<Rightarrow> (rat \<Rightarrow> 64 word) \<Rightarrow> number_text \<Rightarrow> (string \<Rightarrow> 64 word) \<Rightarrow> coordinator_config \<Rightarrow> reconcile_env
    \<Rightarrow> coordinator_state \<Rightarrow> ((duration \<times> bool) \<times> coordinator_state) option" where
  "reconcile hash fb nt xxhash config env s =
    (case re_server_now env of
       None \<Rightarrow> Some ((leaseReconcileInterval, False), s)
     | Some serverNow \<Rightarrow>
         (let roundTrip = time_sub (re_local_end env) (re_local_start env);
              localMidpoint = re_local_start env + roundTrip div 2;
              uncertainty = wrap64 (cc_guard config + roundTrip div 2);
              epochMS = cc_epoch config div one_ms
          in if epochMS = 0 then None
             else
               (let currentEpoch = unix_milli serverNow div epochMS;
                    currentBoundary = currentEpoch * epochMS;
                    nextBoundary = currentBoundary + epochMS;
                    next = nextLeaseReconcileDelay serverNow nextBoundary uncertainty;
                    nextEpoch = word_of_int (currentEpoch + 1) :: 64 word;
                    go = (\<lambda>next s. Some (propose_next hash xxhash config env serverNow epochMS nextBoundary next nextEpoch s))
                in if co_activated s = word_of_int currentEpoch then go next s
                   else (case re_load_current env of
                       Loaded plan \<Rightarrow>
                         (case ActivatePlan hash fb nt plan serverNow localMidpoint uncertainty (co_manager s) of
                            (False, m) \<Rightarrow> Some ((leaseReconcileInterval, False), s\<lparr>co_manager := m\<rparr>)
                          | (True, m) \<Rightarrow> go next (s\<lparr>co_manager := m, co_activated := word_of_int currentEpoch\<rparr>))
                     | LoadError \<Rightarrow> Some ((leaseReconcileInterval, False), s)
                     | LoadNil \<Rightarrow> go (min next leaseMissingPlanRetry) s))))"

section \<open>Lemmas\<close>

lemma nextLeaseReconcileDelay_bounds:
  "leaseMinimumWake \<le> nextLeaseReconcileDelay serverNow nb u
    \<and> nextLeaseReconcileDelay serverNow nb u \<le> leaseReconcileInterval"
  by (simp add: nextLeaseReconcileDelay_def Let_def)

lemma propose_next_delay:
  assumes "lo \<le> next" "next \<le> leaseReconcileInterval" "lo \<le> leaseReconcileInterval"
  shows "lo \<le> fst (fst (propose_next hash xxhash config env sn e nb next ne s))
    \<and> fst (fst (propose_next hash xxhash config env sn e nb next ne s)) \<le> leaseReconcileInterval"
  using assms by (auto simp: propose_next_def split: option.splits)

lemma propose_next_keeps:
  "co_manager (snd (propose_next hash xxhash config env sn e nb next ne s)) = co_manager s
    \<and> co_activated (snd (propose_next hash xxhash config env sn e nb next ne s)) = co_activated s"
  by (auto simp: propose_next_def split: option.splits)

section \<open>Properties\<close>

text \<open>C24: A permit is granted once: when a request has been granted and the cache still holds its id, the
  same request again spends nothing, whatever the time, and is told that it is paid, with the time that is
  left of the grant, until the grant's time is over, after which it is told that it is not.\<close>

theorem permit_retry_is_free:
  assumes "gc_get ops (br_request_id r)
      (gc_set ops (br_request_id r) \<lparr>cg_reply = reply, cg_expires = now + permitTTL\<rparr> permitTTL cache)
      = Some \<lparr>cg_reply = reply, cg_expires = now + permitTTL\<rparr>"
    and "gc_get ops (br_request_id r) cache = None"
    and "handleRequest ops fb grantID (Some r) now aged (cache, grantor) = (Some reply, cache', grantor')"
    and "rp_paid reply \<noteq> 0" and "wellFormed r now'"
  shows "\<exists>reply'. handleRequest ops fb grantID' (Some r) now' aged' (cache', grantor') = (Some reply', cache', grantor')
    \<and> rp_grant_id reply' = grantID
    \<and> rp_paid reply' = (if aged' < now + permitTTL then rp_paid reply else 0)"
proof -
  have formed: "wellFormed r now"
    using assms(3,4) by (auto simp: handleRequest_def Let_def split: if_splits)
  have step: "rp_grant_id reply = grantID \<and> cache' = gc_set ops (br_request_id r)
      \<lparr>cg_reply = reply, cg_expires = now + permitTTL\<rparr> permitTTL cache"
    using assms(2,3,4) formed
    by (auto simp: handleRequest_def Let_def case_prod_beta split: option.splits if_splits)
  have "time_sub (now + permitTTL) aged' \<le> 0 \<longleftrightarrow> \<not> aged' < now + permitTTL"
    by (auto simp: time_sub_def int64_min_def int64_max_def)
  then show ?thesis
    using assms(1,5) step
    by (auto simp: handleRequest_def Let_def agedGrant_def)
qed

definition map_cache :: "(string \<rightharpoonup> cached_grant) grant_cache" where
  "map_cache = \<lparr>gc_get = (\<lambda>k c. c k), gc_set = (\<lambda>k g ttl c. c(k \<mapsto> g))\<rparr>"

definition peer_request :: borrow_request where
  "peer_request = example_borrow\<lparr>br_bucket := \<lparr>bi_scope = ''chat'', bi_value = []\<rparr>, br_deadline_ms := 2000\<rparr>"

definition granting_manager :: lease_manager where
  "granting_manager = empty_manager\<lparr>lm_local := [\<lparr>bi_scope = ''chat'', bi_value = []\<rparr> \<mapsto>
    the (lm_local empty_manager zero_bucket_id)]\<rparr>"

lemma permit_retry_is_free_witness:
  "let (reply, cache', grantor') =
      handleRequest map_cache (\<lambda>_. 1) ''g1'' (Some peer_request) one_second one_second (Map.empty, Some granting_manager)
   in \<exists>reply'. handleRequest map_cache (\<lambda>_. 1) ''g2'' (Some peer_request) (one_second + 5) (one_second + 5) (cache', grantor')
        = (Some reply', cache', grantor')
    \<and> rp_grant_id reply' = ''g1''
    \<and> rp_paid reply' = (if one_second + 5 < one_second + permitTTL then rp_paid (the reply) else 0)"
proof -
  obtain reply cache' grantor' where res: "handleRequest map_cache (\<lambda>_. 1) ''g1'' (Some peer_request)
      one_second one_second (Map.empty, Some granting_manager) = (reply, cache', grantor')"
    by (metis prod.collapse)
  have "map_option rp_paid (fst (handleRequest map_cache (\<lambda>_. 1) ''g1'' (Some peer_request)
      one_second one_second (Map.empty, Some granting_manager))) = Some needShared"
    by code_simp
  then obtain q where q: "reply = Some q" "rp_paid q \<noteq> 0" using res by auto
  have formed: "wellFormed peer_request (one_second + 5)" by code_simp
  show ?thesis
    unfolding res Let_def prod.case q option.sel
    by (rule permit_retry_is_free [OF _ _ res [unfolded q] q(2) formed]) (simp_all add: map_cache_def)
qed

text \<open>The coordinator always comes back in time: whatever a pass meets, the next one starts after at least
  ten milliseconds and at most two seconds; a pass that does not fail to load or activate leaves the manager
  alone or with the plan of the current epoch, and the pods' buckets within their bounds.\<close>

theorem reconcile_delay:
  assumes "reconcile hash fb nt xxhash config env s = Some ((delay, ok), s')"
    and "store_ok (lm_local (co_manager s))"
  shows "leaseMinimumWake \<le> delay \<and> delay \<le> leaseReconcileInterval
    \<and> (co_manager s' = co_manager s
       \<or> (\<exists>plan serverNow. re_load_current env = Loaded plan \<and> re_server_now env = Some serverNow
          \<and> co_activated s' = word_of_int (unix_milli serverNow div (cc_epoch config div one_ms))))
    \<and> store_ok (lm_local (co_manager s'))"
proof (cases "re_server_now env")
  case None
  then show ?thesis using assms by (auto simp: reconcile_def)
next
  case (Some sn)
  define epochMS where "epochMS = cc_epoch config div one_ms"
  define cur where "cur = unix_milli sn div epochMS"
  define roundTrip where "roundTrip = time_sub (re_local_end env) (re_local_start env)"
  define u where "u = wrap64 (cc_guard config + roundTrip div 2)"
  define mid where "mid = re_local_start env + roundTrip div 2"
  define nb where "nb = cur * epochMS + epochMS"
  define wake where "wake = nextLeaseReconcileDelay sn nb u"
  let ?go = "propose_next hash xxhash config env sn epochMS nb"
  let ?act = "\<lambda>plan. ActivatePlan hash fb nt plan sn mid u (co_manager s)"
  have result: "(if epochMS = 0 then None
      else if co_activated s = word_of_int cur then Some (?go wake (word_of_int (cur + 1)) s)
      else (case re_load_current env of
          Loaded plan \<Rightarrow>
            (if fst (?act plan)
             then Some (?go wake (word_of_int (cur + 1)) (s\<lparr>co_manager := snd (?act plan), co_activated := word_of_int cur\<rparr>))
             else Some ((leaseReconcileInterval, False), s\<lparr>co_manager := snd (?act plan)\<rparr>))
        | LoadError \<Rightarrow> Some ((leaseReconcileInterval, False), s)
        | LoadNil \<Rightarrow> Some (?go (min wake leaseMissingPlanRetry) (word_of_int (cur + 1)) s)))
      = Some ((delay, ok), s')"
    using assms(1) unfolding reconcile_def Some option.case Let_def
      epochMS_def [symmetric] cur_def [symmetric] roundTrip_def [symmetric] u_def [symmetric]
      mid_def [symmetric] nb_def [symmetric] wake_def [symmetric]
    by (auto simp: case_prod_beta split: bool.splits load_result.splits)
  have go: "leaseMinimumWake \<le> delay \<and> delay \<le> leaseReconcileInterval
      \<and> co_manager s' = co_manager t \<and> co_activated s' = co_activated t"
    if "?go n e t = ((delay, ok), s')" "leaseMinimumWake \<le> n" "n \<le> leaseReconcileInterval" for n e t
    using propose_next_delay [of leaseMinimumWake n hash xxhash config env sn epochMS nb e t]
      propose_next_keeps [of hash xxhash config env sn epochMS nb n e t] that by simp
  have wake: "leaseMinimumWake \<le> wake" "wake \<le> leaseReconcileInterval"
    using nextLeaseReconcileDelay_bounds [of sn nb u] by (simp_all add: wake_def)
  have kept: "\<not> fst (?act plan) \<Longrightarrow> snd (?act plan) = co_manager s" for plan
    by (auto simp: ActivatePlan_def Let_def split: option.splits)
  note act_ok = activate_store_ok [OF assms(2), of hash fb nt _ sn mid u]
  consider (current) "co_activated s = word_of_int cur" "?go wake (word_of_int (cur + 1)) s = ((delay, ok), s')"
    | (activated) plan where "re_load_current env = Loaded plan"
        "?go wake (word_of_int (cur + 1)) (s\<lparr>co_manager := snd (?act plan), co_activated := word_of_int cur\<rparr>) = ((delay, ok), s')"
    | (refused) plan where "re_load_current env = Loaded plan" "\<not> fst (?act plan)"
        "delay = leaseReconcileInterval" "s' = s\<lparr>co_manager := snd (?act plan)\<rparr>"
    | (failed) "delay = leaseReconcileInterval" "s' = s"
    | (missing) "?go (min wake leaseMissingPlanRetry) (word_of_int (cur + 1)) s = ((delay, ok), s')"
    using result by (auto split: if_splits load_result.splits)
  then show ?thesis
  proof cases
    case current
    then show ?thesis using go [OF current(2) wake] assms(2) by simp
  next
    case activated
    then show ?thesis
      using go [OF activated(2) wake] act_ok Some by (auto simp: cur_def epochMS_def)
  next
    case refused
    then show ?thesis using kept assms(2) by simp
  next
    case failed
    then show ?thesis using assms(2) by simp
  next
    case missing
    have "leaseMinimumWake \<le> min wake leaseMissingPlanRetry" "min wake leaseMissingPlanRetry \<le> leaseReconcileInterval"
      using wake by simp_all
    then show ?thesis using go [OF missing] assms(2) by simp
  qed
qed

definition idle_env :: reconcile_env where
  "idle_env = \<lparr>re_server_now = Some (170 * one_ms), re_local_start = 0, re_local_end = 4 * one_ms,
    re_load_current = LoadNil, re_members = Some [], re_proposed = None, re_load_next = False\<rparr>"

definition idle_state :: coordinator_state where
  "idle_state = \<lparr>co_activated = 0, co_proposed = 0, co_manager = empty_manager\<rparr>"

lemma reconcile_delay_witness:
  "let config = withDefaults \<lparr>cc_epoch = 0, cc_guard = 0, cc_min_members = 0, cc_replicas = 0, cc_replica_timeout = 0\<rparr>;
       ((delay, ok), s') = the (reconcile example_hash (\<lambda>_. 1) plain_text (\<lambda>_. 0) config idle_env idle_state)
   in leaseMinimumWake \<le> delay \<and> delay \<le> leaseReconcileInterval
    \<and> (co_manager s' = co_manager idle_state
       \<or> (\<exists>plan serverNow. re_load_current idle_env = Loaded plan \<and> re_server_now idle_env = Some serverNow
          \<and> co_activated s' = word_of_int (unix_milli serverNow div (cc_epoch config div one_ms))))
    \<and> store_ok (lm_local (co_manager s'))"
proof -
  define config where "config = withDefaults \<lparr>cc_epoch = 0, cc_guard = 0, cc_min_members = 0, cc_replicas = 0, cc_replica_timeout = 0\<rparr>"
  have "cc_epoch config div one_ms = 30000" unfolding config_def by code_simp
  then have "reconcile example_hash (\<lambda>_. 1) plain_text (\<lambda>_. 0) config idle_env idle_state \<noteq> None"
    by (simp add: reconcile_def idle_env_def idle_state_def Let_def del: not_None_eq)
  then obtain delay ok s' where res:
      "reconcile example_hash (\<lambda>_. 1) plain_text (\<lambda>_. 0) config idle_env idle_state = Some ((delay, ok), s')"
    by (metis option.exhaust prod.collapse)
  have "store_ok (lm_local (co_manager idle_state))" by (simp add: idle_state_def empty_manager_ok)
  from reconcile_delay [OF res this] show ?thesis
    unfolding config_def [symmetric] Let_def res option.sel prod.case .
qed

end
