(* ===== verification/Skeleton.thy ===== *)
theory Skeleton
  imports GoText
begin

text \<open>
  The normaliser of internal/moderation/charset.go and skeleton.go: text is folded to a skeleton in
  which case, leet spelling, look-alike letters and runs of white space no longer matter.  The byte
  path serves printable ASCII, the rune path everything else.  NFKC (golang.org/x/text) and the
  Unicode tables are the parameter \<open>unicode\<close>: the categories Cf and Mn as \<open>u_format\<close>, and the case table.
\<close>

section \<open>Character sets\<close>

record unicode =
  u_nfkc :: "string \<Rightarrow> string"
  u_format :: "nat \<Rightarrow> bool"
  u_lower :: case_table

definition IsInvisible :: "nat \<Rightarrow> bool" where
  "IsInvisible r \<longleftrightarrow> r \<in> {0x200b, 0x200c, 0x200d, 0x2060, 0xfeff, 0x180e, 0x202e, 0x202d}"

definition isStrippable :: "(nat \<Rightarrow> bool) \<Rightarrow> nat \<Rightarrow> bool" where
  "isStrippable fmt r \<longleftrightarrow> IsInvisible r \<or> is_control r \<or> fmt r"

definition confusables :: "nat \<Rightarrow> char option" where
  "confusables = map_of
    [(0x0430, CHR ''a''), (0x0435, CHR ''e''), (0x043e, CHR ''o''), (0x0440, CHR ''p''), (0x0441, CHR ''c''),
     (0x0445, CHR ''x''), (0x0443, CHR ''y''), (0x043a, CHR ''k''), (0x043c, CHR ''m''), (0x0442, CHR ''t''),
     (0x043d, CHR ''h''), (0x0432, CHR ''b''), (0x0456, CHR ''i''), (0x0455, CHR ''s''), (0x0458, CHR ''j''),
     (0x0501, CHR ''d''), (0x04bb, CHR ''h''), (0x0433, CHR ''r''),
     (0x03b1, CHR ''a''), (0x03b2, CHR ''b''), (0x03b5, CHR ''e''), (0x03b7, CHR ''h''), (0x03b9, CHR ''i''),
     (0x03ba, CHR ''k''), (0x03bd, CHR ''v''), (0x03bf, CHR ''o''), (0x03c1, CHR ''p''), (0x03c4, CHR ''t''),
     (0x03c5, CHR ''y''), (0x03c7, CHR ''x''), (0x03b6, CHR ''z''), (0x03c9, CHR ''w''), (0x03c3, CHR ''o'')]"

definition leetFolds :: "char \<Rightarrow> char option" where
  "leetFolds = map_of
    [(CHR ''0'', CHR ''o''), (CHR ''1'', CHR ''i''), (CHR ''3'', CHR ''e''), (CHR ''4'', CHR ''a''),
     (CHR ''5'', CHR ''s''), (CHR ''7'', CHR ''t''), (CHR ''8'', CHR ''b''), (CHR ''@'', CHR ''a''),
     (CHR ''$'', CHR ''s'')]"

definition skel_lower :: "char \<Rightarrow> char" where
  "skel_lower b = (if CHR ''A'' \<le> b \<and> b \<le> CHR ''Z'' then char_of (byte b + 32) else b)"

definition isSkelSpace :: "char \<Rightarrow> bool" where
  "isSkelSpace b \<longleftrightarrow> b = CHR '' '' \<or> b = CHR 0x09 \<or> b = CHR 0x0A \<or> b = CHR 0x0B \<or> b = CHR 0x0C \<or> b = CHR 0x0D"

definition printableASCII :: "char \<Rightarrow> bool" where
  "printableASCII b \<longleftrightarrow> byte b < 128 \<and> 32 \<le> byte b \<and> byte b \<noteq> 127"

section \<open>Folding a token\<close>

definition isPlainASCII :: "string \<Rightarrow> bool" where
  "isPlainASCII t = list_all printableASCII t"

definition foldByte :: "char \<Rightarrow> bool \<Rightarrow> char" where
  "foldByte c0 leet =
    (let c = skel_lower c0 in
     case leetFolds c of
       Some to \<Rightarrow> if leet then to else c
     | None \<Rightarrow> (case confusables (byte c) of Some to \<Rightarrow> to | None \<Rightarrow> c))"

definition is_letter :: "char \<Rightarrow> bool" where
  "is_letter c \<longleftrightarrow> CHR ''a'' \<le> c \<and> c \<le> CHR ''z''"

fun tokenQuorum_from :: "nat \<Rightarrow> string \<Rightarrow> bool" where
  "tokenQuorum_from votes [] = False"
| "tokenQuorum_from votes (c # tok) =
    (if is_letter (skel_lower c)
     then if 2 \<le> votes + 1 then True else tokenQuorum_from (votes + 1) tok
     else tokenQuorum_from votes tok)"

definition tokenQuorum :: "string \<Rightarrow> bool" where
  "tokenQuorum = tokenQuorum_from 0"

definition foldTokenBytes :: "string \<Rightarrow> string" where
  "foldTokenBytes tok = (let leet = tokenQuorum tok in map (\<lambda>c. foldByte c leet) tok)"

section \<open>The byte path\<close>

text \<open>\<open>tokenMark\<close>: where the current token starts in the output, and whether a space was just written.\<close>

record tokenMark =
  tm_at :: nat
  tm_spaced :: bool

definition tm_restart :: "nat \<Rightarrow> tokenMark \<Rightarrow> tokenMark" where
  "tm_restart n t = t\<lparr>tm_at := n, tm_spaced := True\<rparr>"

definition tm_fold :: "tokenMark \<Rightarrow> string \<Rightarrow> string" where
  "tm_fold t dst = take (tm_at t) dst @ foldTokenBytes (drop (tm_at t) dst)"

fun normalizeASCII_from :: "tokenMark \<Rightarrow> string \<Rightarrow> string \<Rightarrow> string" where
  "normalizeASCII_from tok dst [] = tm_fold tok dst"
| "normalizeASCII_from tok dst (c # t) =
    (if isSkelSpace c then
       (let dst = tm_fold tok dst;
            dst = (if \<not> tm_spaced tok then dst @ '' '' else dst)
        in normalizeASCII_from (tm_restart (length dst) tok) dst t)
     else normalizeASCII_from (tok\<lparr>tm_spaced := False\<rparr>) (dst @ [c]) t)"

definition normalizeASCII :: "string \<Rightarrow> string" where
  "normalizeASCII = normalizeASCII_from \<lparr>tm_at = 0, tm_spaced = False\<rparr> []"

section \<open>The rune path\<close>

datatype skelKind = skelKeep | skelStrip | skelSpace

definition skelKindOf :: "(nat \<Rightarrow> bool) \<Rightarrow> nat \<Rightarrow> skelKind" where
  "skelKindOf fmt r = (if isStrippable fmt r then skelStrip else if is_space r then skelSpace else skelKeep)"

definition token_write :: "nat \<Rightarrow> string \<Rightarrow> string" where
  "token_write lr buf =
    (if lr < 128 \<and> leetFolds (char_of lr) \<noteq> None then buf @ encode_rune lr
     else buf @ encode_rune (case confusables lr of Some f \<Rightarrow> byte f | None \<Rightarrow> lr))"

definition flushInto :: "string \<Rightarrow> string \<Rightarrow> string \<times> string" where
  "flushInto buf dst = (if buf = [] then (dst, buf) else (dst @ foldTokenBytes buf, []))"

fun normalizeUnicode_from ::
  "(nat \<Rightarrow> bool) \<Rightarrow> case_table \<Rightarrow> bool \<Rightarrow> string \<Rightarrow> string \<Rightarrow> nat list \<Rightarrow> string" where
  "normalizeUnicode_from fmt lo spaced buf dst [] = fst (flushInto buf dst)"
| "normalizeUnicode_from fmt lo spaced buf dst (r # rs) =
    (case skelKindOf fmt r of
       skelStrip \<Rightarrow> normalizeUnicode_from fmt lo spaced buf dst rs
     | skelSpace \<Rightarrow>
         (let (dst, buf) = flushInto buf dst
          in normalizeUnicode_from fmt lo True buf (if \<not> spaced then dst @ '' '' else dst) rs)
     | skelKeep \<Rightarrow> normalizeUnicode_from fmt lo False (token_write (lower_rune lo r) buf) dst rs)"

text \<open>
  \<open>sanitizeUTF8\<close>: each run of invalid bytes becomes one U+FFFD.  A byte that does not decode has
  width one and the error rune; U+FFFD itself is three bytes long.
\<close>

fun to_valid_from :: "bool \<Rightarrow> (nat \<times> string) list \<Rightarrow> string" where
  "to_valid_from invalid [] = []"
| "to_valid_from invalid ((r, bs) # rs) =
    (if r = rune_error \<and> length bs = 1
     then (if invalid then [] else encode_rune rune_error) @ to_valid_from True rs
     else bs @ to_valid_from False rs)"

definition sanitizeUTF8 :: "string \<Rightarrow> string" where
  "sanitizeUTF8 s = to_valid_from False (runes s)"

definition normalizeUnicode :: "unicode \<Rightarrow> string \<Rightarrow> string" where
  "normalizeUnicode u t =
    normalizeUnicode_from (u_format u) (u_lower u) False [] [] (map fst (runes (u_nfkc u (sanitizeUTF8 t))))"

definition Normalize :: "unicode \<Rightarrow> string \<Rightarrow> string" where
  "Normalize u t = (if isPlainASCII t then normalizeASCII t else normalizeUnicode u t)"

section \<open>Bytes\<close>

text \<open>No look-alike letter is a byte, so the byte path folds leet characters only.\<close>

lemma confusables_byte [simp]: "confusables (byte (c :: char)) = None"
proof -
  have "confusables n = None" if "n < 256" for n using that by (simp add: confusables_def)
  then show ?thesis by simp
qed

lemma leet_letter: "leetFolds c = Some b \<Longrightarrow> is_letter b \<and> \<not> is_letter c \<and> skel_lower c = c"
  by (auto simp: leetFolds_def is_letter_def skel_lower_def less_eq_char_def split: if_splits)

lemma lower_bytes: "byte (skel_lower c) = (if 65 \<le> byte c \<and> byte c \<le> 90 then byte c + 32 else byte c)"
  by (auto simp: skel_lower_def less_eq_char_def)

lemma letter_bytes: "is_letter c \<longleftrightarrow> 97 \<le> byte c \<and> byte c \<le> 122"
  by (simp add: is_letter_def less_eq_char_def)

lemma lower_idem [simp]: "skel_lower (skel_lower c) = skel_lower c"
  by (auto simp: skel_lower_def less_eq_char_def)

lemma letter_lower [simp]: "is_letter c \<Longrightarrow> skel_lower c = c"
  by (auto simp: letter_bytes skel_lower_def less_eq_char_def)

lemma letter_no_leet: "is_letter c \<Longrightarrow> leetFolds c = None"
  using leet_letter by (cases "leetFolds c") auto

lemma letter_not_space: "is_letter c \<Longrightarrow> \<not> isSkelSpace c"
  by (auto simp: is_letter_def isSkelSpace_def less_eq_char_def)

lemma space_bytes: "isSkelSpace c \<longleftrightarrow> byte c = 32 \<or> 9 \<le> byte c \<and> byte c \<le> 13"
proof -
  have eq: "c = d \<longleftrightarrow> byte c = byte d" for d by (simp add: of_char_eq_iff)
  show ?thesis unfolding isSkelSpace_def by (subst (1 2 3 4 5 6) eq) auto
qed

lemma lower_space [simp]: "isSkelSpace (skel_lower c) = isSkelSpace c"
  by (auto simp: space_bytes lower_bytes)

lemma foldByte_cases:
  "foldByte c leet = (case leetFolds (skel_lower c) of Some to \<Rightarrow> if leet then to else skel_lower c | None \<Rightarrow> skel_lower c)"
  by (cases "leetFolds (skel_lower c)") (simp_all add: foldByte_def)

lemma foldByte_space [simp]: "isSkelSpace (foldByte c leet) = isSkelSpace c"
proof (cases "leetFolds (skel_lower c)")
  case (Some b)
  have "\<not> isSkelSpace (skel_lower c)" using Some by (auto simp: leetFolds_def isSkelSpace_def split: if_splits)
  then show ?thesis using Some leet_letter [OF Some] letter_not_space by (auto simp: foldByte_cases)
qed (simp add: foldByte_cases)

lemma foldByte_idem: "foldByte (foldByte c leet) leet = foldByte c leet"
proof (cases "leetFolds (skel_lower c)")
  case (Some b)
  then show ?thesis using leet_letter [OF Some] letter_no_leet by (auto simp: foldByte_cases)
qed (simp add: foldByte_cases)


section \<open>Folding twice\<close>

definition letters :: "string \<Rightarrow> nat" where
  "letters tok = length (filter (\<lambda>c. is_letter (skel_lower c)) tok)"

lemma tokenQuorum_from_letters: "votes < 2 \<Longrightarrow> tokenQuorum_from votes tok \<longleftrightarrow> 2 \<le> votes + letters tok"
  by (induction votes tok rule: tokenQuorum_from.induct) (auto simp: letters_def less_2_cases_iff)

lemma tokenQuorum_letters: "tokenQuorum tok \<longleftrightarrow> 2 \<le> letters tok"
  by (simp add: tokenQuorum_def tokenQuorum_from_letters)

lemma foldByte_letter: "is_letter (skel_lower c) \<Longrightarrow> foldByte c leet = skel_lower c"
  by (simp add: foldByte_cases letter_no_leet)

lemma foldByte_plain: "foldByte c False = skel_lower c"
  by (simp add: foldByte_cases split: option.splits)

lemma letters_fold_mono: "letters tok \<le> letters (map (\<lambda>c. foldByte c leet) tok)"
  by (induction tok) (auto simp: letters_def foldByte_letter)

lemma letters_lower: "letters (map skel_lower tok) = letters tok"
  by (induction tok) (auto simp: letters_def)

lemma foldTokenBytes_idem: "foldTokenBytes (foldTokenBytes tok) = foldTokenBytes tok"
proof (cases "tokenQuorum tok")
  case True
  then have "tokenQuorum (map (\<lambda>c. foldByte c True) tok)"
    using letters_fold_mono [of tok True] by (simp add: tokenQuorum_letters)
  then show ?thesis using True by (simp add: foldTokenBytes_def foldByte_idem)
next
  case False
  then have "\<not> tokenQuorum (map skel_lower tok)" by (simp add: tokenQuorum_letters letters_lower)
  then show ?thesis using False by (simp add: foldTokenBytes_def foldByte_plain)
qed

lemma foldTokenBytes_lower: "foldTokenBytes (map skel_lower tok) = foldTokenBytes tok"
  by (simp add: foldTokenBytes_def tokenQuorum_letters letters_lower foldByte_def)

lemma foldTokenBytes_Nil [simp]: "foldTokenBytes [] = []"
  by (simp add: foldTokenBytes_def)

lemma length_foldTokenBytes [simp]: "length (foldTokenBytes tok) = length tok"
  by (simp add: foldTokenBytes_def Let_def)

lemma foldTokenBytes_spaces: "list_all (\<lambda>c. \<not> isSkelSpace c) tok \<Longrightarrow> list_all (\<lambda>c. \<not> isSkelSpace c) (foldTokenBytes tok)"
  by (simp add: foldTokenBytes_def Let_def list.pred_map comp_def)

section \<open>The byte path as a function of the text\<close>

fun skeleton :: "bool \<Rightarrow> string \<Rightarrow> string \<Rightarrow> string" where
  "skeleton spaced tok [] = foldTokenBytes tok"
| "skeleton spaced tok (c # t) =
    (if isSkelSpace c then foldTokenBytes tok @ (if spaced then [] else '' '') @ skeleton True [] t
     else skeleton False (tok @ [c]) t)"

lemma normalizeASCII_from_skeleton:
  "tm_at tok \<le> length dst \<Longrightarrow>
    normalizeASCII_from tok dst t = take (tm_at tok) dst @ skeleton (tm_spaced tok) (drop (tm_at tok) dst) t"
proof (induction tok dst t rule: normalizeASCII_from.induct)
  case (2 tok dst c t)
  show ?case
  proof (cases "isSkelSpace c")
    case True
    let ?dst = "if \<not> tm_spaced tok then tm_fold tok dst @ '' '' else tm_fold tok dst"
    have "normalizeASCII_from tok dst (c # t) = normalizeASCII_from (tm_restart (length ?dst) tok) ?dst t"
      using True by (simp only: normalizeASCII_from.simps if_True Let_def)
    also have "\<dots> = ?dst @ skeleton True [] t"
      using 2(1) [OF True refl refl] by (simp add: tm_restart_def)
    finally show ?thesis using True by (simp add: tm_fold_def)
  next
    case False
    then show ?thesis using 2(2) [OF False] 2(3) by simp
  qed
qed (simp add: tm_fold_def)

lemma normalizeASCII_skeleton: "normalizeASCII t = skeleton False [] t"
  by (simp add: normalizeASCII_def normalizeASCII_from_skeleton)

text \<open>A token read in one go.\<close>

lemma skeleton_token:
  "list_all (\<lambda>c. \<not> isSkelSpace c) u \<Longrightarrow> skeleton spaced tok (u @ t) = skeleton (spaced \<and> u = []) (tok @ u) t"
  by (induction u arbitrary: spaced tok) auto

lemma skeleton_head:
  "\<lbrakk>tok \<noteq> []; list_all (\<lambda>c. \<not> isSkelSpace c) tok\<rbrakk>
    \<Longrightarrow> \<exists>c r. skeleton False tok t = c # r \<and> \<not> isSkelSpace c"
proof (induction "False" tok t rule: skeleton.induct)
  case (1 tok)
  then show ?case using foldTokenBytes_spaces [of tok] by (cases tok) (auto simp: foldTokenBytes_def Let_def)
next
  case (2 tok c t)
  then show ?case
    by (cases tok) (auto simp: foldTokenBytes_def Let_def)
qed

lemma skeleton_idem:
  "\<lbrakk>list_all (\<lambda>c. \<not> isSkelSpace c) tok; spaced \<longrightarrow> tok = []\<rbrakk>
    \<Longrightarrow> skeleton spaced [] (skeleton spaced tok t) = skeleton spaced tok t"
proof (induction spaced tok t rule: skeleton.induct)
  case (1 spaced tok)
  then show ?case using skeleton_token [OF foldTokenBytes_spaces, of tok spaced "[]" "[]"]
    by (simp add: foldTokenBytes_idem)
next
  case (2 spaced tok c t)
  show ?case
  proof (cases "isSkelSpace c")
    case True
    note IH = 2(1) [OF True]
    show ?thesis
    proof (cases spaced)
      case True
      then show ?thesis using IH 2(4) \<open>isSkelSpace c\<close> by simp
    next
      case False
      have "isSkelSpace CHR '' ''" by (simp add: isSkelSpace_def)
      then show ?thesis
        using IH False \<open>isSkelSpace c\<close> skeleton_token [OF foldTokenBytes_spaces [OF 2(3)], of False "[]"]
        by (simp add: foldTokenBytes_idem)
    qed
  next
    case False
    have ns: "list_all (\<lambda>c. \<not> isSkelSpace c) (tok @ [c])" using 2(3) False by simp
    have IH: "skeleton False [] (skeleton False (tok @ [c]) t) = skeleton False (tok @ [c]) t"
      using 2(2) [OF False ns] by simp
    obtain d r where "skeleton False (tok @ [c]) t = d # r" "\<not> isSkelSpace d"
      using skeleton_head [OF _ ns, of t] by blast
    then have "skeleton spaced [] (skeleton False (tok @ [c]) t) = skeleton False [] (skeleton False (tok @ [c]) t)"
      by simp
    then show ?thesis using False IH by simp
  qed
qed


text \<open>Nothing but single spaces separates the tokens, and nothing is upper case.\<close>

definition skeletal :: "string \<Rightarrow> bool" where
  "skeletal s \<longleftrightarrow> list_all (\<lambda>c. (isSkelSpace c \<longrightarrow> c = CHR '' '') \<and> skel_lower c = c) s
    \<and> successively (\<lambda>a b. \<not> (isSkelSpace a \<and> isSkelSpace b)) s"

lemma foldByte_lower: "skel_lower (foldByte c leet) = foldByte c leet"
  using leet_letter by (auto simp: foldByte_cases split: option.splits)

lemma foldTokenBytes_skeletal:
  assumes "list_all (\<lambda>c. \<not> isSkelSpace c) tok"
  shows "skeletal (foldTokenBytes tok)"
proof -
  have no_space: "list_all (\<lambda>c. \<not> isSkelSpace c) (foldTokenBytes tok)" by (rule foldTokenBytes_spaces [OF assms])
  have "successively (\<lambda>a b. \<not> (isSkelSpace a \<and> isSkelSpace b)) s" if "list_all (\<lambda>c. \<not> isSkelSpace c) s" for s
    using that by (induction s rule: induct_list012) auto
  moreover have "list_all (\<lambda>c. skel_lower c = c) (foldTokenBytes tok)"
    by (simp add: foldTokenBytes_def Let_def list.pred_map comp_def foldByte_lower list.pred_True)
  ultimately show ?thesis using no_space by (auto simp: skeletal_def list_all_iff)
qed

lemma skeletal_space: "skeletal (CHR '' '' # s) \<longleftrightarrow> skeletal s \<and> (s = [] \<or> \<not> isSkelSpace (hd s))"
  by (auto simp: skeletal_def successively_Cons isSkelSpace_def skel_lower_def less_eq_char_def)

lemma skeletal_append:
  "skeletal (s @ t) \<longleftrightarrow> skeletal s \<and> skeletal t \<and> (s = [] \<or> t = [] \<or> \<not> (isSkelSpace (last s) \<and> isSkelSpace (hd t)))"
  by (auto simp: skeletal_def successively_append_iff)

lemma skeleton_skeletal:
  "\<lbrakk>list_all (\<lambda>c. \<not> isSkelSpace c) tok; spaced \<longrightarrow> tok = []\<rbrakk>
    \<Longrightarrow> skeletal (skeleton spaced tok t) \<and> (spaced \<and> skeleton spaced tok t \<noteq> [] \<longrightarrow> \<not> isSkelSpace (hd (skeleton spaced tok t)))"
proof (induction spaced tok t rule: skeleton.induct)
  case (2 spaced tok c t)
  show ?case
  proof (cases "isSkelSpace c")
    case True
    note IH = 2(1) [OF True]
    show ?thesis
    proof (cases spaced)
      case True
      then show ?thesis using IH 2(4) \<open>isSkelSpace c\<close> by simp
    next
      case False
      let ?f = "foldTokenBytes tok"
      have "\<not> isSkelSpace (last ?f)" if "?f \<noteq> []"
        using foldTokenBytes_spaces [OF 2(3)] that by (simp add: list_all_iff)
      then show ?thesis
        using IH False \<open>isSkelSpace c\<close> foldTokenBytes_skeletal [OF 2(3)]
        by (auto simp: skeletal_append skeletal_space)
    qed
  next
    case False
    have ns: "list_all (\<lambda>c. \<not> isSkelSpace c) (tok @ [c])" using 2(3) False by simp
    obtain d r where "skeleton False (tok @ [c]) t = d # r" "\<not> isSkelSpace d"
      using skeleton_head [OF _ ns, of t] by blast
    then show ?thesis using 2(2) [OF False ns] False by simp
  qed
qed (auto simp: foldTokenBytes_skeletal)

lemma length_skeleton: "length (skeleton spaced tok t) \<le> length tok + length t"
  by (induction spaced tok t rule: skeleton.induct) auto

section \<open>The two paths\<close>

lemma runes_plain: "list_all (\<lambda>c. byte c < 128) t \<Longrightarrow> runes t = map (\<lambda>c. (byte c, [c])) t"
  by (induction t) auto

lemma to_valid_plain: "list_all (\<lambda>c. byte c < 128) t \<Longrightarrow> to_valid_from b (map (\<lambda>c. (byte c, [c])) t) = t"
  by (induction t arbitrary: b) (auto simp: rune_error_def)

lemma encode_byte: "byte c < 128 \<Longrightarrow> encode_rune (byte c) = [c]"
  by (simp add: encode_rune_def valid_rune_def)

lemma token_write_byte:
  assumes "byte c < 128"
  shows "token_write (lower_rune lo (byte c)) buf = buf @ [skel_lower c]"
proof -
  have low: "lower_rune lo (byte c) = byte (skel_lower c)" "byte (skel_lower c) < 128"
    using assms by (simp_all add: lower_rune_def lower_bytes)
  then show ?thesis by (simp add: token_write_def encode_byte)
qed

lemma skelKind_plain:
  assumes "printableASCII c" "\<And>r. \<lbrakk>32 \<le> r; r < 127\<rbrakk> \<Longrightarrow> \<not> fmt r"
  shows "skelKindOf fmt (byte c) = (if isSkelSpace c then skelSpace else skelKeep)"
  using assms by (auto simp: skelKindOf_def isStrippable_def IsInvisible_def is_control_def is_space_def
      printableASCII_def space_bytes)

lemma normalizeUnicode_from_skeleton:
  assumes "\<And>r. \<lbrakk>32 \<le> r; r < 127\<rbrakk> \<Longrightarrow> \<not> fmt r"
  shows "list_all printableASCII t \<Longrightarrow>
    normalizeUnicode_from fmt lo spaced (map skel_lower tok) dst (map byte t) = dst @ skeleton spaced tok t"
proof (induction t arbitrary: spaced tok dst)
  case Nil
  then show ?case by (simp add: flushInto_def foldTokenBytes_lower)
next
  case (Cons c t)
  have c: "printableASCII c" "byte c < 128" using Cons.prems by (simp_all add: printableASCII_def)
  have flush: "flushInto (map skel_lower tok) dst = (dst @ foldTokenBytes tok, [])"
    by (simp add: flushInto_def foldTokenBytes_lower)
  show ?case
  proof (cases "isSkelSpace c")
    case True
    then show ?thesis
      using Cons.IH [of True "[]"] Cons.prems flush skelKind_plain [OF c(1) assms] by simp
  next
    case False
    then show ?thesis
      using Cons.IH [of False "tok @ [c]"] Cons.prems skelKind_plain [OF c(1) assms] token_write_byte [OF c(2)]
      by simp
  qed
qed

section \<open>Properties\<close>

text \<open>On every byte string the byte path gives a skeleton: no white space but single spaces,
  no upper case letter, no longer than the text; and normalising a skeleton again changes nothing,
  although the leet folding of a token depends on how many letters the token has.\<close>

theorem normalizeASCII_normal_form:
  "skeletal (normalizeASCII t) \<and> normalizeASCII (normalizeASCII t) = normalizeASCII t
    \<and> length (normalizeASCII t) \<le> length t"
  using skeleton_skeletal [of "[]" False t] skeleton_idem [of "[]" False t] length_skeleton [of False "[]" t]
  by (simp add: normalizeASCII_skeleton)

text \<open>C33: The byte path is an optimisation only: on printable ASCII it gives what the rune path
  gives, for any NFKC that leaves ASCII alone and any Unicode tables in which no printable ASCII
  character is a format or mark character.\<close>

theorem normalize_paths_agree:
  assumes "isPlainASCII t" "u_nfkc u t = t" "\<And>r. \<lbrakk>32 \<le> r; r < 127\<rbrakk> \<Longrightarrow> \<not> u_format u r"
  shows "Normalize u t = normalizeUnicode u t"
proof -
  have plain: "list_all printableASCII t" using assms(1) by (simp add: isPlainASCII_def)
  then have "list_all (\<lambda>c. byte c < 128) t" by (simp add: list_all_iff printableASCII_def)
  then have "map fst (runes (u_nfkc u (sanitizeUTF8 t))) = map byte t"
    using assms(2) by (simp add: sanitizeUTF8_def runes_plain to_valid_plain comp_def)
  then show ?thesis
    using normalizeUnicode_from_skeleton [OF assms(3) plain, where spaced = False and tok = "[]" and dst = "[]" and lo = "u_lower u"] assms(1)
    by (simp add: Normalize_def normalizeUnicode_def normalizeASCII_skeleton)
qed

text \<open>A sample of the tables: the soft hyphen is a format character.\<close>

definition sample_unicode :: unicode where
  "sample_unicode = \<lparr>u_nfkc = \<lambda>s. s, u_format = \<lambda>r. r = 0xAD, u_lower = \<lambda>r. r\<rparr>"

theorem normalize_paths_agree_witness:
  "Normalize sample_unicode ''  H4te  a1'' = normalizeUnicode sample_unicode ''  H4te  a1''"
  by (rule normalize_paths_agree) (simp_all add: sample_unicode_def isPlainASCII_def printableASCII_def)

end
