(* ===== verification/AhoCorasick.thy ===== *)
theory AhoCorasick
  imports Prelude "HOL-Library.Sublist" "HOL-Library.Multiset"
begin

text \<open>
  The multi-pattern matcher of internal/moderation/ahocorasick.go: the trie of the patterns, the
  breadth-first pass that sets failure links and matched patterns, and the scan.  Node numbers are
  positions in the slice of nodes.  Go visits the entries of a map in any order, so the order is a
  parameter \<open>iter\<close>.  The loops that follow failure links and the queue are on fuel, the number of
  nodes, which \<open>find_correct\<close> shows to be enough.  The locale \<open>pattern_matcher\<close> is what the lexicon
  uses of the matcher.
\<close>

section \<open>The matcher\<close>

text \<open>\<open>matchedPattern\<close> is \<open>None\<close> for the code's -1.\<close>

record ac_node =
  ac_next :: "(char \<times> nat) list"
  ac_fail :: nat
  ac_matched :: "nat option"

text \<open>A \<open>range\<close> over a map: \<open>iter\<close> proposes an order of the entries.\<close>

definition map_range :: "('a list \<Rightarrow> 'a list) \<Rightarrow> 'a list \<Rightarrow> 'a list" where
  "map_range iter xs = (if mset (iter xs) = mset xs then iter xs else xs)"

lemma mset_map_range: "mset (map_range iter xs) = mset xs"
  by (simp add: map_range_def)

definition new_node :: ac_node where
  "new_node = \<lparr>ac_next = [], ac_fail = 0, ac_matched = None\<rparr>"

definition edge :: "ac_node list \<Rightarrow> nat \<Rightarrow> char \<Rightarrow> nat option" where
  "edge ns u b = map_of (ac_next (ns ! u)) b"

fun insert_bytes :: "ac_node list \<Rightarrow> nat \<Rightarrow> string \<Rightarrow> ac_node list \<times> nat" where
  "insert_bytes ns cur [] = (ns, cur)"
| "insert_bytes ns cur (b # p) =
    (case edge ns cur b of
       Some nxt \<Rightarrow> insert_bytes ns nxt p
     | None \<Rightarrow>
         (let nxt = length ns; ns = ns @ [new_node]
          in insert_bytes (ns[cur := (ns ! cur)\<lparr>ac_next := ac_next (ns ! cur) @ [(b, nxt)]\<rparr>]) nxt p))"

fun insert_patterns :: "nat \<Rightarrow> string list \<Rightarrow> ac_node list \<Rightarrow> ac_node list" where
  "insert_patterns k [] ns = ns"
| "insert_patterns k (p # ps) ns =
    (let (ns, cur) = insert_bytes ns 0 p
     in insert_patterns (k + 1) ps
          (if ac_matched (ns ! cur) = None then ns[cur := (ns ! cur)\<lparr>ac_matched := Some k\<rparr>] else ns))"

text \<open>Follow failure links until a node has an edge for \<open>b\<close> or the root is reached.\<close>

fun fall_back :: "nat \<Rightarrow> ac_node list \<Rightarrow> nat \<Rightarrow> char \<Rightarrow> nat option" where
  "fall_back fuel ns f b =
    (if f = 0 \<or> edge ns f b \<noteq> None then Some f
     else case fuel of 0 \<Rightarrow> None | Suc n \<Rightarrow> fall_back n ns (ac_fail (ns ! f)) b)"

declare fall_back.simps [simp del]

definition link_child :: "ac_node list \<Rightarrow> nat \<Rightarrow> char \<times> nat \<Rightarrow> ac_node list option" where
  "link_child ns u bv =
    (case fall_back (length ns) ns (ac_fail (ns ! u)) (fst bv) of
       None \<Rightarrow> None
     | Some f \<Rightarrow>
         (let v = snd bv;
              w = (case edge ns f (fst bv) of Some w \<Rightarrow> if w \<noteq> v then w else 0 | None \<Rightarrow> 0);
              ns = ns[v := (ns ! v)\<lparr>ac_fail := w\<rparr>]
          in Some (if ac_matched (ns ! v) = None
                   then ns[v := (ns ! v)\<lparr>ac_matched := ac_matched (ns ! ac_fail (ns ! v))\<rparr>] else ns)))"

fun link_children ::
  "ac_node list \<Rightarrow> nat \<Rightarrow> (char \<times> nat) list \<Rightarrow> nat list \<Rightarrow> (ac_node list \<times> nat list) option" where
  "link_children ns u [] queue = Some (ns, queue)"
| "link_children ns u (bv # rest) queue =
    (case link_child ns u bv of None \<Rightarrow> None | Some ns \<Rightarrow> link_children ns u rest (queue @ [snd bv]))"

fun bfs ::
  "nat \<Rightarrow> ((char \<times> nat) list \<Rightarrow> (char \<times> nat) list) \<Rightarrow> ac_node list \<Rightarrow> nat list \<Rightarrow> ac_node list option" where
  "bfs fuel iter ns queue =
    (case queue of
       [] \<Rightarrow> Some ns
     | u # queue \<Rightarrow>
         (case fuel of
            0 \<Rightarrow> None
          | Suc n \<Rightarrow>
              (case link_children ns u (map_range iter (ac_next (ns ! u))) queue of
                 None \<Rightarrow> None
               | Some (ns, queue) \<Rightarrow> bfs n iter ns queue)))"

declare bfs.simps [simp del]

definition newMatcher ::
  "((char \<times> nat) list \<Rightarrow> (char \<times> nat) list) \<Rightarrow> string list \<Rightarrow> ac_node list option" where
  "newMatcher iter patterns =
    (let ns = insert_patterns 0 patterns [new_node]
     in bfs (length ns) iter ns (map snd (map_range iter (ac_next (ns ! 0)))))"

definition ac_step :: "ac_node list \<Rightarrow> nat \<Rightarrow> char \<Rightarrow> nat option" where
  "ac_step ns cur b =
    map_option (\<lambda>f. case edge ns f b of Some v \<Rightarrow> v | None \<Rightarrow> f) (fall_back (length ns) ns cur b)"

text \<open>\<open>find\<close>: the pattern matched first, \<open>Some None\<close> for no match; the outer \<open>None\<close> is out of fuel.\<close>

fun ac_find :: "ac_node list \<Rightarrow> nat \<Rightarrow> string \<Rightarrow> nat option option" where
  "ac_find ns cur [] = Some None"
| "ac_find ns cur (b # text) =
    (case ac_step ns cur b of
       None \<Rightarrow> None
     | Some cur \<Rightarrow>
         (case ac_matched (ns ! cur) of Some k \<Rightarrow> Some (Some k) | None \<Rightarrow> ac_find ns cur text))"

section \<open>The trie\<close>

text \<open>The words of the nodes: the trie holds a prefix-closed set of words, each at one node.\<close>

definition trie_ok :: "ac_node list \<Rightarrow> string list \<Rightarrow> bool" where
  "trie_ok ns ws \<longleftrightarrow>
    length ws = length ns \<and> ws \<noteq> [] \<and> ws ! 0 = [] \<and> distinct ws
    \<and> (\<forall>u < length ns. distinct (map fst (ac_next (ns ! u))))
    \<and> (\<forall>u < length ns. \<forall>b v. edge ns u b = Some v \<longleftrightarrow> v < length ns \<and> ws ! v = ws ! u @ [b])
    \<and> (\<forall>w \<in> set ws. w \<noteq> [] \<longrightarrow> butlast w \<in> set ws)"

lemma trie_new: "trie_ok [new_node] [[]]"
  by (auto simp: trie_ok_def new_node_def edge_def less_Suc_eq nth_Cons'
      split: if_splits)

lemma trie_edge: "\<lbrakk>trie_ok ns ws; u < length ns\<rbrakk> \<Longrightarrow> edge ns u b = Some v \<longleftrightarrow> v < length ns \<and> ws ! v = ws ! u @ [b]"
  by (simp add: trie_ok_def)

lemma trie_edge_None:
  assumes "trie_ok ns ws" "u < length ns"
  shows "edge ns u b = None \<longleftrightarrow> ws ! u @ [b] \<notin> set ws"
proof -
  have "length ws = length ns" using assms(1) by (simp add: trie_ok_def)
  then show ?thesis
    using trie_edge [OF assms] by (auto simp: in_set_conv_nth) (metis not_None_eq)+
qed

lemma trie_same: "\<lbrakk>trie_ok ns ws; u < length ns; v < length ns; ws ! u = ws ! v\<rbrakk> \<Longrightarrow> u = v"
  by (metis nth_eq_iff_index_eq trie_ok_def)

lemma trie_prefix_closed:
  assumes "trie_ok ns ws" "w @ v \<in> set ws"
  shows "w \<in> set ws"
  using assms(2)
proof (induction v rule: rev_induct)
  case (snoc x v)
  have "butlast (w @ v @ [x]) \<in> set ws"
    using snoc.prems assms(1) unfolding trie_ok_def by (metis append_is_Nil_conv list.discI)
  then show ?case using snoc.IH by (simp add: butlast_append)
qed simp

text \<open>A node cannot be deeper than there are nodes.\<close>

lemma trie_depth:
  assumes "trie_ok ns ws" "w \<in> set ws"
  shows "length w < length ns"
proof -
  have "take i w \<in> set ws" for i
    using trie_prefix_closed [OF assms(1), of "take i w" "drop i w"] assms(2) by simp
  then have "(\<lambda>i. take i w) ` {..length w} \<subseteq> set ws" by auto
  then have "card ((\<lambda>i. take i w) ` {..length w}) \<le> card (set ws)"
    by (intro card_mono) simp_all
  moreover have "inj_on (\<lambda>i. take i w) {..length w}"
    by (rule inj_onI) (metis atMost_iff length_take min.absorb2)
  moreover have "card (set ws) = length ns"
    using assms(1) by (simp add: trie_ok_def distinct_card)
  ultimately show ?thesis by (simp add: card_image)
qed

text \<open>Adding a missing edge adds one word.\<close>

lemma trie_extend:
  assumes "trie_ok ns ws" "cur < length ns" "edge ns cur b = None"
  defines "ns1 \<equiv> ns @ [new_node]"
  shows "trie_ok (ns1[cur := (ns1 ! cur)\<lparr>ac_next := ac_next (ns1 ! cur) @ [(b, length ns)]\<rparr>]) (ws @ [ws ! cur @ [b]])"
proof -
  let ?ns' = "ns1[cur := (ns1 ! cur)\<lparr>ac_next := ac_next (ns1 ! cur) @ [(b, length ns)]\<rparr>]"
  have len: "length ws = length ns" and ne: "ws \<noteq> []" "ws ! 0 = []" and dist: "distinct ws"
    and keys: "\<And>u. u < length ns \<Longrightarrow> distinct (map fst (ac_next (ns ! u)))"
    and closed: "\<And>w. \<lbrakk>w \<in> set ws; w \<noteq> []\<rbrakk> \<Longrightarrow> butlast w \<in> set ws"
    using assms(1) by (auto simp: trie_ok_def)
  have new: "ws ! cur @ [b] \<notin> set ws" using trie_edge_None [OF assms(1,2)] assms(3) by simp
  have nth: "?ns' ! u = (if u = length ns then new_node else if u = cur
      then (ns ! cur)\<lparr>ac_next := ac_next (ns ! cur) @ [(b, length ns)]\<rparr> else ns ! u)" if "u \<le> length ns" for u
    using that assms(2) by (auto simp: ns1_def nth_append nth_list_update)
  have edges: "edge ?ns' u c = Some v \<longleftrightarrow> v < Suc (length ns) \<and> (ws @ [ws ! cur @ [b]]) ! v = (ws @ [ws ! cur @ [b]]) ! u @ [c]"
    if u: "u < Suc (length ns)" for u c v
  proof -
    have longer: "ws ! k \<noteq> ws ! cur @ [b] @ [c]" if "k < length ns" for k
      using new trie_prefix_closed [OF assms(1), of "ws ! cur @ [b]" "[c]"] that len
      by (metis append_assoc nth_mem)
    have fresh: "ws ! k \<noteq> ws ! cur @ [b]" if "k < length ns" for k
      using new that len by (metis nth_mem)
    consider (new) "u = length ns" | (cur) "u = cur" | (other) "u < length ns" "u \<noteq> cur"
      using u by linarith
    then show ?thesis
    proof cases
      case new
      then show ?thesis
        using longer len by (auto simp: edge_def nth new_node_def nth_append)
    next
      case cur
      then have "edge ?ns' u c = (case edge ns cur c of Some v \<Rightarrow> Some v | None \<Rightarrow> if c = b then Some (length ns) else None)"
        using assms(2) by (auto simp: edge_def nth map_add_def split: option.splits)
      then show ?thesis
        using trie_edge [OF assms(1,2), of c] cur assms(2,3) len fresh
        by (cases "edge ns cur c") (auto simp: nth_append less_Suc_eq)
    next
      case other
      then show ?thesis
        using trie_edge [OF assms(1) other(1), of c] len nth [of u] edge_def nth_eq_iff_index_eq [OF dist, of u cur] assms(2)
        by (auto simp: nth_append less_Suc_eq)
    qed
  qed
  have "distinct (map fst (ac_next (?ns' ! u)))" if "u < Suc (length ns)" for u
    using that keys assms(2,3) nth [of u]
    by (auto simp: edge_def new_node_def map_of_eq_None_iff less_Suc_eq)
  moreover have "butlast w \<in> set (ws @ [ws ! cur @ [b]])" if "w \<in> set (ws @ [ws ! cur @ [b]])" "w \<noteq> []" for w
    using that closed assms(2) len by (auto simp: butlast_append)
  ultimately show ?thesis
    using len ne dist new edges by (auto simp: trie_ok_def ns1_def nth_append)
qed

text \<open>Marks and failure links do not touch the trie.\<close>

lemma same_edges: "map ac_next ns' = map ac_next ns \<Longrightarrow> u < length ns \<Longrightarrow> edge ns' u b = edge ns u b"
  unfolding edge_def by (metis length_map nth_map)

lemma trie_ok_same_edges:
  assumes "map ac_next ns' = map ac_next ns"
  shows "trie_ok ns' ws = trie_ok ns ws"
proof -
  have "length ns' = length ns" using assms by (rule map_eq_imp_length_eq)
  moreover from this have "ac_next (ns' ! u) = ac_next (ns ! u)" if "u < length ns" for u
    using assms that by (metis nth_map)
  ultimately show ?thesis unfolding trie_ok_def edge_def by auto
qed

lemma insert_bytes_ok:
  "\<lbrakk>trie_ok ns ws; cur < length ns; insert_bytes ns cur p = (ns', cur')\<rbrakk>
    \<Longrightarrow> \<exists>xs. trie_ok ns' (ws @ xs) \<and> cur' < length ns' \<and> (ws @ xs) ! cur' = ws ! cur @ p
      \<and> (\<forall>u < length ns'. ac_matched (ns' ! u) = (if u < length ns then ac_matched (ns ! u) else None))"
proof (induction ns cur p arbitrary: ws rule: insert_bytes.induct)
  case (1 ns cur)
  then show ?case by (intro exI [of _ "[]"]) auto
next
  case (2 ns cur b p)
  have len: "length ws = length ns" using 2(3) by (simp add: trie_ok_def)
  show ?case
  proof (cases "edge ns cur b")
    case (Some nxt)
    then have "nxt < length ns" "ws ! nxt = ws ! cur @ [b]" using trie_edge [OF 2(3,4)] by auto
    then show ?thesis using 2(2) [OF Some 2(3)] 2(5) Some by simp
  next
    case None
    let ?ns = "(ns @ [new_node])[cur := ((ns @ [new_node]) ! cur)\<lparr>ac_next := ac_next ((ns @ [new_node]) ! cur) @ [(b, length ns)]\<rparr>]"
    have "insert_bytes ?ns (length ns) p = (ns', cur')" using 2(5) None by (simp add: Let_def)
    from 2(1) [OF None refl refl trie_extend [OF 2(3,4) None] _ this]
    obtain xs where xs: "trie_ok ns' ((ws @ [ws ! cur @ [b]]) @ xs)" "cur' < length ns'"
      "((ws @ [ws ! cur @ [b]]) @ xs) ! cur' = (ws @ [ws ! cur @ [b]]) ! length ns @ p"
      "\<forall>u < length ns'. ac_matched (ns' ! u) = (if u < length ?ns then ac_matched (?ns ! u) else None)"
      by auto
    have "ac_matched (?ns ! u) = (if u < length ns then ac_matched (ns ! u) else None)" if "u < length ?ns" for u
      using that by (auto simp: nth_list_update nth_append new_node_def less_Suc_eq)
    then have "\<forall>u < length ns'. ac_matched (ns' ! u) = (if u < length ns then ac_matched (ns ! u) else None)"
      using xs(4) by auto
    then show ?thesis using xs(1-3) len by (intro exI [of _ "(ws ! cur @ [b]) # xs"]) (simp add: nth_append)
  qed
qed

text \<open>A node is marked exactly when its word is a pattern, and then with the index of that pattern.\<close>

definition marked :: "ac_node list \<Rightarrow> string list \<Rightarrow> string list \<Rightarrow> bool" where
  "marked ns ws ps \<longleftrightarrow>
    (\<forall>u < length ns. case ac_matched (ns ! u) of
       None \<Rightarrow> ws ! u \<notin> set ps
     | Some k \<Rightarrow> k < length ps \<and> ps ! k = ws ! u)
    \<and> set ps \<subseteq> set ws"

lemma marked_Some: "\<lbrakk>marked ns ws ps; u < length ns; ac_matched (ns ! u) = Some k\<rbrakk> \<Longrightarrow> k < length ps \<and> ps ! k = ws ! u"
  by (auto simp: marked_def split: option.splits)

lemma marked_None: "\<lbrakk>marked ns ws ps; u < length ns; ac_matched (ns ! u) = None\<rbrakk> \<Longrightarrow> ws ! u \<notin> set ps"
  by (auto simp: marked_def split: option.splits)

definition mark :: "ac_node list \<Rightarrow> nat \<Rightarrow> nat \<Rightarrow> ac_node list" where
  "mark ns cur k = (if ac_matched (ns ! cur) = None then ns[cur := (ns ! cur)\<lparr>ac_matched := Some k\<rparr>] else ns)"

lemma insert_patterns_Cons:
  "insert_patterns k (p # ps) ns =
    insert_patterns (k + 1) ps (mark (fst (insert_bytes ns 0 p)) (snd (insert_bytes ns 0 p)) k)"
  by (simp add: mark_def split_beta Let_def)

lemma mark_edges: "cur < length ns \<Longrightarrow> map ac_next (mark ns cur k) = map ac_next ns"
  by (simp add: mark_def map_update list_update_same_conv)

lemma length_mark: "length (mark ns cur k) = length ns"
  by (simp add: mark_def)

lemma mark_matched: "cur < length ns \<Longrightarrow> ac_matched (mark ns cur k ! u) =
    (if u = cur \<and> ac_matched (ns ! cur) = None then Some k else ac_matched (ns ! u))"
  by (simp add: mark_def nth_list_update)

lemma insert_pattern_marked:
  assumes trie: "trie_ok ns ws" and marked: "marked ns ws ps" and ins: "insert_bytes ns 0 q = (ns', cur)"
  shows "\<exists>ws'. trie_ok (mark ns' cur (length ps)) ws' \<and> marked (mark ns' cur (length ps)) ws' (ps @ [q])"
proof -
  have len: "length ws = length ns" and pos: "0 < length ns" and root: "ws ! 0 = []"
    using trie by (auto simp: trie_ok_def)
  obtain xs where xs: "trie_ok ns' (ws @ xs)" "cur < length ns'" "(ws @ xs) ! cur = q"
    and old: "\<And>u. u < length ns' \<Longrightarrow> ac_matched (ns' ! u) = (if u < length ns then ac_matched (ns ! u) else None)"
    using insert_bytes_ok [OF trie pos ins] root by auto
  let ?ws = "ws @ xs"
  have len': "length ?ws = length ns'" using xs(1) by (simp add: trie_ok_def)
  have nodes: "case ac_matched (mark ns' cur (length ps) ! u) of None \<Rightarrow> ?ws ! u \<notin> set (ps @ [q])
      | Some k \<Rightarrow> k < length (ps @ [q]) \<and> (ps @ [q]) ! k = ?ws ! u" if u: "u < length ns'" for u
  proof (cases "u = cur \<and> ac_matched (ns' ! cur) = None")
    case True
    then show ?thesis using xs(2,3) by (simp add: mark_matched)
  next
    case False
    then have same: "ac_matched (mark ns' cur (length ps) ! u) = ac_matched (ns' ! u)"
      using xs(2) by (auto simp: mark_matched)
    show ?thesis
    proof (cases "ac_matched (ns' ! u)")
      case None
      then have "u \<noteq> cur" using False by auto
      then have "?ws ! u \<noteq> q" using trie_same [OF xs(1) u xs(2)] xs(3) by auto
      moreover have "?ws ! u \<notin> set ps"
      proof (cases "u < length ns")
        case True
        then show ?thesis using marked_None [OF marked True] old [OF u] None len by (simp add: nth_append)
      next
        case False
        then have "?ws ! u \<in> set xs" using u len len' by (simp add: nth_append)
        moreover have "distinct ?ws" using xs(1) by (simp add: trie_ok_def)
        ultimately show ?thesis using marked by (auto simp: marked_def)
      qed
      ultimately show ?thesis using None same by simp
    next
      case (Some k)
      then have u': "u < length ns" "ac_matched (ns ! u) = Some k" using old [OF u] by (auto split: if_splits)
      show ?thesis using marked_Some [OF marked u'] u'(1) Some same len by (simp add: nth_append)
    qed
  qed
  have "q \<in> set ?ws" using xs(2,3) len' by (metis nth_mem)
  then have "marked (mark ns' cur (length ps)) ?ws (ps @ [q])"
    using nodes marked by (auto simp: marked_def length_mark)
  moreover have "trie_ok (mark ns' cur (length ps)) ?ws"
    using xs(1) trie_ok_same_edges [OF mark_edges [OF xs(2)]] by simp
  ultimately show ?thesis by blast
qed

lemma insert_patterns_ok:
  "\<lbrakk>trie_ok ns ws; marked ns ws ps\<rbrakk>
    \<Longrightarrow> \<exists>ws'. trie_ok (insert_patterns (length ps) qs ns) ws' \<and> marked (insert_patterns (length ps) qs ns) ws' (ps @ qs)"
proof (induction qs arbitrary: ns ws ps)
  case (Cons q qs)
  obtain ns' cur where ins: "insert_bytes ns 0 q = (ns', cur)" by fastforce
  obtain ws' where "trie_ok (mark ns' cur (length ps)) ws'" "marked (mark ns' cur (length ps)) ws' (ps @ [q])"
    using insert_pattern_marked [OF Cons.prems ins] by blast
  then show ?case using Cons.IH [of _ ws' "ps @ [q]"] ins by (simp add: insert_patterns_Cons del: insert_patterns.simps)
qed auto

section \<open>Failure links\<close>

text \<open>Node \<open>f\<close> stands for the longest suffix of the text read that is in the trie.\<close>

definition longest :: "string list \<Rightarrow> nat \<Rightarrow> string \<Rightarrow> bool" where
  "longest ws f t \<longleftrightarrow>
    f < length ws \<and> suffix (ws ! f) t \<and> (\<forall>w \<in> set ws. suffix w t \<longrightarrow> suffix w (ws ! f))"

text \<open>A node whose failure link and pattern are final.\<close>

definition linked :: "ac_node list \<Rightarrow> string list \<Rightarrow> string list \<Rightarrow> nat \<Rightarrow> bool" where
  "linked ns ws ps u \<longleftrightarrow>
    (u \<noteq> 0 \<longrightarrow> longest ws (ac_fail (ns ! u)) (tl (ws ! u)))
    \<and> (case ac_matched (ns ! u) of
         None \<Rightarrow> \<forall>p \<in> set ps. \<not> suffix p (ws ! u)
       | Some k \<Rightarrow> k < length ps \<and> suffix (ps ! k) (ws ! u))"

definition shallow_linked :: "ac_node list \<Rightarrow> string list \<Rightarrow> string list \<Rightarrow> nat \<Rightarrow> bool" where
  "shallow_linked ns ws ps d \<longleftrightarrow> (\<forall>u < length ns. length (ws ! u) \<le> d \<longrightarrow> linked ns ws ps u)"

lemma strict_suffix_tl: "t \<noteq> [] \<Longrightarrow> suffix w t \<longleftrightarrow> w = t \<or> suffix w (tl t)"
  by (cases t) (auto simp: suffix_Cons)

lemma suffix_snocI: "suffix w (t @ [b]) \<longleftrightarrow> w = [] \<or> (\<exists>v. w = v @ [b] \<and> suffix v t)"
  by (cases w rule: rev_cases) auto

lemma trie_root: "trie_ok ns ws \<Longrightarrow> 0 < length ns \<and> ws ! 0 = [] \<and> length ws = length ns"
  by (auto simp: trie_ok_def)

lemma trie_nonroot: "\<lbrakk>trie_ok ns ws; u < length ns; u \<noteq> 0\<rbrakk> \<Longrightarrow> ws ! u \<noteq> []"
  using trie_same trie_root by metis

text \<open>Following failure links finds the longest suffix that can be extended by \<open>b\<close>.\<close>

lemma fall_back_spec:
  assumes "trie_ok ns ws"
  shows "\<lbrakk>longest ws f t; shallow_linked ns ws ps (length (ws ! f)); length (ws ! f) \<le> fuel\<rbrakk>
    \<Longrightarrow> \<exists>g. fall_back fuel ns f b = Some g \<and> g < length ns \<and> suffix (ws ! g) t \<and> (g = 0 \<or> edge ns g b \<noteq> None)
      \<and> (\<forall>w. suffix w t \<and> w @ [b] \<in> set ws \<longrightarrow> suffix w (ws ! g))"
proof (induction fuel arbitrary: f t)
  case 0
  then have "f = 0" using trie_nonroot [OF assms, of f] trie_root [OF assms] by (auto simp: longest_def)
  then show ?case using 0 trie_root [OF assms] trie_prefix_closed [OF assms]
    by (simp add: fall_back.simps longest_def) blast
next
  case (Suc fuel)
  have f: "f < length ns" using Suc.prems(1) trie_root [OF assms] by (simp add: longest_def)
  show ?case
  proof (cases "f = 0 \<or> edge ns f b \<noteq> None")
    case True
    then show ?thesis using Suc.prems f trie_prefix_closed [OF assms]
      by (simp add: fall_back.simps longest_def) blast
  next
    case False
    let ?f = "ac_fail (ns ! f)"
    have ne: "ws ! f \<noteq> []" using trie_nonroot [OF assms f] False by simp
    have "linked ns ws ps f" using Suc.prems(2) f by (simp add: shallow_linked_def)
    then have long: "longest ws ?f (tl (ws ! f))" using False by (simp add: linked_def)
    then have less: "length (ws ! ?f) < length (ws ! f)"
      using ne by (auto simp: longest_def dest: suffix_length_le)
        (metis Suc_pred' le_imp_less_Suc length_greater_0_conv suffix_length_le length_tl One_nat_def)
    have "shallow_linked ns ws ps (length (ws ! ?f))"
      using Suc.prems(2) less by (auto simp: shallow_linked_def)
    then obtain g where g: "fall_back fuel ns ?f b = Some g" "g < length ns" "suffix (ws ! g) (tl (ws ! f))"
      "g = 0 \<or> edge ns g b \<noteq> None" "\<forall>w. suffix w (tl (ws ! f)) \<and> w @ [b] \<in> set ws \<longrightarrow> suffix w (ws ! g)"
      using Suc.IH [OF long] less Suc.prems(3) by auto
    have "suffix (ws ! g) t"
      using g(3) Suc.prems(1) suffix_order.trans suffix_tl unfolding longest_def by metis
    moreover have "suffix w (ws ! g)" if w: "suffix w t" "w @ [b] \<in> set ws" for w
    proof -
      have "suffix w (ws ! f)"
        using w Suc.prems(1) trie_prefix_closed [OF assms w(2)] by (simp add: longest_def)
      moreover have "w \<noteq> ws ! f" using w(2) False trie_edge_None [OF assms f] by auto
      ultimately show ?thesis using g(5) w(2) strict_suffix_tl [OF ne] by blast
    qed
    ultimately show ?thesis using g(1,2,4) False by (simp add: fall_back.simps)
  qed
qed

text \<open>The node reached by one more byte.\<close>

lemma advance:
  assumes "trie_ok ns ws" "longest ws f t" "shallow_linked ns ws ps (length (ws ! f))"
  obtains g where "fall_back (length ns) ns f b = Some g" "g < length ns"
    "longest ws (case edge ns g b of Some v \<Rightarrow> v | None \<Rightarrow> 0) (t @ [b])"
    "edge ns g b = None \<Longrightarrow> g = 0"
    "suffix (ws ! g) t"
proof -
  have "length (ws ! f) \<le> length ns"
    using trie_depth [OF assms(1)] assms(2) by (meson longest_def less_imp_le nth_mem)
  then obtain g where g: "fall_back (length ns) ns f b = Some g" "g < length ns" "suffix (ws ! g) t"
    "g = 0 \<or> edge ns g b \<noteq> None" "\<forall>w. suffix w t \<and> w @ [b] \<in> set ws \<longrightarrow> suffix w (ws ! g)"
    using fall_back_spec [OF assms] by blast
  note root = trie_root [OF assms(1)]
  have "longest ws (case edge ns g b of Some v \<Rightarrow> v | None \<Rightarrow> 0) (t @ [b])"
  proof (cases "edge ns g b")
    case None
    then have "[b] \<notin> set ws" using trie_edge_None [OF assms(1) g(2)] g(4) root by auto
    then have "w = []" if "w \<in> set ws" "suffix w (t @ [b])" for w
      using that g(4,5) None root by (auto simp: suffix_snocI)
    then show ?thesis using None root by (auto simp: longest_def)
  next
    case (Some v)
    then show ?thesis
      using trie_edge [OF assms(1) g(2), of b v] g(3,5) root by (auto simp: longest_def suffix_snocI)
  qed
  then show thesis using that g by auto
qed

section \<open>The breadth-first pass\<close>

text \<open>Linking one child.\<close>

lemma link_child_spec:
  assumes trie: "trie_ok ns ws" and shallow: "shallow_linked ns ws ps (length (ws ! u))"
    and u: "u < length ns" "u \<noteq> 0" and edge: "edge ns u b = Some v"
    and own: "case ac_matched (ns ! v) of None \<Rightarrow> ws ! v \<notin> set ps | Some k \<Rightarrow> k < length ps \<and> ps ! k = ws ! v"
    and sub: "set ps \<subseteq> set ws"
  obtains n where "link_child ns u (b, v) = Some (ns[v := n])" "ac_next n = ac_next (ns ! v)"
    "linked (ns[v := n]) ws ps v"
proof -
  have v: "v < length ns" "ws ! v = ws ! u @ [b]" using trie_edge [OF trie u(1)] edge by auto
  have ne: "ws ! u \<noteq> []" using trie_nonroot [OF trie u] .
  then have tl: "tl (ws ! v) = tl (ws ! u) @ [b]" using v(2) by (cases "ws ! u") auto
  have "linked ns ws ps u" using shallow u by (simp add: shallow_linked_def)
  then have long: "longest ws (ac_fail (ns ! u)) (tl (ws ! u))" using u by (simp add: linked_def)
  then have "length (ws ! ac_fail (ns ! u)) \<le> length (ws ! u)"
    using suffix_length_le [of "ws ! ac_fail (ns ! u)" "tl (ws ! u)"] by (simp add: longest_def)
  then have "shallow_linked ns ws ps (length (ws ! ac_fail (ns ! u)))"
    using shallow by (auto simp: shallow_linked_def)
  from advance [OF trie long this, of b] obtain g where g: "fall_back (length ns) ns (ac_fail (ns ! u)) b = Some g"
    "g < length ns" "longest ws (case edge ns g b of Some v \<Rightarrow> v | None \<Rightarrow> 0) (tl (ws ! v))" "suffix (ws ! g) (tl (ws ! u))"
    using tl by metis
  define w where "w = (case edge ns g b of Some v \<Rightarrow> v | None \<Rightarrow> 0)"
  have w: "longest ws w (tl (ws ! v))" using g(3) by (simp add: w_def)
  have short: "length (ws ! w) \<le> length (ws ! u)"
    using w suffix_length_le [of "ws ! w" "tl (ws ! v)"] v(2) by (simp add: longest_def)
  then have "w \<noteq> v" using v(2) by auto
  then have new_fail: "(case edge ns g b of Some w \<Rightarrow> if w \<noteq> v then w else 0 | None \<Rightarrow> 0) = w"
    by (auto simp: w_def split: option.splits)
  define n where "n = (ns ! v)\<lparr>ac_fail := w, ac_matched := (if ac_matched (ns ! v) = None then ac_matched (ns ! w) else ac_matched (ns ! v))\<rparr>"
  have "link_child ns u (b, v) = Some (ns[v := n])"
    using g(1) new_fail v(1) \<open>w \<noteq> v\<close> by (simp add: link_child_def n_def Let_def nth_list_update)
  moreover have "linked (ns[v := n]) ws ps v"
  proof -
    have lw: "linked ns ws ps w"
      using shallow short w trie_root [OF trie] by (simp add: shallow_linked_def longest_def)
    have vne: "ws ! v \<noteq> []" using v(2) by simp
    have "case ac_matched n of None \<Rightarrow> \<forall>p \<in> set ps. \<not> suffix p (ws ! v)
      | Some k \<Rightarrow> k < length ps \<and> suffix (ps ! k) (ws ! v)"
    proof (cases "ac_matched (ns ! v)")
      case (Some k)
      then show ?thesis using own by (simp add: n_def)
    next
      case None
      then have n: "ac_matched n = ac_matched (ns ! w)" by (simp add: n_def)
      have up: "suffix x (ws ! v)" if "suffix x (ws ! w)" for x
        using that w strict_suffix_tl [OF vne] suffix_order.trans unfolding longest_def by blast
      have down: "suffix p (ws ! w)" if "p \<in> set ps" "suffix p (ws ! v)" for p
      proof -
        have "p \<noteq> ws ! v" using that(1) own None by auto
        then show ?thesis using that w sub strict_suffix_tl [OF vne] unfolding longest_def by blast
      qed
      show ?thesis
        using lw up down n unfolding linked_def by (cases "ac_matched (ns ! w)") auto
    qed
    moreover have "ac_fail n = w" by (simp add: n_def)
    ultimately show ?thesis using w v(1) by (simp add: linked_def)
  qed
  ultimately show thesis using that by (simp add: n_def)
qed

lemma linked_update: "u \<noteq> v \<Longrightarrow> linked (ns[v := n]) ws ps u = linked ns ws ps u"
  by (simp add: linked_def)

lemma update_edges: "ac_next n = ac_next (ns ! v) \<Longrightarrow> map ac_next (ns[v := n]) = map ac_next ns"
  by (cases "v < length ns") (simp_all add: map_update list_update_same_conv list_update_beyond)

text \<open>Linking the children of a node: only they change, and they end up linked.\<close>

lemma link_children_spec:
  assumes u: "u < length ns" "u \<noteq> 0" and sub: "set ps \<subseteq> set ws"
  shows "\<lbrakk>trie_ok ns ws; length ns = m; shallow_linked ns ws ps (length (ws ! u));
      \<forall>(b, v) \<in> set cs. edge ns u b = Some v; distinct (map snd cs);
      \<forall>v \<in> snd ` set cs. case ac_matched (ns ! v) of None \<Rightarrow> ws ! v \<notin> set ps | Some k \<Rightarrow> k < length ps \<and> ps ! k = ws ! v;
      u < m\<rbrakk>
    \<Longrightarrow> \<exists>ns'. link_children ns u cs queue = Some (ns', queue @ map snd cs) \<and> map ac_next ns' = map ac_next ns
      \<and> (\<forall>v \<in> snd ` set cs. linked ns' ws ps v) \<and> (\<forall>v. v \<notin> snd ` set cs \<longrightarrow> ns' ! v = ns ! v)"
proof (induction cs arbitrary: ns queue)
  case (Cons bv cs)
  obtain b v where bv: "bv = (b, v)" by fastforce
  have ul: "u < length ns" using Cons.prems by simp
  have edge: "edge ns u b = Some v" using Cons.prems(4) bv by auto
  obtain n where n: "link_child ns u (b, v) = Some (ns[v := n])" "ac_next n = ac_next (ns ! v)"
    "linked (ns[v := n]) ws ps v"
    using link_child_spec [OF Cons.prems(1,3) ul u(2) edge _ sub] Cons.prems(6) bv by auto
  let ?ns = "ns[v := n]"
  note edges = update_edges [OF n(2)]
  have v: "length (ws ! v) = Suc (length (ws ! u))"
    using trie_edge [OF Cons.prems(1) ul] edge by auto
  have shallow: "shallow_linked ?ns ws ps (length (ws ! u))"
    using Cons.prems(3) v unfolding shallow_linked_def by (metis length_list_update linked_update not_less_eq_eq order_refl)
  have edges': "\<forall>(b, v) \<in> set cs. edge ?ns u b = Some v"
    using Cons.prems(4) same_edges [OF edges ul] by auto
  have own: "\<forall>v \<in> snd ` set cs. case ac_matched (?ns ! v) of None \<Rightarrow> ws ! v \<notin> set ps | Some k \<Rightarrow> k < length ps \<and> ps ! k = ws ! v"
  proof
    fix x assume x: "x \<in> snd ` set cs"
    then have "x \<noteq> v" using Cons.prems(5) bv by auto
    then show "case ac_matched (?ns ! x) of None \<Rightarrow> ws ! x \<notin> set ps | Some k \<Rightarrow> k < length ps \<and> ps ! k = ws ! x"
      using Cons.prems(6) x by auto
  qed
  have "trie_ok ?ns ws" using trie_ok_same_edges [OF edges] Cons.prems(1) by simp
  from Cons.IH [OF this _ shallow edges' _ own, of "queue @ [v]"] Cons.prems(2,5,7) bv
  obtain ns' where ns': "link_children ?ns u cs (queue @ [v]) = Some (ns', (queue @ [v]) @ map snd cs)"
    "map ac_next ns' = map ac_next ?ns" "\<forall>v \<in> snd ` set cs. linked ns' ws ps v" "\<forall>x. x \<notin> snd ` set cs \<longrightarrow> ns' ! x = ?ns ! x"
    by auto
  have "v \<notin> snd ` set cs" using Cons.prems(5) bv by auto
  then have "linked ns' ws ps v" using ns'(4) n(3) by (simp add: linked_def)
  moreover have "ns' ! x = ns ! x" if "x \<notin> snd ` set (bv # cs)" for x
    using that ns'(4) bv by simp
  ultimately show ?case
    using ns' n(1) bv edges by (intro exI [of _ ns']) auto
qed auto

text \<open>
  The state of the breadth-first pass: \<open>P\<close> are the nodes taken from the queue.  A node has been
  queued when its parent is the root or has been taken; queued nodes are linked, the others still
  have the mark of their own pattern only.
\<close>

definition bfs_inv :: "ac_node list \<Rightarrow> string list \<Rightarrow> string list \<Rightarrow> nat list \<Rightarrow> nat list \<Rightarrow> bool" where
  "bfs_inv ns ws ps P queue \<longleftrightarrow>
    trie_ok ns ws \<and> linked ns ws ps 0
    \<and> distinct (P @ queue) \<and> set (P @ queue) \<subseteq> {1..<length ns}
    \<and> sorted (map (\<lambda>u. length (ws ! u)) queue)
    \<and> (\<forall>u \<in> set queue. length (ws ! u) \<le> Suc (length (ws ! hd queue)))
    \<and> (\<forall>u < length ns. \<forall>b v. edge ns u b = Some v \<longrightarrow> v \<in> set (P @ queue) \<longleftrightarrow> u = 0 \<or> u \<in> set P)
    \<and> (\<forall>v \<in> set (P @ queue). linked ns ws ps v)
    \<and> (\<forall>v < length ns. v \<noteq> 0 \<and> v \<notin> set (P @ queue) \<longrightarrow>
        (case ac_matched (ns ! v) of None \<Rightarrow> ws ! v \<notin> set ps | Some k \<Rightarrow> k < length ps \<and> ps ! k = ws ! v))"

lemma bfs_queued:
  assumes "bfs_inv ns ws ps P queue" "queue = [] \<or> length (ws ! v) \<le> length (ws ! hd queue)"
    "v < length ns" "v \<noteq> 0"
  shows "v \<in> set (P @ queue)"
  using assms(2-)
proof (induction "length (ws ! v)" arbitrary: v)
  case 0
  then show ?case using assms(1) trie_nonroot unfolding bfs_inv_def by fastforce
next
  case (Suc d)
  have trie: "trie_ok ns ws" using assms(1) unfolding bfs_inv_def by (elim conjE)
  note root = trie_root [OF trie]
  obtain w b where w: "ws ! v = w @ [b]" using Suc.hyps(2) by (metis length_0_conv nat.distinct(1) rev_exhaust)
  then have "w \<in> set ws" using trie_prefix_closed [OF trie, of w "[b]"] Suc.prems(2) root by (metis nth_mem)
  then obtain u where u: "u < length ns" "ws ! u = w" using root by (metis in_set_conv_nth)
  then have edge: "edge ns u b = Some v" using trie_edge [OF trie u(1)] Suc.prems(2) w by simp
  have "u = 0 \<or> u \<in> set P"
  proof (rule disjCI)
    assume "u \<notin> set P"
    moreover have "u = 0 \<or> u \<in> set (P @ queue)"
      using Suc.hyps(1) [of u] Suc.hyps(2) Suc.prems(1) u w by fastforce
    moreover have "u \<notin> set queue"
    proof
      assume q: "u \<in> set queue"
      then have "length (ws ! hd queue) \<le> length (ws ! u)"
        using assms(1) unfolding bfs_inv_def by (cases queue) auto
      then show False using Suc.prems(1) q u(2) w by auto
    qed
    ultimately show "u = 0" by auto
  qed
  then show ?case using assms(1) edge u(1) unfolding bfs_inv_def by blast
qed

lemma edges_distinct:
  assumes "trie_ok ns ws" "u < length ns" "\<forall>(b, v) \<in> set cs. edge ns u b = Some v" "distinct (map fst cs)"
  shows "distinct (map snd cs)"
proof -
  have "b = c" if "(b, v) \<in> set cs" "(c, v) \<in> set cs" for b c v
  proof -
    have "edge ns u b = Some v" "edge ns u c = Some v" using assms(3) that by auto
    then have "ws ! v = ws ! u @ [b]" "ws ! v = ws ! u @ [c]" using trie_edge [OF assms(1,2)] by auto
    then show ?thesis by simp
  qed
  then have "inj_on snd (set cs)" by (auto simp: inj_on_def)
  then show ?thesis using assms(4) by (simp add: distinct_map)
qed

lemma sorted_const: "\<forall>x \<in> set xs. x = (k :: nat) \<Longrightarrow> sorted xs"
  by (induction xs) auto

lemma in_snd_image:
  assumes "v \<in> snd ` A"
  obtains b where "(b, v) \<in> A"
  using assms by force

lemma bfs_step:
  assumes inv: "bfs_inv ns ws ps P (u # queue)" and sub: "set ps \<subseteq> set ws"
    and iter: "mset cs = mset (ac_next (ns ! u))"
  obtains ns' where "link_children ns u cs queue = Some (ns', queue @ map snd cs)"
    "map ac_next ns' = map ac_next ns" "bfs_inv ns' ws ps (P @ [u]) (queue @ map snd cs)"
proof -
  have trie: "trie_ok ns ws" and root_linked: "linked ns ws ps 0"
    and dist: "distinct (P @ u # queue)" and range: "set (P @ u # queue) \<subseteq> {1..<length ns}"
    and srt: "sorted (map (\<lambda>u. length (ws ! u)) (u # queue))"
    and depth: "\<And>x. x \<in> set (u # queue) \<Longrightarrow> length (ws ! x) \<le> Suc (length (ws ! u))"
    and queued: "\<And>x b v. \<lbrakk>x < length ns; edge ns x b = Some v\<rbrakk> \<Longrightarrow> v \<in> set (P @ u # queue) \<longleftrightarrow> x = 0 \<or> x \<in> set P"
    and linked: "\<And>v. v \<in> set (P @ u # queue) \<Longrightarrow> linked ns ws ps v"
    and own: "\<And>v. \<lbrakk>v < length ns; v \<noteq> 0; v \<notin> set (P @ u # queue)\<rbrakk> \<Longrightarrow>
        case ac_matched (ns ! v) of None \<Rightarrow> ws ! v \<notin> set ps | Some k \<Rightarrow> k < length ps \<and> ps ! k = ws ! v"
    using inv unfolding bfs_inv_def list.sel by (blast+)
  have u: "u < length ns" "u \<noteq> 0" using range by auto
  have shallow: "shallow_linked ns ws ps (length (ws ! u))"
    unfolding shallow_linked_def
  proof (intro allI impI)
    fix x assume x: "x < length ns" "length (ws ! x) \<le> length (ws ! u)"
    show "linked ns ws ps x"
    proof (cases "x = 0")
      case False
      then show ?thesis using bfs_queued [OF inv _ x(1) False] x(2) linked by simp
    qed (use root_linked in simp)
  qed
  have keys: "distinct (map fst cs)"
    using trie u(1) iter unfolding trie_ok_def by (metis mset_eq_imp_distinct_iff mset_map)
  have "set cs = set (ac_next (ns ! u))" using iter by (metis set_mset_mset)
  then have edges: "(b, v) \<in> set cs \<longleftrightarrow> edge ns u b = Some v" for b v
    using trie u(1) unfolding trie_ok_def by (simp add: edge_def)
  have child: "v < length ns \<and> v \<noteq> 0 \<and> v \<notin> set (P @ u # queue) \<and> length (ws ! v) = Suc (length (ws ! u))"
    if v: "v \<in> snd ` set cs" for v
  proof -
    obtain b where "(b, v) \<in> set cs" using in_snd_image [OF v] .
    then have e: "edge ns u b = Some v" using edges by simp
    then have "v \<notin> set (P @ u # queue)" using queued [OF u(1) e] u(2) dist by auto
    moreover have "v \<noteq> 0" using range \<open>v \<notin> _\<close> e trie_edge [OF trie u(1), of b v] trie_root [OF trie]
      by (metis snoc_eq_iff_butlast)
    ultimately show ?thesis using trie_edge [OF trie u(1), of b v] e by simp
  qed
  have edges': "\<forall>(b, v) \<in> set cs. edge ns u b = Some v" using edges by blast
  have vals: "distinct (map snd cs)" by (rule edges_distinct [OF trie u(1) edges' keys])
  have own': "\<forall>v \<in> snd ` set cs. case ac_matched (ns ! v) of None \<Rightarrow> ws ! v \<notin> set ps | Some k \<Rightarrow> k < length ps \<and> ps ! k = ws ! v"
    using own child by blast
  obtain ns' where ns': "link_children ns u cs queue = Some (ns', queue @ map snd cs)"
    "map ac_next ns' = map ac_next ns" "\<forall>v \<in> snd ` set cs. linked ns' ws ps v"
    "\<forall>v. v \<notin> snd ` set cs \<longrightarrow> ns' ! v = ns ! v"
    using link_children_spec [OF u sub trie refl shallow edges' vals own' u(1)] by blast
  have len: "length ns' = length ns" using ns'(2) by (rule map_eq_imp_length_eq)
  have keep: "linked ns' ws ps v = linked ns ws ps v" if "v \<notin> snd ` set cs" for v
    using ns'(4) that by (simp add: linked_def)
  have "bfs_inv ns' ws ps (P @ [u]) (queue @ map snd cs)"
    unfolding bfs_inv_def
  proof (intro conjI)
    show "trie_ok ns' ws" using trie_ok_same_edges [OF ns'(2)] trie by simp
    show "linked ns' ws ps 0" using keep child root_linked by blast
    show "distinct ((P @ [u]) @ queue @ map snd cs)" using dist vals child by fastforce
    show "set ((P @ [u]) @ queue @ map snd cs) \<subseteq> {1..<length ns'}"
      using range child len by fastforce
    have "sorted (map (\<lambda>u. length (ws ! u)) (map snd cs))"
      by (rule sorted_const [where k = "Suc (length (ws ! u))"]) (use child in auto)
    then show "sorted (map (\<lambda>u. length (ws ! u)) (queue @ map snd cs))"
      using srt depth child by (auto simp: sorted_append)
    show "\<forall>x \<in> set (queue @ map snd cs). length (ws ! x) \<le> Suc (length (ws ! hd (queue @ map snd cs)))"
    proof (cases queue)
      case Nil
      then show ?thesis using child by (cases cs) auto
    next
      case (Cons h rest)
      then have "length (ws ! u) \<le> length (ws ! h)" using srt by simp
      then have "length (ws ! x) \<le> Suc (length (ws ! h))" if "x \<in> set (queue @ map snd cs)" for x
        using depth [of x] child [of x] that by fastforce
      then show ?thesis using Cons by simp
    qed
    show "\<forall>x < length ns'. \<forall>b v. edge ns' x b = Some v \<longrightarrow>
        v \<in> set ((P @ [u]) @ queue @ map snd cs) \<longleftrightarrow> x = 0 \<or> x \<in> set (P @ [u])"
    proof (intro allI impI)
      fix x b v assume x: "x < length ns'" "edge ns' x b = Some v"
      then have e: "edge ns x b = Some v" "x < length ns" using same_edges [OF ns'(2)] len by auto
      have "v \<in> snd ` set cs \<longleftrightarrow> x = u"
      proof
        assume "v \<in> snd ` set cs"
        then obtain b' where "edge ns u b' = Some v" using edges by force
        then have "ws ! x = ws ! u" using e trie_edge [OF trie] u(1) by auto
        then show "x = u" by (rule trie_same [OF trie e(2) u(1)])
      next
        assume "x = u"
        then show "v \<in> snd ` set cs" using e edges by force
      qed
      then show "v \<in> set ((P @ [u]) @ queue @ map snd cs) \<longleftrightarrow> x = 0 \<or> x \<in> set (P @ [u])"
        using queued [OF e(2,1)] dist by auto
    qed
    show "\<forall>v \<in> set ((P @ [u]) @ queue @ map snd cs). linked ns' ws ps v"
    proof
      fix v assume v: "v \<in> set ((P @ [u]) @ queue @ map snd cs)"
      show "linked ns' ws ps v"
      proof (cases "v \<in> snd ` set cs")
        case True
        then show ?thesis using ns'(3) by blast
      next
        case False
        then have "linked ns ws ps v" using linked [of v] v by auto
        then show ?thesis using keep [OF False] by simp
      qed
    qed
    show "\<forall>v < length ns'. v \<noteq> 0 \<and> v \<notin> set ((P @ [u]) @ queue @ map snd cs) \<longrightarrow>
        (case ac_matched (ns' ! v) of None \<Rightarrow> ws ! v \<notin> set ps | Some k \<Rightarrow> k < length ps \<and> ps ! k = ws ! v)"
      using own ns'(4) len by simp
  qed
  then show thesis using that ns'(1,2) by blast
qed

lemma bfs_finished:
  assumes "bfs_inv ns ws ps P []"
  shows "trie_ok ns ws \<and> (\<forall>u < length ns. linked ns ws ps u)"
proof -
  have "trie_ok ns ws" using assms unfolding bfs_inv_def by (elim conjE)
  moreover have "linked ns ws ps 0" using assms unfolding bfs_inv_def by (elim conjE)
  moreover have "\<forall>v \<in> set (P @ []). linked ns ws ps v" using assms unfolding bfs_inv_def by (elim conjE)
  moreover have "u \<in> set (P @ [])" if "u < length ns" "u \<noteq> 0" for u
    by (rule bfs_queued [OF assms _ that]) simp
  ultimately show ?thesis by metis
qed

lemma bfs_spec:
  assumes sub: "set ps \<subseteq> set ws"
  shows "\<lbrakk>bfs_inv ns ws ps P queue; length ns \<le> fuel + length P + 1\<rbrakk>
    \<Longrightarrow> \<exists>ns'. bfs fuel iter ns queue = Some ns' \<and> trie_ok ns' ws \<and> (\<forall>u < length ns'. linked ns' ws ps u)"
proof (induction fuel arbitrary: ns P queue)
  case 0
  have dist: "distinct (P @ queue)" using 0(1) unfolding bfs_inv_def by (elim conjE)
  have range: "set (P @ queue) \<subseteq> {1..<length ns}" using 0(1) unfolding bfs_inv_def by (elim conjE)
  have "card (set (P @ queue)) \<le> card {1..<length ns}" using range by (intro card_mono) auto
  then have "length P + length queue \<le> length ns - 1" using distinct_card [OF dist] by simp
  then have "length queue = 0" using 0(2) by linarith
  then have "queue = []" by simp
  then show ?case using bfs_finished 0(1) by (simp add: bfs.simps)
next
  case (Suc fuel)
  show ?case
  proof (cases queue)
    case Nil
    then show ?thesis using bfs_finished Suc.prems(1) by (simp add: bfs.simps)
  next
    case (Cons u rest)
    obtain ns' where "link_children ns u (map_range iter (ac_next (ns ! u))) rest
        = Some (ns', rest @ map snd (map_range iter (ac_next (ns ! u))))"
      "map ac_next ns' = map ac_next ns" "bfs_inv ns' ws ps (P @ [u]) (rest @ map snd (map_range iter (ac_next (ns ! u))))"
      using bfs_step [OF _ sub mset_map_range] Suc.prems(1) Cons by blast
    moreover from this(2) have "length ns' = length ns" by (rule map_eq_imp_length_eq)
    ultimately show ?thesis using Suc.IH Suc.prems(2) Cons by (simp add: bfs.simps)
  qed
qed

text \<open>The pass starts with the children of the root queued.\<close>

lemma bfs_start:
  assumes trie: "trie_ok ns ws" and marked: "marked ns ws ps" and ne: "[] \<notin> set ps"
    and fails: "\<forall>u < length ns. ac_fail (ns ! u) = 0" and iter: "mset cs = mset (ac_next (ns ! 0))"
  shows "bfs_inv ns ws ps [] (map snd cs)"
proof -
  note root = trie_root [OF trie]
  have "set cs = set (ac_next (ns ! 0))" using iter by (metis set_mset_mset)
  then have edges: "(b, v) \<in> set cs \<longleftrightarrow> edge ns 0 b = Some v" for b v
    using trie root unfolding trie_ok_def by (simp add: edge_def)
  have child: "v < length ns \<and> (\<exists>b. ws ! v = [b])" if v: "v \<in> snd ` set cs" for v
  proof -
    obtain b where "(b, v) \<in> set cs" using in_snd_image [OF v] .
    then show ?thesis using edges trie_edge [OF trie, of 0 b v] root by auto
  qed
  have keys: "distinct (map fst cs)"
    using trie root iter unfolding trie_ok_def by (metis mset_eq_imp_distinct_iff mset_map)
  have "\<forall>(b, v) \<in> set cs. edge ns 0 b = Some v" using edges by blast
  then have vals: "distinct (map snd cs)" using edges_distinct [OF trie _ _ keys] root by blast
  have own: "case ac_matched (ns ! v) of None \<Rightarrow> ws ! v \<notin> set ps | Some k \<Rightarrow> k < length ps \<and> ps ! k = ws ! v"
    if "v < length ns" for v using marked that by (auto simp: marked_def)
  have short: "linked ns ws ps v" if v: "v < length ns" "length (ws ! v) \<le> 1" for v
  proof -
    have w: "suffix p (ws ! v) \<longleftrightarrow> p = ws ! v" if "p \<in> set ps" for p
      using that ne v(2) by (cases "ws ! v") (auto simp: suffix_Cons)
    have "tl (ws ! v) = []" using v(2) by (cases "ws ! v") auto
    then have "longest ws (ac_fail (ns ! v)) (tl (ws ! v))"
      using fails v(1) root by (simp add: longest_def)
    then show ?thesis using own [OF v(1)] w by (auto simp: linked_def split: option.splits)
  qed
  have one: "length (ws ! v) = 1" if "v \<in> snd ` set cs" for v using child [OF that] by auto
  show ?thesis
    unfolding bfs_inv_def append_Nil
  proof (intro conjI)
    show "linked ns ws ps 0" using short root by simp
    show "set (map snd cs) \<subseteq> {1..<length ns}"
    proof
      fix v assume "v \<in> set (map snd cs)"
      then have "v < length ns" "v \<noteq> 0" using child [of v] root by (auto intro: ccontr)
      then show "v \<in> {1..<length ns}" by simp
    qed
    show "sorted (map (\<lambda>u. length (ws ! u)) (map snd cs))"
      by (rule sorted_const [where k = 1]) (use one in auto)
    show "\<forall>u \<in> set (map snd cs). length (ws ! u) \<le> Suc (length (ws ! hd (map snd cs)))" using one by auto
    show "\<forall>u < length ns. \<forall>b v. edge ns u b = Some v \<longrightarrow> v \<in> set (map snd cs) \<longleftrightarrow> u = 0 \<or> u \<in> set []"
    proof (intro allI impI)
      fix u b v assume u: "u < length ns" "edge ns u b = Some v"
      have "v \<in> snd ` set cs \<Longrightarrow> u = 0"
        using child [of v] trie_edge [OF trie u(1)] u(2) trie_nonroot [OF trie u(1)] by auto
      moreover have "u = 0 \<Longrightarrow> v \<in> snd ` set cs" using edges u(2) by force
      ultimately show "v \<in> set (map snd cs) \<longleftrightarrow> u = 0 \<or> u \<in> set []" by auto
    qed
    show "\<forall>v \<in> set (map snd cs). linked ns ws ps v" using short child one by auto
    show "distinct (map snd cs)" by (rule vals)
    show "trie_ok ns ws" by (rule trie)
    show "\<forall>v < length ns. v \<noteq> 0 \<and> v \<notin> set (map snd cs) \<longrightarrow>
        (case ac_matched (ns ! v) of None \<Rightarrow> ws ! v \<notin> set ps | Some k \<Rightarrow> k < length ps \<and> ps ! k = ws ! v)"
      using own by blast
  qed
qed

lemma all_updated: "\<lbrakk>\<forall>x \<in> set xs. P x; i < length xs \<Longrightarrow> P y\<rbrakk> \<Longrightarrow> \<forall>x \<in> set (xs[i := y]). P x"
  by (cases "i < length xs") (auto dest: set_update_subset_insert [THEN subsetD] simp: list_update_beyond)

lemma insert_bytes_fail:
  "\<forall>n \<in> set ns. ac_fail n = 0 \<Longrightarrow> \<forall>n \<in> set (fst (insert_bytes ns cur p)). ac_fail n = 0"
proof (induction ns cur p rule: insert_bytes.induct)
  case (2 ns cur b p)
  let ?ns = "ns @ [new_node]"
  have "\<forall>n \<in> set ?ns. ac_fail n = 0" using 2(3) by (simp add: new_node_def)
  then have "\<forall>n \<in> set (?ns[cur := (?ns ! cur)\<lparr>ac_next := ac_next (?ns ! cur) @ [(b, length ns)]\<rparr>]). ac_fail n = 0"
    by (rule all_updated) (use \<open>\<forall>n \<in> set ?ns. ac_fail n = 0\<close> in \<open>simp del: set_append\<close>)
  then show ?case using 2 by (cases "edge ns cur b") (auto simp: Let_def)
qed simp

lemma insert_patterns_fail:
  "\<forall>n \<in> set ns. ac_fail n = 0 \<Longrightarrow> \<forall>n \<in> set (insert_patterns k ps ns). ac_fail n = 0"
proof (induction ps arbitrary: k ns)
  case (Cons p ps)
  let ?i = "insert_bytes ns 0 p"
  have all: "\<forall>n \<in> set (fst ?i). ac_fail n = 0" using insert_bytes_fail Cons.prems by blast
  then have "\<forall>n \<in> set ((fst ?i)[snd ?i := (fst ?i ! snd ?i)\<lparr>ac_matched := Some k\<rparr>]). ac_fail n = 0"
    by (rule all_updated) (use all in simp)
  then have "\<forall>n \<in> set (mark (fst ?i) (snd ?i) k). ac_fail n = 0"
    using all by (simp add: mark_def)
  then show ?case using Cons.IH by (simp only: insert_patterns_Cons)
qed simp

lemma newMatcher_links:
  assumes "[] \<notin> set patterns"
  obtains ns ws where "newMatcher iter patterns = Some ns" "trie_ok ns ws" "\<forall>u < length ns. linked ns ws patterns u"
    "set patterns \<subseteq> set ws"
proof -
  let ?ns = "insert_patterns 0 patterns [new_node]"
  have "marked [new_node] [[]] []" by (simp add: marked_def new_node_def)
  then obtain ws where ws: "trie_ok ?ns ws" "marked ?ns ws patterns"
    using insert_patterns_ok [OF trie_new, of "[]" patterns] by auto
  have "\<forall>n \<in> set ?ns. ac_fail n = 0"
    by (rule insert_patterns_fail) (simp add: new_node_def)
  then have "\<forall>u < length ?ns. ac_fail (?ns ! u) = 0" by simp
  from bfs_start [OF ws assms this mset_map_range]
  have inv: "bfs_inv ?ns ws patterns [] (map snd (map_range iter (ac_next (?ns ! 0))))" by simp
  have sub: "set patterns \<subseteq> set ws" using ws(2) by (simp add: marked_def)
  show thesis
    using bfs_spec [OF sub inv, of "length ?ns"] that sub by (auto simp: newMatcher_def Let_def)
qed

section \<open>The scan\<close>

lemma ac_step_spec:
  assumes trie: "trie_ok ns ws" and linked: "\<forall>u < length ns. linked ns ws ps u" and long: "longest ws cur t"
  obtains v where "ac_step ns cur b = Some v" "longest ws v (t @ [b])"
proof -
  have "shallow_linked ns ws ps (length (ws ! cur))" using linked by (simp add: shallow_linked_def)
  from advance [OF trie long this] obtain g where "fall_back (length ns) ns cur b = Some g"
    "longest ws (case edge ns g b of Some v \<Rightarrow> v | None \<Rightarrow> 0) (t @ [b])" "edge ns g b = None \<Longrightarrow> g = 0"
    by metis
  then show thesis using that by (cases "edge ns g b") (auto simp: ac_step_def)
qed

text \<open>A node reports a pattern exactly when some pattern ends at the text read.\<close>

lemma matched_spec:
  assumes "longest ws u t" "linked ns ws ps u" "set ps \<subseteq> set ws"
  shows "case ac_matched (ns ! u) of None \<Rightarrow> \<forall>p \<in> set ps. \<not> suffix p t
    | Some k \<Rightarrow> k < length ps \<and> suffix (ps ! k) t"
proof (cases "ac_matched (ns ! u)")
  case None
  then show ?thesis using assms unfolding linked_def longest_def by auto
next
  case (Some k)
  then show ?thesis using assms suffix_order.trans unfolding linked_def longest_def by auto
qed

text \<open>What \<open>find\<close> promises: the pattern that ends first.\<close>

definition first_match :: "string list \<Rightarrow> string \<Rightarrow> nat option \<Rightarrow> bool" where
  "first_match ps t r =
    (case r of
       None \<Rightarrow> \<forall>p \<in> set ps. \<not> sublist p t
     | Some k \<Rightarrow> k < length ps \<and> (\<exists>s. prefix s t \<and> suffix (ps ! k) s \<and> (\<forall>p \<in> set ps. \<not> sublist p (butlast s))))"

lemma sublist_snoc: "sublist p (t @ [b]) \<longleftrightarrow> sublist p t \<or> suffix p (t @ [b])"
  using sublist_Cons_right [of "rev p" b "rev t"]
  by (metis rev.simps(2) rev_rev_ident sublist_rev suffix_to_prefix)

lemma first_matchI: "\<lbrakk>k < length ps; suffix (ps ! k) (s @ [b]); \<forall>p \<in> set ps. \<not> sublist p s\<rbrakk>
    \<Longrightarrow> first_match ps (s @ b # t) (Some k)"
  unfolding first_match_def option.case by (intro conjI exI [of _ "s @ [b]"]) simp_all

lemma ac_find_spec:
  assumes trie: "trie_ok ns ws" and linked: "\<forall>u < length ns. linked ns ws ps u" and sub: "set ps \<subseteq> set ws"
  shows "\<lbrakk>longest ws cur s; \<forall>p \<in> set ps. \<not> sublist p s\<rbrakk>
    \<Longrightarrow> \<exists>r. ac_find ns cur t = Some r \<and> first_match ps (s @ t) r"
proof (induction t arbitrary: cur s)
  case Nil
  then show ?case by (simp add: first_match_def)
next
  case (Cons b t)
  obtain v where v: "ac_step ns cur b = Some v" "longest ws v (s @ [b])"
    using ac_step_spec [OF trie linked Cons.prems(1)] .
  then have "v < length ns" using trie_root [OF trie] by (simp add: longest_def)
  then have "linked ns ws ps v" using linked by simp
  note spec = matched_spec [OF v(2) this sub]
  show ?case
  proof (cases "ac_matched (ns ! v)")
    case None
    then have "\<forall>p \<in> set ps. \<not> sublist p (s @ [b])"
      using Cons.prems(2) spec by (simp add: sublist_snoc)
    from Cons.IH [OF v(2) this] show ?thesis using v(1) None by simp
  next
    case (Some k)
    then have "first_match ps (s @ b # t) (Some k)"
      using spec by (intro first_matchI Cons.prems(2)) simp_all
    then show ?thesis using v(1) Some by simp
  qed
qed

lemma find_correct:
  assumes "[] \<notin> set patterns"
  shows "\<exists>ns r. newMatcher iter patterns = Some ns \<and> ac_find ns 0 t = Some r \<and> first_match patterns t r"
proof (rule newMatcher_links [where iter = iter, OF assms])
  fix ns ws
  assume m: "newMatcher iter patterns = Some ns" "trie_ok ns ws" "\<forall>u < length ns. linked ns ws patterns u"
    "set patterns \<subseteq> set ws"
  have "longest ws 0 []" using trie_root [OF m(2)] by (auto simp: longest_def)
  moreover have "\<forall>p \<in> set patterns. \<not> sublist p []" using assms by auto
  ultimately show ?thesis using ac_find_spec [OF m(2-4), of 0 "[]" t] m(1) by simp
qed

section \<open>The folded scan\<close>

text \<open>\<open>foldTable\<close>: letters to lower case, look-alikes to letters, other ASCII to a space.\<close>

definition foldTable :: "char \<Rightarrow> char" where
  "foldTable c =
    (if c = CHR ''0'' then CHR ''o'' else if c = CHR ''1'' then CHR ''i'' else if c = CHR ''3'' then CHR ''e''
     else if c = CHR ''4'' then CHR ''a'' else if c = CHR ''5'' then CHR ''s'' else if c = CHR ''7'' then CHR ''t''
     else if c = CHR ''8'' then CHR ''b'' else if c = CHR ''@'' then CHR ''a'' else if c = CHR ''$'' then CHR ''s''
     else let b = of_char c :: nat in
       if 97 \<le> b \<and> b \<le> 122 then c
       else if 65 \<le> b \<and> b \<le> 90 then char_of (b + 32)
       else if b < 128 then CHR '' ''
       else CHR 0xff)"

fun findFolded_from :: "ac_node list \<Rightarrow> nat \<Rightarrow> string \<Rightarrow> bool option" where
  "findFolded_from ns cur [] =
    map_option (\<lambda>cur. ac_matched (ns ! cur) \<noteq> None) (ac_step ns cur CHR '' '')"
| "findFolded_from ns cur (c # t) =
    (case ac_step ns cur (foldTable c) of
       None \<Rightarrow> None
     | Some cur \<Rightarrow> if ac_matched (ns ! cur) \<noteq> None then Some True else findFolded_from ns cur t)"

definition findFolded :: "ac_node list \<Rightarrow> string \<Rightarrow> bool option" where
  "findFolded ns t = Option.bind (ac_step ns 0 CHR '' '') (\<lambda>cur. findFolded_from ns cur t)"

lemma suffix_space: "(\<not> sublist p s \<or> p = '' '') \<Longrightarrow> sublist p (s @ '' '') \<longleftrightarrow> suffix p (s @ '' '')"
  using sublist_snoc [of p s "CHR '' ''"] by (metis suffixI suffix_imp_sublist)

text \<open>What a node reports, as a question about suffixes of the text read.\<close>

lemma matched_iff:
  assumes "trie_ok ns ws" "\<forall>u < length ns. linked ns ws ps u" "longest ws v t" "set ps \<subseteq> set ws"
  shows "ac_matched (ns ! v) \<noteq> None \<longleftrightarrow> (\<exists>p \<in> set ps. suffix p t)"
proof -
  have "v < length ns" using trie_root [OF assms(1)] assms(3) by (simp add: longest_def)
  then have "linked ns ws ps v" using assms(2) by simp
  note spec = matched_spec [OF assms(3) this assms(4)]
  show ?thesis
  proof (cases "ac_matched (ns ! v)")
    case None
    then show ?thesis using spec by simp
  next
    case (Some k)
    then have "k < length ps \<and> suffix (ps ! k) t" using spec by simp
    then show ?thesis using Some nth_mem by blast
  qed
qed

lemma findFolded_from_spec:
  assumes trie: "trie_ok ns ws" and linked: "\<forall>u < length ns. linked ns ws ps u" and sub: "set ps \<subseteq> set ws"
  shows "\<lbrakk>longest ws cur s; \<forall>p \<in> set ps. \<not> sublist p s \<or> p = '' ''\<rbrakk>
    \<Longrightarrow> findFolded_from ns cur t = Some (\<exists>p \<in> set ps. sublist p (s @ List.map foldTable t @ '' ''))"
proof (induction t arbitrary: cur s)
  case Nil
  obtain v where v: "ac_step ns cur CHR '' '' = Some v" "longest ws v (s @ '' '')"
    using ac_step_spec [OF trie linked Nil.prems(1)] .
  have "(\<exists>p \<in> set ps. sublist p (s @ '' '')) \<longleftrightarrow> (\<exists>p \<in> set ps. suffix p (s @ '' ''))"
    by (intro bex_cong refl suffix_space) (rule bspec [OF Nil.prems(2)])
  then have "(ac_matched (ns ! v) \<noteq> None) = (\<exists>p \<in> set ps. sublist p (s @ '' ''))"
    using matched_iff [OF trie linked v(2) sub] by (simp only:)
  then show ?case unfolding findFolded_from.simps v(1) by (simp only: option.map list.map append_Nil)
next
  case (Cons c t)
  obtain v where v: "ac_step ns cur (foldTable c) = Some v" "longest ws v (s @ [foldTable c])"
    using ac_step_spec [OF trie linked Cons.prems(1)] .
  note iff = matched_iff [OF trie linked v(2) sub]
  show ?case
  proof (cases "ac_matched (ns ! v)")
    case None
    then have none: "\<not> suffix p (s @ [foldTable c])" if "p \<in> set ps" for p using iff that by blast
    have "\<forall>p \<in> set ps. \<not> sublist p (s @ [foldTable c]) \<or> p = '' ''"
    proof
      fix p assume p: "p \<in> set ps"
      show "\<not> sublist p (s @ [foldTable c]) \<or> p = '' ''"
        using none [OF p] bspec [OF Cons.prems(2) p] by (simp only: sublist_snoc simp_thms)
    qed
    from Cons.IH [OF v(2) this] show ?thesis
      unfolding findFolded_from.simps v(1) option.case None by (simp only: append.assoc append_Cons append_Nil list.map simp_thms if_False)
  next
    case (Some k)
    then obtain p where p: "p \<in> set ps" "suffix p (s @ [foldTable c])" using iff by blast
    have "sublist (s @ [foldTable c]) ((s @ [foldTable c]) @ (List.map foldTable t @ '' ''))"
      by (rule prefix_imp_sublist) simp
    then have "sublist p (s @ List.map foldTable (c # t) @ '' '')"
      using sublist_order.order_trans [OF suffix_imp_sublist [OF p(2)]] by simp
    then have "\<exists>p \<in> set ps. sublist p (s @ List.map foldTable (c # t) @ '' '')" using p(1) by blast
    then show ?thesis unfolding findFolded_from.simps v(1) option.case Some by (simp only: simp_thms option.distinct if_True)
  qed
qed

lemma findFolded_correct:
  assumes "[] \<notin> set patterns"
  shows "\<exists>ns. newMatcher iter patterns = Some ns
    \<and> findFolded ns t = Some (\<exists>p \<in> set patterns. sublist p ('' '' @ List.map foldTable t @ '' ''))"
proof (rule newMatcher_links [where iter = iter, OF assms])
  fix ns ws
  assume m: "newMatcher iter patterns = Some ns" "trie_ok ns ws" "\<forall>u < length ns. linked ns ws patterns u"
    "set patterns \<subseteq> set ws"
  have "longest ws 0 []" using trie_root [OF m(2)] by (auto simp: longest_def)
  from ac_step_spec [OF m(2,3) this, of "CHR '' ''"]
  obtain v where v: "ac_step ns 0 CHR '' '' = Some v" "longest ws v '' ''" by auto
  have "\<forall>p \<in> set patterns. \<not> sublist p '' '' \<or> p = '' ''"
    using assms by (auto simp: sublist_Cons_right prefix_Cons)
  from findFolded_from_spec [OF m(2-4) v(2) this] show ?thesis using m(1) v(1) by (simp add: findFolded_def)
qed

section \<open>The interface of the lexicon\<close>

text \<open>What the lexicon relies on: building returns, and the two scans find the patterns that occur.\<close>

locale pattern_matcher =
  fixes build :: "string list \<Rightarrow> 'm option"
    and find_in :: "'m \<Rightarrow> string \<Rightarrow> nat option option"
    and find_folded :: "'m \<Rightarrow> string \<Rightarrow> bool option"
  assumes build_returns: "[] \<notin> set ps \<Longrightarrow> \<exists>m. build ps = Some m"
    and find_first: "\<lbrakk>[] \<notin> set ps; build ps = Some m\<rbrakk> \<Longrightarrow> \<exists>r. find_in m t = Some r \<and> first_match ps t r"
    and folded_iff: "\<lbrakk>[] \<notin> set ps; build ps = Some m\<rbrakk>
      \<Longrightarrow> find_folded m t = Some (\<exists>p \<in> set ps. sublist p ('' '' @ map foldTable t @ '' ''))"
begin

lemma find_hit:
  assumes "[] \<notin> set ps" "build ps = Some m"
  shows "find_in m t = Some None \<and> (\<forall>p \<in> set ps. \<not> sublist p t)
    \<or> (\<exists>k < length ps. find_in m t = Some (Some k) \<and> sublist (ps ! k) t)"
proof -
  obtain r where r: "find_in m t = Some r" "first_match ps t r" using find_first [OF assms] by blast
  show ?thesis
  proof (cases r)
    case None
    then show ?thesis using r by (simp add: first_match_def)
  next
    case (Some k)
    then obtain s where s: "k < length ps" "prefix s t" "suffix (ps ! k) s"
      using r(2) by (auto simp: first_match_def)
    then have "sublist (ps ! k) t"
      using sublist_order.order_trans [OF suffix_imp_sublist prefix_imp_sublist] by blast
    then show ?thesis using r(1) Some s(1) by blast
  qed
qed

text \<open>The folded scan sees every pattern that the plain scan sees in text that folding leaves alone.\<close>

lemma folded_complete:
  assumes "[] \<notin> set ps" "build ps = Some m" "p \<in> set ps" "sublist p ('' '' @ map foldTable t @ '' '')"
  shows "find_folded m t = Some True"
proof -
  have "\<exists>p \<in> set ps. sublist p ('' '' @ map foldTable t @ '' '')" using assms(3,4) by blast
  then show ?thesis unfolding folded_iff [OF assms(1,2)] by (simp only: option.inject)
qed

end

interpretation ac: pattern_matcher "newMatcher iter" "\<lambda>ns. ac_find ns 0" findFolded for iter
proof unfold_locales
  fix ps :: "string list" and t :: string
  assume ne: "[] \<notin> set ps"
  show "\<exists>m. newMatcher iter ps = Some m" using find_correct [where iter = iter, OF ne] by blast
next
  fix ps :: "string list" and m t
  assume m: "[] \<notin> set ps" "newMatcher iter ps = Some m"
  show "\<exists>r. ac_find m 0 t = Some r \<and> first_match ps t r" using find_correct [where iter = iter and t = t, OF m(1)] m(2) by auto
  show "findFolded m t = Some (\<exists>p \<in> set ps. sublist p ('' '' @ map foldTable t @ '' ''))"
    using findFolded_correct [where iter = iter and t = t, OF m(1)] m(2) by auto
qed

section \<open>Properties\<close>

text \<open>C32: Whatever the order in which the maps are visited, building the matcher for non-empty
  patterns returns, with every failure link in place, and a scan returns the pattern that ends first
  in the text: none when no pattern occurs, and no pattern occurs before the one returned ends.\<close>

theorem matcher_finds_first:
  assumes "[] \<notin> set patterns"
  shows "\<exists>ns r. newMatcher iter patterns = Some ns \<and> ac_find ns 0 t = Some r \<and> first_match patterns t r"
  by (rule find_correct [OF assms])

theorem matcher_finds_first_witness:
  "\<exists>ns r. newMatcher rev [''he'', ''she'', ''hers'', ''his''] = Some ns \<and> ac_find ns 0 ''ushers'' = Some r
    \<and> first_match [''he'', ''she'', ''hers'', ''his''] ''ushers'' r"
  by (rule matcher_finds_first) simp

end
