(* ===== verification/Floor.thy ===== *)
theory Floor
  imports Skeleton AhoCorasick
begin

text \<open>
  The moderation floor of internal/moderation/floor.go and lexicon.go: IP-logger domains and scam
  phrases in a skeleton, the categorised lexicon over the multi-pattern matcher, the cheap prescan
  and the check applied to what the bot says.  \<open>None\<close> stands for a panic (an index out of range) in
  the floor scanners and for a matcher out of fuel in the lexicon; both are shown not to happen.
\<close>

section \<open>Terms\<close>

definition IPLoggerDomains :: "string list" where
  "IPLoggerDomains =
    [''grabify.link'', ''iplogger.org'', ''iplogger.com'', ''iplogger.ru'',
     ''2no.co'', ''yip.su'', ''blasze.com'', ''stopify.co'', ''ps3cfw.com'', ''ipgrabber'']"

definition ScamTerms :: "string list" where
  "ScamTerms =
    [''free bits'', ''free gift sub'', ''free nitro'', ''cheap followers'',
     ''cheap viewers'', ''buy followers'', ''claim your prize'']"

datatype FloorKind = FloorNone | FloorIPLogger | FloorScam

fun FloorKind_String :: "FloorKind \<Rightarrow> string" where
  "FloorKind_String FloorIPLogger = ''ip_logger''"
| "FloorKind_String FloorScam = ''scam''"
| "FloorKind_String FloorNone = ''none''"

record floorHit =
  fh_kind :: FloorKind
  fh_term :: string

definition no_hit :: floorHit where
  "no_hit = \<lparr>fh_kind = FloorNone, fh_term = []\<rparr>"

definition ipLoggerPatterns :: "unicode \<Rightarrow> string list" where
  "ipLoggerPatterns u = map (Normalize u) IPLoggerDomains"

text \<open>\<open>strings.Fields\<close>: the maximal runs of runes that are not white space.\<close>

fun fields_from :: "string \<Rightarrow> (nat \<times> string) list \<Rightarrow> string list" where
  "fields_from w [] = (if w = [] then [] else [w])"
| "fields_from w ((r, bs) # rs) =
    (if is_space r then (if w = [] then [] else [w]) @ fields_from [] rs else fields_from (w @ bs) rs)"

definition fields :: "string \<Rightarrow> string list" where
  "fields s = fields_from [] (runes s)"

definition scamPhrases :: "unicode \<Rightarrow> string list list" where
  "scamPhrases u = map (\<lambda>t. map (Normalize u) (fields t)) ScamTerms"

section \<open>Scanning a skeleton\<close>

definition isFloorTokenByte :: "char \<Rightarrow> bool" where
  "isFloorTokenByte b \<longleftrightarrow> CHR ''a'' \<le> b \<and> b \<le> CHR ''z''"

definition isFloorAlnumByte :: "char \<Rightarrow> bool" where
  "isFloorAlnumByte b \<longleftrightarrow> CHR ''a'' \<le> b \<and> b \<le> CHR ''z'' \<or> CHR ''0'' \<le> b \<and> b \<le> CHR ''9''"

text \<open>\<open>bytes.Index\<close>, and \<open>skelBuf.index\<close>: the outer \<open>None\<close> is a slice out of range.\<close>

fun bytes_index :: "string \<Rightarrow> string \<Rightarrow> nat option" where
  "bytes_index [] d = (if d = [] then Some 0 else None)"
| "bytes_index (c # s) d = (if has_prefix (c # s) d then Some 0 else map_option Suc (bytes_index s d))"

definition skel_index :: "string \<Rightarrow> string \<Rightarrow> nat \<Rightarrow> nat option option" where
  "skel_index v d i = (if length v < i then None else Some (map_option ((+) i) (bytes_index (drop i v) d)))"

definition domainBounded :: "string \<Rightarrow> nat \<Rightarrow> nat \<Rightarrow> bool" where
  "domainBounded v s e =
    (if 0 < s \<and> isFloorAlnumByte (v ! (s - 1)) then False else e = length v \<or> \<not> isFloorAlnumByte (v ! e))"

text \<open>The inner loop of \<open>matchDomain\<close>: each occurrence of \<open>d\<close> from \<open>i\<close> on.\<close>

function domain_scan :: "string \<Rightarrow> string \<Rightarrow> nat \<Rightarrow> bool option" where
  "domain_scan v d i =
    (case skel_index v d i of
       None \<Rightarrow> None
     | Some None \<Rightarrow> Some False
     | Some (Some s) \<Rightarrow> if domainBounded v s (s + length d) then Some True else domain_scan v d (s + 1))"
  by pat_completeness auto
termination
  by (relation "measure (\<lambda>(v, d, i). Suc (length v) - i)") (auto simp: skel_index_def split: if_splits)

declare domain_scan.simps [simp del]

fun matchDomain_from :: "string \<Rightarrow> (string \<times> string) list \<Rightarrow> floorHit option" where
  "matchDomain_from v [] = Some no_hit"
| "matchDomain_from v ((d, term) # ds) =
    (case domain_scan v d 0 of
       None \<Rightarrow> None
     | Some True \<Rightarrow> Some \<lparr>fh_kind = FloorIPLogger, fh_term = term\<rparr>
     | Some False \<Rightarrow> matchDomain_from v ds)"

definition matchDomain :: "unicode \<Rightarrow> string \<Rightarrow> floorHit option" where
  "matchDomain u v = matchDomain_from v (zip (ipLoggerPatterns u) IPLoggerDomains)"

function scan_while :: "(char \<Rightarrow> bool) \<Rightarrow> string \<Rightarrow> nat \<Rightarrow> nat" where
  "scan_while P v i = (if i < length v \<and> P (v ! i) then scan_while P v (i + 1) else i)"
  by pat_completeness auto
termination by (relation "measure (\<lambda>(P, v, i). length v - i)") auto

declare scan_while.simps [simp del]

definition nextFloorToken :: "string \<Rightarrow> nat \<Rightarrow> (nat \<times> nat) option" where
  "nextFloorToken v start =
    (let i = scan_while (\<lambda>c. \<not> isFloorTokenByte c) v start in
     if length v \<le> i then None else Some (i, scan_while isFloorTokenByte v i))"

fun eqRun :: "string \<Rightarrow> nat \<Rightarrow> string \<Rightarrow> bool" where
  "eqRun v pos [] = True"
| "eqRun v pos (b # w) = (if v ! pos \<noteq> b then False else eqRun v (pos + 1) w)"

text \<open>\<open>phraseAt\<close>: the first word is at \<open>start\<close>, each further word is the next token.\<close>

definition word_at :: "string \<Rightarrow> nat \<Rightarrow> nat \<Rightarrow> string \<Rightarrow> bool" where
  "word_at v start end' w = (end' - start = length w \<and> eqRun v start w)"

fun phrase_rest :: "string \<Rightarrow> nat \<Rightarrow> string list \<Rightarrow> bool" where
  "phrase_rest v end' [] = True"
| "phrase_rest v end' (w # ws) =
    (case nextFloorToken v end' of
       None \<Rightarrow> False
     | Some (start, end') \<Rightarrow> if word_at v start end' w then phrase_rest v end' ws else False)"

definition phraseAt :: "string \<Rightarrow> nat \<Rightarrow> nat \<Rightarrow> string list \<Rightarrow> bool" where
  "phraseAt v start end' ws =
    (case ws of [] \<Rightarrow> True | w # ws \<Rightarrow> if word_at v start end' w then phrase_rest v end' ws else False)"

fun phrase_hit :: "string \<Rightarrow> nat \<Rightarrow> nat \<Rightarrow> (string list \<times> string) list \<Rightarrow> string option" where
  "phrase_hit v start end' [] = None"
| "phrase_hit v start end' ((ws, term) # ps) =
    (if phraseAt v start end' ws then Some term else phrase_hit v start end' ps)"

lemma scan_while_le: "i \<le> scan_while P v i"
  by (induction P v i rule: scan_while.induct) (metis scan_while.simps Suc_eq_plus1 Suc_leD order_refl)

lemma scan_while_stop: "scan_while P v i < length v \<Longrightarrow> \<not> P (v ! scan_while P v i)"
  by (induction P v i rule: scan_while.induct) (metis scan_while.simps)

lemma nextFloorToken_bounds:
  assumes "nextFloorToken v i = Some (start, end')"
  shows "i \<le> start" "start < end'" "start < length v"
proof -
  let ?s = "scan_while (\<lambda>c. \<not> isFloorTokenByte c) v i"
  have s: "start = ?s" "?s < length v" "end' = scan_while isFloorTokenByte v ?s"
    using assms by (auto simp: nextFloorToken_def Let_def split: if_splits)
  then have "isFloorTokenByte (v ! ?s)" using scan_while_stop by blast
  then have "end' = scan_while isFloorTokenByte v (?s + 1)"
    using s by (simp add: scan_while.simps [of _ _ ?s])
  then show "i \<le> start" "start < end'" "start < length v"
    using s scan_while_le [of ?s isFloorTokenByte v] scan_while_le [of "?s + 1" isFloorTokenByte v]
      scan_while_le [of i _ v] by auto
qed

function matchScam_from :: "(string list \<times> string) list \<Rightarrow> string \<Rightarrow> nat \<Rightarrow> floorHit" where
  "matchScam_from ps v i =
    (case nextFloorToken v i of
       None \<Rightarrow> no_hit
     | Some (start, end') \<Rightarrow>
         (case phrase_hit v start end' ps of
            Some term \<Rightarrow> \<lparr>fh_kind = FloorScam, fh_term = term\<rparr>
          | None \<Rightarrow> matchScam_from ps v end'))"
  by pat_completeness auto
termination
proof (relation "measure (\<lambda>(ps, v, i). length v - i)")
  fix ps v i x start end'
  assume "nextFloorToken v i = Some x" "(start, end') = x"
  then show "((ps, v, end'), ps, v, i) \<in> measure (\<lambda>(ps, v, i). length v - i)"
    using nextFloorToken_bounds [of v i start end'] by simp
qed simp

declare matchScam_from.simps [simp del]

definition matchScam :: "unicode \<Rightarrow> string \<Rightarrow> floorHit" where
  "matchScam u v = matchScam_from (zip (scamPhrases u) ScamTerms) v 0"

definition MatchFloor :: "unicode \<Rightarrow> string \<Rightarrow> (FloorKind \<times> string) option" where
  "MatchFloor u skel =
    (if skel = [] then Some (FloorNone, [])
     else case matchDomain u skel of
       None \<Rightarrow> None
     | Some h \<Rightarrow>
         if fh_kind h \<noteq> FloorNone then Some (fh_kind h, fh_term h)
         else (let h = matchScam u skel in
           if fh_kind h \<noteq> FloorNone then Some (fh_kind h, fh_term h) else Some (FloorNone, [])))"

definition MatchFloorPrescan :: "unicode \<Rightarrow> string \<Rightarrow> (FloorKind \<times> string) option" where
  "MatchFloorPrescan u t =
    (let v = normalizeASCII t in
     case matchDomain u v of
       None \<Rightarrow> None
     | Some h \<Rightarrow> (let h = (if fh_kind h = FloorNone then matchScam u v else h) in Some (fh_kind h, fh_term h)))"

section \<open>Domains\<close>

lemma bytes_index_None: "bytes_index s d = None \<longleftrightarrow> (\<forall>j. \<not> has_prefix (drop j s) d)"
proof (induction s)
  case Nil
  then show ?case by (cases d) auto
next
  case (Cons c s)
  have "(\<forall>j. \<not> has_prefix (drop j (c # s)) d) \<longleftrightarrow> \<not> has_prefix (c # s) d \<and> (\<forall>j. \<not> has_prefix (drop j s) d)"
    by (metis drop0 drop_Suc_Cons not0_implies_Suc)
  then show ?case using Cons by simp
qed

lemma bytes_index_Some:
  "bytes_index s d = Some j \<Longrightarrow> j \<le> length s \<and> has_prefix (drop j s) d \<and> (\<forall>k < j. \<not> has_prefix (drop k s) d)"
proof (induction s arbitrary: j)
  case (Cons c s)
  show ?case
  proof (cases "has_prefix (c # s) d")
    case False
    then obtain i where i: "bytes_index s d = Some i" "j = Suc i" using Cons.prems by auto
    have "\<not> has_prefix (drop k (c # s)) d" if "k < j" for k
      using that False Cons.IH [OF i(1)] i(2) by (cases k) auto
    then show ?thesis using Cons.IH [OF i(1)] i(2) by simp
  qed (use Cons.prems in simp)
qed (auto split: if_splits)

text \<open>An occurrence of \<open>d\<close> with no letter or digit beside it.\<close>

definition bounded_at :: "string \<Rightarrow> string \<Rightarrow> nat \<Rightarrow> bool" where
  "bounded_at v d s \<longleftrightarrow> has_prefix (drop s v) d \<and> domainBounded v s (s + length d)"

lemma domain_scan_spec:
  "\<lbrakk>d \<noteq> []; i \<le> length v\<rbrakk> \<Longrightarrow> domain_scan v d i = Some (\<exists>s \<ge> i. bounded_at v d s)"
proof (induction v d i rule: domain_scan.induct)
  case (1 v d i)
  show ?case
  proof (cases "bytes_index (drop i v) d")
    case None
    then have "\<not> has_prefix (drop s v) d" if "i \<le> s" for s
      using that bytes_index_None [of "drop i v" d] by (metis drop_drop le_add_diff_inverse2)
    then show ?thesis
      using None 1(3) by (auto simp: domain_scan.simps [of v d i] skel_index_def bounded_at_def)
  next
    case (Some j)
    note found = bytes_index_Some [OF Some]
    then have s: "has_prefix (drop (i + j) v) d" by (simp add: add.commute)
    then have "length d \<le> length (drop (i + j) v)" by (metis has_prefix_append le_add1 length_append)
    moreover have "0 < length d" using 1(2) by simp
    ultimately have len: "i + j + length d \<le> length v" unfolding length_drop by linarith
    have index: "skel_index v d i = Some (Some (i + j))" using 1(3) Some by (simp add: skel_index_def)
    show ?thesis
    proof (cases "domainBounded v (i + j) (i + j + length d)")
      case True
      then have "\<exists>s \<ge> i. bounded_at v d s" using s by (auto simp: bounded_at_def intro!: exI [of _ "i + j"])
      then show ?thesis using index True by (simp add: domain_scan.simps [of v d i])
    next
      case False
      have "(\<exists>s \<ge> i. bounded_at v d s) \<longleftrightarrow> (\<exists>s \<ge> i + j + 1. bounded_at v d s)"
      proof
        assume "\<exists>s \<ge> i. bounded_at v d s"
        then obtain t where t: "i \<le> t" "bounded_at v d t" by blast
        then have "\<not> t - i < j" using found
          by (metis bounded_at_def drop_drop le_add_diff_inverse2)
        moreover have "t \<noteq> i + j" using False t(2) by (auto simp: bounded_at_def)
        ultimately have "i + j + 1 \<le> t" using t(1) by linarith
        then show "\<exists>s \<ge> i + j + 1. bounded_at v d s" using t(2) by blast
      next
        assume "\<exists>s \<ge> i + j + 1. bounded_at v d s"
        then show "\<exists>s \<ge> i. bounded_at v d s" by (meson add_leD1)
      qed
      moreover have "i + j + 1 \<le> length v" using len 1(2) by (cases d) auto
      ultimately show ?thesis
        using 1(1) [OF index refl False 1(2)] index False by (simp add: domain_scan.simps [of v d i])
    qed
  qed
qed


definition domain_in :: "string \<Rightarrow> string \<Rightarrow> bool" where
  "domain_in v d \<longleftrightarrow> (\<exists>s. bounded_at v d s)"

lemma domain_scan_in: "d \<noteq> [] \<Longrightarrow> domain_scan v d 0 = Some (domain_in v d)"
  by (simp add: domain_scan_spec domain_in_def)

lemma matchDomain_from_spec:
  "\<forall>(d, term) \<in> set ds. d \<noteq> [] \<Longrightarrow>
    matchDomain_from v ds = Some (case find (\<lambda>(d, term). domain_in v d) ds of
      None \<Rightarrow> no_hit | Some (d, term) \<Rightarrow> \<lparr>fh_kind = FloorIPLogger, fh_term = term\<rparr>)"
proof (induction ds)
  case (Cons x ds)
  then show ?case by (cases x; cases "domain_in v (fst x)") (simp_all add: domain_scan_in)
qed simp

section \<open>Phrases\<close>

text \<open>The words of a skeleton: its maximal runs of letters.\<close>

function letter_runs :: "string \<Rightarrow> string list" where
  "letter_runs v =
    (let w = dropWhile (\<lambda>c. \<not> isFloorTokenByte c) v in
     if w = [] then [] else takeWhile isFloorTokenByte w # letter_runs (dropWhile isFloorTokenByte w))"
  by pat_completeness auto
termination
proof (relation "measure length")
  fix v w assume w: "w = dropWhile (\<lambda>c. \<not> isFloorTokenByte c) v" "w \<noteq> []"
  then have "isFloorTokenByte (hd w)" using hd_dropWhile by blast
  then have "length (dropWhile isFloorTokenByte w) < length w"
    using w(2) by (cases w) (auto simp: length_dropWhile_le le_imp_less_Suc)
  also have "length w \<le> length v" using w(1) by (simp add: length_dropWhile_le)
  finally show "(dropWhile isFloorTokenByte w, v) \<in> measure length" by simp
qed simp

declare letter_runs.simps [simp del]

lemma scan_while_eq: "i \<le> length v \<Longrightarrow> scan_while P v i = i + length (takeWhile P (drop i v))"
proof (induction P v i rule: scan_while.induct)
  case (1 P v i)
  show ?case
  proof (cases "i < length v \<and> P (v ! i)")
    case True
    then show ?thesis using 1 by (simp add: scan_while.simps [of P v i] nth_split_at)
  next
    case False
    then have "scan_while P v i = i" by (subst scan_while.simps) auto
    moreover have "takeWhile P (drop i v) = []" using False 1(2) by (cases "i = length v") (auto simp: nth_split_at)
    ultimately show ?thesis by simp
  qed
qed

lemma dropWhile_drop: "dropWhile P v = drop (length (takeWhile P v)) v"
  by (induction v) auto

lemma nextFloorToken_runs:
  assumes "i \<le> length v"
  shows "case nextFloorToken v i of
      None \<Rightarrow> letter_runs (drop i v) = []
    | Some (start, end') \<Rightarrow> start \<le> end' \<and> end' \<le> length v
        \<and> letter_runs (drop i v) = slice v start end' # letter_runs (drop end' v)"
proof -
  let ?P = "\<lambda>c. \<not> isFloorTokenByte c"
  let ?s = "scan_while ?P v i"
  have s: "?s = i + length (takeWhile ?P (drop i v))" by (rule scan_while_eq [OF assms])
  then have w: "dropWhile ?P (drop i v) = drop ?s v" by (simp add: dropWhile_drop add.commute)
  have "length (takeWhile ?P (drop i v)) \<le> length (drop i v)" by (rule length_takeWhile_le)
  then have le: "?s \<le> length v" using s assms by simp
  show ?thesis
  proof (cases "length v \<le> ?s")
    case True
    then show ?thesis using w by (simp add: nextFloorToken_def Let_def letter_runs.simps [of "drop i v"])
  next
    case False
    let ?e = "scan_while isFloorTokenByte v ?s"
    have e: "?e = ?s + length (takeWhile isFloorTokenByte (drop ?s v))" by (rule scan_while_eq [OF le])
    moreover have "length (takeWhile isFloorTokenByte (drop ?s v)) \<le> length (drop ?s v)" by (rule length_takeWhile_le)
    ultimately have le': "?e \<le> length v" using le by simp
    have "dropWhile isFloorTokenByte (drop ?s v) = drop ?e v" using e by (simp add: dropWhile_drop add.commute)
    moreover have "takeWhile isFloorTokenByte (drop ?s v) = slice v ?s ?e"
      using e by (simp add: slice_def takeWhile_eq_take [symmetric])
    ultimately have "letter_runs (drop i v) = slice v ?s ?e # letter_runs (drop ?e v)"
      using False w by (simp add: letter_runs.simps [of "drop i v"] Let_def)
    then show ?thesis using False le' scan_while_le by (simp add: nextFloorToken_def Let_def)
  qed
qed

lemma eqRun_take: "pos + length w \<le> length v \<Longrightarrow> eqRun v pos w \<longleftrightarrow> take (length w) (drop pos v) = w"
  by (induction w arbitrary: pos) (auto simp: nth_split_at)

lemma word_at_slice: "\<lbrakk>start \<le> end'; end' \<le> length v\<rbrakk> \<Longrightarrow> word_at v start end' w \<longleftrightarrow> slice v start end' = w"
  unfolding word_at_def slice_def using eqRun_take [of start w v] by auto

lemma phrase_rest_runs: "end' \<le> length v \<Longrightarrow> phrase_rest v end' ws \<longleftrightarrow> prefix ws (letter_runs (drop end' v))"
proof (induction ws arbitrary: end')
  case (Cons w ws)
  note tok = nextFloorToken_runs [OF Cons.prems]
  show ?case
  proof (cases "nextFloorToken v end'")
    case None
    then show ?thesis using tok by simp
  next
    case (Some x)
    then show ?thesis using tok Cons.IH word_at_slice by (cases x) (auto simp: prefix_Cons)
  qed
qed simp

lemma phraseAt_runs:
  "\<lbrakk>start \<le> end'; end' \<le> length v\<rbrakk>
    \<Longrightarrow> phraseAt v start end' ws \<longleftrightarrow> prefix ws (slice v start end' # letter_runs (drop end' v))"
  by (cases ws) (auto simp: phraseAt_def word_at_slice phrase_rest_runs)

text \<open>The reference: at the first word where a phrase begins, the first phrase that does.\<close>

fun scam_words :: "(string list \<times> string) list \<Rightarrow> string list \<Rightarrow> floorHit" where
  "scam_words ps [] = no_hit"
| "scam_words ps (w # ws) =
    (case find (\<lambda>(p, term). prefix p (w # ws)) ps of
       Some (p, term) \<Rightarrow> \<lparr>fh_kind = FloorScam, fh_term = term\<rparr>
     | None \<Rightarrow> scam_words ps ws)"

lemma phrase_hit_runs:
  "\<lbrakk>start \<le> end'; end' \<le> length v\<rbrakk> \<Longrightarrow>
    phrase_hit v start end' ps = map_option snd (find (\<lambda>(p, term). prefix p (slice v start end' # letter_runs (drop end' v))) ps)"
  by (induction ps) (auto simp: phraseAt_runs)

lemma matchScam_from_words: "i \<le> length v \<Longrightarrow> matchScam_from ps v i = scam_words ps (letter_runs (drop i v))"
proof (induction ps v i rule: matchScam_from.induct)
  case (1 ps v i)
  note tok = nextFloorToken_runs [OF 1(2)]
  show ?case
  proof (cases "nextFloorToken v i")
    case None
    then show ?thesis using tok by (simp add: matchScam_from.simps [of ps v i])
  next
    case (Some x)
    obtain start end' where x: "x = (start, end')" by fastforce
    then have b: "start \<le> end'" "end' \<le> length v"
      "letter_runs (drop i v) = slice v start end' # letter_runs (drop end' v)"
      using tok Some by simp_all
    show ?thesis
    proof (cases "phrase_hit v start end' ps")
      case None
      then show ?thesis
        using 1(1) [OF Some x [symmetric] None b(2)] Some x b phrase_hit_runs [OF b(1,2), of ps]
        by (simp add: matchScam_from.simps [of ps v i])
    next
      case (Some t)
      then obtain p where "find (\<lambda>(p, term). prefix p (slice v start end' # letter_runs (drop end' v))) ps = Some (p, t)"
        using phrase_hit_runs [OF b(1,2), of ps] by auto
      then show ?thesis
        using Some \<open>nextFloorToken v i = Some x\<close> x b by (simp add: matchScam_from.simps [of ps v i])
    qed
  qed
qed


section \<open>The lexicon\<close>

datatype Category = CatNone | CatHate | CatHarassment | CatSexual | CatProfanity

fun Category_String :: "Category \<Rightarrow> string" where
  "Category_String CatHate = ''hate''"
| "Category_String CatHarassment = ''harassment''"
| "Category_String CatSexual = ''sexual''"
| "Category_String CatProfanity = ''profanity''"
| "Category_String CatNone = ''none''"

definition lexFiles :: "(Category \<times> string) list" where
  "lexFiles =
    [(CatHate, ''hate.txt''), (CatHarassment, ''harassment.txt''), (CatSexual, ''sexual.txt''),
     (CatProfanity, ''profanity.txt'')]"

record Lexicon =
  cats :: "Category \<Rightarrow> ac_node list option"
  lex_terms :: "Category \<Rightarrow> string list"

definition empty_lexicon :: Lexicon where
  "empty_lexicon = \<lparr>cats = \<lambda>_. None, lex_terms = \<lambda>_. []\<rparr>"

text \<open>The terms with a skeleton, and their patterns: the skeleton between two spaces.\<close>

definition kept_terms :: "unicode \<Rightarrow> string list \<Rightarrow> string list" where
  "kept_terms u terms = filter (\<lambda>t. Normalize u t \<noteq> []) terms"

definition lex_pattern :: "unicode \<Rightarrow> string \<Rightarrow> string" where
  "lex_pattern u t = '' '' @ Normalize u t @ '' ''"

type_synonym map_order = "(char \<times> nat) list \<Rightarrow> (char \<times> nat) list"

fun newLexicon_from :: "unicode \<Rightarrow> map_order \<Rightarrow> Lexicon \<Rightarrow> (Category \<times> string list) list \<Rightarrow> Lexicon option" where
  "newLexicon_from u iter l [] = Some l"
| "newLexicon_from u iter l ((cat, terms) # byCat) =
    (let kept = kept_terms u terms; patterns = map (lex_pattern u) kept in
     if patterns = [] then newLexicon_from u iter l byCat
     else case newMatcher iter patterns of
       None \<Rightarrow> None
     | Some m \<Rightarrow>
         newLexicon_from u iter
           (l\<lparr>cats := (cats l)(cat := Some m), lex_terms := (lex_terms l)(cat := kept)\<rparr>) byCat)"

definition newLexicon :: "unicode \<Rightarrow> map_order \<Rightarrow> (Category \<times> string list) list \<Rightarrow> Lexicon option" where
  "newLexicon u iter byCat = newLexicon_from u iter empty_lexicon byCat"

text \<open>\<open>Scan\<close> over the categories; the outer \<open>None\<close> is a matcher out of fuel.\<close>

fun Scan_from :: "Lexicon \<Rightarrow> string \<Rightarrow> bool \<Rightarrow> (Category \<times> string) list \<Rightarrow> (Category \<times> string) option" where
  "Scan_from l padded floorOnly [] = Some (CatNone, [])"
| "Scan_from l padded floorOnly ((cat, f) # specs) =
    (if floorOnly \<and> cat \<noteq> CatHate then Some (CatNone, [])
     else case cats l cat of
       None \<Rightarrow> Scan_from l padded floorOnly specs
     | Some m \<Rightarrow>
         (case ac_find m 0 padded of
            None \<Rightarrow> None
          | Some (Some i) \<Rightarrow> Some (cat, lex_terms l cat ! i)
          | Some None \<Rightarrow> Scan_from l padded floorOnly specs))"

definition Scan :: "Lexicon option \<Rightarrow> string \<Rightarrow> bool \<Rightarrow> (Category \<times> string) option" where
  "Scan l padded floorOnly = (case l of None \<Rightarrow> Some (CatNone, []) | Some l \<Rightarrow> Scan_from l padded floorOnly lexFiles)"

definition FloorPrescan :: "Lexicon option \<Rightarrow> string \<Rightarrow> bool option" where
  "FloorPrescan l t =
    (case l of
       None \<Rightarrow> Some False
     | Some l \<Rightarrow> (case cats l CatHate of None \<Rightarrow> Some False | Some m \<Rightarrow> findFolded m t))"

definition Terms :: "Lexicon option \<Rightarrow> Category \<Rightarrow> string list" where
  "Terms l c = (case l of None \<Rightarrow> [] | Some l \<Rightarrow> lex_terms l c)"

text \<open>
  \<open>parseTerms\<close>: \<open>bufio.Scanner\<close> yields the lines without their line ends and stops at a line that
  does not fit its buffer of 65536 bytes.
\<close>

definition drop_cr :: "string \<Rightarrow> string" where
  "drop_cr s = (if s \<noteq> [] \<and> last s = CHR 0x0D then butlast s else s)"

definition scan_lines :: "string \<Rightarrow> string list" where
  "scan_lines data =
    (let lines = split_byte data CHR 0x0A;
         lines = (if last lines = [] then butlast lines else lines)
     in map drop_cr (takeWhile (\<lambda>line. length line < 65536) lines))"

definition parseTerms :: "string \<Rightarrow> string list" where
  "parseTerms data = filter (\<lambda>line. \<not> (line = [] \<or> has_prefix line ''#'')) (map trim_space (scan_lines data))"

text \<open>The file systems are functions from a path to the contents.\<close>

type_synonym file_system = "string \<Rightarrow> string option"

definition EmbeddedLexicon :: "unicode \<Rightarrow> map_order \<Rightarrow> file_system \<Rightarrow> Lexicon option" where
  "EmbeddedLexicon u iter embedded =
    newLexicon u iter (List.map_filter (\<lambda>(cat, f). map_option (\<lambda>data. (cat, parseTerms data)) (embedded (''artifact/'' @ f))) lexFiles)"

definition LoadLexiconDir ::
  "unicode \<Rightarrow> map_order \<Rightarrow> file_system \<Rightarrow> bool \<Rightarrow> file_system \<Rightarrow> string + Lexicon option" where
  "LoadLexiconDir u iter embedded dir_exists dir =
    (if \<not> dir_exists then Inl ''lexicon dir''
     else Inr (newLexicon u iter (List.map_filter
       (\<lambda>(cat, f). case dir f of
          Some data \<Rightarrow> Some (cat, parseTerms data)
        | None \<Rightarrow> map_option (\<lambda>data. (cat, parseTerms data)) (embedded (''artifact/'' @ f))) lexFiles)))"

text \<open>\<open>CheckFloor\<close> with the embedded lexicon as an argument.\<close>

definition CheckFloor :: "unicode \<Rightarrow> Lexicon option \<Rightarrow> string \<Rightarrow> (string \<times> bool) option" where
  "CheckFloor u l t =
    (if t = [] then Some ([], False)
     else let skel = Normalize u t in
     if skel = [] then Some ([], False)
     else case matchDomain u skel of
       None \<Rightarrow> None
     | Some h \<Rightarrow>
         if fh_kind h \<noteq> FloorNone then Some (fh_term h, True)
         else let padded = '' '' @ skel @ '' '' in
         case Scan l padded True of
           None \<Rightarrow> None
         | Some (cat, term) \<Rightarrow> if cat = CatHate then Some (term, True) else Some ([], False))"


section \<open>What the scanners compute\<close>

lemma plain_domains: "\<forall>d \<in> set IPLoggerDomains. isPlainASCII d \<and> normalizeASCII d \<noteq> []"
proof -
  have "list_all (\<lambda>d. isPlainASCII d \<and> normalizeASCII d \<noteq> []) IPLoggerDomains" by code_simp
  then show ?thesis by (simp add: list_all_iff)
qed

text \<open>The domains are plain, so their patterns do not depend on the Unicode tables.\<close>

lemma ipLoggerPatterns_plain: "ipLoggerPatterns u = map normalizeASCII IPLoggerDomains"
  using plain_domains by (simp add: ipLoggerPatterns_def Normalize_def)

definition domain_hit :: "string \<Rightarrow> string option" where
  "domain_hit v = find (\<lambda>d. domain_in v (normalizeASCII d)) IPLoggerDomains"

lemma find_zip_map: "find (\<lambda>(d, term). P d) (zip (map f ds) ds) = map_option (\<lambda>d. (f d, d)) (find (\<lambda>d. P (f d)) ds)"
  by (induction ds) auto

lemma matchDomain_exact:
  "matchDomain u v = Some (case domain_hit v of
      None \<Rightarrow> no_hit | Some d \<Rightarrow> \<lparr>fh_kind = FloorIPLogger, fh_term = d\<rparr>)"
proof -
  have "\<forall>(d, term) \<in> set (zip (map normalizeASCII IPLoggerDomains) IPLoggerDomains). d \<noteq> []"
    using plain_domains by (auto simp: set_zip)
  from matchDomain_from_spec [OF this, of v] show ?thesis
    unfolding matchDomain_def ipLoggerPatterns_plain find_zip_map domain_hit_def by (simp split: option.splits)
qed

lemma matchScam_exact: "matchScam u v = scam_words (zip (scamPhrases u) ScamTerms) (letter_runs v)"
  by (simp add: matchScam_def matchScam_from_words)

definition terms_of :: "(Category \<times> string list) list \<Rightarrow> Category \<Rightarrow> string list" where
  "terms_of byCat cat = (case map_of byCat cat of None \<Rightarrow> [] | Some ts \<Rightarrow> ts)"

text \<open>A category's matcher is the one of its kept terms, and there is none when no term is kept.\<close>

definition category_ok :: "unicode \<Rightarrow> Lexicon \<Rightarrow> Category \<Rightarrow> string list \<Rightarrow> bool" where
  "category_ok u l cat terms \<longleftrightarrow>
    lex_terms l cat = kept_terms u terms
    \<and> (case cats l cat of
         None \<Rightarrow> kept_terms u terms = []
       | Some m \<Rightarrow> \<exists>iter. newMatcher iter (map (lex_pattern u) (kept_terms u terms)) = Some m)"

lemma lex_pattern_nonempty: "[] \<notin> set (map (lex_pattern u) ts)"
  by (auto simp: lex_pattern_def)

lemma newLexicon_from_spec:
  "\<lbrakk>distinct (map fst byCat); \<forall>cat \<in> fst ` set byCat. category_ok u l cat []\<rbrakk>
    \<Longrightarrow> \<exists>l'. newLexicon_from u iter l byCat = Some l'
      \<and> (\<forall>cat \<in> fst ` set byCat. category_ok u l' cat (terms_of byCat cat))
      \<and> (\<forall>cat. cat \<notin> fst ` set byCat \<longrightarrow> cats l' cat = cats l cat \<and> lex_terms l' cat = lex_terms l cat)"
proof (induction byCat arbitrary: l)
  case (Cons x byCat)
  obtain cat terms where x: "x = (cat, terms)" by fastforce
  let ?kept = "kept_terms u terms"
  define l1 where "l1 = (if ?kept = [] then l else l\<lparr>
    cats := (cats l)(cat := newMatcher iter (map (lex_pattern u) ?kept)), lex_terms := (lex_terms l)(cat := ?kept)\<rparr>)"
  obtain m where m: "newMatcher iter (map (lex_pattern u) ?kept) = Some m"
    using ac.build_returns [OF lex_pattern_nonempty] by blast
  have step: "newLexicon_from u iter l (x # byCat) = newLexicon_from u iter l1 byCat"
    using m by (simp add: x l1_def Let_def)
  have notin: "cat \<notin> fst ` set byCat" using Cons.prems(1) x by simp
  have "category_ok u l cat []" using Cons.prems(2) x by simp
  then have ok: "category_ok u l1 cat terms"
    using m by (auto simp: category_ok_def l1_def kept_terms_def split: option.splits)
  have "\<forall>c \<in> fst ` set byCat. category_ok u l1 c []"
    using Cons.prems(2) notin by (auto simp: category_ok_def l1_def split: option.splits)
  then obtain l' where l': "newLexicon_from u iter l1 byCat = Some l'"
    "\<forall>c \<in> fst ` set byCat. category_ok u l' c (terms_of byCat c)"
    "\<forall>c. c \<notin> fst ` set byCat \<longrightarrow> cats l' c = cats l1 c \<and> lex_terms l' c = lex_terms l1 c"
    using Cons.IH [of l1] Cons.prems(1) by auto
  have "category_ok u l' cat (terms_of (x # byCat) cat)"
    using ok l'(3) notin by (simp add: category_ok_def terms_of_def x)
  moreover have "\<forall>c \<in> fst ` set byCat. category_ok u l' c (terms_of (x # byCat) c)"
    using l'(2) notin by (auto simp: terms_of_def x)
  moreover have "cats l' c = cats l c \<and> lex_terms l' c = lex_terms l c" if "c \<notin> fst ` set (x # byCat)" for c
    using l'(3) that by (auto simp: l1_def x)
  ultimately show ?case using l'(1) step x by auto
qed simp

lemma newLexicon_spec:
  assumes "distinct (map fst byCat)"
  shows "\<exists>l. newLexicon u iter byCat = Some l \<and> (\<forall>cat. category_ok u l cat (terms_of byCat cat))"
proof -
  have "\<forall>cat. category_ok u empty_lexicon cat []" by (simp add: category_ok_def empty_lexicon_def kept_terms_def)
  then obtain l where l: "newLexicon u iter byCat = Some l"
    "\<forall>cat \<in> fst ` set byCat. category_ok u l cat (terms_of byCat cat)"
    "\<forall>cat. cat \<notin> fst ` set byCat \<longrightarrow> cats l cat = cats empty_lexicon cat \<and> lex_terms l cat = lex_terms empty_lexicon cat"
    using newLexicon_from_spec [OF assms, of u empty_lexicon iter] by (auto simp: newLexicon_def)
  have "category_ok u l cat (terms_of byCat cat)" for cat
  proof (cases "cat \<in> fst ` set byCat")
    case True
    then show ?thesis using l(2) by blast
  next
    case False
    then have "map_of byCat cat = None" by (simp add: map_of_eq_None_iff)
    then show ?thesis using l(3) False by (simp add: category_ok_def terms_of_def empty_lexicon_def kept_terms_def)
  qed
  then show ?thesis using l(1) by blast
qed

text \<open>The terms of a category whose skeleton stands in the padded text between spaces.\<close>

definition lex_hits :: "unicode \<Rightarrow> string \<Rightarrow> string list \<Rightarrow> string list" where
  "lex_hits u padded terms = filter (\<lambda>t. sublist (lex_pattern u t) padded) (kept_terms u terms)"

lemma category_find:
  assumes "category_ok u l cat terms"
  shows "case cats l cat of
      None \<Rightarrow> lex_hits u padded terms = []
    | Some m \<Rightarrow> ac_find m 0 padded = Some None \<and> lex_hits u padded terms = []
        \<or> (\<exists>k. ac_find m 0 padded = Some (Some k) \<and> lex_terms l cat ! k \<in> set (lex_hits u padded terms))"
proof (cases "cats l cat")
  case None
  then show ?thesis using assms by (simp add: category_ok_def lex_hits_def)
next
  case (Some m)
  let ?kept = "kept_terms u terms"
  obtain iter where "newMatcher iter (map (lex_pattern u) ?kept) = Some m"
    using assms Some by (auto simp: category_ok_def)
  from ac.find_hit [OF lex_pattern_nonempty this, of padded] show ?thesis
  proof (elim disjE exE conjE)
    assume "ac_find m 0 padded = Some None" "\<forall>p \<in> set (map (lex_pattern u) ?kept). \<not> sublist p padded"
    then show ?thesis using Some by (simp add: lex_hits_def filter_empty_conv)
  next
    fix k assume k: "k < length (map (lex_pattern u) ?kept)" "ac_find m 0 padded = Some (Some k)"
      "sublist (map (lex_pattern u) ?kept ! k) padded"
    then have "?kept ! k \<in> set (lex_hits u padded terms)" by (simp add: lex_hits_def)
    moreover have "lex_terms l cat = ?kept" using assms by (simp add: category_ok_def)
    ultimately show ?thesis using Some k(2) by simp
  qed
qed

definition scanned :: "bool \<Rightarrow> (Category \<times> string) list \<Rightarrow> (Category \<times> string) list" where
  "scanned floorOnly specs = (if floorOnly then takeWhile (\<lambda>(cat, f). cat = CatHate) specs else specs)"

lemma Scan_from_spec:
  assumes "\<And>cat. category_ok u l cat (terms_of byCat cat)"
  shows "case find (\<lambda>(cat, f). lex_hits u padded (terms_of byCat cat) \<noteq> []) (scanned floorOnly specs) of
      None \<Rightarrow> Scan_from l padded floorOnly specs = Some (CatNone, [])
    | Some (cat, f) \<Rightarrow> \<exists>term \<in> set (lex_hits u padded (terms_of byCat cat)).
        Scan_from l padded floorOnly specs = Some (cat, term)"
proof (induction specs)
  case Nil
  show ?case by (simp add: scanned_def)
next
  case (Cons x specs)
  let ?P = "\<lambda>(cat, f :: string). lex_hits u padded (terms_of byCat cat) \<noteq> []"
  obtain cat f where x: "x = (cat, f)" by fastforce
  note hit = category_find [OF assms, where cat = cat and padded = padded]
  show ?case
  proof (cases "floorOnly \<and> cat \<noteq> CatHate")
    case True
    then show ?thesis using x by (simp add: scanned_def)
  next
    case False
    then have reach: "scanned floorOnly (x # specs) = x # scanned floorOnly specs"
      using x by (auto simp: scanned_def)
    show ?thesis
    proof (cases "lex_hits u padded (terms_of byCat cat) = []")
      case True
      then have "Scan_from l padded floorOnly (x # specs) = Scan_from l padded floorOnly specs"
        using False x hit by (auto split: option.splits)
      moreover have "find ?P (scanned floorOnly (x # specs)) = find ?P (scanned floorOnly specs)"
        using reach True x by simp
      ultimately show ?thesis using Cons by (simp only:)
    next
      case nonempty: False
      then obtain m k where m: "cats l cat = Some m" "ac_find m 0 padded = Some (Some k)"
        "lex_terms l cat ! k \<in> set (lex_hits u padded (terms_of byCat cat))"
        using hit by (auto split: option.splits)
      then have "Scan_from l padded floorOnly (x # specs) = Some (cat, lex_terms l cat ! k)"
        using False x by simp
      moreover have "find ?P (scanned floorOnly (x # specs)) = Some (cat, f)" using reach nonempty x by simp
      ultimately show ?thesis using m(3) by simp
    qed
  qed
qed

section \<open>The prescan\<close>

lemma leet_not_upper: "leetFolds (skel_lower c) = Some b \<Longrightarrow> skel_lower c = c"
  using leet_letter [of "skel_lower c" b] by (auto simp: letter_bytes lower_bytes skel_lower_def less_eq_char_def)

lemma foldTable_letter:
  assumes "is_letter (skel_lower c)"
  shows "foldTable c = skel_lower c"
proof -
  have "leetFolds c = None" using assms leet_letter [of c] by (cases "leetFolds c") auto
  moreover have "97 \<le> byte c \<and> byte c \<le> 122 \<or> 65 \<le> byte c \<and> byte c \<le> 90"
    using assms by (auto simp: letter_bytes lower_bytes split: if_splits)
  ultimately show ?thesis
    by (auto simp: foldTable_def Let_def leetFolds_def skel_lower_def less_eq_char_def split: if_splits)
qed

lemma foldTable_fold:
  assumes "is_letter (foldByte c leet)"
  shows "foldTable c = foldByte c leet"
proof (cases "leetFolds (skel_lower c)")
  case (Some b)
  then have low: "skel_lower c = c" by (rule leet_not_upper)
  then have "foldByte c leet = (if leet then b else c)" using Some by (simp add: foldByte_cases)
  moreover have "foldTable c = b" using Some low by (auto simp: leetFolds_def foldTable_def split: if_splits)
  ultimately show ?thesis using assms leet_letter [OF Some] low by (auto split: if_splits)
next
  case None
  then have "foldByte c leet = skel_lower c" by (simp add: foldByte_cases)
  then show ?thesis using foldTable_letter assms by simp
qed

lemma no_space_split:
  assumes "u @ CHR '' '' # v = x @ CHR '' '' # y" "CHR '' '' \<notin> set x"
  shows "length x \<le> length u"
  using assms
proof (induction x arbitrary: u)
  case (Cons c x)
  then show ?case by (cases u) auto
qed simp

lemma sublist_word:
  assumes "CHR '' '' \<notin> set w" "CHR '' '' \<notin> set x" "sublist ('' '' @ w @ '' '') ('' '' @ x @ '' '' @ y)"
  shows "w = x \<or> sublist ('' '' @ w @ '' '') ('' '' @ y)"
proof -
  obtain s t where st: "CHR '' '' # x @ CHR '' '' # y = s @ CHR '' '' # w @ CHR '' '' # t"
    using assms(3) by (auto simp: sublist_def)
  show ?thesis
  proof (cases s)
    case Nil
    then have eq: "x @ CHR '' '' # y = w @ CHR '' '' # t" using st by simp
    then have "length x = length w"
      using no_space_split [OF eq [symmetric] assms(2)] no_space_split [OF eq assms(1)] by simp
    then show ?thesis using eq by simp
  next
    case (Cons c s')
    then have eq: "x @ CHR '' '' # y = s' @ CHR '' '' # w @ CHR '' '' # t" using st Cons by (metis append_Cons list.inject)
    then have "length x \<le> length s'" using no_space_split [OF eq [symmetric] assms(2)] by simp
    then obtain s'' where "s' = x @ s''" using eq by (metis append_eq_append_conv_if append_eq_conv_conj take_all_iff append_take_drop_id)
    then have "CHR '' '' # y = s'' @ CHR '' '' # w @ CHR '' '' # t" using eq by simp
    then show ?thesis by (auto simp: sublist_def)
  qed
qed


text \<open>A word of letters in the skeleton of plain text is found by folding byte by byte.\<close>

lemma foldTable_token:
  assumes "list_all is_letter (foldTokenBytes tok)"
  shows "map foldTable tok = foldTokenBytes tok"
  using assms foldTable_fold by (auto simp: foldTokenBytes_def Let_def list_all_iff)

lemma letters_no_space: "list_all is_letter w \<Longrightarrow> CHR '' '' \<notin> set w"
  by (auto simp: list_all_iff is_letter_def less_eq_char_def)

lemma no_space_byte: "list_all (\<lambda>c. \<not> isSkelSpace c) tok \<Longrightarrow> CHR '' '' \<notin> set tok"
  by (auto simp: list_all_iff isSkelSpace_def)

lemma printable_space:
  assumes "printableASCII c" "isSkelSpace c"
  shows "c = CHR '' ''" "foldTable c = CHR '' ''"
proof -
  have "byte c = 32" using assms by (auto simp: printableASCII_def space_bytes)
  then have "byte c = byte CHR '' ''" by simp
  then show c: "c = CHR '' ''" by (simp only: of_char_eq_iff)
  show "foldTable c = CHR '' ''" unfolding c by code_simp
qed

lemma skeleton_word_folded:
  assumes w: "list_all is_letter w"
  shows "\<lbrakk>list_all printableASCII t; list_all (\<lambda>c. \<not> isSkelSpace c) tok; spaced \<longrightarrow> tok = [];
      sublist ('' '' @ w @ '' '') ('' '' @ skeleton spaced tok t @ '' '')\<rbrakk>
    \<Longrightarrow> sublist ('' '' @ w @ '' '') ('' '' @ map foldTable (tok @ t) @ '' '') \<or> w = []"
proof (induction spaced tok t rule: skeleton.induct)
  case (1 spaced tok)
  have "sublist ('' '' @ w @ '' '') ('' '' @ foldTokenBytes tok @ '' '' @ [])"
    using 1(4) by (simp only: skeleton.simps append_Nil2)
  from sublist_word [OF letters_no_space [OF w] no_space_byte [OF foldTokenBytes_spaces [OF 1(2)]] this]
  have "w = foldTokenBytes tok \<or> sublist ('' '' @ w @ '' '') '' ''" by (simp only: append_Nil2)
  then show ?case
  proof
    assume "w = foldTokenBytes tok"
    then show ?thesis using foldTable_token [of tok] w by simp
  next
    assume "sublist ('' '' @ w @ '' '') '' ''"
    then have "length ('' '' @ w @ '' '') \<le> length '' ''" by (rule sublist_length_le)
    then show ?thesis by simp
  qed
next
  case (2 spaced tok c t)
  show ?case
  proof (cases "isSkelSpace c")
    case True
    then have c: "c = CHR '' ''" "foldTable c = CHR '' ''"
      using 2(3) printable_space [OF _ True] by simp_all
    let ?s = "skeleton True [] t"
    have IH: "sublist ('' '' @ w @ '' '') ('' '' @ map foldTable t @ '' '') \<or> w = []"
      if "sublist ('' '' @ w @ '' '') ('' '' @ ?s @ '' '')"
    proof -
      have "list_all printableASCII t" "list_all (\<lambda>c. \<not> isSkelSpace c) []" "True \<longrightarrow> [] = []" using 2(3) by simp_all
      from 2(1) [OF True this that] show ?thesis by (simp only: append_Nil)
    qed
    have later: "sublist ('' '' @ map foldTable t @ '' '') ('' '' @ map foldTable (tok @ c # t) @ '' '')"
      using c by (intro suffix_imp_sublist suffixI [of _ "'' '' @ map foldTable tok"]) simp
    have "w = foldTokenBytes tok \<or> sublist ('' '' @ w @ '' '') ('' '' @ ?s @ '' '')"
    proof (cases spaced)
      case True
      then show ?thesis using 2(5,6) \<open>isSkelSpace c\<close>
        by (simp only: skeleton.simps if_True append_Nil foldTokenBytes_Nil simp_thms)
    next
      case False
      then have "sublist ('' '' @ w @ '' '') ('' '' @ foldTokenBytes tok @ '' '' @ ?s @ '' '')"
        using 2(6) \<open>isSkelSpace c\<close> by (simp only: skeleton.simps if_True if_False append_assoc)
      from sublist_word [OF letters_no_space [OF w] no_space_byte [OF foldTokenBytes_spaces [OF 2(4)]] this]
      show ?thesis .
    qed
    then show ?thesis
    proof
      assume "w = foldTokenBytes tok"
      then have "map foldTable (tok @ c # t) = w @ '' '' @ map foldTable t"
        using foldTable_token [of tok] w c by simp
      then have "'' '' @ map foldTable (tok @ c # t) @ '' '' = ('' '' @ w @ '' '') @ map foldTable t @ '' ''" by simp
      then have "prefix ('' '' @ w @ '' '') ('' '' @ map foldTable (tok @ c # t) @ '' '')" by (rule prefixI)
      then show ?thesis by (intro disjI1 prefix_imp_sublist)
    next
      assume "sublist ('' '' @ w @ '' '') ('' '' @ ?s @ '' '')"
      from IH [OF this] show ?thesis
        by (rule disj_forward) (rule sublist_order.order_trans [OF _ later])
    qed
  next
    case False
    have "list_all (\<lambda>c. \<not> isSkelSpace c) (tok @ [c])" using 2(4) False by simp
    moreover have "list_all printableASCII t" using 2(3) by simp
    moreover have "sublist ('' '' @ w @ '' '') ('' '' @ skeleton False (tok @ [c]) t @ '' '')"
      using 2(6) False by (simp only: skeleton.simps if_False)
    ultimately show ?thesis using 2(2) [OF False] by (simp only: append_assoc append_Cons append_Nil simp_thms)
  qed
qed

lemma FloorPrescan_exact:
  assumes "category_ok u l CatHate terms"
  shows "FloorPrescan (Some l) t
    = Some (\<exists>term \<in> set (kept_terms u terms). sublist (lex_pattern u term) ('' '' @ map foldTable t @ '' ''))"
proof (cases "cats l CatHate")
  case None
  then show ?thesis using assms by (simp add: FloorPrescan_def category_ok_def)
next
  case (Some m)
  then obtain iter where "newMatcher iter (map (lex_pattern u) (kept_terms u terms)) = Some m"
    using assms by (auto simp: category_ok_def)
  from ac.folded_iff [OF lex_pattern_nonempty this, of t] show ?thesis
    using Some by (simp add: FloorPrescan_def)
qed

section \<open>Properties\<close>

definition floor_verdict :: "unicode \<Rightarrow> string \<Rightarrow> FloorKind \<times> string" where
  "floor_verdict u skel =
    (case domain_hit skel of
       Some d \<Rightarrow> (FloorIPLogger, d)
     | None \<Rightarrow> (let h = scam_words (zip (scamPhrases u) ScamTerms) (letter_runs skel) in (fh_kind h, fh_term h)))"

lemma scam_words_kind: "fh_kind (scam_words ps ws) \<noteq> FloorNone \<or> scam_words ps ws = no_hit"
  by (induction ws) (auto split: option.splits)

lemma domain_hit_Nil: "domain_hit [] = None"
proof -
  have "\<not> domain_in [] d" if "d \<noteq> []" for d using that by (cases d) (auto simp: domain_in_def bounded_at_def)
  then show ?thesis using plain_domains by (auto simp: domain_hit_def find_None_iff)
qed

lemma Normalize_Nil: "Normalize u [] = []"
  by (simp add: Normalize_def isPlainASCII_def normalizeASCII_skeleton)

lemma no_hits_in_blank: "lex_hits u ('' '' @ [] @ '' '') terms = []"
proof -
  have "\<not> sublist (lex_pattern u t) ('' '' @ [] @ '' '')" if "Normalize u t \<noteq> []" for t
    using that sublist_length_le [of "lex_pattern u t" "'' '' @ [] @ '' ''"] by (auto simp: lex_pattern_def)
  then show ?thesis unfolding lex_hits_def kept_terms_def filter_empty_conv by auto
qed

text \<open>The in-place scanners compute what their reference says and never index out of range: an
  IP-logger domain that stands in the skeleton with no letter or digit beside it, the first of the
  list; otherwise the scam phrase whose words are consecutive words of the skeleton, the earliest.
  The prescan is the same scan of the byte skeleton.\<close>

theorem match_floor_exact:
  "MatchFloor u skel = Some (floor_verdict u skel) \<and> MatchFloorPrescan u t = Some (floor_verdict u (normalizeASCII t))"
proof -
  let ?scam = "scam_words (zip (scamPhrases u) ScamTerms)"
  have "letter_runs [] = []" by (simp add: letter_runs.simps)
  then have "MatchFloor u skel = Some (floor_verdict u skel)"
    using scam_words_kind [of "zip (scamPhrases u) ScamTerms" "letter_runs skel"] domain_hit_Nil
    by (cases "skel = []"; cases "domain_hit skel")
      (auto simp: MatchFloor_def floor_verdict_def matchDomain_exact matchScam_exact no_hit_def Let_def)
  moreover have "MatchFloorPrescan u t = Some (floor_verdict u (normalizeASCII t))"
    by (cases "domain_hit (normalizeASCII t)")
      (simp_all add: MatchFloorPrescan_def floor_verdict_def matchDomain_exact matchScam_exact no_hit_def Let_def)
  ultimately show ?thesis by blast
qed

lemma CheckFloor_exact:
  assumes "\<And>cat. category_ok u l cat (terms_of byCat cat)"
  shows "\<exists>term. CheckFloor u (Some l) t = Some (term, domain_hit (Normalize u t) \<noteq> None
        \<or> lex_hits u ('' '' @ Normalize u t @ '' '') (terms_of byCat CatHate) \<noteq> [])"
proof (cases "Normalize u t = []")
  case True
  then show ?thesis unfolding True no_hits_in_blank domain_hit_Nil using True by (simp add: CheckFloor_def Let_def)
next
  case False
  let ?skel = "Normalize u t"
  let ?hits = "lex_hits u ('' '' @ ?skel @ '' '') (terms_of byCat CatHate)"
  have t: "t \<noteq> []" using False by (auto simp: Normalize_Nil)
  show ?thesis
  proof (cases "domain_hit ?skel")
    case (Some d)
    then show ?thesis using False t by (simp add: CheckFloor_def matchDomain_exact Let_def)
  next
    case None
    have scanned: "scanned True lexFiles = [(CatHate, ''hate.txt'')]" by (simp add: scanned_def lexFiles_def)
    note scan = Scan_from_spec [OF assms, where padded = "'' '' @ ?skel @ '' ''" and floorOnly = True and specs = lexFiles,
        unfolded scanned]
    have check: "CheckFloor u (Some l) t = (case Scan_from l ('' '' @ ?skel @ '' '') True lexFiles of
        None \<Rightarrow> None | Some (cat, term) \<Rightarrow> if cat = CatHate then Some (term, True) else Some ([], False))"
      using False t None by (simp add: CheckFloor_def matchDomain_exact Let_def no_hit_def Scan_def)
    show ?thesis
    proof (cases "?hits = []")
      case True
      then have "Scan_from l ('' '' @ ?skel @ '' '') True lexFiles = Some (CatNone, [])" using scan by simp
      then show ?thesis unfolding check using True None by simp
    next
      case False
      then obtain w where "Scan_from l ('' '' @ ?skel @ '' '') True lexFiles = Some (CatHate, w)"
        using scan by auto
      then show ?thesis unfolding check using False by simp
    qed
  qed
qed

text \<open>C34: For a lexicon built from any terms, the check of what the bot says is exact: it hits
  when the skeleton of the text has a bounded IP-logger domain, or, padded with spaces, the padded
  skeleton of a hate term.\<close>

theorem check_floor_exact:
  assumes "distinct (map fst byCat)"
  shows "\<exists>l term. newLexicon u iter byCat = Some l
    \<and> CheckFloor u (Some l) t = Some (term, domain_hit (Normalize u t) \<noteq> None
        \<or> lex_hits u ('' '' @ Normalize u t @ '' '') (terms_of byCat CatHate) \<noteq> [])"
proof -
  obtain l where l: "newLexicon u iter byCat = Some l" "\<And>cat. category_ok u l cat (terms_of byCat cat)"
    using newLexicon_spec [OF assms, of u iter] by blast
  show ?thesis using CheckFloor_exact [OF l(2)] l(1) by blast
qed

theorem check_floor_exact_witness:
  "\<exists>l term. newLexicon sample_unicode rev [(CatHate, [''ease''])] = Some l
    \<and> CheckFloor sample_unicode (Some l) ''go 34SE'' = Some (term, domain_hit (Normalize sample_unicode ''go 34SE'') \<noteq> None
        \<or> lex_hits sample_unicode ('' '' @ Normalize sample_unicode ''go 34SE'' @ '' '') (terms_of [(CatHate, [''ease''])] CatHate) \<noteq> [])"
  by (rule check_floor_exact) simp

text \<open>The cheap prescan has no false negative on plain text: when the deep check finds a hate
  term whose skeleton is one word of letters, the prescan of the raw text reports it too.\<close>

theorem prescan_complete:
  assumes "newLexicon u iter byCat = Some l" "distinct (map fst byCat)" "isPlainASCII t"
    "term \<in> set (lex_hits u ('' '' @ Normalize u t @ '' '') (terms_of byCat CatHate))"
    "list_all is_letter (Normalize u term)"
  shows "FloorPrescan (Some l) t = Some True"
proof -
  have ok: "category_ok u l CatHate (terms_of byCat CatHate)"
    using newLexicon_spec [OF assms(2), of u iter] assms(1) by auto
  have kept: "term \<in> set (kept_terms u (terms_of byCat CatHate))"
    and deep: "sublist (lex_pattern u term) ('' '' @ Normalize u t @ '' '')"
    using assms(4) by (auto simp: lex_hits_def)
  have "Normalize u term \<noteq> []" using kept by (simp add: kept_terms_def)
  have "Normalize u t = skeleton False [] t"
    using assms(3) by (simp add: Normalize_def normalizeASCII_skeleton)
  then have "sublist ('' '' @ Normalize u term @ '' '') ('' '' @ skeleton False [] t @ '' '')"
    using deep by (simp only: lex_pattern_def)
  from skeleton_word_folded [OF assms(5) _ _ _ this] \<open>Normalize u term \<noteq> []\<close> assms(3)
  have "sublist (lex_pattern u term) ('' '' @ map foldTable t @ '' '')"
    by (simp add: lex_pattern_def isPlainASCII_def)
  then have "\<exists>term \<in> set (kept_terms u (terms_of byCat CatHate)). sublist (lex_pattern u term) ('' '' @ map foldTable t @ '' '')"
    using kept by blast
  then show ?thesis unfolding FloorPrescan_exact [OF ok] by (simp only: option.inject)
qed


theorem prescan_complete_witness:
  "\<exists>l. newLexicon sample_unicode rev [(CatHate, [''ease''])] = Some l \<and> FloorPrescan (Some l) ''go 34SE!e 34SE'' = Some True"
proof -
  have "distinct (map fst [(CatHate, [''ease''])])" by simp
  from newLexicon_spec [OF this] obtain l where l: "newLexicon sample_unicode rev [(CatHate, [''ease''])] = Some l" by blast
  have "FloorPrescan (Some l) ''go 34SE!e 34SE'' = Some True"
  proof (rule prescan_complete [OF l])
    show "''ease'' \<in> set (lex_hits sample_unicode ('' '' @ Normalize sample_unicode ''go 34SE!e 34SE'' @ '' '')
        (terms_of [(CatHate, [''ease''])] CatHate))" by code_simp
  qed code_simp+
  then show ?thesis using l by blast
qed

text \<open>A term of two words is missed by the prescan when the text has two spaces between them.\<close>

lemma prescan_misses_wide_space:
  "\<exists>l term. newLexicon sample_unicode rev [(CatHate, [''free nitro''])] = Some l
    \<and> CheckFloor sample_unicode (Some l) ''free  nitro'' = Some (term, True)
    \<and> FloorPrescan (Some l) ''free  nitro'' = Some False"
proof -
  let ?byCat = "[(CatHate, [''free nitro''])]"
  have d: "distinct (map fst ?byCat)" by simp
  obtain l where l: "newLexicon sample_unicode rev ?byCat = Some l"
    "\<And>cat. category_ok sample_unicode l cat (terms_of ?byCat cat)"
    using newLexicon_spec [OF d, of sample_unicode rev] by blast
  have "\<not> (\<exists>term \<in> set (kept_terms sample_unicode (terms_of ?byCat CatHate)).
      sublist (lex_pattern sample_unicode term) ('' '' @ map foldTable ''free  nitro'' @ '' ''))"
    by code_simp
  then have pre: "FloorPrescan (Some l) ''free  nitro'' = Some False"
    unfolding FloorPrescan_exact [OF l(2)] by (simp only: simp_thms)
  have hits: "lex_hits sample_unicode ('' '' @ Normalize sample_unicode ''free  nitro'' @ '' '')
      (terms_of ?byCat CatHate) \<noteq> []" by code_simp
  obtain w where "CheckFloor sample_unicode (Some l) ''free  nitro'' = Some (w, True)"
    using CheckFloor_exact [OF l(2), of "''free  nitro''"] hits by (simp only: simp_thms) blast
  then show ?thesis using l(1) pre by blast
qed

end
