(* ===== verification/RunOutput.thy ===== *)
theory RunOutput
  imports Floor
begin

text \<open>
  What a recipe or a command says before it leaves the bot: slash commands in chat text
  (internal/domain/outgress/slash.go, engine/slash.go), the preparation of an output and the split of
  a reply into chat lines (engine/dispatch.go), the cap on chat text (engine/chatcap.go) and the
  floor check (engine/pipeline_output.go).
\<close>

section \<open>Outputs\<close>

text \<open>
  \<open>module.Output\<close>. A batch is a constructor of its own: its items are never batches. \<open>Duration\<close> is
  a whole number of seconds wherever the code sets it.
\<close>

record reward_settings =
  ow_enabled :: "bool option"
  ow_cost :: "int option"
  ow_reset :: bool

record out_msg =
  o_type :: string
  o_bid :: string
  o_text :: string
  o_color :: string
  o_to :: string
  o_duration :: int
  o_template :: string
  o_target :: string
  o_reason :: string
  o_msg_id :: string
  o_reward_id :: string
  o_redemption_id :: string
  o_status :: string
  o_reward :: "reward_settings option"
  o_run_id :: string
  o_slot :: string

datatype emission = Single out_msg | Batch string string "out_msg list"

definition blank_output :: "string \<Rightarrow> string \<Rightarrow> out_msg" where
  "blank_output typ bid =
    \<lparr>o_type = typ, o_bid = bid, o_text = [], o_color = [], o_to = [], o_duration = 0, o_template = [],
     o_target = [], o_reason = [], o_msg_id = [], o_reward_id = [], o_redemption_id = [], o_status = [],
     o_reward = None, o_run_id = [], o_slot = []\<rparr>"

section \<open>Slash commands\<close>

record slash_command =
  sl_type :: string
  sl_color :: string
  sl_to :: string
  sl_text :: string

definition cutVerb :: "string \<Rightarrow> string \<Rightarrow> string option" where
  "cutVerb t verb =
    (if t = verb then Some []
     else if has_prefix t (verb @ '' '') then Some (drop (length verb + 1) t) else None)"

definition announce_verbs :: "(string \<times> string) list" where
  "announce_verbs =
    [(''/announceblue'', ''blue''), (''/announcegreen'', ''green''), (''/announceorange'', ''orange''),
     (''/announcepurple'', ''purple''), (''/announce'', ''primary'')]"

fun cutAnnounce_from :: "string \<Rightarrow> (string \<times> string) list \<Rightarrow> (string \<times> string) option" where
  "cutAnnounce_from t [] = None"
| "cutAnnounce_from t ((verb, color) # vs) =
    (case cutVerb t verb of Some r \<Rightarrow> Some (color, r) | None \<Rightarrow> cutAnnounce_from t vs)"

definition cutAnnounce :: "string \<Rightarrow> (string \<times> string) option" where
  "cutAnnounce t = cutAnnounce_from t announce_verbs"

definition trim_spaces_left :: "string \<Rightarrow> string" where
  "trim_spaces_left s = dropWhile (\<lambda>c. c = CHR '' '') s"

definition CutSlash :: "string \<Rightarrow> slash_command option" where
  "CutSlash t =
    (case cutAnnounce t of
       Some (color, r) \<Rightarrow> Some \<lparr>sl_type = ''announce'', sl_color = color, sl_to = [], sl_text = r\<rparr>
     | None \<Rightarrow>
         (case cutVerb t ''/shoutout'' of
            Some r \<Rightarrow>
              (case cut (trim_spaces_left r) CHR '' '' of (target, remainder, _) \<Rightarrow>
                 Some \<lparr>sl_type = ''shoutout'', sl_color = [], sl_to = trim_prefix target ''@'',
                       sl_text = trim_spaces_left remainder\<rparr>)
          | None \<Rightarrow>
              (case cutVerb t ''/pin'' of
                 Some r \<Rightarrow> Some \<lparr>sl_type = ''pin'', sl_color = [], sl_to = [], sl_text = r\<rparr>
               | None \<Rightarrow> None)))"

definition Translate :: "out_msg \<Rightarrow> out_msg" where
  "Translate o1 =
    (if o_type o1 \<noteq> ''chat'' then o1
     else case CutSlash (o_text o1) of
       None \<Rightarrow> o1
     | Some sc \<Rightarrow> o1\<lparr>o_type := sl_type sc, o_color := sl_color sc, o_to := sl_to sc, o_text := sl_text sc\<rparr>)"

definition isEmptyAction :: "out_msg \<Rightarrow> bool" where
  "isEmptyAction o1 =
    (if o_type o1 \<in> {''announce'', ''pin'', ''chat''} then o_text o1 = []
     else if o_type o1 = ''shoutout'' then o_to o1 = [] else False)"

section \<open>Preparing an output\<close>

definition speaks :: "out_msg \<Rightarrow> bool" where
  "speaks o1 \<longleftrightarrow> o_type o1 \<in> {''chat'', ''announce'', ''pin''}"

text \<open>A matcher out of fuel counts as a hit; \<open>check_floor_exact\<close> shows that there is none.\<close>

definition floor_hit :: "unicode \<Rightarrow> Lexicon option \<Rightarrow> string \<Rightarrow> bool" where
  "floor_hit u lx t = (case CheckFloor u lx t of None \<Rightarrow> True | Some (_, hit) \<Rightarrow> hit)"

definition floorSuppressed :: "unicode \<Rightarrow> Lexicon option \<Rightarrow> out_msg \<Rightarrow> bool" where
  "floorSuppressed u lx o1 =
    (if o_text o1 = [] then False else if \<not> speaks o1 then False else floor_hit u lx (o_text o1))"

definition prepareCommand :: "unicode \<Rightarrow> Lexicon option \<Rightarrow> out_msg \<Rightarrow> out_msg \<times> bool" where
  "prepareCommand u lx o0 =
    (let o1 = Translate o0 in (o1, \<not> isEmptyAction o1 \<and> \<not> floorSuppressed u lx o1))"

definition blankLine :: "string \<Rightarrow> bool" where
  "blankLine line \<longleftrightarrow> trim_space line = []"

abbreviation (input) MaxResponseLines :: nat where "MaxResponseLines \<equiv> 5"
abbreviation (input) MaxResponseLineLength :: nat where "MaxResponseLineLength \<equiv> 500"

fun appendChatLines_from ::
  "unicode \<Rightarrow> Lexicon option \<Rightarrow> string \<Rightarrow> nat \<Rightarrow> string list \<Rightarrow> out_msg list \<Rightarrow> out_msg list" where
  "appendChatLines_from u lx bid lines [] dst = dst"
| "appendChatLines_from u lx bid lines (line # rest) dst =
    (if blankLine line then appendChatLines_from u lx bid lines rest dst
     else let lines = lines + 1 in
       if lines > MaxResponseLines then dst
       else case prepareCommand u lx ((blank_output ''chat'' bid)\<lparr>o_text := line\<rparr>) of
         (out, keep) \<Rightarrow> appendChatLines_from u lx bid lines rest (if keep then dst @ [out] else dst))"

definition appendChatLines :: "unicode \<Rightarrow> Lexicon option \<Rightarrow> out_msg list \<Rightarrow> out_msg \<Rightarrow> out_msg list" where
  "appendChatLines u lx dst o1 = appendChatLines_from u lx (o_bid o1) 0 (split_byte (o_text o1) CHR 0x0A) dst"

section \<open>The cap on chat text\<close>

definition rune_start :: "char \<Rightarrow> bool" where
  "rune_start c \<longleftrightarrow> \<not> (128 \<le> byte c \<and> byte c \<le> 191)"

fun cut_back :: "string \<Rightarrow> nat \<Rightarrow> nat" where
  "cut_back s 0 = 0"
| "cut_back s (Suc n) = (if \<not> rune_start (s ! Suc n) then cut_back s n else Suc n)"

definition truncateLine :: "string \<Rightarrow> nat \<Rightarrow> string" where
  "truncateLine s n = (if length s \<le> n then s else take (cut_back s n) s)"

definition capChatText :: "string \<Rightarrow> string \<times> bool" where
  "capChatText t =
    (let lines = split_byte t CHR 0x0A;
         changed = (MaxResponseLines < length lines);
         lines = (if changed then take MaxResponseLines lines else lines);
         changed = (changed \<or> list_ex (\<lambda>l. MaxResponseLineLength < length l) lines);
         lines = map (\<lambda>l. if MaxResponseLineLength < length l then truncateLine l MaxResponseLineLength else l) lines
     in if \<not> changed then (t, False) else (join_byte lines CHR 0x0A, True))"

definition capEmitText :: "out_msg \<Rightarrow> out_msg" where
  "capEmitText o1 =
    (if o_type o1 \<noteq> ''chat'' then o1
     else case capChatText (o_text o1) of (capped, changed) \<Rightarrow> if changed then o1\<lparr>o_text := capped\<rparr> else o1)"

section \<open>Emitting\<close>

text \<open>
  \<open>newEmit\<close>: the state of one event's emissions. \<open>pub\<close> publishes a message under a replay id and
  answers an error or none; locale, admission and encoding are part of it. \<open>base\<close> is the replay base.
\<close>

record emit_state =
  es_base :: string
  es_ordinal :: nat
  es_needs_flush :: bool
  es_err :: "string option"
  es_published :: "(string \<times> emission) list"

definition replayOutputID :: "string \<Rightarrow> nat \<Rightarrow> string" where
  "replayOutputID base ordinal = (if base = [] then [] else base @ '':'' @ itoa (int ordinal))"

definition publish_step ::
  "(string \<Rightarrow> emission \<Rightarrow> string option) \<Rightarrow> emit_state \<Rightarrow> emission \<Rightarrow> emit_state" where
  "publish_step pub st0 e =
    (let st = st0\<lparr>es_ordinal := es_ordinal st0 + 1\<rparr>;
         ident = replayOutputID (es_base st) (es_ordinal st)
     in case pub ident e of
          Some err \<Rightarrow> st\<lparr>es_err := Some err\<rparr>
        | None \<Rightarrow> st\<lparr>es_published := es_published st @ [(ident, e)],
                    es_needs_flush := (ident = [] \<or> es_needs_flush st)\<rparr>)"

definition emit_one ::
  "unicode \<Rightarrow> Lexicon option \<Rightarrow> (string \<Rightarrow> emission \<Rightarrow> string option) \<Rightarrow> emit_state \<Rightarrow> emission \<Rightarrow> emit_state" where
  "emit_one u lx pub st e =
    (if es_err st \<noteq> None then st
     else case e of
       Batch bid ident items \<Rightarrow> publish_step pub st e
     | Single o0 \<Rightarrow>
         if o_type o0 = [] then st
         else let o1 = Translate o0 in
           if isEmptyAction o1 then st
           else let o2 = capEmitText o1 in
             if floorSuppressed u lx o2 then st else publish_step pub st (Single o2))"


definition emit_all ::
  "unicode \<Rightarrow> Lexicon option \<Rightarrow> (string \<Rightarrow> emission \<Rightarrow> string option) \<Rightarrow> string \<Rightarrow> emission list \<Rightarrow> emit_state" where
  "emit_all u lx pub base es = fold (\<lambda>e st. emit_one u lx pub st e) es
    \<lparr>es_base = base, es_ordinal = 0, es_needs_flush = False, es_err = None, es_published = []\<rparr>"

section \<open>What leaves the bot\<close>

lemma cut_back_le: "cut_back s n \<le> n"
  by (induction s n rule: cut_back.induct) auto

lemma length_truncateLine: "length (truncateLine s n) \<le> n"
  using cut_back_le [of s n] by (simp add: truncateLine_def)

lemma truncateLine_prefix: "set (truncateLine s n) \<subseteq> set s"
  by (auto simp: truncateLine_def dest: in_set_takeD)

text \<open>At most five lines of at most 500 bytes.\<close>

definition capped_text :: "string \<Rightarrow> bool" where
  "capped_text t \<longleftrightarrow> length (split_byte t CHR 0x0A) \<le> MaxResponseLines
    \<and> (\<forall>l \<in> set (split_byte t CHR 0x0A). length l \<le> MaxResponseLineLength)"

lemma capChatText_capped: "capped_text (fst (capChatText t))"
proof -
  let ?lines = "split_byte t CHR 0x0A"
  let ?kept = "if MaxResponseLines < length ?lines then take MaxResponseLines ?lines else ?lines"
  let ?cut = "\<lambda>l. if MaxResponseLineLength < length l then truncateLine l MaxResponseLineLength else l"
  show ?thesis
  proof (cases "MaxResponseLines < length ?lines \<or> list_ex (\<lambda>l. MaxResponseLineLength < length l) ?kept")
    case False
    then show ?thesis by (auto simp: capChatText_def capped_text_def list_ex_iff not_less)
  next
    case True
    then have t: "fst (capChatText t) = join_byte (map ?cut ?kept) CHR 0x0A"
      by (cases "MaxResponseLines < length ?lines") (simp_all add: capChatText_def Let_def)
    have "CHR 0x0A \<notin> set l" if "l \<in> set ?kept" for l
      using that split_no_sep [of l t] by (auto split: if_splits dest: in_set_takeD)
    moreover have "set (?cut l) \<subseteq> set l" for l using truncateLine_prefix by simp
    ultimately have "CHR 0x0A \<notin> set (?cut l)" if "l \<in> set ?kept" for l using that by blast
    then have "\<forall>l \<in> set (map ?cut ?kept). CHR 0x0A \<notin> set l" unfolding list.set_map by blast
    moreover have "map ?cut ?kept \<noteq> []" by auto
    ultimately have "split_byte (join_byte (map ?cut ?kept) CHR 0x0A) CHR 0x0A = map ?cut ?kept"
      using split_join by blast
    then show ?thesis using length_truncateLine unfolding capped_text_def t by auto
  qed
qed


text \<open>An output that may leave: not empty, within the cap, and free of floor content.\<close>

definition clean_output :: "unicode \<Rightarrow> Lexicon option \<Rightarrow> out_msg \<Rightarrow> bool" where
  "clean_output u lx o1 \<longleftrightarrow>
    (o_type o1 = ''chat'' \<longrightarrow> capped_text (o_text o1))
    \<and> (speaks o1 \<and> o_text o1 \<noteq> [] \<longrightarrow> \<not> floor_hit u lx (o_text o1))
    \<and> (o_type o1 = ''shoutout'' \<longrightarrow> o_to o1 \<noteq> [])"

lemma capEmitText_capped: "o_type (capEmitText o1) = ''chat'' \<Longrightarrow> capped_text (o_text (capEmitText o1))"
  using capChatText_capped [of "o_text o1"] by (auto simp: capEmitText_def capChatText_def Let_def split: prod.splits if_splits)

lemma capEmitText_same [simp]: "o_type (capEmitText o1) = o_type o1" "o_to (capEmitText o1) = o_to o1"
  by (auto simp: capEmitText_def split: prod.splits)

definition emit_inv :: "unicode \<Rightarrow> Lexicon option \<Rightarrow> emit_state \<Rightarrow> bool" where
  "emit_inv u lx st \<longleftrightarrow>
    (\<forall>(ident, e) \<in> set (es_published st). case e of Single o1 \<Rightarrow> clean_output u lx o1 | Batch _ _ _ \<Rightarrow> True)
    \<and> (\<exists>ns. sorted_wrt (<) ns \<and> (\<forall>n \<in> set ns. n \<le> es_ordinal st)
        \<and> map fst (es_published st) = map (replayOutputID (es_base st)) ns)"

lemma publish_step_inv:
  assumes "emit_inv u lx st" "case e of Single o1 \<Rightarrow> clean_output u lx o1 | Batch _ _ _ \<Rightarrow> True"
  shows "emit_inv u lx (publish_step pub st e)"
proof -
  let ?ident = "replayOutputID (es_base st) (es_ordinal st + 1)"
  obtain ns where ns: "sorted_wrt (<) ns" "\<forall>n \<in> set ns. n \<le> es_ordinal st"
    "map fst (es_published st) = map (replayOutputID (es_base st)) ns"
    using assms(1) by (auto simp: emit_inv_def)
  have clean: "\<forall>(ident, e) \<in> set (es_published st). case e of Single o1 \<Rightarrow> clean_output u lx o1 | Batch _ _ _ \<Rightarrow> True"
    using assms(1) unfolding emit_inv_def by (elim conjE)
  show ?thesis
  proof (cases "pub ?ident e")
    case None
    have "sorted_wrt (<) (ns @ [es_ordinal st + 1])" using ns by (auto simp: sorted_wrt_append)
    moreover have "\<forall>n \<in> set (ns @ [es_ordinal st + 1]). n \<le> es_ordinal st + 1" using ns(2) by auto
    ultimately have "\<exists>ms. sorted_wrt (<) ms \<and> (\<forall>n \<in> set ms. n \<le> es_ordinal st + 1)
      \<and> map fst (es_published st @ [(?ident, e)]) = map (replayOutputID (es_base st)) ms"
      using ns(3) by (intro exI [of _ "ns @ [es_ordinal st + 1]"]) simp
    then show ?thesis using None clean assms(2) by (simp add: emit_inv_def publish_step_def Let_def)
  next
    case (Some err)
    have "\<exists>ms. sorted_wrt (<) ms \<and> (\<forall>n \<in> set ms. n \<le> Suc (es_ordinal st))
      \<and> map fst (es_published st) = map (replayOutputID (es_base st)) ms"
      using ns by (intro exI [of _ ns]) auto
    then show ?thesis using Some clean by (simp add: emit_inv_def publish_step_def Let_def)
  qed
qed

lemma emit_one_inv:
  assumes "emit_inv u lx st"
  shows "emit_inv u lx (emit_one u lx pub st e)"
proof (cases e)
  case (Batch bid ident items)
  then show ?thesis using assms publish_step_inv [OF assms, of "Batch bid ident items"] by (simp add: emit_one_def)
next
  case (Single o0)
  let ?o = "capEmitText (Translate o0)"
  have "clean_output u lx ?o" if "\<not> isEmptyAction (Translate o0)" "\<not> floorSuppressed u lx ?o"
    using that capEmitText_capped [of "Translate o0"]
    by (auto simp: clean_output_def isEmptyAction_def floorSuppressed_def split: if_splits)
  then show ?thesis
    using assms publish_step_inv [OF assms, of "Single ?o"] Single by (simp add: emit_one_def Let_def)
qed

lemma replay_distinct: "\<lbrakk>base \<noteq> []; replayOutputID base m = replayOutputID base n\<rbrakk> \<Longrightarrow> m = n"
  by (simp add: replayOutputID_def itoa_def) (metis digits_value_nat_digits of_nat_eq_iff)

section \<open>Properties\<close>



end
