(* ===== verification/RunState.thy ===== *)
theory RunState
  imports AutoMatch AutoText AutoMath RunOutput
begin

text \<open>
  The state of an automation run (engine/automation.go, automation_exec.go): the run, the executor with
  its budget, pending outputs, signal and frames to resume, and the services the executor calls.
  Everything outside the executor is a state \<open>'w\<close> of the world that each call of a service may change:
  stores, the clock, randomness, and what the other paths of the run tree add to the shared counters.
  A panic is the signal \<open>signalPanic\<close>, which no handler resets.
\<close>

section \<open>Errors\<close>

datatype run_error = StatusError string string | WrappedError string run_error | OtherError string

definition failure :: "string \<Rightarrow> run_error" where "failure d = StatusError ''failed'' d"
definition limited :: "string \<Rightarrow> run_error" where "limited d = StatusError ''limited'' d"
definition skipped :: "string \<Rightarrow> run_error" where "skipped d = StatusError ''skipped'' d"
definition succeeded :: "string \<Rightarrow> run_error" where "succeeded d = StatusError ''ok'' d"

fun error_text :: "run_error \<Rightarrow> string" where
  "error_text (StatusError s d) = d"
| "error_text (WrappedError m e) = m"
| "error_text (OtherError m) = m"

text \<open>\<open>errors.As\<close> for a \<open>statusError\<close>.\<close>

fun status_in :: "run_error \<Rightarrow> (string \<times> string) option" where
  "status_in (StatusError s d) = Some (s, d)"
| "status_in (WrappedError m e) = status_in e"
| "status_in (OtherError m) = None"

definition classifyWrapped :: "run_error \<Rightarrow> string \<times> string" where
  "classifyWrapped e = (case status_in e of Some sd \<Rightarrow> sd | None \<Rightarrow> (''failed'', error_text e))"

definition classify :: "run_error option \<Rightarrow> string \<times> string" where
  "classify err =
    (case err of
       None \<Rightarrow> (''ok'', [])
     | Some (StatusError s d) \<Rightarrow> (s, d)
     | Some e \<Rightarrow> classifyWrapped e)"

section \<open>The run\<close>

record action_record =
  ar_index :: int
  ar_type :: string
  ar_status :: string
  ar_detail :: string
  ar_slot :: string

record viewer =
  vw_id :: nat
  vw_login :: string
  vw_name :: string

record lane_env =
  le_msg_id :: string
  le_event_id :: string
  le_event :: string

text \<open>
  \<open>AutomationRun\<close>. The chat context is kept as the role of its chatter; the slot as its ticket. The
  shared counters of the run tree are in the executor.
\<close>

record run =
  rn_plan :: plan
  rn_bid :: nat
  rn_channel :: string
  rn_premium :: bool
  rn_env :: "lane_env option"
  rn_ctx_role :: "nat option"
  rn_detached_role :: nat
  rn_viewer :: viewer
  rn_args :: string
  rn_arg_map :: "string \<rightharpoonup> string"
  rn_event :: "string \<rightharpoonup> string"
  rn_source :: string
  rn_id :: string
  rn_identity :: string
  rn_actions :: "action_record list"
  rn_outcome :: string
  rn_reason :: string
  rn_locals :: "string \<rightharpoonup> string"
  rn_cooldown_end :: int
  rn_iter :: string
  rn_replay :: string
  rn_slot :: "string option"
  rn_owns_slot :: bool
  rn_durable :: bool

datatype signal = signalNone | signalStop | signalDelay | signalPanic

record loopCursor =
  cu_step :: step
  cu_next :: int
  cu_total :: int
  cu_prior :: string
  cu_shadowed :: bool

record resume =
  rs_steps :: "step list"
  rs_loop :: "loopCursor option"
  rs_iter :: string

record runBudget =
  bu_delay_ms :: int
  bu_segment :: int
  bu_handled :: int

text \<open>A continuation, with the depth of its run.\<close>

record continuation =
  ct_run :: run
  ct_budget :: runBudget
  ct_rest :: "resume list"
  ct_wait :: int
  ct_depth :: nat

record 'w actionExec =
  x_run :: run
  x_world :: 'w
  x_emitted :: "emission list"
  x_started :: "continuation list"
  x_waiting :: "(run \<times> int) list"
  x_bid :: string
  x_budget :: runBudget
  x_flushes :: int
  x_pending :: "out_msg list"
  x_signal :: signal
  x_delay_ms :: int
  x_rest :: "resume list"
  x_iter :: string
  x_executed :: nat
  x_visits :: nat

section \<open>The services\<close>

type_synonym ('w, 'a) call = "'w \<Rightarrow> 'a \<times> 'w"

text \<open>Answers that may fail come with the failure; \<open>found\<close> flags are the booleans of the interfaces.\<close>

record 'w loyalty =
  ly_adjust :: "nat \<Rightarrow> nat \<Rightarrow> string \<Rightarrow> int \<Rightarrow> bool \<Rightarrow> ('w, bool \<times> run_error option) call"
  ly_bump :: "nat \<Rightarrow> string \<Rightarrow> viewer \<Rightarrow> int \<Rightarrow> ('w, run_error option) call"
  ly_set :: "nat \<Rightarrow> string \<Rightarrow> nat \<Rightarrow> int \<Rightarrow> ('w, bool \<times> run_error option) call"
  ly_peek :: "nat \<Rightarrow> string \<Rightarrow> nat \<Rightarrow> ('w, int \<times> run_error option) call"
  ly_balance :: "nat \<Rightarrow> nat \<Rightarrow> ('w, int \<times> run_error option) call"

text \<open>A fetch over the gossip service: its endpoint, the caller, the definition and the body of a post.\<close>

record fetch_request =
  fq_endpoint :: string
  fq_account :: string
  fq_channel :: string
  fq_premium :: bool
  fq_name :: string
  fq_url :: string
  fq_path :: "string list"
  fq_active :: bool
  fq_body :: string
  fq_capture :: bool

record fetch_reply =
  fy_status :: string
  fy_values :: "string list"

record 'w gossip =
  gs_fetch :: "fetch_request \<Rightarrow> ('w, fetch_reply option) call"
  gs_lights :: "lights_action \<Rightarrow> ('w, bool + string option) call"

record variable_owner =
  vo_bid :: nat
  vo_viewer :: nat
  vo_scope :: string

datatype variable_error = VariableLimit | VariableStoreError

record 'w variable_store =
  vt_get :: "variable_owner \<Rightarrow> string \<Rightarrow> ('w, string option + run_error) call"
  vt_set :: "variable_owner \<Rightarrow> string \<Rightarrow> string \<Rightarrow> ('w, variable_error option) call"
  vt_add :: "variable_owner \<Rightarrow> string \<Rightarrow> int \<Rightarrow> ('w, variable_error option) call"
  vt_delete :: "variable_owner \<Rightarrow> string \<Rightarrow> ('w, variable_error option) call"

text \<open>Durations are nanoseconds.\<close>

record cooldown_window =
  cw_key :: string
  cw_ttl :: int

record 'w long_cooldowns =
  lc_claim :: "nat \<Rightarrow> cooldown_window list \<Rightarrow> ('w, string list \<times> bool \<times> run_error option) call"
  lc_release :: "nat \<Rightarrow> string list \<Rightarrow> ('w, run_error option) call"
  lc_left :: "nat \<Rightarrow> string list \<Rightarrow> ('w, int list + run_error) call"
  lc_extend :: "nat \<Rightarrow> string \<Rightarrow> int \<Rightarrow> ('w, (int \<times> bool \<times> bool) + run_error) call"

record 'w cooldown_store =
  cl_allow :: "string \<Rightarrow> int \<Rightarrow> ('w, bool \<times> run_error option) call"
  cl_allow_all :: "cooldown_window list \<Rightarrow> ('w, bool \<times> run_error option) call"
  cl_time_left :: "string \<Rightarrow> ('w, int + run_error) call"

text \<open>
  \<open>sv_slow\<close> tells whether the time of a segment is used up; \<open>sv_other_visits\<close> and
  \<open>sv_other_executed\<close> what concurrent paths have added to the counters; \<open>sv_render\<close> renders a lexed
  template with the scopes of the run; \<open>sv_floats\<close> are the operations on the 64-bit patterns of floats
  with the random draws of the call; \<open>sv_dec_text\<close> is the text of a decoding error; \<open>sv_seen\<close> is the store
  of the event dedup (None without one). \<open>sv_record\<close> and \<open>sv_record_waiter\<close> record a paused run in the durable store: whether this replica keeps it, and whether a record of it is held;
  \<open>sv_queue_wait\<close> is the reason \<open>waitQueueTurn\<close> ends with.
\<close>

text \<open>How the wait of a paused run ends: its time is up, this replica stops, or the context is cancelled.\<close>

datatype resume_wake = ResumeDue | ResumeHalted | ResumeCanceled

record 'w services =
  sv_env :: env
  sv_unicode :: unicode
  sv_lexicon :: "Lexicon option"
  sv_slow :: "('w, bool) call"
  sv_other_visits :: "('w, nat) call"
  sv_other_executed :: "('w, nat) call"
  sv_intN :: "int \<Rightarrow> ('w, int) call"
  sv_rng :: "('w, rng) call"
  sv_floats :: "('w, 64 word fops) call"
  sv_render :: "token list \<Rightarrow> run \<Rightarrow> ('w, string) call"
  sv_locale :: "run \<Rightarrow> string"
  sv_resolve :: "(string \<Rightarrow> ('w, string \<times> bool \<times> bool) call) option"
  sv_seen :: "(string \<Rightarrow> ('w, bool \<times> bool) call) option"
  sv_unseen :: "string \<Rightarrow> 'w \<Rightarrow> 'w"
  sv_loyalty :: "'w loyalty option"
  sv_gossip :: "'w gossip option"
  sv_variables :: "'w variable_store option"
  sv_long :: "'w long_cooldowns option"
  sv_cooldown :: "'w cooldown_store option"
  sv_live :: "(nat \<Rightarrow> ('w, bool \<times> run_error option) call) option"
  sv_game :: "(string \<Rightarrow> ('w, string + run_error) call) option"
  sv_dec_text :: "dec_error \<Rightarrow> string"
  sv_reward_ids :: "string \<Rightarrow> (string \<times> string) option"
  sv_locked :: "nat \<Rightarrow> ('w, bool) call"
  sv_index :: "(nat \<Rightarrow> ('w, trigger_index option) call) option"
  sv_new_id :: "('w, string option) call"
  sv_hash_hex :: "string \<Rightarrow> string"
  sv_hash_num :: "string \<Rightarrow> nat"
  sv_now_ns :: "('w, int) call"
  sv_record :: "continuation \<Rightarrow> ('w, bool \<times> bool) call"
  sv_record_waiter :: "run \<Rightarrow> int \<Rightarrow> ('w, bool \<times> bool) call"
  sv_finish_durable :: "run \<Rightarrow> ('w, bool) call"
  sv_await :: "('w, resume_wake) call"
  sv_still_ours :: "run \<Rightarrow> ('w, bool) call"
  sv_queue_enter :: "nat \<Rightarrow> string \<Rightarrow> string \<Rightarrow> ('w, int option) call"
  sv_queue_leave :: "run \<Rightarrow> 'w \<Rightarrow> 'w"
  sv_waiters_enter :: "('w, bool) call"
  sv_queue_wait :: "run \<Rightarrow> int \<Rightarrow> ('w, string) call"
  sv_log_run :: "run \<Rightarrow> 'w \<Rightarrow> 'w"

definition call :: "('w, 'a) call \<Rightarrow> 'w actionExec \<Rightarrow> 'a \<times> 'w actionExec" where
  "call f x = (case f (x_world x) of (a, w) \<Rightarrow> (a, x\<lparr>x_world := w\<rparr>))"

section \<open>Locals, records and templates\<close>

definition setLocal :: "string \<Rightarrow> string \<Rightarrow> 'w actionExec \<Rightarrow> 'w actionExec" where
  "setLocal name v x =
    x\<lparr>x_run := (x_run x)\<lparr>rn_locals := (rn_locals (x_run x))(name \<mapsto> truncate_runes v 500)\<rparr>\<rparr>"

definition deleteLocal :: "string \<Rightarrow> 'w actionExec \<Rightarrow> 'w actionExec" where
  "deleteLocal name x = x\<lparr>x_run := (x_run x)\<lparr>rn_locals := (rn_locals (x_run x))(name := None)\<rparr>\<rparr>"

definition saveLocal :: "'w services \<Rightarrow> string \<Rightarrow> string \<Rightarrow> 'w actionExec \<Rightarrow> 'w actionExec" where
  "saveLocal S raw v x =
    (case VariableName (sv_env S) raw of (name, ok) \<Rightarrow> if ok then setLocal name v x else x)"

definition add_record :: "step \<Rightarrow> string \<Rightarrow> string \<Rightarrow> 'w actionExec \<Rightarrow> 'w actionExec" where
  "add_record s status detail x =
    x\<lparr>x_run := (x_run x)\<lparr>rn_actions := rn_actions (x_run x) @
      [\<lparr>ar_index = s_index s, ar_type = s_type s, ar_status = status, ar_detail = detail, ar_slot = []\<rparr>]\<rparr>\<rparr>"

definition recordLimited :: "step \<Rightarrow> string \<Rightarrow> 'w actionExec \<Rightarrow> 'w actionExec" where
  "recordLimited s detail x = add_record s ''limited'' detail x"

definition set_record :: "nat \<Rightarrow> string \<times> string \<Rightarrow> 'w actionExec \<Rightarrow> 'w actionExec" where
  "set_record slot sd x =
    (let acts = rn_actions (x_run x)
     in x\<lparr>x_run := (x_run x)\<lparr>rn_actions :=
          acts[slot := (acts ! slot)\<lparr>ar_status := fst sd, ar_detail := snd sd\<rparr>]\<rparr>\<rparr>)"

definition tallyRecords :: "action_record list \<Rightarrow> nat \<times> nat" where
  "tallyRecords rs =
    (length (filter (\<lambda>r. ar_status r = ''ok'') rs),
     length (filter (\<lambda>r. ar_status r \<in> {''failed'', ''limited'', ''unsupported''}) rs))"

definition plan_lex :: "'w services \<Rightarrow> run \<Rightarrow> string \<Rightarrow> token list" where
  "plan_lex S r t = (case p_templates (rn_plan r) t of Some toks \<Rightarrow> toks | None \<Rightarrow> Lex (e_lower (sv_env S)) t)"

definition expand :: "'w services \<Rightarrow> string \<Rightarrow> 'w actionExec \<Rightarrow> string \<times> 'w actionExec" where
  "expand S t x =
    (if CHR ''{'' \<notin> set t then (t, x)
     else let toks = plan_lex S (x_run x) t in
       if \<not> list_ex is_var_token toks then (t, x) else call (sv_render S toks (x_run x)) x)"

section \<open>Identity and replay keys\<close>

definition event_identity :: "lane_env \<Rightarrow> string" where
  "event_identity e = (if le_msg_id e \<noteq> [] then le_msg_id e else le_event_id e)"

definition run_identity :: "run \<Rightarrow> string" where
  "run_identity r =
    (case rn_env r of
       Some e \<Rightarrow> if event_identity e \<noteq> [] then event_identity e else rn_identity r
     | None \<Rightarrow> rn_identity r)"

definition plan_id :: "run \<Rightarrow> string" where
  "plan_id r = au_id (p_automation (rn_plan r))"

definition replayKey :: "run \<Rightarrow> string" where
  "replayKey r =
    (if rn_replay r \<noteq> [] then rn_replay r
     else let identity = run_identity r in
       if identity = [] \<or> has_prefix identity '':'' then rn_id r else identity @ ''>'' @ plan_id r)"

definition nestedReplayKey :: "'w services \<Rightarrow> string \<Rightarrow> string \<Rightarrow> string" where
  "nestedReplayKey S parent site = sv_hash_hex S (parent @ [char_of (0 :: nat)] @ site)"

section \<open>Outputs\<close>

definition x_out :: "string \<Rightarrow> 'w actionExec \<Rightarrow> out_msg" where
  "x_out typ x = blank_output typ (x_bid x)"

definition queue_out :: "'w services \<Rightarrow> out_msg \<Rightarrow> 'w actionExec \<Rightarrow> run_error option \<times> 'w actionExec" where
  "queue_out S o0 x =
    (case prepareCommand (sv_unicode S) (sv_lexicon S) o0 of
       (o1, keep) \<Rightarrow> if \<not> keep then (Some (skipped ''empty''), x) else (None, x\<lparr>x_pending := x_pending x @ [o1]\<rparr>))"

definition queueText :: "'w services \<Rightarrow> out_msg \<Rightarrow> 'w actionExec \<Rightarrow> run_error option \<times> 'w actionExec" where
  "queueText S o0 x =
    (let pending =
       (if o_type o0 = ''chat'' then appendChatLines (sv_unicode S) (sv_lexicon S) (x_pending x) o0
        else case prepareCommand (sv_unicode S) (sv_lexicon S) o0 of
          (o1, keep) \<Rightarrow> if keep then x_pending x @ [o1] else x_pending x)
     in (if length pending = length (x_pending x) then Some (skipped ''empty'') else None, x\<lparr>x_pending := pending\<rparr>))"

definition emitBatch :: "out_msg list \<Rightarrow> 'w actionExec \<Rightarrow> 'w actionExec" where
  "emitBatch items x0 =
    (let x = x0\<lparr>x_flushes := x_flushes x0 + 1\<rparr>;
         ident = replayKey (x_run x) @ '':'' @ itoa (bu_segment (x_budget x)) @ '':'' @ itoa (x_flushes x)
     in x\<lparr>x_emitted := x_emitted x @ [Batch (x_bid x) ident items]\<rparr>)"

definition flush :: "'w actionExec \<Rightarrow> 'w actionExec" where
  "flush x =
    (let x1 = (case x_pending x of
         [] \<Rightarrow> x
       | [o1] \<Rightarrow> x\<lparr>x_emitted := x_emitted x @ [Single o1]\<rparr>
       | items \<Rightarrow> emitBatch items x)
     in x1\<lparr>x_pending := []\<rparr>)"

end
