(* ===== verification/RunActions.thy ===== *)
theory RunActions
  imports RunState
begin

text \<open>
  The steps of a recipe that do not route to other steps, and the conditions: automation\_action\_output.go,
  automation\_action\_effects.go, automation\_action\_data.go, automation\_cond\_*.go, cooldown\_add\_step.go,
  cooldown\_long.go and cooldown\_left.go of the engine, and the claim of an effect in dedup.go. A
  handler answers an error or none, as the code's do.
\<close>

type_synonym 'w handled = "run_error option \<times> 'w actionExec"

section \<open>Viewers and targets\<close>

definition NormalizeLogin :: "'w services \<Rightarrow> string \<Rightarrow> string" where
  "NormalizeLogin S payload =
    (let login = to_lower (e_lower (sv_env S)) (trim_prefix (trim_space payload) ''@'') in
     if list_ex (\<lambda>(r, _). r < 32 \<or> r = 127) (runes login) then [] else login)"

definition viewerName :: "'w actionExec \<Rightarrow> string" where
  "viewerName x =
    (let v = rn_viewer (x_run x) in
     if vw_name v \<noteq> [] then trim_prefix (vw_name v) ''@'' else trim_prefix (vw_login v) ''@'')"

definition lookupLogin :: "'w services \<Rightarrow> string \<Rightarrow> 'w actionExec \<Rightarrow> (run_error + nat \<times> string) \<times> 'w actionExec" where
  "lookupLogin S login x0 =
    (case sv_resolve S of
       None \<Rightarrow> (Inl (failure ''no_lookup''), x0)
     | Some resolve \<Rightarrow>
         (case call (resolve login) x0 of ((raw, found, failed), x) \<Rightarrow>
            if failed then (Inl (failure ''lookup_failed''), x)
            else case parse_uint raw of (ident, parse_err) \<Rightarrow>
              if \<not> found then (Inl (failure ''not_found''), x)
              else if parse_err \<noteq> None \<or> ident = 0 then (Inl (failure ''not_found''), x)
              else (Inr (nat ident, login), x)))"

definition target :: "'w services \<Rightarrow> string \<Rightarrow> bool \<Rightarrow> 'w actionExec \<Rightarrow> (run_error + nat \<times> string) \<times> 'w actionExec" where
  "target S template self_when_empty x0 =
    (case expand S template x0 of (t, x) \<Rightarrow>
       let login = NormalizeLogin S t; v = rn_viewer (x_run x) in
       if login = [] \<and> self_when_empty then
         (let login = NormalizeLogin S (vw_login v) in
          if vw_id v = 0 then (Inl (failure ''no_viewer''), x) else (Inr (vw_id v, login), x))
       else if login = [] then (Inl (failure ''empty_login''), x)
       else if vw_id v \<noteq> 0 \<and> login = NormalizeLogin S (vw_login v) then (Inr (vw_id v, login), x)
       else lookupLogin S login x)"

section \<open>Output steps\<close>

definition act_chat :: "'w services \<Rightarrow> text_action \<Rightarrow> 'w actionExec \<Rightarrow> 'w handled" where
  "act_chat S p x0 = (case expand S (txt_text p) x0 of (t, x) \<Rightarrow> queueText S ((x_out ''chat'' x)\<lparr>o_text := t\<rparr>) x)"

definition act_announce :: "'w services \<Rightarrow> announce_action \<Rightarrow> 'w actionExec \<Rightarrow> 'w handled" where
  "act_announce S p x0 =
    (case expand S (ann_text p) x0 of (t, x) \<Rightarrow>
       queueText S ((x_out ''announce'' x)\<lparr>o_text := t, o_color := ann_color p\<rparr>) x)"

definition act_reply :: "'w services \<Rightarrow> text_action \<Rightarrow> 'w actionExec \<Rightarrow> 'w handled" where
  "act_reply S p x0 =
    (case expand S (txt_text p) x0 of (t, x) \<Rightarrow>
       let name = viewerName x;
           t = (if name \<noteq> [] \<and> trim_space t \<noteq> [] then ''@'' @ name @ '' '' @ t else t)
       in queueText S ((x_out ''chat'' x)\<lparr>o_text := t\<rparr>) x)"

definition moderate :: "'w services \<Rightarrow> string \<Rightarrow> string \<Rightarrow> string \<Rightarrow> int \<Rightarrow> 'w actionExec \<Rightarrow> 'w handled" where
  "moderate S typ login reason seconds x0 =
    (case target S login False x0 of
       (Inl err, x) \<Rightarrow> (Some err, x)
     | (Inr (ident, _), x) \<Rightarrow>
         (case expand S reason x of (r, x) \<Rightarrow>
            queue_out S ((x_out typ x)\<lparr>o_target := nat_digits ident, o_duration := seconds, o_reason := r\<rparr>) x))"

definition act_timeout :: "'w services \<Rightarrow> timeout_action \<Rightarrow> 'w actionExec \<Rightarrow> 'w handled" where
  "act_timeout S p x = moderate S ''timeout'' (to_login p) (to_reason p) (to_seconds p) x"

definition act_ban :: "'w services \<Rightarrow> ban_action \<Rightarrow> 'w actionExec \<Rightarrow> 'w handled" where
  "act_ban S p x = moderate S ''ban'' (ban_login p) (ban_reason p) 0 x"

definition act_warn :: "'w services \<Rightarrow> warn_action \<Rightarrow> 'w actionExec \<Rightarrow> 'w handled" where
  "act_warn S p x = moderate S ''warn'' (wa_login p) (wa_reason p) 0 x"

definition act_delete_message :: "'w services \<Rightarrow> 'w actionExec \<Rightarrow> 'w handled" where
  "act_delete_message S x =
    (case rn_env (x_run x) of
       None \<Rightarrow> (Some (failure ''no_message''), x)
     | Some e \<Rightarrow>
         if le_msg_id e = [] then (Some (failure ''no_message''), x)
         else queue_out S ((x_out ''delete'' x)\<lparr>o_msg_id := le_msg_id e\<rparr>) x)"

definition act_shield :: "'w services \<Rightarrow> shield_action \<Rightarrow> 'w actionExec \<Rightarrow> 'w handled" where
  "act_shield S p x =
    queue_out S (if \<not> sh_on p then (x_out ''shield_mode'' x)\<lparr>o_status := ''off''\<rparr> else x_out ''shield_mode'' x) x"

definition act_shoutout :: "'w services \<Rightarrow> login_action \<Rightarrow> 'w actionExec \<Rightarrow> 'w handled" where
  "act_shoutout S p x0 =
    (case expand S (lo_login p) x0 of (t, x) \<Rightarrow> queue_out S ((x_out ''shoutout'' x)\<lparr>o_to := NormalizeLogin S t\<rparr>) x)"

definition act_clip :: "'w services \<Rightarrow> 'w actionExec \<Rightarrow> 'w handled" where
  "act_clip S x = queue_out S ((x_out ''clip'' x)\<lparr>o_to := viewerName x\<rparr>) x"

text \<open>\<open>truncateRunes\<close> cuts after a number of runes.\<close>

definition truncateRunes :: "string \<Rightarrow> nat \<Rightarrow> string" where
  "truncateRunes s n = concat (map snd (take n (runes s)))"

definition act_marker :: "'w services \<Rightarrow> marker_action \<Rightarrow> 'w actionExec \<Rightarrow> 'w handled" where
  "act_marker S p x0 =
    (case expand S (mk_description p) x0 of (t, x) \<Rightarrow>
       queue_out S ((x_out ''stream_marker'' x)\<lparr>o_text := truncateRunes (trim_space t) 140,
         o_template := sv_locale S (x_run x), o_to := viewerName x\<rparr>) x)"

definition channelUpdate :: "'w services \<Rightarrow> string \<Rightarrow> string \<Rightarrow> nat \<Rightarrow> 'w actionExec \<Rightarrow> 'w handled" where
  "channelUpdate S field template max_runes x0 =
    (case expand S template x0 of (t, x) \<Rightarrow>
       let v = trim_space t in
       if v = [] then (Some (failure ''empty''), x)
       else if max_runes < rune_count v then (Some (failure ''too_long''), x)
       else queue_out S ((x_out ''channel_update'' x)\<lparr>o_text := v, o_reason := field,
         o_template := sv_locale S (x_run x), o_to := viewerName x\<rparr>) x)"

definition act_set_title :: "'w services \<Rightarrow> set_title_action \<Rightarrow> 'w actionExec \<Rightarrow> 'w handled" where
  "act_set_title S p x = channelUpdate S ''title'' (ti_title p) 140 x"

definition act_set_game :: "'w services \<Rightarrow> set_game_action \<Rightarrow> 'w actionExec \<Rightarrow> 'w handled" where
  "act_set_game S p x = channelUpdate S ''game'' (ga_game p) 100 x"

definition act_set_tags :: "'w services \<Rightarrow> set_tags_action \<Rightarrow> 'w actionExec \<Rightarrow> 'w handled" where
  "act_set_tags S p x = channelUpdate S ''tags'' (ta_tags p) 500 x"

definition act_commercial :: "'w services \<Rightarrow> commercial_action \<Rightarrow> 'w actionExec \<Rightarrow> 'w handled" where
  "act_commercial S p x =
    queue_out S ((x_out ''commercial'' x)\<lparr>o_duration := cm_seconds p,
      o_template := sv_locale S (x_run x), o_to := viewerName x\<rparr>) x"

text \<open>Decoding the event is the service \<open>sv_reward_ids\<close>: the reward and the redemption, if it decodes.\<close>

definition redemptionIDs :: "'w services \<Rightarrow> 'w actionExec \<Rightarrow> string \<times> string" where
  "redemptionIDs S x =
    (case rn_env (x_run x) of
       None \<Rightarrow> ([], [])
     | Some e \<Rightarrow>
         if le_event e = [] then ([], [])
         else case sv_reward_ids S (le_event e) of None \<Rightarrow> ([], []) | Some ids \<Rightarrow> ids)"

definition redemptionStatuses :: "string \<Rightarrow> string option" where
  "redemptionStatuses = map_of [(''fulfill'', ''FULFILLED''), (''cancel'', ''CANCELED'')]"

definition act_redemption :: "'w services \<Rightarrow> redemption_action \<Rightarrow> 'w actionExec \<Rightarrow> 'w handled" where
  "act_redemption S p x =
    (case redemptionIDs S x of (reward, redemption) \<Rightarrow>
       if reward = [] \<or> redemption = [] then (Some (failure ''no_redemption''), x)
       else case redemptionStatuses (re_status p) of
         None \<Rightarrow> (Some (failure ''no_redemption''), x)
       | Some status \<Rightarrow>
           queue_out S ((x_out ''redemption_update'' x)\<lparr>o_reward_id := reward, o_redemption_id := redemption, o_status := status\<rparr>) x)"

definition set_last_slot :: "string \<Rightarrow> 'w actionExec \<Rightarrow> 'w actionExec" where
  "set_last_slot slot x =
    (let acts = rn_actions (x_run x); k = length acts - 1
     in x\<lparr>x_run := (x_run x)\<lparr>rn_actions := acts[k := (acts ! k)\<lparr>ar_slot := slot\<rparr>]\<rparr>\<rparr>)"

definition act_reward_update :: "'w services \<Rightarrow> step \<Rightarrow> reward_update_action \<Rightarrow> 'w actionExec \<Rightarrow> 'w handled" where
  "act_reward_update S s p x0 =
    (let slot = s_effect_key s @ x_iter x0;
         o1 = (x_out ''reward_update'' x0)\<lparr>o_reward_id := rw_reward_id p,
           o_reward := Some \<lparr>ow_enabled = rw_enabled p, ow_cost = rw_cost p, ow_reset = rw_reset_on_stream_end p\<rparr>,
           o_run_id := rn_id (x_run x0), o_slot := slot\<rparr>
     in case queue_out S o1 x0 of
          (Some err, x) \<Rightarrow> (Some err, x)
        | (None, x) \<Rightarrow> (Some (succeeded ''queued''), set_last_slot slot x))"

section \<open>Effects that happen once\<close>

text \<open>\<open>EventDedup.Claim\<close>: whether the effect is a duplicate, and the key to release if any.\<close>

definition dedupKey :: "string \<Rightarrow> string \<Rightarrow> string" where
  "dedupKey identity effect = identity @ '':'' @ effect"

definition dedup_claim :: "'w services \<Rightarrow> string \<Rightarrow> string \<Rightarrow> 'w actionExec \<Rightarrow> (bool \<times> string option) \<times> 'w actionExec" where
  "dedup_claim S identity effect x0 =
    (case sv_seen S of
       None \<Rightarrow> ((False, None), x0)
     | Some seen_fn \<Rightarrow>
         if identity = [] then ((False, None), x0)
         else let key = dedupKey identity effect in
           case call (seen_fn key) x0 of ((seen, failed), x) \<Rightarrow>
             if seen then ((True, None), x)
             else if failed then ((False, None), x)
             else ((False, Some key), x))"

definition release :: "'w services \<Rightarrow> string option \<Rightarrow> 'w actionExec \<Rightarrow> 'w actionExec" where
  "release S key x = (case key of None \<Rightarrow> x | Some k \<Rightarrow> x\<lparr>x_world := sv_unseen S k (x_world x)\<rparr>)"

definition once :: "'w services \<Rightarrow> step \<Rightarrow> ('w actionExec \<Rightarrow> 'w handled) \<Rightarrow> 'w actionExec \<Rightarrow> 'w handled" where
  "once S s f x0 =
    (case dedup_claim S (run_identity (x_run x0)) (s_effect_key s @ x_iter x0) x0 of ((dup, key), x) \<Rightarrow>
       if dup then (Some (skipped ''duplicate''), x)
       else case f x of
         (Some err, x) \<Rightarrow> (Some err, release S key x)
       | (None, x) \<Rightarrow> (None, x))"

definition onceRefusable :: "'w services \<Rightarrow> step \<Rightarrow> ('w actionExec \<Rightarrow> 'w handled) \<Rightarrow> 'w actionExec \<Rightarrow> 'w handled" where
  "onceRefusable S s f x0 =
    (case dedup_claim S (run_identity (x_run x0)) (s_effect_key s @ x_iter x0) x0 of ((dup, key), x) \<Rightarrow>
       if dup then (Some (skipped ''duplicate''), x)
       else case f x of (err, x) \<Rightarrow>
         (err, if fst (classify err) = ''skipped'' then release S key x else x))"

definition storeResult :: "run_error option \<Rightarrow> bool \<Rightarrow> run_error option" where
  "storeResult err found =
    (if err \<noteq> None then Some (failure ''store_error'') else if \<not> found then Some (failure ''not_found'') else None)"

definition adjustPoints :: "'w services \<Rightarrow> step \<Rightarrow> string \<Rightarrow> int \<Rightarrow> bool \<Rightarrow> 'w actionExec \<Rightarrow> 'w handled" where
  "adjustPoints S s login amount absolute x0 =
    (case sv_loyalty S of
       None \<Rightarrow> (Some (failure ''no_loyalty''), x0)
     | Some l \<Rightarrow>
         (case target S login True x0 of
            (Inl err, x) \<Rightarrow> (Some err, x)
          | (Inr (ident, tlogin), x) \<Rightarrow>
              once S s (\<lambda>x. case call (ly_adjust l (rn_bid (x_run x)) ident tlogin amount absolute) x of
                ((found, err), x) \<Rightarrow> (storeResult err found, x)) x))"

definition act_points_add :: "'w services \<Rightarrow> step \<Rightarrow> points_add_action \<Rightarrow> 'w actionExec \<Rightarrow> 'w handled" where
  "act_points_add S s p x = adjustPoints S s (pa_login p) (pa_amount p) False x"

definition act_points_set :: "'w services \<Rightarrow> step \<Rightarrow> points_set_action \<Rightarrow> 'w actionExec \<Rightarrow> 'w handled" where
  "act_points_set S s p x = adjustPoints S s (ps_login p) (ps_amount p) True x"

definition loyaltyOnce ::
  "'w services \<Rightarrow> step \<Rightarrow> ('w loyalty \<Rightarrow> ('w, bool \<times> run_error option) call) \<Rightarrow> 'w actionExec \<Rightarrow> 'w handled" where
  "loyaltyOnce S s apply_to x0 =
    (case sv_loyalty S of
       None \<Rightarrow> (Some (failure ''no_loyalty''), x0)
     | Some l \<Rightarrow> once S s (\<lambda>x. case call (apply_to l) x of ((found, err), x) \<Rightarrow> (storeResult err found, x)) x0)"

definition act_counter_add :: "'w services \<Rightarrow> step \<Rightarrow> counter_add_action \<Rightarrow> 'w actionExec \<Rightarrow> 'w handled" where
  "act_counter_add S s p x =
    loyaltyOnce S s (\<lambda>l w. case ly_bump l (rn_bid (x_run x)) (ca_name p) (rn_viewer (x_run x)) (ca_amount p) w of
      (err, w) \<Rightarrow> ((True, err), w)) x"

definition act_counter_set :: "'w services \<Rightarrow> step \<Rightarrow> counter_set_action \<Rightarrow> 'w actionExec \<Rightarrow> 'w handled" where
  "act_counter_set S s p x =
    loyaltyOnce S s (\<lambda>l. ly_set l (rn_bid (x_run x)) (cs_name p) (vw_id (rn_viewer (x_run x))) (cs_value p)) x"

definition lightsRefusal :: "'w services \<Rightarrow> lights_action \<Rightarrow> run_error option" where
  "lightsRefusal S p =
    (if sv_gossip S = None then Some (failure ''no_gossip'')
     else if \<not> (li_device p \<noteq> [] \<and> li_sku p \<noteq> []) then Some (failure ''no_device'') else None)"

text \<open>\<open>sendLights\<close>: the reply tells whether a scene was applied; a refusal carries a message.\<close>

definition sendLights :: "'w services \<Rightarrow> lights_action \<Rightarrow> 'w actionExec \<Rightarrow> 'w handled" where
  "sendLights S p x0 =
    (case sv_gossip S of
       None \<Rightarrow> (Some (failure ''no_gossip''), x0)
     | Some g \<Rightarrow>
         (case call (gs_lights g p) x0 of (answer, x) \<Rightarrow>
            (case answer of
               Inr (Some message) \<Rightarrow> Some (failure message)
             | Inr None \<Rightarrow> Some (failure ''gossip_error'')
             | Inl scene_applied \<Rightarrow>
                 if li_mode p = ''scene'' \<and> \<not> scene_applied then Some (failure ''gossip_outdated'') else None, x)))"

definition act_lights :: "'w services \<Rightarrow> step \<Rightarrow> lights_action \<Rightarrow> 'w actionExec \<Rightarrow> 'w handled" where
  "act_lights S s p x =
    (case lightsRefusal S p of Some err \<Rightarrow> (Some err, x) | None \<Rightarrow> once S s (sendLights S p) x)"

section \<open>Variable steps\<close>

definition variableOwner :: "string \<Rightarrow> 'w actionExec \<Rightarrow> variable_owner \<times> run_error option" where
  "variableOwner scope_name x =
    (let owner = \<lparr>vo_bid = rn_bid (x_run x), vo_viewer = 0, vo_scope = scope_name\<rparr>;
         viewer_id = vw_id (rn_viewer (x_run x))
     in if scope_name \<noteq> ''viewer'' then (owner, None)
        else if viewer_id = 0 then (owner, Some (failure ''no_viewer''))
        else (owner\<lparr>vo_viewer := viewer_id\<rparr>, None))"

definition variableResult :: "variable_error option \<Rightarrow> run_error option" where
  "variableResult err =
    (case err of
       None \<Rightarrow> None
     | Some VariableLimit \<Rightarrow> Some (limited ''var_limit'')
     | Some VariableStoreError \<Rightarrow> Some (failure ''store_error''))"

definition variableWrite ::
  "'w services \<Rightarrow> step \<Rightarrow> string
    \<Rightarrow> ('w variable_store \<Rightarrow> variable_owner \<Rightarrow> ('w, variable_error option) call) \<Rightarrow> 'w actionExec \<Rightarrow> 'w handled" where
  "variableWrite S s scope_name write_to x0 =
    (case sv_variables S of
       None \<Rightarrow> (Some (failure ''no_variables''), x0)
     | Some store \<Rightarrow>
         (case variableOwner scope_name x0 of
            (_, Some err) \<Rightarrow> (Some err, x0)
          | (owner, None) \<Rightarrow>
              once S s (\<lambda>x. case call (write_to store owner) x of (err, x) \<Rightarrow> (variableResult err, x)) x0))"

definition act_var_set :: "'w services \<Rightarrow> step \<Rightarrow> var_set_action \<Rightarrow> 'w actionExec \<Rightarrow> 'w handled" where
  "act_var_set S s p x0 =
    (let name = fst (VariableName (sv_env S) (vr_name (vs_ref p))) in
     case expand S (vs_value p) x0 of (v, x) \<Rightarrow>
       if \<not> value_fits v then (Some (limited ''var_limit''), x)
       else variableWrite S s (vr_scope (vs_ref p)) (\<lambda>store owner. vt_set store owner name v) x)"

definition act_var_add :: "'w services \<Rightarrow> step \<Rightarrow> var_add_action \<Rightarrow> 'w actionExec \<Rightarrow> 'w handled" where
  "act_var_add S s p x =
    (let name = fst (VariableName (sv_env S) (vr_name (va_ref p)))
     in variableWrite S s (vr_scope (va_ref p)) (\<lambda>store owner. vt_add store owner name (va_amount p)) x)"

definition act_var_delete :: "'w services \<Rightarrow> step \<Rightarrow> var_delete_action \<Rightarrow> 'w actionExec \<Rightarrow> 'w handled" where
  "act_var_delete S s p x =
    (let name = fst (VariableName (sv_env S) (vr_name (vd_ref p)))
     in variableWrite S s (vr_scope (vd_ref p)) (\<lambda>store owner. vt_delete store owner name) x)"

section \<open>Text and mathematics\<close>

definition textStep :: "'w services \<Rightarrow> text_step_action \<Rightarrow> 'w actionExec \<Rightarrow> 'w handled" where
  "textStep S p x0 =
    (case expand S (ts_input p) x0 of (input, x) \<Rightarrow>
     case expand S (ts_arg1 p) x of (arg1, x) \<Rightarrow>
     case expand S (ts_arg2 p) x of (arg2, x) \<Rightarrow>
     case call (sv_rng S) x of (draw, x) \<Rightarrow>
       (case ApplyText (sv_env S) draw (ts_op p) \<lparr>op_input = input, op_arg1 = arg1, op_arg2 = arg2\<rparr> of
          TextOk r \<Rightarrow> (None, saveLocal S (ts_save_as p) r x)
        | TextError \<Rightarrow> (Some (failure ''text_error''), x)
        | TextPanic \<Rightarrow> (None, x\<lparr>x_signal := signalPanic\<rparr>)))"

definition mathStep :: "'w services \<Rightarrow> math_action \<Rightarrow> 'w actionExec \<Rightarrow> 'w handled" where
  "mathStep S p x0 =
    (case expand S (ma_expression p) x0 of (expression, x) \<Rightarrow>
     case call (sv_floats S) x of (F, x) \<Rightarrow>
       (case EvalMath F expression of
          Some (Some r) \<Rightarrow> (None, saveLocal S (ma_save_as p) r x)
        | _ \<Rightarrow> (Some (failure ''math_error''), x)))"

section \<open>Adding to a cooldown\<close>

definition eventAmount :: "'w actionExec \<Rightarrow> int" where
  "eventAmount x =
    (case rn_event (x_run x) ''amount'' of
       None \<Rightarrow> 0
     | Some raw \<Rightarrow> (case parse_int raw of (n, None) \<Rightarrow> n | (_, Some _) \<Rightarrow> 0))"

definition extendNamedCooldown ::
  "'w long_cooldowns \<Rightarrow> string \<Rightarrow> int \<Rightarrow> 'w actionExec \<Rightarrow> 'w handled" where
  "extendNamedCooldown store key seconds x0 =
    (case call (lc_extend store (rn_bid (x_run x0)) key seconds) x0 of (answer, x) \<Rightarrow>
       (case answer of
          Inr _ \<Rightarrow> (Some (failure ''store_error''), x)
        | Inl (expires, found, shortened) \<Rightarrow>
            if \<not> found then (Some (skipped ''not_running''), x)
            else let x = x\<lparr>x_run := (x_run x)\<lparr>rn_cooldown_end := expires\<rparr>\<rparr> in
              if shortened then (Some (succeeded ''capped''), x)
              else (Some (succeeded (itoa seconds @ ''s'')), x)))"

definition act_cooldown_add :: "'w services \<Rightarrow> step \<Rightarrow> cooldown_add_action \<Rightarrow> 'w actionExec \<Rightarrow> 'w handled" where
  "act_cooldown_add S s p x =
    (case VariableName (sv_env S) (cda_name p) of (name, ok) \<Rightarrow>
       if \<not> ok then (Some (failure ''bad_name''), x)
       else case cooldown_add_seconds p (eventAmount x) of (seconds, ok) \<Rightarrow>
         if \<not> ok then (Some (skipped ''below_rate''), x)
         else case sv_long S of
           None \<Rightarrow> (Some (failure ''no_long_cooldowns''), x)
         | Some store \<Rightarrow>
             onceRefusable S s
               (extendNamedCooldown store (long_cooldown_named_key (sv_env S) (rn_bid (x_run x)) name) seconds) x)"

section \<open>Fetching\<close>

datatype fetch_result = FetchResult (fr_failure: string) (fr_value: string)

definition replyResult :: "string \<Rightarrow> string list \<Rightarrow> fetch_result" where
  "replyResult status vals =
    (if status \<noteq> ''ok'' then FetchResult status []
     else case vals of [] \<Rightarrow> FetchResult [] [] | v # _ \<Rightarrow> FetchResult [] v)"

definition callFetch :: "'w gossip \<Rightarrow> fetch_request \<Rightarrow> 'w actionExec \<Rightarrow> fetch_result \<times> 'w actionExec" where
  "callFetch g req x0 =
    (case call (gs_fetch g req) x0 of (reply, x) \<Rightarrow>
       (case reply of
          None \<Rightarrow> FetchResult ''gossip_error'' []
        | Some r \<Rightarrow> replyResult (fy_status r) (fy_values r), x))"

definition postRequest :: "http_post_action \<Rightarrow> string \<Rightarrow> 'w actionExec \<Rightarrow> fetch_request" where
  "postRequest p body x =
    \<lparr>fq_endpoint = ''post'', fq_account = x_bid x, fq_channel = x_bid x, fq_premium = rn_premium (x_run x),
     fq_name = [], fq_url = hp_url p, fq_path = [], fq_active = False, fq_body = body,
     fq_capture = (hp_save_as p \<noteq> [])\<rparr>"

definition getRequest :: "http_get_action \<Rightarrow> string \<Rightarrow> 'w actionExec \<Rightarrow> fetch_request" where
  "getRequest p url x =
    \<lparr>fq_endpoint = ''fetch'', fq_account = x_bid x, fq_channel = x_bid x, fq_premium = rn_premium (x_run x),
     fq_name = ''get:'' @ x_bid x, fq_url = url, fq_path = hg_json_path p, fq_active = True, fq_body = [],
     fq_capture = False\<rparr>"

text \<open>
  The part of \<open>httpPost\<close> and \<open>httpGet\<close> before \<open>settleFetch\<close>: the result to settle, or the answer of a
  post that was refused as a duplicate.
\<close>

definition postResult ::
  "'w services \<Rightarrow> step \<Rightarrow> http_post_action \<Rightarrow> 'w actionExec \<Rightarrow> (run_error option + fetch_result) \<times> 'w actionExec" where
  "postResult S s p x0 =
    (case sv_gossip S of
       None \<Rightarrow> (Inr (FetchResult ''no_gossip'' []), x0)
     | Some g \<Rightarrow>
         (case expand S (hp_body p) x0 of (body, x) \<Rightarrow>
            let req = postRequest p body x in
            case dedup_claim S (run_identity (x_run x)) (s_effect_key s @ x_iter x) x of ((dup, key), x) \<Rightarrow>
              if dup then (Inl (Some (skipped ''duplicate'')), x)
              else case callFetch g req x of (r, x) \<Rightarrow>
                (Inr r, if fr_failure r \<noteq> [] then release S key x else x)))"

definition getResult :: "'w services \<Rightarrow> http_get_action \<Rightarrow> 'w actionExec \<Rightarrow> fetch_result \<times> 'w actionExec" where
  "getResult S p x0 =
    (case expand S (hg_url p) x0 of (url, x) \<Rightarrow>
       if \<not> fetch_url_ok (sv_env S) url then (FetchResult ''bad_def'' [], x)
       else case sv_gossip S of
         None \<Rightarrow> (FetchResult ''no_gossip'' [], x)
       | Some g \<Rightarrow> callFetch g (getRequest p url x) x)"

end
