(* ===== verification/RunConds.thy ===== *)
theory RunConds
  imports RunActions
begin

text \<open>
  The conditions of a recipe, automation\_conditions.go and automation\_cond\_*.go, with the claiming of
  cooldown windows (cooldown\_long.go) and the time they have left (cooldown\_left.go). A condition
  answers whether it holds and an error or none.
\<close>

type_synonym 'w checked = "(bool \<times> run_error option) \<times> 'w actionExec"

section \<open>Roles and users\<close>

definition RoleBroadcaster :: nat where "RoleBroadcaster = 5"

definition permRoles :: "string \<Rightarrow> nat option" where
  "permRoles = map_of [(''everyone'', 0), (''sub'', 1), (''subscriber'', 1), (''vip'', 2), (''mod'', 3),
     (''moderator'', 3), (''lead_mod'', 4), (''broadcaster'', 5)]"

definition ParsePerm :: "string \<Rightarrow> nat" where
  "ParsePerm perm = (if perm = [] then 0 else case permRoles perm of Some r \<Rightarrow> r | None \<Rightarrow> 0)"

definition runRole :: "run \<Rightarrow> nat" where
  "runRole r =
    (case rn_ctx_role r of
       Some role \<Rightarrow> role
     | None \<Rightarrow> if rn_env r = None then RoleBroadcaster else rn_detached_role r)"

definition conditionPerm :: "run \<Rightarrow> perm_condition \<Rightarrow> bool" where
  "conditionPerm r c \<longleftrightarrow> runRole r \<ge> ParsePerm (pe_level c)"

definition containsFold :: "env \<Rightarrow> string list \<Rightarrow> string \<Rightarrow> bool" where
  "containsFold E list v \<longleftrightarrow> list_ex (\<lambda>s. equal_fold E s v) list"

definition userListed :: "env \<Rightarrow> viewer \<Rightarrow> string list \<Rightarrow> nat list \<Rightarrow> bool" where
  "userListed E v logins ids \<longleftrightarrow> containsFold E logins (vw_login v) \<or> (vw_id v \<noteq> 0 \<and> List.member ids (vw_id v))"

definition userPasses :: "env \<Rightarrow> viewer \<Rightarrow> users_condition \<Rightarrow> bool" where
  "userPasses E v c =
    (if userListed E v (us_deny c) (us_deny_user_ids c) then False
     else if us_allow c = [] \<and> us_allow_ids c = [] then True
     else userListed E v (us_allow c) (us_allow_user_ids c))"

definition listPasses :: "env \<Rightarrow> string \<Rightarrow> string list \<Rightarrow> string list \<Rightarrow> bool" where
  "listPasses E v allow deny \<longleftrightarrow> \<not> containsFold E deny v \<and> (allow = [] \<or> containsFold E allow v)"

definition compareValues :: "string \<Rightarrow> int \<Rightarrow> int \<Rightarrow> bool" where
  "compareValues op a b = order_holds op (cmp_compare a b)"

section \<open>Cooldown windows\<close>

definition seconds_ns :: "int \<Rightarrow> int" where "seconds_ns s = wrap64 (s * 1000000000)"

definition longestValkeyCooldown :: int where "longestValkeyCooldown = seconds_ns 86400"

definition cooldownSubject_windows :: "env \<Rightarrow> run \<Rightarrow> cooldown_condition \<Rightarrow> cooldown_window list" where
  "cooldownSubject_windows E r c =
    (let bid = nat_digits (rn_bid r) in
     if cd_name c \<noteq> [] then
       [\<lparr>cw_key = long_cooldown_named_key E (rn_bid r) (cd_name c), cw_ttl = seconds_ns (cd_global_s c)\<rparr>]
     else
       (if cd_global_s c > 0
        then [\<lparr>cw_key = ''cooldown:auto:'' @ bid @ '':'' @ plan_id r, cw_ttl = seconds_ns (cd_global_s c)\<rparr>] else []) @
       (if cd_user_s c > 0
        then [\<lparr>cw_key = ''cooldown:autouser:'' @ bid @ '':'' @ nat_digits (vw_id (rn_viewer r)) @ '':'' @ plan_id r,
               cw_ttl = seconds_ns (cd_user_s c)\<rparr>] else []))"

definition is_long_window :: "cooldown_window \<Rightarrow> bool" where
  "is_long_window w \<longleftrightarrow> cw_ttl w > longestValkeyCooldown \<or> is_named_cooldown_key (cw_key w)"

fun splitCooldownLoop ::
  "cooldown_window list \<Rightarrow> cooldown_window list \<Rightarrow> cooldown_window list \<Rightarrow> cooldown_window list \<times> cooldown_window list" where
  "splitCooldownLoop [] short long = (short, long)"
| "splitCooldownLoop (w # ws) short long =
    (if is_long_window w then splitCooldownLoop ws short (w # long)
     else splitCooldownLoop ws (short @ [w]) long)"

definition splitCooldownWindows :: "cooldown_window list \<Rightarrow> cooldown_window list \<times> cooldown_window list" where
  "splitCooldownWindows ws = splitCooldownLoop ws [] []"

text \<open>\<open>errors.Join\<close> of two errors.\<close>

definition errors_join :: "run_error option \<Rightarrow> run_error option \<Rightarrow> run_error option" where
  "errors_join a b =
    (case (a, b) of
       (None, None) \<Rightarrow> None
     | (Some e, None) \<Rightarrow> Some (WrappedError (error_text e) e)
     | (None, Some e) \<Rightarrow> Some (WrappedError (error_text e) e)
     | (Some e, Some e') \<Rightarrow>
         Some (WrappedError (error_text e @ [char_of (10 :: nat)] @ error_text e')
           (if status_in e \<noteq> None then e else e')))"

definition claimValkeyWindows :: "'w cooldown_store \<Rightarrow> cooldown_window list \<Rightarrow> 'w actionExec \<Rightarrow> 'w checked" where
  "claimValkeyWindows store ws x =
    (case ws of
       [] \<Rightarrow> ((True, None), x)
     | [w] \<Rightarrow> call (cl_allow store (cw_key w) (cw_ttl w)) x
     | _ \<Rightarrow> call (cl_allow_all store ws) x)"

definition claimCooldownWindows ::
  "'w services \<Rightarrow> 'w cooldown_store \<Rightarrow> nat \<Rightarrow> cooldown_window list \<Rightarrow> 'w actionExec \<Rightarrow> 'w checked" where
  "claimCooldownWindows S valkey bid ws x0 =
    (case splitCooldownWindows ws of (short, long) \<Rightarrow>
       if long = [] then claimValkeyWindows valkey short x0
       else case sv_long S of
         None \<Rightarrow> ((False, None), x0)
       | Some store \<Rightarrow>
           (case call (lc_claim store bid long) x0 of ((hold, won, err), x) \<Rightarrow>
              if err \<noteq> None \<or> \<not> won then ((False, err), x)
              else case claimValkeyWindows valkey short x of ((won, err), x) \<Rightarrow>
                if err = None \<and> won then ((True, None), x)
                else case call (lc_release store bid hold) x of (rel, x) \<Rightarrow> ((False, errors_join err rel), x)))"

definition longWindowsLeft ::
  "'w services \<Rightarrow> nat \<Rightarrow> cooldown_window list \<Rightarrow> 'w actionExec \<Rightarrow> (int list + run_error) \<times> 'w actionExec" where
  "longWindowsLeft S bid long x0 =
    (if long = [] then (Inl [], x0)
     else case sv_long S of
       None \<Rightarrow> (Inr (OtherError ''no long cooldown store''), x0)
     | Some store \<Rightarrow>
         (case call (lc_left store bid (map cw_key long)) x0 of (answer, x) \<Rightarrow>
            (case answer of
               Inr err \<Rightarrow> (Inr err, x)
             | Inl live \<Rightarrow>
                 (case call (sv_now_ns S) x of (now_ns, x) \<Rightarrow>
                    let now_ms = now_ns div 1000000
                    in (Inl (map (\<lambda>e. wrap64 ((e - now_ms) * 1000000)) (filter (\<lambda>e. e > now_ms) live)), x)))))"

fun short_windows_left ::
  "'w cooldown_store \<Rightarrow> cooldown_window list \<Rightarrow> int list \<Rightarrow> 'w actionExec \<Rightarrow> (int list + run_error) \<times> 'w actionExec" where
  "short_windows_left store [] left x = (Inl left, x)"
| "short_windows_left store (w # ws) left x =
    (case call (cl_time_left store (cw_key w)) x of (answer, x) \<Rightarrow>
       (case answer of
          Inr err \<Rightarrow> (Inr err, x)
        | Inl remaining \<Rightarrow> short_windows_left store ws (if remaining > 0 then left @ [remaining] else left) x))"

definition windowsLeft ::
  "'w services \<Rightarrow> 'w cooldown_store \<Rightarrow> nat \<Rightarrow> cooldown_window list \<Rightarrow> 'w actionExec
    \<Rightarrow> (int list + run_error) \<times> 'w actionExec" where
  "windowsLeft S valkey bid ws x0 =
    (case splitCooldownWindows ws of (short, long) \<Rightarrow>
     case longWindowsLeft S bid long x0 of (answer, x) \<Rightarrow>
       (case answer of Inr err \<Rightarrow> (Inr err, x) | Inl left \<Rightarrow> short_windows_left valkey short left x))"

text \<open>
  Without a store of short cooldowns the code would dereference nil here; a cooldown condition has been
  judged before, and a missing store refuses it, so the model leaves the run as it is.
\<close>

definition noteCooldownLeft :: "'w services \<Rightarrow> planned_condition option \<Rightarrow> 'w actionExec \<Rightarrow> 'w actionExec" where
  "noteCooldownLeft S c x0 =
    (case Option.bind c pn_params of
       Some (P_cooldown p) \<Rightarrow>
         if \<not> p_shows_cooldown_left (rn_plan (x_run x0)) then x0
         else (case sv_cooldown S of
           None \<Rightarrow> x0
         | Some valkey \<Rightarrow>
           (case windowsLeft S valkey (rn_bid (x_run x0)) (cooldownSubject_windows (sv_env S) (x_run x0) p) x0 of
              (Inl (l # _), x) \<Rightarrow>
                (case call (sv_now_ns S) x of (now_ns, x) \<Rightarrow>
                   x\<lparr>x_run := (x_run x)\<lparr>rn_cooldown_end := (now_ns + l) div 1000000\<rparr>\<rparr>)
            | (_, x) \<Rightarrow> x))
     | _ \<Rightarrow> x0)"

section \<open>The checks\<close>

definition conditionLive :: "'w services \<Rightarrow> live_condition \<Rightarrow> 'w actionExec \<Rightarrow> 'w checked" where
  "conditionLive S c x0 =
    (case sv_live S of
       None \<Rightarrow> ((False, None), x0)
     | Some is_live \<Rightarrow>
         (case call (is_live (rn_bid (x_run x0))) x0 of ((live, err), x) \<Rightarrow>
            if err \<noteq> None then ((False, err), x) else ((live = (lv_state c = ''live''), None), x)))"

definition conditionCategory :: "'w services \<Rightarrow> category_condition \<Rightarrow> 'w actionExec \<Rightarrow> 'w checked" where
  "conditionCategory S c x0 =
    (case sv_game S of
       None \<Rightarrow> ((False, None), x0)
     | Some lookup \<Rightarrow>
         (case call (lookup (rn_channel (x_run x0))) x0 of (answer, x) \<Rightarrow>
            (case answer of
               Inr err \<Rightarrow> ((False, Some err), x)
             | Inl game \<Rightarrow> ((listPasses (sv_env S) game (cat_allow c) (cat_deny c), None), x))))"

definition conditionChance :: "'w services \<Rightarrow> chance_condition \<Rightarrow> 'w actionExec \<Rightarrow> 'w checked" where
  "conditionChance S c x0 = (case call (sv_intN S 100) x0 of (n, x) \<Rightarrow> ((n < ch_percent c, None), x))"

definition conditionCounter :: "'w services \<Rightarrow> counter_condition \<Rightarrow> 'w actionExec \<Rightarrow> 'w checked" where
  "conditionCounter S c x0 =
    (case sv_loyalty S of
       None \<Rightarrow> ((False, None), x0)
     | Some l \<Rightarrow>
         (case call (ly_peek l (rn_bid (x_run x0)) (cc_name c) (vw_id (rn_viewer (x_run x0)))) x0 of ((v, err), x) \<Rightarrow>
            if err \<noteq> None then ((False, err), x) else ((compareValues (cc_op c) v (cc_value c), None), x)))"

definition conditionPoints :: "'w services \<Rightarrow> points_condition \<Rightarrow> 'w actionExec \<Rightarrow> 'w checked" where
  "conditionPoints S c x0 =
    (case sv_loyalty S of
       None \<Rightarrow> ((False, None), x0)
     | Some l \<Rightarrow>
         let viewer_id = vw_id (rn_viewer (x_run x0)) in
         if viewer_id = 0 then ((False, None), x0)
         else case call (ly_balance l (rn_bid (x_run x0)) viewer_id) x0 of ((v, err), x) \<Rightarrow>
           if err \<noteq> None then ((False, err), x) else ((compareValues (pc_op c) v (pc_value c), None), x))"

definition conditionArgRegex :: "env \<Rightarrow> run \<Rightarrow> arg_regex_condition \<Rightarrow> bool" where
  "conditionArgRegex E r c = (case ar_compiled c of None \<Rightarrow> False | Some re \<Rightarrow> e_regex_match E re (rn_args r))"

definition conditionCooldown :: "'w services \<Rightarrow> cooldown_condition \<Rightarrow> 'w actionExec \<Rightarrow> 'w checked" where
  "conditionCooldown S c x =
    (case sv_cooldown S of
       None \<Rightarrow> ((False, None), x)
     | Some valkey \<Rightarrow>
         claimCooldownWindows S valkey (rn_bid (x_run x)) (cooldownSubject_windows (sv_env S) (x_run x) c) x)"

definition conditionCompare :: "'w services \<Rightarrow> compare_condition \<Rightarrow> 'w actionExec \<Rightarrow> 'w checked" where
  "conditionCompare S c x0 =
    (case expand S (cmp_left c) x0 of (l, x) \<Rightarrow>
     case expand S (cmp_right c) x of (r, x) \<Rightarrow> ((ComparePasses (sv_env S) (cmp_op c) l r, None), x))"

definition conditionVar :: "'w services \<Rightarrow> var_condition \<Rightarrow> 'w actionExec \<Rightarrow> 'w checked" where
  "conditionVar S c x0 =
    (case sv_variables S of
       None \<Rightarrow> ((False, None), x0)
     | Some store \<Rightarrow>
         (case variableOwner (vr_scope (vc_ref c)) x0 of
            (_, Some _) \<Rightarrow> ((False, None), x0)
          | (owner, None) \<Rightarrow>
              (case call (vt_get store owner (fst (VariableName (sv_env S) (vr_name (vc_ref c))))) x0 of (answer, x) \<Rightarrow>
                 (case answer of
                    Inr err \<Rightarrow> ((False, Some err), x)
                  | Inl current \<Rightarrow>
                      (case expand S (vc_value c) x of (v, x) \<Rightarrow>
                         ((var_passes (sv_env S) \<lparr>vq_op = vc_op c,
                             vq_current = (case current of None \<Rightarrow> [] | Some s \<Rightarrow> s),
                             vq_value = v, vq_exists = (current \<noteq> None)\<rparr>, None), x))))))"

text \<open>\<open>conditionChecks\<close>: the check of a type, None when its parameters are of another type.\<close>

fun check_of_params :: "'w services \<Rightarrow> string \<Rightarrow> condition_params \<Rightarrow> ('w actionExec \<Rightarrow> 'w checked) option" where
  "check_of_params S t (P_perm c) = (if t = ''perm'' then Some (\<lambda>x. ((conditionPerm (x_run x) c, None), x)) else None)"
| "check_of_params S t (P_users c) =
    (if t = ''users'' then Some (\<lambda>x. ((userPasses (sv_env S) (rn_viewer (x_run x)) c, None), x)) else None)"
| "check_of_params S t (P_live c) = (if t = ''live'' then Some (conditionLive S c) else None)"
| "check_of_params S t (P_cooldown c) = (if t = ''cooldown'' then Some (conditionCooldown S c) else None)"
| "check_of_params S t (P_chance c) = (if t = ''chance'' then Some (conditionChance S c) else None)"
| "check_of_params S t (P_counter c) = (if t = ''counter'' then Some (conditionCounter S c) else None)"
| "check_of_params S t (P_points c) = (if t = ''points'' then Some (conditionPoints S c) else None)"
| "check_of_params S t (P_arg_regex c) =
    (if t = ''arg_regex'' then Some (\<lambda>x. ((conditionArgRegex (sv_env S) (x_run x) c, None), x)) else None)"
| "check_of_params S t (P_category c) = (if t = ''category'' then Some (conditionCategory S c) else None)"
| "check_of_params S t (P_compare c) = (if t = ''compare'' then Some (conditionCompare S c) else None)"
| "check_of_params S t (P_var c) = (if t = ''var'' then Some (conditionVar S c) else None)"

definition condition_types :: "string list" where
  "condition_types = [''perm'', ''users'', ''live'', ''cooldown'', ''chance'', ''counter'', ''points'',
     ''arg_regex'', ''category'', ''compare'', ''var'']"

definition run_condition :: "'w services \<Rightarrow> planned_condition \<Rightarrow> 'w actionExec \<Rightarrow> 'w checked" where
  "run_condition S c x =
    (if pn_type c \<notin> set condition_types then ((False, None), x)
     else case pn_err c of
       Some e \<Rightarrow> ((False, Some (OtherError (sv_dec_text S e))), x)
     | None \<Rightarrow>
         (case Option.bind (pn_params c) (check_of_params S (pn_type c)) of
            None \<Rightarrow> ((False, Some (OtherError ''condition params type mismatch'')), x)
          | Some check \<Rightarrow> check x))"

fun pass_loop ::
  "'w services \<Rightarrow> planned_condition list \<Rightarrow> 'w actionExec \<Rightarrow> (bool \<times> string \<times> run_error option) \<times> 'w actionExec" where
  "pass_loop S [] x = ((True, [], None), x)"
| "pass_loop S (c # cs) x =
    (case run_condition S c x of ((pass, err), x) \<Rightarrow>
       if err \<noteq> None \<or> \<not> pass then ((False, pn_reason c, err), x) else pass_loop S cs x)"

definition conditionsPass ::
  "'w services \<Rightarrow> 'w actionExec \<Rightarrow> (bool \<times> string \<times> run_error option) \<times> 'w actionExec" where
  "conditionsPass S x = pass_loop S (p_conditions (rn_plan (x_run x))) x"

end
