(* ===== verification/RunFlow.thy ===== *)
theory RunFlow
  imports RunConds
begin

text \<open>
  The steps that route to other steps and what surrounds a run: automation\_exec.go,
  automation\_action\_flow.go, automation.go and the admission of automation\_queue.go. A handler that
  runs other steps answers a \<open>route\<close>, the last thing it does; the executor of the next theory follows it.
\<close>

section \<open>Budget of a run tree\<close>

text \<open>\<open>visits.Add(1)\<close>, \<open>executed.Add(1)\<close> and \<open>executed.Load()\<close> after what other paths have added.\<close>

definition visits_add :: "'w services \<Rightarrow> 'w actionExec \<Rightarrow> 'w actionExec" where
  "visits_add S x0 = (case call (sv_other_visits S) x0 of (k, x) \<Rightarrow> x\<lparr>x_visits := Suc (x_visits x + k)\<rparr>)"

definition executed_add :: "'w services \<Rightarrow> 'w actionExec \<Rightarrow> 'w actionExec" where
  "executed_add S x0 = (case call (sv_other_executed S) x0 of (k, x) \<Rightarrow> x\<lparr>x_executed := Suc (x_executed x + k)\<rparr>)"

definition executed_load :: "'w services \<Rightarrow> 'w actionExec \<Rightarrow> 'w actionExec" where
  "executed_load S x0 = (case call (sv_other_executed S) x0 of (k, x) \<Rightarrow> x\<lparr>x_executed := x_executed x + k\<rparr>)"

section \<open>Runs\<close>

definition set_outcome :: "string \<Rightarrow> string \<Rightarrow> 'w actionExec \<Rightarrow> 'w actionExec" where
  "set_outcome outcome reason x = x\<lparr>x_run := (x_run x)\<lparr>rn_outcome := outcome, rn_reason := reason\<rparr>\<rparr>"

definition newActionExec :: "run \<Rightarrow> 'w \<Rightarrow> nat \<Rightarrow> nat \<Rightarrow> 'w actionExec" where
  "newActionExec r w executed visits =
    \<lparr>x_run = r, x_world = w, x_emitted = [], x_started = [], x_waiting = [],
     x_bid = (if rn_channel r = [] then nat_digits (rn_bid r) else rn_channel r),
     x_budget = \<lparr>bu_delay_ms = 0, bu_segment = 0, bu_handled = 0\<rparr>, x_flushes = 0, x_pending = [],
     x_signal = signalNone, x_delay_ms = 0, x_rest = [], x_iter = rn_iter r,
     x_executed = executed, x_visits = visits\<rparr>"

definition detachRun :: "run \<Rightarrow> run" where
  "detachRun r = r\<lparr>rn_ctx_role := None,
     rn_detached_role := (case rn_ctx_role r of Some role \<Rightarrow> role | None \<Rightarrow> rn_detached_role r)\<rparr>"

definition startContinuation :: "'w services \<Rightarrow> nat \<Rightarrow> run \<Rightarrow> 'w actionExec \<Rightarrow> 'w actionExec" where
  "startContinuation S d paused x0 =
    (let budget = (x_budget x0)\<lparr>bu_segment := bu_segment (x_budget x0) + 1\<rparr>;
         c = \<lparr>ct_run = paused, ct_budget = budget, ct_rest = x_rest x0, ct_wait = x_delay_ms x0, ct_depth = d\<rparr>
     in case call (sv_record S c) x0 of ((keeps, held), x) \<Rightarrow>
          if \<not> keeps then x
          else x\<lparr>x_started := x_started x @ [c\<lparr>ct_run := if held then paused\<lparr>rn_durable := True\<rparr> else paused\<rparr>]\<rparr>)"

definition trimmedRecords :: "action_record list \<Rightarrow> action_record list" where
  "trimmedRecords rs =
    (if int (length rs) \<le> MaxRecordedActions then rs
     else take (nat MaxRecordedActions) (rs[nat MaxRecordedActions - 1 := rs ! (length rs - 1)]))"

definition finishRun :: "'w services \<Rightarrow> 'w actionExec \<Rightarrow> 'w actionExec" where
  "finishRun S x0 =
    (if rn_outcome (x_run x0) = ''deferred'' then x0
     else case (if rn_durable (x_run x0) then call (sv_finish_durable S (x_run x0)) x0 else (True, x0)) of (ours, x) \<Rightarrow>
       if \<not> ours then x
       else let r = x_run x;
                r = (if rn_outcome r = [] then r\<lparr>rn_outcome := ''ok''\<rparr> else r);
                r = r\<lparr>rn_actions := trimmedRecords (rn_actions r)\<rparr>
            in x\<lparr>x_run := r, x_world := sv_log_run S r (x_world x)\<rparr>)"

definition run_outcome :: "'w actionExec \<Rightarrow> string" where
  "run_outcome x =
    (case tallyRecords (rn_actions (x_run x)) of (good, bad) \<Rightarrow>
       if int bad \<le> bu_handled (x_budget x) then ''ok'' else if good = 0 then ''failed'' else ''partial'')"

definition conclude :: "'w services \<Rightarrow> nat \<Rightarrow> 'w actionExec \<Rightarrow> 'w actionExec" where
  "conclude S d x0 =
    (let x = flush x0 in
     if x_signal x \<noteq> signalDelay \<or> x_rest x = [] then
       x\<lparr>x_run := (x_run x)\<lparr>rn_outcome := run_outcome x\<rparr>\<rparr>
     else let x = startContinuation S d (detachRun (x_run x)) x
          in x\<lparr>x_run := (x_run x)\<lparr>rn_outcome := ''deferred''\<rparr>\<rparr>)"

definition startQueueWait :: "'w services \<Rightarrow> int \<Rightarrow> 'w actionExec \<Rightarrow> 'w actionExec" where
  "startQueueWait S position x0 =
    (case call (sv_waiters_enter S) x0 of (entered, x) \<Rightarrow>
       if \<not> entered then
         set_outcome ''limited'' ''queue_full'' (x\<lparr>x_world := sv_queue_leave S (x_run x) (x_world x)\<rparr>)
       else let waiting = detachRun (x_run x);
                x = x\<lparr>x_run := (x_run x)\<lparr>rn_outcome := ''deferred''\<rparr>\<rparr>
            in case call (sv_record_waiter S waiting position) x of ((keeps, held), x) \<Rightarrow>
                 if \<not> keeps then x\<lparr>x_world := sv_queue_leave S waiting (x_world x)\<rparr>
                 else x\<lparr>x_waiting := x_waiting x @ [(if held then waiting\<lparr>rn_durable := True\<rparr> else waiting, position)]\<rparr>)"

definition run_queue :: "run \<Rightarrow> string" where
  "run_queue r = d_queue (au_definition (p_automation (rn_plan r)))"

definition admitToQueue :: "'w services \<Rightarrow> 'w actionExec \<Rightarrow> bool \<times> 'w actionExec" where
  "admitToQueue S x0 =
    (let r = x_run x0 in
     if run_queue r = [] \<or> rn_slot r \<noteq> None then (True, x0)
     else case call (sv_queue_enter S (rn_bid r) (run_queue r) (rn_id r)) x0 of (answer, x) \<Rightarrow>
       (case answer of
          None \<Rightarrow> (True, x)
        | Some position \<Rightarrow>
            if position = - 1 then (False, set_outcome ''limited'' ''queue_full'' x)
            else if position = 0 then
              (True, x\<lparr>x_run := (x_run x)\<lparr>rn_slot := Some (rn_id r), rn_owns_slot := True\<rparr>\<rparr>)
            else (False, startQueueWait S position x)))"

section \<open>Flow steps\<close>

datatype route = Answer "run_error option" | Branch nat | SettleFailure string | Loop loopCursor | Paths | Child plan

definition branch_of :: "step \<Rightarrow> nat \<Rightarrow> step list option" where
  "branch_of s k = (if k < length (s_branches s) then Some (s_branches s ! k) else None)"

definition panic :: "'w actionExec \<Rightarrow> 'w actionExec" where
  "panic x = x\<lparr>x_signal := signalPanic\<rparr>"

definition act_stop :: "'w actionExec \<Rightarrow> route \<times> 'w actionExec" where
  "act_stop x = (Answer None, x\<lparr>x_signal := signalStop\<rparr>)"

definition act_delay :: "delay_action \<Rightarrow> 'w actionExec \<Rightarrow> route \<times> 'w actionExec" where
  "act_delay p x =
    (if bu_delay_ms (x_budget x) + de_ms p > MaxDelayMS then (Answer (Some (limited ''delay_budget'')), x)
     else (Answer None,
       x\<lparr>x_budget := (x_budget x)\<lparr>bu_delay_ms := bu_delay_ms (x_budget x) + de_ms p\<rparr>,
         x_delay_ms := de_ms p, x_signal := signalDelay\<rparr>))"

definition branchRoll :: "'w services \<Rightarrow> step \<Rightarrow> int \<Rightarrow> 'w actionExec \<Rightarrow> int \<times> 'w actionExec" where
  "branchRoll S s in_all x =
    (if \<not> rn_durable (x_run x) then call (sv_intN S in_all) x
     else (int (sv_hash_num S (replayKey (x_run x) @ [char_of (0 :: nat)] @ s_effect_key s @ x_iter x)) mod in_all, x))"

fun rolled :: "int \<Rightarrow> int list \<Rightarrow> nat \<Rightarrow> nat option" where
  "rolled n [] i = None"
| "rolled n (w # ws) i = (if n < w then Some i else rolled (n - w) ws (Suc i))"

definition pickBranch :: "'w services \<Rightarrow> step \<Rightarrow> branch list \<Rightarrow> 'w actionExec \<Rightarrow> nat option \<times> 'w actionExec" where
  "pickBranch S s branches x0 =
    (let weights = map br_weight branches; in_all = sum_list (map (\<lambda>w. max w 0) weights) in
     if in_all \<le> 0 then (None, x0)
     else case branchRoll S s in_all x0 of (n, x) \<Rightarrow>
       (Some (case rolled n weights 0 of Some i \<Rightarrow> i | None \<Rightarrow> length branches - 1), x))"

definition act_random_pick :: "'w services \<Rightarrow> step \<Rightarrow> random_pick_action \<Rightarrow> 'w actionExec \<Rightarrow> route \<times> 'w actionExec" where
  "act_random_pick S s p x0 =
    (case pickBranch S s (rp_branches p) x0 of
       (None, x) \<Rightarrow> (Answer (Some (failure ''no_branch'')), x)
     | (Some k, x) \<Rightarrow> (Branch k, x))"

definition act_loop :: "'w services \<Rightarrow> step \<Rightarrow> loop_action \<Rightarrow> 'w actionExec \<Rightarrow> route \<times> 'w actionExec" where
  "act_loop S s p x0 =
    (case expand S (lp_times p) x0 of (t, x) \<Rightarrow>
     case ParseLoopTimes t of (in_all, ok) \<Rightarrow>
       if \<not> ok then (Answer (Some (failure ''bad_times'')), x)
       else let prior = rn_locals (x_run x) ''index'' in
         (Loop \<lparr>cu_step = s, cu_next = 1, cu_total = in_all,
            cu_prior = (case prior of None \<Rightarrow> [] | Some v \<Rightarrow> v), cu_shadowed = (prior \<noteq> None)\<rparr>, x))"

definition act_if :: "'w services \<Rightarrow> step \<Rightarrow> 'w actionExec \<Rightarrow> route \<times> 'w actionExec" where
  "act_if S s x0 =
    (case s_condition s of
       None \<Rightarrow> (Answer None, panic x0)
     | Some c \<Rightarrow>
         (case run_condition S c x0 of ((pass, err), x) \<Rightarrow>
            if err \<noteq> None then (Answer (Some (failure ''condition_error'')), x)
            else if pass then (Branch 0, x)
            else (Branch 1, noteCooldownLeft S (s_condition s) x)))"

text \<open>\<open>settleFetch\<close> up to the branch it runs.\<close>

definition settleFetch :: "'w services \<Rightarrow> string \<Rightarrow> fetch_result \<Rightarrow> 'w actionExec \<Rightarrow> route \<times> 'w actionExec" where
  "settleFetch S save_as r x =
    (if fr_failure r = [] then (Branch 0, saveLocal S save_as (fr_value r) (deleteLocal ''error'' x))
     else (SettleFailure (fr_failure r), setLocal ''error'' (fr_failure r) x))"

definition act_http_post :: "'w services \<Rightarrow> step \<Rightarrow> http_post_action \<Rightarrow> 'w actionExec \<Rightarrow> route \<times> 'w actionExec" where
  "act_http_post S s p x0 =
    (case postResult S s p x0 of
       (Inl answer, x) \<Rightarrow> (Answer answer, x)
     | (Inr r, x) \<Rightarrow> settleFetch S (hp_save_as p) r x)"

definition act_http_get :: "'w services \<Rightarrow> http_get_action \<Rightarrow> 'w actionExec \<Rightarrow> route \<times> 'w actionExec" where
  "act_http_get S p x0 = (case getResult S p x0 of (r, x) \<Rightarrow> settleFetch S (hg_save_as p) r x)"

definition findAutomation :: "'w services \<Rightarrow> string \<Rightarrow> 'w actionExec \<Rightarrow> plan option \<times> 'w actionExec" where
  "findAutomation S ident x0 =
    (case sv_index S of
       None \<Rightarrow> (None, x0)
     | Some index_at \<Rightarrow>
         (case call (index_at (rn_bid (x_run x0))) x0 of
            (None, x) \<Rightarrow> (None, x)
          | (Some idx, x) \<Rightarrow> (index_plan (Some idx) ident, x)))"

definition runOther :: "'w services \<Rightarrow> nat \<Rightarrow> run_action \<Rightarrow> 'w actionExec \<Rightarrow> route \<times> 'w actionExec" where
  "runOther S d p x0 =
    (if int d \<ge> MaxRecursionDepth then (Answer (Some (limited ''depth'')), x0)
     else case call (sv_locked S (rn_bid (x_run x0))) x0 of (locked, x) \<Rightarrow>
       if locked then (Answer (Some (limited ''premium_required'')), x)
       else case findAutomation S (ru_automation_id p) x of
         (None, x) \<Rightarrow> (Answer (Some (failure ''not_found'')), x)
       | (Some plan, x) \<Rightarrow> (Child plan, flush x))"

definition childRun :: "'w services \<Rightarrow> step \<Rightarrow> plan \<Rightarrow> string option \<Rightarrow> 'w actionExec \<Rightarrow> run" where
  "childRun S s plan new_id x =
    (let r = x_run x; ident = au_id (p_automation plan); iter = x_iter x @ ''~'' @ s_effect_key s in
     r\<lparr>rn_plan := plan, rn_actions := [], rn_outcome := [], rn_reason := [],
       rn_owns_slot := False, rn_durable := False, rn_iter := iter,
       rn_replay := nestedReplayKey S (replayKey r) (ident @ iter),
       rn_id := (case new_id of Some i \<Rightarrow> i | None \<Rightarrow> rn_id r @ ''/'' @ ident)\<rparr>)"

definition childExec :: "'w services \<Rightarrow> step \<Rightarrow> plan \<Rightarrow> 'w actionExec \<Rightarrow> 'w actionExec" where
  "childExec S s plan x0 =
    (case call (sv_new_id S) x0 of (new_id, x) \<Rightarrow>
       newActionExec (childRun S s plan new_id x) (x_world x) (x_executed x) (x_visits x))"

text \<open>What the parent shares with its child: the world, what was emitted and started, the counters.\<close>

definition joinChild :: "'w actionExec \<Rightarrow> 'w actionExec \<Rightarrow> 'w actionExec" where
  "joinChild y x =
    x\<lparr>x_world := x_world y, x_emitted := x_emitted x @ x_emitted y, x_started := x_started x @ x_started y,
      x_waiting := x_waiting x @ x_waiting y, x_executed := x_executed y, x_visits := x_visits y,
      x_signal := if x_signal y = signalPanic then signalPanic else x_signal x\<rparr>"

definition childAnswer :: "'w actionExec \<Rightarrow> run_error option" where
  "childAnswer y =
    (if rn_outcome (x_run y) = ''failed'' then Some (failure ''child_failed'')
     else Some (succeeded (rn_outcome (x_run y))))"

section \<open>The table of actions\<close>

definition handled_route :: "'w handled \<Rightarrow> route \<times> 'w actionExec" where
  "handled_route h = (case h of (err, x) \<Rightarrow> (Answer err, x))"

text \<open>
  \<open>actionTable\<close> with \<open>typed\<close>: the handler of a step's parameters if the step has the type the parameters
  belong to; None is a mismatch.
\<close>

fun handler_of ::
  "'w services \<Rightarrow> nat \<Rightarrow> step \<Rightarrow> string \<Rightarrow> action_params \<Rightarrow> ('w actionExec \<Rightarrow> route \<times> 'w actionExec) option" where
  "handler_of S d s t (P_text p) =
    (if t = ''chat'' then Some (\<lambda>x. handled_route (act_chat S p x))
     else if t = ''reply'' then Some (\<lambda>x. handled_route (act_reply S p x)) else None)"
| "handler_of S d s t (P_announce p) = (if t = ''announce'' then Some (\<lambda>x. handled_route (act_announce S p x)) else None)"
| "handler_of S d s t (P_timeout p) = (if t = ''timeout'' then Some (\<lambda>x. handled_route (act_timeout S p x)) else None)"
| "handler_of S d s t (P_ban p) = (if t = ''ban'' then Some (\<lambda>x. handled_route (act_ban S p x)) else None)"
| "handler_of S d s t (P_warn p) = (if t = ''warn'' then Some (\<lambda>x. handled_route (act_warn S p x)) else None)"
| "handler_of S d s t (P_login p) = (if t = ''shoutout'' then Some (\<lambda>x. handled_route (act_shoutout S p x)) else None)"
| "handler_of S d s t (P_shield p) = (if t = ''shield'' then Some (\<lambda>x. handled_route (act_shield S p x)) else None)"
| "handler_of S d s t (P_marker p) = (if t = ''marker'' then Some (\<lambda>x. handled_route (act_marker S p x)) else None)"
| "handler_of S d s t (P_set_title p) = (if t = ''set_title'' then Some (\<lambda>x. handled_route (act_set_title S p x)) else None)"
| "handler_of S d s t (P_set_game p) = (if t = ''set_game'' then Some (\<lambda>x. handled_route (act_set_game S p x)) else None)"
| "handler_of S d s t (P_set_tags p) = (if t = ''set_tags'' then Some (\<lambda>x. handled_route (act_set_tags S p x)) else None)"
| "handler_of S d s t (P_commercial p) = (if t = ''commercial'' then Some (\<lambda>x. handled_route (act_commercial S p x)) else None)"
| "handler_of S d s t (P_reward_update p) =
    (if t = ''reward_update'' then Some (\<lambda>x. handled_route (act_reward_update S s p x)) else None)"
| "handler_of S d s t (P_redemption p) = (if t = ''redemption'' then Some (\<lambda>x. handled_route (act_redemption S p x)) else None)"
| "handler_of S d s t (P_points_add p) = (if t = ''points_add'' then Some (\<lambda>x. handled_route (act_points_add S s p x)) else None)"
| "handler_of S d s t (P_points_set p) = (if t = ''points_set'' then Some (\<lambda>x. handled_route (act_points_set S s p x)) else None)"
| "handler_of S d s t (P_counter_add p) = (if t = ''counter_add'' then Some (\<lambda>x. handled_route (act_counter_add S s p x)) else None)"
| "handler_of S d s t (P_counter_set p) = (if t = ''counter_set'' then Some (\<lambda>x. handled_route (act_counter_set S s p x)) else None)"
| "handler_of S d s t (P_http_post p) = (if t = ''http_post'' then Some (act_http_post S s p) else None)"
| "handler_of S d s t (P_http_get p) = (if t = ''http_get'' then Some (act_http_get S p) else None)"
| "handler_of S d s t (P_lights p) = (if t = ''lights'' then Some (\<lambda>x. handled_route (act_lights S s p x)) else None)"
| "handler_of S d s t (P_var_set p) = (if t = ''var_set'' then Some (\<lambda>x. handled_route (act_var_set S s p x)) else None)"
| "handler_of S d s t (P_var_add p) = (if t = ''var_add'' then Some (\<lambda>x. handled_route (act_var_add S s p x)) else None)"
| "handler_of S d s t (P_var_delete p) = (if t = ''var_delete'' then Some (\<lambda>x. handled_route (act_var_delete S s p x)) else None)"
| "handler_of S d s t (P_text_step p) = (if t = ''text'' then Some (\<lambda>x. handled_route (textStep S p x)) else None)"
| "handler_of S d s t (P_math p) = (if t = ''math'' then Some (\<lambda>x. handled_route (mathStep S p x)) else None)"
| "handler_of S d s t (P_cooldown_add p) =
    (if t = ''cooldown_add'' then Some (\<lambda>x. handled_route (act_cooldown_add S s p x)) else None)"
| "handler_of S d s t (P_delay p) = (if t = ''delay'' then Some (act_delay p) else None)"
| "handler_of S d s t (P_random_pick p) = (if t = ''random_pick'' then Some (act_random_pick S s p) else None)"
| "handler_of S d s t (P_parallel p) = (if t = ''parallel'' then Some (\<lambda>x. (Paths, x)) else None)"
| "handler_of S d s t (P_loop p) = (if t = ''loop'' then Some (act_loop S s p) else None)"
| "handler_of S d s t (P_run p) = (if t = ''run'' then Some (runOther S d p) else None)"
| "handler_of S d s t (P_if p) = (if t = ''if'' then Some (act_if S s) else None)"
| "handler_of S d s t P_empty =
    (if t = ''delete_message'' then Some (\<lambda>x. handled_route (act_delete_message S x))
     else if t = ''clip'' then Some (\<lambda>x. handled_route (act_clip S x))
     else if t = ''stop'' then Some act_stop else None)"

definition action_types :: "string list" where
  "action_types =
    [''chat'', ''announce'', ''reply'', ''timeout'', ''ban'', ''warn'', ''delete_message'', ''shield'', ''shoutout'',
     ''clip'', ''marker'', ''set_title'', ''set_game'', ''set_tags'', ''commercial'', ''reward_update'', ''redemption'',
     ''points_add'', ''points_set'', ''counter_add'', ''counter_set'', ''http_post'', ''http_get'', ''lights'',
     ''var_set'', ''var_add'', ''var_delete'', ''text'', ''math'', ''cooldown_add'',
     ''delay'', ''random_pick'', ''parallel'', ''loop'', ''run'', ''if'', ''stop'']"

definition handle :: "'w services \<Rightarrow> nat \<Rightarrow> step \<Rightarrow> 'w actionExec \<Rightarrow> route \<times> 'w actionExec" where
  "handle S d s x =
    (case Option.bind (s_params s) (handler_of S d s (s_type s)) of
       None \<Rightarrow> (Answer (Some (failure ''bad_params'')), x)
     | Some h \<Rightarrow> h x)"

definition dispatch :: "'w services \<Rightarrow> nat \<Rightarrow> step \<Rightarrow> 'w actionExec \<Rightarrow> route \<times> 'w actionExec" where
  "dispatch S d s x =
    (if \<not> s_enabled s then (Answer (Some (skipped ''disabled'')), x)
     else if s_type s \<notin> set action_types then (Answer (Some (failure ''unknown_type'')), x)
     else if is_branching (sv_env S) (s_type s) then handle S d s x
     else let x = executed_add S x in
       if int (x_executed x) > MaxActions then (Answer (Some (limited ''max_actions'')), x)
       else handle S d s x)"

section \<open>The executor\<close>

definition yieldIfSlow :: "'w services \<Rightarrow> 'w actionExec \<Rightarrow> 'w actionExec" where
  "yieldIfSlow S x0 =
    (if x_signal x0 \<noteq> signalNone then x0
     else case call (sv_slow S) x0 of (slow, x) \<Rightarrow>
       if slow then x\<lparr>x_signal := signalDelay, x_delay_ms := 1\<rparr> else x)"

definition restoreIndex :: "loopCursor \<Rightarrow> 'w actionExec \<Rightarrow> 'w actionExec" where
  "restoreIndex c x = (if cu_shadowed c then setLocal ''index'' (cu_prior c) x else deleteLocal ''index'' x)"

definition add_rest :: "resume \<Rightarrow> 'w actionExec \<Rightarrow> 'w actionExec" where
  "add_rest r x = x\<lparr>x_rest := x_rest x @ [r]\<rparr>"

definition pauseLoop :: "loopCursor \<Rightarrow> string \<Rightarrow> 'w actionExec \<Rightarrow> 'w actionExec" where
  "pauseLoop c outer x =
    (if x_signal x = signalDelay then add_rest \<lparr>rs_steps = [], rs_loop = Some c, rs_iter = outer\<rparr> x else x)"

definition schedulePath :: "'w services \<Rightarrow> nat \<Rightarrow> step \<Rightarrow> nat \<Rightarrow> 'w actionExec \<Rightarrow> 'w actionExec" where
  "schedulePath S d s path x =
    (let paused = (detachRun (x_run x))
           \<lparr>rn_replay := nestedReplayKey S (replayKey (x_run x)) (s_effect_key s @ ''.'' @ nat_digits path @ x_iter x),
            rn_durable := False\<rparr>
     in startContinuation S d paused x)"

definition settlePath :: "'w services \<Rightarrow> nat \<Rightarrow> step \<Rightarrow> nat \<Rightarrow> 'w actionExec \<Rightarrow> 'w actionExec" where
  "settlePath S d s path x0 =
    (let x = (if x_signal x0 = signalDelay \<and> x_rest x0 \<noteq> [] then schedulePath S d s path x0 else x0)
     in x\<lparr>x_signal := signalNone, x_rest := []\<rparr>)"

definition noteHandled :: "nat \<Rightarrow> 'w actionExec \<Rightarrow> 'w actionExec" where
  "noteHandled first x =
    (case tallyRecords (drop first (rn_actions (x_run x))) of (good, bad) \<Rightarrow>
       if good > 0 \<and> bad = 0 then x\<lparr>x_budget := (x_budget x)\<lparr>bu_handled := bu_handled (x_budget x) + 1\<rparr>\<rparr> else x)"

definition set_path :: "int \<Rightarrow> (string \<rightharpoonup> string) \<Rightarrow> 'w actionExec \<Rightarrow> 'w actionExec" where
  "set_path spent locals x =
    x\<lparr>x_budget := (x_budget x)\<lparr>bu_delay_ms := spent\<rparr>, x_run := (x_run x)\<lparr>rn_locals := locals\<rparr>\<rparr>"

text \<open>The status of a step's record, once its handler has returned; a panic leaves it as it was.\<close>

definition settle :: "nat \<Rightarrow> run_error option \<Rightarrow> 'w actionExec \<Rightarrow> 'w actionExec" where
  "settle slot err x = (if x_signal x = signalPanic then x else set_record slot (classify err) x)"

definition iteration :: "loopCursor \<Rightarrow> 'w actionExec \<Rightarrow> 'w actionExec" where
  "iteration c x =
    (let index = itoa (cu_next c)
     in setLocal ''index'' index (x\<lparr>x_iter := x_iter x @ ''@'' @ index\<rparr>))"

definition endRunSegment :: "'w services \<Rightarrow> 'w actionExec \<Rightarrow> 'w actionExec" where
  "endRunSegment S x = finishRun S x"

definition start_actions :: "'w actionExec \<Rightarrow> 'w actionExec" where
  "start_actions x =
    (if p_step_count (rn_plan (x_run x)) > 0 then x\<lparr>x_run := (x_run x)\<lparr>rn_actions := []\<rparr>\<rparr> else x)"

definition skippedOutcome :: "run_error option \<Rightarrow> string \<Rightarrow> string \<times> string" where
  "skippedOutcome err reason = (case err of Some e \<Rightarrow> (''failed'', error_text e) | None \<Rightarrow> (''skipped'', reason))"

text \<open>What the termination of the executor needs: a child is only answered below the last level, and the cursor of a loop is on the step itself.\<close>

definition route_ok :: "nat \<Rightarrow> step \<Rightarrow> route \<Rightarrow> bool" where
  "route_ok d s r = (case r of Child p \<Rightarrow> int d < MaxRecursionDepth | Loop c \<Rightarrow> cu_step c = s | _ \<Rightarrow> True)"

lemma route_ok_Answer [simp]: "route_ok d s (Answer e)"
  by (simp add: route_ok_def)

lemma route_ok_Branch [simp]: "route_ok d s (Branch k)"
  by (simp add: route_ok_def)

lemma route_ok_handled [simp]: "route_ok d s (fst (handled_route h))"
  by (simp add: handled_route_def split: prod.split)

lemma route_ok_settleFetch [simp]: "route_ok d s (fst (settleFetch S v r x))"
  by (simp add: settleFetch_def route_ok_def)

lemma route_ok_flow:
  "route_ok d s (fst (act_stop x))" "route_ok d s (fst (act_delay p1 x))"
  "route_ok d s (fst (act_random_pick S s p2 x))" "route_ok d s (fst (act_loop S s p3 x))"
  "route_ok d s (fst (act_if S s x))" "route_ok d s (fst (act_http_post S s p4 x))"
  "route_ok d s (fst (act_http_get S p5 x))" "route_ok d s (fst (runOther S d p6 x))"
  by (simp_all add: act_stop_def act_delay_def act_random_pick_def act_loop_def act_if_def act_http_post_def
      act_http_get_def runOther_def route_ok_def settleFetch_def Let_def split: prod.split option.split sum.split)

lemma route_ok_handler:
  assumes "handler_of S d s t p = Some h"
  shows "route_ok d s (fst (h x))"
  using assms
  by (cases p) (auto simp: route_ok_flow split: if_splits, simp_all add: route_ok_def)

lemma route_ok_dispatch: "route_ok d s (fst (dispatch S d s x))"
proof -
  have "route_ok d s (fst (handle S d s z))" for z
    by (auto simp: handle_def bind_eq_Some_conv split: option.split intro: route_ok_handler)
  then show ?thesis by (simp add: dispatch_def Let_def)
qed

lemma dispatch_Child: "dispatch S d s x = (Child p, y) \<Longrightarrow> int d < MaxRecursionDepth"
  using route_ok_dispatch [of d s S x] by (simp add: route_ok_def)

lemma dispatch_Loop: "dispatch S d s x = (Loop c, y) \<Longrightarrow> cu_step c = s"
  using route_ok_dispatch [of d s S x] by (simp add: route_ok_def)

lemma branch_of_smaller:
  assumes "branch_of s k = Some ss"
  shows "size_list size ss < size s"
proof -
  have "ss \<in> set (s_branches s)" using assms by (auto simp: branch_of_def split: if_splits)
  then have "size_list size ss \<le> size_list (size_list size) (s_branches s)"
    by (rule size_list_estimation') simp
  then show ?thesis by (cases s) simp
qed

lemma branches_smaller: "size_list (size_list size) (s_branches s) < size s"
  by (cases s) simp

end
