(* ===== verification/RunExec.thy ===== *)
theory RunExec
  imports RunFlow
begin

text \<open>
  The executor, automation\_exec.go and automation\_action\_flow.go. The recursion (lists of steps, a step,
  the iterations of a loop, the paths of a parallel step, a child run) terminates because a child run is
  one level deeper, at most \<open>MaxRecursionDepth\<close> levels, and everything else descends into the plan.
\<close>

function
  exec_list :: "'w services \<Rightarrow> nat \<Rightarrow> step list \<Rightarrow> 'w actionExec \<Rightarrow> 'w actionExec" and
  exec_step :: "'w services \<Rightarrow> nat \<Rightarrow> step \<Rightarrow> 'w actionExec \<Rightarrow> 'w actionExec" and
  iterate_loop :: "'w services \<Rightarrow> nat \<Rightarrow> loopCursor \<Rightarrow> 'w actionExec \<Rightarrow> 'w actionExec" and
  exec_paths :: "'w services \<Rightarrow> nat \<Rightarrow> step \<Rightarrow> nat \<Rightarrow> step list list \<Rightarrow> int \<Rightarrow> (string \<rightharpoonup> string)
    \<Rightarrow> 'w actionExec \<Rightarrow> 'w actionExec" and
  runAutomation :: "'w services \<Rightarrow> nat \<Rightarrow> 'w actionExec \<Rightarrow> 'w actionExec"
where
  "exec_list S d [] x = x"
| "exec_list S d (s # ss) x0 =
    (let x = yieldIfSlow S (exec_step S d s x0) in
     if x_signal x = signalNone then exec_list S d ss x
     else if x_signal x = signalDelay \<and> ss \<noteq> [] then
       add_rest \<lparr>rs_steps = ss, rs_loop = None, rs_iter = x_iter x\<rparr> x
     else x)"
| "exec_step S d s x0 =
    (let x1 = visits_add S x0 in
     if int (x_visits x1) > MaxStepVisitsPerRun then (recordLimited s ''max_steps'' x1)\<lparr>x_signal := signalStop\<rparr>
     else let x2 = add_record s ''ok'' [] x1; slot = length (rn_actions (x_run x2)) - 1 in
       case dispatch S d s x2 of (r, x) \<Rightarrow>
         (case r of
            Answer err \<Rightarrow> settle slot err x
          | Branch k \<Rightarrow>
              (case branch_of s k of None \<Rightarrow> panic x | Some ss \<Rightarrow> settle slot None (exec_list S d ss x))
          | SettleFailure f \<Rightarrow>
              (case branch_of s 1 of
                 None \<Rightarrow> panic x
               | Some ss \<Rightarrow>
                   settle slot (Some (failure f)) (noteHandled (length (rn_actions (x_run x))) (exec_list S d ss x)))
          | Loop c \<Rightarrow> settle slot None (iterate_loop S d c x)
          | Paths \<Rightarrow>
              settle slot None
                (exec_paths S d s 0 (s_branches s) (bu_delay_ms (x_budget x)) (rn_locals (x_run x)) x)
          | Child plan \<Rightarrow>
              (let y = runAutomation S (Suc d) (childExec S s plan x)
               in settle slot (childAnswer y) (joinChild y x))))"
| "iterate_loop S d c x0 =
    (if cu_next c > cu_total c then restoreIndex c x0
     else let x = executed_load S x0 in
       if int (x_executed x) \<ge> MaxActions then restoreIndex c (recordLimited (cu_step c) ''max_actions'' x)
       else case branch_of (cu_step c) 0 of
         None \<Rightarrow> panic (iteration c x)
       | Some ss \<Rightarrow>
           (let outer = x_iter x; y = (exec_list S d ss (iteration c x))\<lparr>x_iter := outer\<rparr>;
                c' = c\<lparr>cu_next := cu_next c + 1\<rparr>
            in if x_signal y \<noteq> signalNone then pauseLoop c' outer y else iterate_loop S d c' y))"
| "exec_paths S d s i [] spent locals x = set_path spent locals x"
| "exec_paths S d s i (b # bs) spent locals x0 =
    (let x = exec_list S d b (set_path spent locals x0) in
     if x_signal x = signalPanic then x
     else exec_paths S d s (Suc i) bs spent locals (settlePath S d s i x))"
| "runAutomation S d x0 =
    (case conditionsPass S x0 of ((pass, reason, err), x) \<Rightarrow>
       if err \<noteq> None \<or> \<not> pass then
         (case skippedOutcome err reason of (outcome, why) \<Rightarrow> endRunSegment S (set_outcome outcome why x))
       else case admitToQueue S x of (admitted, x) \<Rightarrow>
         if \<not> admitted then endRunSegment S x
         else let y = exec_list S d (p_steps (rn_plan (x_run x))) (start_actions x) in
           if x_signal y = signalPanic then endRunSegment S y else endRunSegment S (conclude S d y))"
  by pat_completeness auto

termination
  apply (relation "measures
    [\<lambda>p. case p of
        Inl (Inl (_, d, _, _)) \<Rightarrow> 2 * (3 - d)
      | Inl (Inr (_, d, _, _)) \<Rightarrow> 2 * (3 - d)
      | Inr (Inl (_, d, _, _)) \<Rightarrow> 2 * (3 - d)
      | Inr (Inr (Inl (_, d, _, _, _, _, _, _))) \<Rightarrow> 2 * (3 - d)
      | Inr (Inr (Inr (_, d, _))) \<Rightarrow> Suc (2 * (3 - d)),
     \<lambda>p. case p of
        Inl (Inl (_, _, ss, _)) \<Rightarrow> size_list size ss
      | Inl (Inr (_, _, s, _)) \<Rightarrow> size s
      | Inr (Inl (_, _, c, _)) \<Rightarrow> size (cu_step c)
      | Inr (Inr (Inl (_, _, _, _, bs, _, _, _))) \<Rightarrow> size_list (size_list size) bs
      | Inr (Inr (Inr _)) \<Rightarrow> 0,
     \<lambda>p. case p of
        Inl (Inr _) \<Rightarrow> 1 | _ \<Rightarrow> 0,
     \<lambda>p. case p of
        Inr (Inl (_, _, c, _)) \<Rightarrow> nat (cu_total c + 1 - cu_next c) | _ \<Rightarrow> 0]")
  by (simp_all add: branch_of_smaller branches_smaller dispatch_Loop [OF sym])
    (use dispatch_Child [OF sym] in force)

section \<open>Segments\<close>

text \<open>\<open>resumeFrame\<close> and \<open>runLists\<close>.\<close>

definition resumeFrame :: "'w services \<Rightarrow> nat \<Rightarrow> resume \<Rightarrow> 'w actionExec \<Rightarrow> 'w actionExec" where
  "resumeFrame S d r x0 =
    (let x = x0\<lparr>x_iter := rs_iter r\<rparr> in
     case rs_loop r of Some c \<Rightarrow> iterate_loop S d c x | None \<Rightarrow> exec_list S d (rs_steps r) x)"

fun runLists :: "'w services \<Rightarrow> nat \<Rightarrow> resume list \<Rightarrow> 'w actionExec \<Rightarrow> 'w actionExec" where
  "runLists S d [] x = x"
| "runLists S d (r # rs) x0 =
    (let x = resumeFrame S d r x0 in
     case x_signal x of
       signalDelay \<Rightarrow> x\<lparr>x_rest := x_rest x @ rs\<rparr>
     | signalStop \<Rightarrow> x
     | signalPanic \<Rightarrow> x
     | signalNone \<Rightarrow> runLists S d rs x)"

text \<open>What follows the body of a segment: the conclusion, or the record of a panic; then the run is finished.\<close>

definition end_segment :: "'w services \<Rightarrow> nat \<Rightarrow> 'w actionExec \<Rightarrow> 'w actionExec" where
  "end_segment S d x =
    (if x_signal x = signalPanic then finishRun S (set_outcome ''failed'' ''panic'' x)
     else finishRun S (conclude S d x))"

definition premium_refused :: "'w services \<Rightarrow> 'w actionExec \<Rightarrow> 'w actionExec" where
  "premium_refused S x = finishRun S (set_outcome ''limited'' ''premium_required'' x)"

text \<open>\<open>awaitResume\<close>.\<close>

definition awaitResume :: "'w services \<Rightarrow> 'w actionExec \<Rightarrow> bool \<times> 'w actionExec" where
  "awaitResume S x0 =
    (case call (sv_await S) x0 of (wake, x) \<Rightarrow>
       (case wake of
          ResumeDue \<Rightarrow> call (sv_still_ours S (x_run x)) x
        | ResumeHalted \<Rightarrow> (False, x)
        | ResumeCanceled \<Rightarrow> (False, finishRun S (set_outcome ''failed'' ''canceled'' x))))"

definition continueRun :: "'w services \<Rightarrow> continuation \<Rightarrow> 'w \<Rightarrow> nat \<Rightarrow> nat \<Rightarrow> 'w actionExec" where
  "continueRun S c w executed visits =
    (let x0 = (newActionExec (ct_run c) w executed visits)\<lparr>x_budget := ct_budget c\<rparr> in
     case awaitResume S x0 of (resumed, x) \<Rightarrow>
       if \<not> resumed then x
       else case call (sv_locked S (rn_bid (x_run x))) x of (locked, x) \<Rightarrow>
         if locked then premium_refused S x
         else end_segment S (ct_depth c) (runLists S (ct_depth c) (ct_rest c) x))"

definition runQueuedTurn :: "'w services \<Rightarrow> nat \<Rightarrow> 'w actionExec \<Rightarrow> 'w actionExec" where
  "runQueuedTurn S d x0 =
    (case call (sv_still_ours S (x_run x0)) x0 of (ours, x) \<Rightarrow>
       if \<not> ours then x
       else case call (sv_locked S (rn_bid (x_run x))) x of (locked, x) \<Rightarrow>
         if locked then premium_refused S x
         else end_segment S d (exec_list S d (p_steps (rn_plan (x_run x))) (start_actions x)))"

text \<open>\<open>awaitQueueTurn\<close> with \<open>finishQueueWait\<close>: the reason the wait ended decides what becomes of the run.\<close>

definition awaitQueueTurn :: "'w services \<Rightarrow> nat \<Rightarrow> run \<times> int \<Rightarrow> 'w \<Rightarrow> nat \<Rightarrow> nat \<Rightarrow> 'w actionExec" where
  "awaitQueueTurn S d waiter w executed visits =
    (let x0 = newActionExec (fst waiter) w executed visits in
     case call (sv_queue_wait S (fst waiter) (snd waiter)) x0 of (reason, x) \<Rightarrow>
       if reason = ''granted'' then
         runQueuedTurn S d (x\<lparr>x_run := (x_run x)\<lparr>rn_slot := Some (rn_id (x_run x))\<rparr>\<rparr>)
       else if reason = ''valkey_unavailable'' then runQueuedTurn S d x
       else if reason = ''handed_off'' then x
       else let y = finishRun S (set_outcome (if reason = ''canceled'' then ''failed'' else ''limited'') reason x)
            in y\<lparr>x_world := sv_queue_leave S (x_run y) (x_world y)\<rparr>)"

end
