(* ===== verification/RunRule.thy ===== *)
theory RunRule
  imports RunExec
begin

text \<open>
  The rule the properties of the executor are proved with. A relation between the states before and after
  a list of steps, and one between those of a whole run, follow for every execution from what single
  operations do: the locale \<open>executor\<close> states these as its assumptions and derives the relations by
  induction over the executor. The properties interpret it.
\<close>

definition route_answer :: "route \<Rightarrow> run_error option" where
  "route_answer r = (case r of Answer err \<Rightarrow> err | SettleFailure f \<Rightarrow> Some (failure f) | _ \<Rightarrow> None)"

definition is_child :: "route \<Rightarrow> bool" where
  "is_child r = (case r of Child p \<Rightarrow> True | _ \<Rightarrow> False)"

definition entered :: "'w services \<Rightarrow> step \<Rightarrow> 'w actionExec \<Rightarrow> 'w actionExec" where
  "entered S s x = add_record s ''ok'' [] (visits_add S x)"

definition own_slot :: "'w actionExec \<Rightarrow> nat" where
  "own_slot x = length (rn_actions (x_run x))"

lemma own_slot_entered [simp]: "length (rn_actions (x_run (entered S s x))) - 1 = own_slot x"
  by (simp add: entered_def own_slot_def add_record_def visits_add_def call_def split: prod.split)

text \<open>The executor following a route from a step at \<open>slot\<close>.\<close>

definition follow :: "'w services \<Rightarrow> nat \<Rightarrow> step \<Rightarrow> nat \<Rightarrow> route \<Rightarrow> 'w actionExec \<Rightarrow> 'w actionExec" where
  "follow S d s slot r y =
    (case r of
       Answer err \<Rightarrow> settle slot err y
     | Branch k \<Rightarrow>
         (case branch_of s k of None \<Rightarrow> panic y | Some ss \<Rightarrow> settle slot None (exec_list S d ss y))
     | SettleFailure f \<Rightarrow>
         (case branch_of s 1 of
            None \<Rightarrow> panic y
          | Some ss \<Rightarrow> settle slot (Some (failure f)) (noteHandled (own_slot y) (exec_list S d ss y)))
     | Loop c \<Rightarrow> settle slot None (iterate_loop S d c y)
     | Paths \<Rightarrow>
         settle slot None (exec_paths S d s 0 (s_branches s) (bu_delay_ms (x_budget y)) (rn_locals (x_run y)) y)
     | Child plan \<Rightarrow>
         (let u = runAutomation S (Suc d) (childExec S s plan y) in settle slot (childAnswer u) (joinChild u y)))"

declare exec_step.simps [simp del] iterate_loop.simps [simp del] runAutomation.simps [simp del]

lemma exec_step_follow:
  "exec_step S d s x =
    (if int (x_visits (visits_add S x)) > MaxStepVisitsPerRun
     then (recordLimited s ''max_steps'' (visits_add S x))\<lparr>x_signal := signalStop\<rparr>
     else case dispatch S d s (entered S s x) of (r, y) \<Rightarrow> follow S d s (own_slot x) r y)"
  unfolding exec_step.simps Let_def entered_def [symmetric] own_slot_entered follow_def
  by (simp only: own_slot_def [symmetric])

lemma set_path_same [simp]: "set_path (bu_delay_ms (x_budget x)) (rn_locals (x_run x)) x = x"
  by (simp add: set_path_def)

lemma signal_set_path [simp]: "x_signal (set_path spent locals x) = x_signal x"
  by (simp add: set_path_def)

lemma signal_settlePath [simp]: "x_signal (settlePath S d s i x) = signalNone"
  by (simp add: settlePath_def Let_def)

locale executor =
  fixes S :: "'w services"
    and R :: "'w actionExec \<Rightarrow> 'w actionExec \<Rightarrow> bool"
    and Q :: "'w actionExec \<Rightarrow> 'w actionExec \<Rightarrow> bool"
  assumes same: "R x x"
    and chain: "R x y \<Longrightarrow> x_signal y \<noteq> signalPanic \<Longrightarrow> R y z \<Longrightarrow> R x z"
    and slow: "R x y \<Longrightarrow> R x (yieldIfSlow S y)"
    and rest: "x_signal y = signalDelay \<Longrightarrow> R x y \<Longrightarrow> R x (add_rest fr y)"
    and visits_spent: "\<lbrakk>x1 = visits_add S x; int (x_visits x1) > MaxStepVisitsPerRun\<rbrakk>
      \<Longrightarrow> R x ((recordLimited s ''max_steps'' x1)\<lparr>x_signal := signalStop\<rparr>)"
    and stepped: "\<lbrakk>int (x_visits (visits_add S x)) \<le> MaxStepVisitsPerRun; dispatch S d s (entered S s x) = (r, y);
      R y z; \<not> is_child r \<Longrightarrow> err = route_answer r\<rbrakk> \<Longrightarrow> R x (settle (own_slot x) err z)"
    and stepped_panic: "\<lbrakk>int (x_visits (visits_add S x)) \<le> MaxStepVisitsPerRun;
      dispatch S d s (entered S s x) = (r, y)\<rbrakk> \<Longrightarrow> R x (panic y)"
    and handled: "R x y \<Longrightarrow> R x (noteHandled (own_slot x) y)"
    and child: "Q (childExec S s p x) u \<Longrightarrow> R x (joinChild u x)"
    and load: "R (executed_load S x) y \<Longrightarrow> R x y"
    and loop_limit: "R x (recordLimited s ''max_actions'' x)"
    and loop_body: "R (iteration c x) y \<Longrightarrow> R x (y\<lparr>x_iter := x_iter x\<rparr>)"
    and loop_panic: "R x (panic (iteration c x))"
    and loop_end: "R x y \<Longrightarrow> R x (restoreIndex c y)"
    and loop_pause: "R x y \<Longrightarrow> x_signal y = signalDelay \<Longrightarrow> R x (pauseLoop c outer y)"
    and path: "\<lbrakk>R (set_path spent locals x) y; x_signal y \<noteq> signalPanic\<rbrakk>
      \<Longrightarrow> R (set_path spent locals x) (set_path spent locals (settlePath S d s i y))"
    and run_refused: "\<lbrakk>conditionsPass S x = ((pass, reason, err), y); err \<noteq> None \<or> \<not> pass\<rbrakk>
      \<Longrightarrow> Q x (endRunSegment S (set_outcome outcome why y))"
    and run_queued: "\<lbrakk>conditionsPass S x = ((True, reason, None), y); admitToQueue S y = (False, z)\<rbrakk>
      \<Longrightarrow> Q x (endRunSegment S z)"
    and run_done: "\<lbrakk>conditionsPass S x = ((True, reason, None), y); admitToQueue S y = (True, z);
      R (start_actions z) u; v = (if x_signal u = signalPanic then u else conclude S d u)\<rbrakk>
      \<Longrightarrow> Q x (endRunSegment S v)"
begin


lemma step_rule:
  assumes branch: "\<And>y k ss. \<lbrakk>dispatch S d s (entered S s x) = (Branch k, y); branch_of s k = Some ss\<rbrakk>
      \<Longrightarrow> R y (exec_list S d ss y)"
    and failed: "\<And>y f ss. \<lbrakk>dispatch S d s (entered S s x) = (SettleFailure f, y); branch_of s 1 = Some ss\<rbrakk>
      \<Longrightarrow> R y (exec_list S d ss y)"
    and loop: "\<And>y c. dispatch S d s (entered S s x) = (Loop c, y) \<Longrightarrow> R y (iterate_loop S d c y)"
    and paths: "\<And>y. dispatch S d s (entered S s x) = (Paths, y) \<Longrightarrow>
      R (set_path (bu_delay_ms (x_budget y)) (rn_locals (x_run y)) y)
        (exec_paths S d s 0 (s_branches s) (bu_delay_ms (x_budget y)) (rn_locals (x_run y)) y)"
    and child_run: "\<And>y p. dispatch S d s (entered S s x) = (Child p, y) \<Longrightarrow>
      Q (childExec S s p y) (runAutomation S (Suc d) (childExec S s p y))"
  shows "R x (exec_step S d s x)"
proof (cases "int (x_visits (visits_add S x)) > MaxStepVisitsPerRun")
  case True
  then show ?thesis using visits_spent by (simp add: exec_step_follow)
next
  case False
  then have le: "int (x_visits (visits_add S x)) \<le> MaxStepVisitsPerRun" by simp
  obtain r y where run: "dispatch S d s (entered S s x) = (r, y)" by fastforce
  note to = stepped [OF le run]
  have "R x (follow S d s (own_slot x) r y)"
  proof (cases r)
    case (Answer err)
    then show ?thesis using to [OF same, of err] by (simp add: follow_def route_answer_def)
  next
    case (Branch k)
    then show ?thesis using to [OF branch, of k _ None] stepped_panic [OF le run] run
      by (auto simp: follow_def route_answer_def split: option.split)
  next
    case (SettleFailure f)
    then show ?thesis using to [OF handled [OF failed], of f _ "Some (failure f)"] stepped_panic [OF le run] run
      by (auto simp: follow_def route_answer_def split: option.split)
  next
    case (Loop c)
    then show ?thesis using to [OF loop, of c None] run by (auto simp: follow_def route_answer_def)
  next
    case Paths
    then show ?thesis using to [OF paths [unfolded set_path_same], of None] run
      by (auto simp: follow_def route_answer_def)
  next
    case (Child p)
    then show ?thesis using to [OF child [OF child_run], of p] run by (auto simp: follow_def is_child_def Let_def)
  qed
  then show ?thesis using False run by (simp add: exec_step_follow)
qed

lemma executes_at:
  "T = S \<Longrightarrow> R x (exec_list T d ss x)"
  "T = S \<Longrightarrow> R x (exec_step T d s x)"
  "T = S \<Longrightarrow> R x (iterate_loop T d c x)"
  "T = S \<Longrightarrow> R (set_path spent locals x) (exec_paths T d s i bs spent locals x)"
  "T = S \<Longrightarrow> Q x (runAutomation T d x)"
proof (induction T d ss x and T d s x and T d c x and T d s i bs spent locals x and T d x
    rule: exec_list_exec_step_iterate_loop_exec_paths_runAutomation.induct)
  case (1 T d x)
  show ?case by (simp add: same)
next
  case (2 T d s ss x0)
  define x where "x = yieldIfSlow S (exec_step S d s x0)"
  have one: "R x0 x" using 2 by (simp add: x_def slow)
  have "R x0 (exec_list S d ss x)" if "x_signal x = signalNone"
    using chain [OF one] that 2 by (simp add: x_def)
  then show ?case using one rest [OF _ one] 2 by (simp add: x_def [symmetric] Let_def)
next
  case (3 T d s x0)
  note IH = 3(1-5) [OF refl _ refl refl] and T = 3(6)
  show ?case
  proof (cases "int (x_visits (visits_add S x0)) > MaxStepVisitsPerRun")
    case True
    then show ?thesis using visits_spent T by (simp add: exec_step_follow)
  next
    case False
    note IH = IH [unfolded T, OF False [THEN iffD2 [OF refl]], folded entered_def, OF sym]
    show ?thesis unfolding T
      by (rule step_rule) (use IH in \<open>auto simp: entered_def\<close>)
  qed
next
  case (4 T d c x0)
  note T = 4(3)
  define x where "x = executed_load S x0"
  consider (over) "cu_next c > cu_total c" | (spent) "cu_next c \<le> cu_total c" "int (x_executed x) \<ge> MaxActions"
    | (none) "cu_next c \<le> cu_total c" "int (x_executed x) < MaxActions" "branch_of (cu_step c) 0 = None"
    | (turn) ss where "cu_next c \<le> cu_total c" "int (x_executed x) < MaxActions" "branch_of (cu_step c) 0 = Some ss"
    by fastforce
  then show ?case
  proof cases
    case over
    then show ?thesis by (simp add: iterate_loop.simps loop_end same)
  next
    case spent
    then show ?thesis using load loop_end loop_limit by (simp add: T iterate_loop.simps x_def)
  next
    case none
    then show ?thesis using load loop_panic by (simp add: T iterate_loop.simps x_def)
  next
    case (turn ss)
    define y where "y = (exec_list S d ss (iteration c x))\<lparr>x_iter := x_iter x\<rparr>"
    have "R (iteration c x) (exec_list S d ss (iteration c x))" using 4(1) turn by (simp add: T x_def)
    then have one: "R x y" unfolding y_def by (rule loop_body)
    have two: "R x (iterate_loop S d (c\<lparr>cu_next := cu_next c + 1\<rparr>) y)" if "x_signal y = signalNone"
      using chain [OF one] 4(2) turn that by (simp add: T x_def y_def)
    have "iterate_loop S d c x0 = (if x_signal y \<noteq> signalNone
        then pauseLoop (c\<lparr>cu_next := cu_next c + 1\<rparr>) (x_iter x) y
        else iterate_loop S d (c\<lparr>cu_next := cu_next c + 1\<rparr>) y)"
      using turn by (simp add: iterate_loop.simps [of S d c] x_def y_def Let_def)
    moreover have "R x (pauseLoop c' i y)" if "x_signal y \<noteq> signalNone" for c' i
      using one loop_pause [OF one] by (cases "x_signal y = signalDelay") (simp_all add: pauseLoop_def)
    ultimately show ?thesis using load two by (simp add: T x_def)
  qed
next
  case (5 T d s i spent locals x)
  show ?case by (simp add: same)
next
  case (6 T d s i b bs spent locals x0)
  define x where "x = exec_list S d b (set_path spent locals x0)"
  let ?start = "set_path spent locals x0"
  have one: "R ?start x" using 6 by (simp add: x_def)
  have "R ?start (exec_paths S d s (Suc i) bs spent locals (settlePath S d s i x))" if "x_signal x \<noteq> signalPanic"
    using chain [OF path [OF one that], of d s i] 6 that by (simp add: x_def)
  then show ?case using one 6(3) by (simp add: x_def [symmetric] Let_def)
next
  case (7 T d x0)
  note T = 7(2)
  obtain pass reason err y where checks: "conditionsPass S x0 = ((pass, reason, err), y)" by (metis prod_cases3 surj_pair)
  obtain admitted z where seat: "admitToQueue S y = (admitted, z)" by fastforce
  define u where "u = exec_list S d (p_steps (rn_plan (x_run z))) (start_actions z)"
  consider (refused) "err \<noteq> None \<or> \<not> pass" | (queued) "err = None" "pass" "\<not> admitted" | (run) "err = None" "pass" "admitted"
    by blast
  then show ?case
  proof cases
    case refused
    then show ?thesis using run_refused [OF checks refused] T checks
      by (auto simp: runAutomation.simps split: prod.split)
  next
    case queued
    then show ?thesis using run_queued [of x0 reason y z] T checks seat by (simp add: runAutomation.simps)
  next
    case run
    have "R (start_actions z) u" using 7(1) run checks seat by (simp add: T u_def)
    then show ?thesis using run_done [of x0 reason y z u _ d, OF _ _ _ refl] run T checks seat
      by (auto simp: runAutomation.simps u_def [symmetric] Let_def)
  qed
qed

lemmas executes = executes_at [OF refl]

end

end
