(* ===== verification/RunKeep.thy ===== *)
theory RunKeep
  imports RunRule
begin

text \<open>
  What every handler of a step leaves alone, \<open>keeps\<close>: it only queues or emits prepared outputs, touches
  neither the frames, the continuations nor the counters, and of the records at most the slot of its own.
\<close>

named_theorems keeping

definition prepared :: "'w services \<Rightarrow> out_msg \<Rightarrow> bool" where
  "prepared S o1 \<longleftrightarrow> \<not> isEmptyAction o1 \<and> \<not> floorSuppressed (sv_unicode S) (sv_lexicon S) o1"

definition clean_emission :: "'w services \<Rightarrow> emission \<Rightarrow> bool" where
  "clean_emission S e =
    (case e of Single o1 \<Rightarrow> prepared S o1 | Batch bid ident items \<Rightarrow> \<forall>o1 \<in> set items. prepared S o1)"

definition clean_exec :: "'w services \<Rightarrow> 'w actionExec \<Rightarrow> bool" where
  "clean_exec S x \<longleftrightarrow> (\<forall>o1 \<in> set (x_pending x). prepared S o1) \<and> (\<forall>e \<in> set (x_emitted x). clean_emission S e)"

definition same_records :: "action_record list \<Rightarrow> action_record list \<Rightarrow> bool" where
  "same_records rs rs' \<longleftrightarrow> length rs' = length rs \<and> butlast rs' = butlast rs
    \<and> map ar_status rs' = map ar_status rs \<and> map ar_type rs' = map ar_type rs"

definition same_flow :: "'w actionExec \<Rightarrow> 'w actionExec \<Rightarrow> bool" where
  "same_flow x y \<longleftrightarrow> x_started y = x_started x \<and> x_waiting y = x_waiting x \<and> x_rest y = x_rest x
    \<and> x_iter y = x_iter x \<and> x_executed y = x_executed x \<and> x_visits y = x_visits x
    \<and> rn_plan (x_run y) = rn_plan (x_run x) \<and> rn_outcome (x_run y) = rn_outcome (x_run x)"

definition keeps :: "'w services \<Rightarrow> 'w actionExec \<Rightarrow> 'w actionExec \<Rightarrow> bool" where
  "keeps S x y \<longleftrightarrow> (clean_exec S x \<longrightarrow> clean_exec S y) \<and> same_flow x y
    \<and> (bu_delay_ms (x_budget x) \<le> MaxDelayMS \<longrightarrow> bu_delay_ms (x_budget y) \<le> MaxDelayMS)
    \<and> same_records (rn_actions (x_run x)) (rn_actions (x_run y))"

lemma keeps_same [keeping]: "keeps S x x"
  by (simp add: keeps_def same_flow_def same_records_def)

lemma keeps_trans: "\<lbrakk>keeps S x y; keeps S y z\<rbrakk> \<Longrightarrow> keeps S x z"
  by (simp add: keeps_def same_flow_def same_records_def)

text \<open>An update of fields that \<open>keeps\<close> does not speak about.\<close>

lemma keeps_update:
  assumes "keeps S x y" "x_pending z = x_pending y" "x_emitted z = x_emitted y" "same_flow y z"
    and "x_budget z = x_budget y" "rn_actions (x_run z) = rn_actions (x_run y)"
  shows "keeps S x z"
  by (rule keeps_trans [OF assms(1)]) (use assms(2-) in \<open>simp add: keeps_def clean_exec_def same_records_def\<close>)

lemma keeps_call [keeping]: "keeps S x y \<Longrightarrow> keeps S x (snd (call f y))"
  by (erule keeps_update) (simp_all add: call_def same_flow_def split_beta)

lemma keeps_setLocal [keeping]: "keeps S x y \<Longrightarrow> keeps S x (setLocal name v y)"
  by (erule keeps_update) (simp_all add: setLocal_def same_flow_def)

lemma keeps_deleteLocal [keeping]: "keeps S x y \<Longrightarrow> keeps S x (deleteLocal name y)"
  by (erule keeps_update) (simp_all add: deleteLocal_def same_flow_def)

lemma keeps_saveLocal [keeping]: "keeps S x y \<Longrightarrow> keeps S x (saveLocal S raw v y)"
  by (simp add: saveLocal_def keeping split_beta)

lemma keeps_release [keeping]: "keeps S x y \<Longrightarrow> keeps S x (release S key y)"
  by (erule keeps_update) (simp_all add: release_def same_flow_def split: option.split)

lemma keeps_signal [keeping]: "keeps S x y \<Longrightarrow> keeps S x (y\<lparr>x_signal := sig\<rparr>)"
  by (erule keeps_update) (simp_all add: same_flow_def)

lemma keeps_panic [keeping]: "keeps S x y \<Longrightarrow> keeps S x (panic y)"
  by (simp add: panic_def keeping)

lemma keeps_cooldown_end [keeping]:
  "keeps S x y \<Longrightarrow> keeps S x (y\<lparr>x_run := (x_run y)\<lparr>rn_cooldown_end := e\<rparr>\<rparr>)"
  by (erule keeps_update) (simp_all add: same_flow_def)

lemma keeps_expand [keeping]: "keeps S x y \<Longrightarrow> keeps S x (snd (expand S t y))"
  by (simp add: expand_def keeping Let_def)

lemma keeps_if [keeping]:
  "\<lbrakk>c \<Longrightarrow> keeps S x (snd p); \<not> c \<Longrightarrow> keeps S x (snd q)\<rbrakk> \<Longrightarrow> keeps S x (snd (if c then p else q))"
  by simp

section \<open>Queueing\<close>

lemma keeps_pending:
  assumes "keeps S x y" "clean_exec S y \<Longrightarrow> \<forall>o1 \<in> set ps. prepared S o1"
  shows "keeps S x (y\<lparr>x_pending := ps\<rparr>)"
  by (rule keeps_trans [OF assms(1)])
    (use assms(2) in \<open>auto simp: keeps_def clean_exec_def same_flow_def same_records_def\<close>)

lemma keeps_queue_out [keeping]: "keeps S x y \<Longrightarrow> keeps S x (snd (queue_out S o1 y))"
  by (auto simp: queue_out_def prepareCommand_def Let_def clean_exec_def prepared_def intro!: keeps_pending)

lemma prepareCommand_prepared:
  "prepareCommand (sv_unicode S) (sv_lexicon S) o1 = (o2, True) \<Longrightarrow> prepared S o2"
  by (auto simp: prepareCommand_def Let_def prepared_def)

lemma appendChatLines_prepared:
  assumes "\<forall>o1 \<in> set dst. prepared S o1"
  shows "\<forall>o1 \<in> set (appendChatLines_from (sv_unicode S) (sv_lexicon S) bid n lines dst). prepared S o1"
  using assms
proof (induction lines arbitrary: n dst)
  case (Cons line lines)
  obtain out keep where prep: "prepareCommand (sv_unicode S) (sv_lexicon S)
      ((blank_output ''chat'' bid)\<lparr>o_text := line\<rparr>) = (out, keep)"
    by fastforce
  have kept: "\<forall>o1 \<in> set (if keep then dst @ [out] else dst). prepared S o1"
    using Cons.prems prepareCommand_prepared prep by (cases keep) fastforce+
  show ?case using Cons.IH [OF Cons.prems] Cons.IH [OF kept] Cons.prems prep by (simp add: Let_def)
qed simp

lemma keeps_queueText [keeping]:
  assumes "keeps S x y"
  shows "keeps S x (snd (queueText S o1 y))"
proof -
  have "\<forall>o1 \<in> set (appendChatLines (sv_unicode S) (sv_lexicon S) (x_pending y) o2). prepared S o1"
    if "clean_exec S y" for o2
    using that unfolding appendChatLines_def clean_exec_def by (intro appendChatLines_prepared) simp
  moreover have "prepared S (Translate o1)" if "snd (prepareCommand (sv_unicode S) (sv_lexicon S) o1)"
    using that by (simp add: prepareCommand_def Let_def prepared_def)
  ultimately show ?thesis unfolding queueText_def Let_def snd_conv
    by (intro keeps_pending [OF assms]) (auto simp: prepareCommand_def Let_def clean_exec_def)
qed

lemma keeps_flush [keeping]: "keeps S x y \<Longrightarrow> keeps S x (flush y)"
proof (rule keeps_trans)
  show "keeps S y (flush y)"
    by (auto simp: flush_def emitBatch_def Let_def keeps_def clean_exec_def clean_emission_def same_flow_def
        same_records_def split: list.split)
qed

section \<open>Effects that happen once\<close>

lemma keeps_dedup_claim [keeping]: "keeps S x y \<Longrightarrow> keeps S x (snd (dedup_claim S ident effect y))"
  by (auto simp: dedup_claim_def Let_def split_beta split: option.split intro: keeping)

lemma keeps_once [keeping]:
  assumes "\<And>z. keeps S x z \<Longrightarrow> keeps S x (snd (f z))" "keeps S x y"
  shows "keeps S x (snd (once S s f y))"
  using assms by (auto simp: once_def split_beta split: option.split intro!: keeping)

lemma keeps_onceRefusable [keeping]:
  assumes "\<And>z. keeps S x z \<Longrightarrow> keeps S x (snd (f z))" "keeps S x y"
  shows "keeps S x (snd (onceRefusable S s f y))"
  using assms by (auto simp: onceRefusable_def split_beta intro!: keeping)

section \<open>The handlers\<close>

lemma keeps_lookupLogin [keeping]: "keeps S x y \<Longrightarrow> keeps S x (snd (lookupLogin S login y))"
  by (auto simp: lookupLogin_def split_beta split: option.split intro!: keeping)

lemma keeps_target [keeping]: "keeps S x y \<Longrightarrow> keeps S x (snd (target S t own y))"
  by (auto simp: target_def Let_def split_beta intro!: keeping)

lemma keeps_output_steps [keeping]:
  assumes "keeps S x y"
  shows "keeps S x (snd (act_chat S p1 y))" "keeps S x (snd (act_announce S p2 y))"
    "keeps S x (snd (act_reply S p3 y))" "keeps S x (snd (act_delete_message S y))"
    "keeps S x (snd (act_shield S p4 y))" "keeps S x (snd (act_shoutout S p5 y))"
    "keeps S x (snd (act_clip S y))" "keeps S x (snd (act_marker S p6 y))"
    "keeps S x (snd (channelUpdate S field t n y))" "keeps S x (snd (act_commercial S p7 y))"
    "keeps S x (snd (act_redemption S p8 y))"
  using assms
  by (auto simp: act_chat_def act_announce_def act_reply_def act_delete_message_def act_shield_def act_shoutout_def
      act_clip_def act_marker_def channelUpdate_def act_commercial_def act_redemption_def Let_def split_beta
      split: option.split intro!: keeping)

lemma keeps_moderate [keeping]: "keeps S x y \<Longrightarrow> keeps S x (snd (moderate S typ login reason secs y))"
  unfolding moderate_def
  by (cases "target S login False y")
    (auto simp: split_beta split: sum.split intro!: keeping dest: keeps_target [of S x y login False])

lemma keeps_moderation_steps [keeping]:
  assumes "keeps S x y"
  shows "keeps S x (snd (act_timeout S p1 y))" "keeps S x (snd (act_ban S p2 y))" "keeps S x (snd (act_warn S p3 y))"
    "keeps S x (snd (act_set_title S p4 y))" "keeps S x (snd (act_set_game S p5 y))" "keeps S x (snd (act_set_tags S p6 y))"
  using assms by (simp_all add: act_timeout_def act_ban_def act_warn_def act_set_title_def act_set_game_def
      act_set_tags_def keeping)

lemma same_records_last:
  "same_records rs (rs[length rs - 1 := (rs ! (length rs - 1))\<lparr>ar_slot := slot\<rparr>])"
  by (cases rs rule: rev_cases) (simp_all add: same_records_def map_update nth_append)

lemma keeps_reward_update [keeping]:
  assumes "keeps S x y"
  shows "keeps S x (snd (act_reward_update S s p y))"
proof -
  have "keeps S z (set_last_slot slot z)" for slot and z :: "'a actionExec"
    by (simp add: set_last_slot_def keeps_def clean_exec_def same_flow_def same_records_last [simplified] Let_def)
  then have slot: "keeps S x z \<Longrightarrow> keeps S x (set_last_slot slot z)" for slot z
    using keeps_trans by blast
  obtain err z where queued: "queue_out S ((x_out ''reward_update'' y)\<lparr>o_reward_id := rw_reward_id p,
      o_reward := Some \<lparr>ow_enabled = rw_enabled p, ow_cost = rw_cost p, ow_reset = rw_reset_on_stream_end p\<rparr>,
      o_run_id := rn_id (x_run y), o_slot := s_effect_key s @ x_iter y\<rparr>) y = (err, z)"
    by fastforce
  then have "keeps S x z" using keeps_queue_out [OF assms] by (metis snd_conv)
  then show ?thesis using queued slot by (cases err) (simp_all add: act_reward_update_def Let_def)
qed

lemma keeps_answered: "keeps S x z \<Longrightarrow> keeps S x (snd (case call f z of (a, z) \<Rightarrow> (g a, z)))"
  by (simp add: split_beta keeping)

lemma keeps_adjustPoints [keeping]: "keeps S x y \<Longrightarrow> keeps S x (snd (adjustPoints S s login amount absolute y))"
  unfolding adjustPoints_def
  by (cases "target S login True y")
    (auto simp: split_beta split: option.split sum.split intro!: keeping dest: keeps_target [of S x y login True])

lemma keeps_loyaltyOnce [keeping]: "keeps S x y \<Longrightarrow> keeps S x (snd (loyaltyOnce S s f y))"
  by (auto simp: loyaltyOnce_def split_beta split: option.split intro!: keeping)

lemma keeps_sendLights [keeping]: "keeps S x y \<Longrightarrow> keeps S x (snd (sendLights S p y))"
  by (auto simp: sendLights_def split_beta split: option.split intro!: keeping)

lemma keeps_act_lights [keeping]: "keeps S x y \<Longrightarrow> keeps S x (snd (act_lights S s p y))"
  by (auto simp: act_lights_def split: option.split intro!: keeping)

lemma keeps_variableWrite [keeping]: "keeps S x y \<Longrightarrow> keeps S x (snd (variableWrite S s scope_name w y))"
  by (auto simp: variableWrite_def split_beta split: option.split prod.split intro!: keeping)

lemma keeps_data_steps [keeping]:
  assumes "keeps S x y"
  shows "keeps S x (snd (act_points_add S s p1 y))" "keeps S x (snd (act_points_set S s p2 y))"
    "keeps S x (snd (act_counter_add S s p3 y))" "keeps S x (snd (act_counter_set S s p4 y))"
    "keeps S x (snd (act_var_set S s p5 y))" "keeps S x (snd (act_var_add S s p6 y))"
    "keeps S x (snd (act_var_delete S s p7 y))" "keeps S x (snd (mathStep S p9 y))"
  using assms
  by (auto simp: act_points_add_def act_points_set_def act_counter_add_def act_counter_set_def act_var_set_def
      act_var_add_def act_var_delete_def mathStep_def split_beta Let_def split: option.split intro!: keeping)

lemma keeps_textStep [keeping]: "keeps S x y \<Longrightarrow> keeps S x (snd (textStep S p y))"
  by (auto simp: textStep_def split_beta split: text_result.split intro!: keeping)

lemma keeps_extendNamedCooldown [keeping]: "keeps S x y \<Longrightarrow> keeps S x (snd (extendNamedCooldown store key secs y))"
  by (auto simp: extendNamedCooldown_def Let_def split_beta split: sum.split prod.split intro!: keeping)

lemma keeps_cooldown_add [keeping]: "keeps S x y \<Longrightarrow> keeps S x (snd (act_cooldown_add S s p y))"
  by (auto simp: act_cooldown_add_def split_beta split: option.split intro!: keeping)

section \<open>Conditions\<close>

lemma keeps_claimValkeyWindows [keeping]: "keeps S x y \<Longrightarrow> keeps S x (snd (claimValkeyWindows store ws y))"
  by (auto simp: claimValkeyWindows_def split: list.split intro!: keeping)

lemma keeps_claimCooldownWindows [keeping]:
  "keeps S x y \<Longrightarrow> keeps S x (snd (claimCooldownWindows S valkey bid ws y))"
  by (auto simp: claimCooldownWindows_def split_beta split: option.split intro!: keeping)

lemma keeps_longWindowsLeft [keeping]: "keeps S x y \<Longrightarrow> keeps S x (snd (longWindowsLeft S bid ws y))"
  by (auto simp: longWindowsLeft_def Let_def split_beta split: option.split sum.split intro!: keeping)

lemma keeps_short_windows_left [keeping]: "keeps S x y \<Longrightarrow> keeps S x (snd (short_windows_left store ws left y))"
proof (induction ws arbitrary: left y)
  case (Cons w ws)
  show ?case by (auto simp: split_beta split: sum.split intro!: Cons.IH Cons.prems keeping)
qed simp

lemma keeps_windowsLeft [keeping]: "keeps S x y \<Longrightarrow> keeps S x (snd (windowsLeft S valkey bid ws y))"
  by (auto simp: windowsLeft_def split_beta split: sum.split intro!: keeping)

lemma keeps_conditions [keeping]:
  assumes "keeps S x y"
  shows "keeps S x (snd (conditionLive S c1 y))" "keeps S x (snd (conditionCategory S c2 y))"
    "keeps S x (snd (conditionChance S c3 y))" "keeps S x (snd (conditionCounter S c4 y))"
    "keeps S x (snd (conditionPoints S c5 y))" "keeps S x (snd (conditionCooldown S c6 y))"
    "keeps S x (snd (conditionCompare S c7 y))" "keeps S x (snd (conditionVar S c8 y))"
  using assms
  by (auto simp: conditionLive_def conditionCategory_def conditionChance_def conditionCounter_def
      conditionPoints_def conditionCooldown_def conditionCompare_def conditionVar_def Let_def split_beta
      split: option.split sum.split intro!: keeping)

lemma keeps_check_of_params:
  "\<lbrakk>check_of_params S t p = Some check; keeps S x y\<rbrakk> \<Longrightarrow> keeps S x (snd (check y))"
  by (cases p) (auto split: if_splits intro: keeping)

lemma keeps_run_condition [keeping]: "keeps S x y \<Longrightarrow> keeps S x (snd (run_condition S c y))"
  by (auto simp: run_condition_def bind_eq_Some_conv split: option.split intro: keeps_check_of_params)

lemma keeps_pass_loop: "keeps S x y \<Longrightarrow> keeps S x (snd (pass_loop S cs y))"
proof (induction cs arbitrary: y)
  case (Cons c cs)
  show ?case by (auto simp: split_beta intro!: Cons.IH Cons.prems keeping)
qed simp

lemma keeps_conditionsPass [keeping]: "keeps S x y \<Longrightarrow> keeps S x (snd (conditionsPass S y))"
  by (simp add: conditionsPass_def keeps_pass_loop)

lemma keeps_noteCooldownLeft [keeping]:
  assumes "keeps S x y"
  shows "keeps S x (noteCooldownLeft S c y)"
proof (cases "Option.bind c pn_params")
  case (Some params)
  then show ?thesis
  proof (cases params)
    case (P_cooldown p)
    then show ?thesis using Some assms
      by (auto simp: noteCooldownLeft_def split_beta split: option.split sum.split list.split prod.split
          intro!: keeping dest!: arg_cong [where f = snd])
  qed (use assms in \<open>simp_all add: noteCooldownLeft_def\<close>)
qed (use assms in \<open>simp add: noteCooldownLeft_def\<close>)

section \<open>Every handler\<close>

lemma keeps_budget:
  assumes "keeps S x y" "bu_delay_ms (x_budget y) \<le> MaxDelayMS \<Longrightarrow> bu_delay_ms b \<le> MaxDelayMS"
  shows "keeps S x (y\<lparr>x_budget := b, x_delay_ms := ms\<rparr>)"
  by (rule keeps_trans [OF assms(1)])
    (use assms(2) in \<open>simp add: keeps_def clean_exec_def same_flow_def same_records_def\<close>)

lemma keeps_flow_steps [keeping]:
  assumes "keeps S x y"
  shows "keeps S x (snd (act_stop y))" "keeps S x (snd (act_delay p1 y))"
    "keeps S x (snd (act_random_pick S s p2 y))" "keeps S x (snd (act_loop S s p3 y))"
    "keeps S x (snd (act_if S s y))" "keeps S x (snd (settleFetch S v r y))"
  using assms
  by (auto simp: act_stop_def act_delay_def act_random_pick_def pickBranch_def branchRoll_def act_loop_def act_if_def
      settleFetch_def Let_def split_beta split: option.split prod.split intro!: keeping keeps_budget)

lemma keeps_postResult [keeping]: "keeps S x y \<Longrightarrow> keeps S x (snd (postResult S s p y))"
  by (auto simp: postResult_def callFetch_def Let_def split_beta split: option.split intro!: keeping)

lemma keeps_getResult [keeping]: "keeps S x y \<Longrightarrow> keeps S x (snd (getResult S p y))"
  by (auto simp: getResult_def callFetch_def split_beta split: option.split intro!: keeping)

lemma keeps_http [keeping]:
  assumes "keeps S x y"
  shows "keeps S x (snd (act_http_post S s p1 y))" "keeps S x (snd (act_http_get S p2 y))"
  using assms
  by (auto simp: act_http_post_def act_http_get_def split_beta split: sum.split intro!: keeping)

lemma keeps_runOther [keeping]: "keeps S x y \<Longrightarrow> keeps S x (snd (runOther S d p y))"
  by (auto simp: runOther_def findAutomation_def split_beta split: option.split intro!: keeping)

lemma keeps_handled_route [keeping]: "keeps S x (snd h) \<Longrightarrow> keeps S x (snd (handled_route h))"
  by (simp add: handled_route_def split_beta)

lemma keeps_handler:
  assumes "handler_of S d s t p = Some h" "keeps S x y"
  shows "keeps S x (snd (h y))"
  using assms by (cases p) (auto split: if_splits intro!: keeping)

lemma keeps_handle: "keeps S x (snd (handle S d s x))"
  by (auto simp: handle_def bind_eq_Some_conv split: option.split intro: keeps_handler keeping)

end
