(* ===== verification/RunSample.thy ===== *)
theory RunSample
  imports RunExec
begin

text \<open>
  A concrete world to run recipes in: the keys of the effects seen so far. Nothing else is wired, templates
  render to nothing and the clock stands still.
\<close>

definition word_fops :: "64 word fops" where
  "word_fops = \<lparr>ff_zero = 0, ff_one = 1, ff_add = (+), ff_sub = (-), ff_mul = (*), ff_div = (div), ff_mod = (mod),
     ff_pow = (\<lambda>a b. a ^ unat b), ff_neg = uminus, ff_is_zero = (\<lambda>a. a = 0), ff_is_whole = (\<lambda>a. True),
     ff_round = (\<lambda>a. a), ff_floor = (\<lambda>a. a), ff_ceil = (\<lambda>a. a), ff_abs = (\<lambda>a. a), ff_min = min, ff_max = max,
     ff_parse = (\<lambda>s. if list_all is_digit s then Some (word_of_int (digits_value s)) else None),
     ff_nan_or_inf = (\<lambda>a. False), ff_format = (\<lambda>a. itoa (uint a)), ff_random = (\<lambda>k. 0)\<rparr>"

definition sample_services :: "string list services" where
  "sample_services =
    \<lparr>sv_env = sample_env, sv_unicode = sample_unicode, sv_lexicon = None, sv_slow = (\<lambda>w. (False, w)),
     sv_other_visits = (\<lambda>w. (0, w)), sv_other_executed = (\<lambda>w. (0, w)), sv_intN = (\<lambda>n w. (0, w)),
     sv_rng = (\<lambda>w. (\<lambda>n. 0, w)), sv_floats = (\<lambda>w. (word_fops, w)), sv_render = (\<lambda>toks r w. ([], w)),
     sv_locale = (\<lambda>r. ''en''), sv_resolve = None,
     sv_seen = Some (\<lambda>key w. if List.member w key then ((True, False), w) else ((False, False), key # w)),
     sv_unseen = (\<lambda>key w. removeAll key w),
     sv_loyalty = Some \<lparr>ly_adjust = (\<lambda>b v l n a w. ((True, None), w)), ly_bump = (\<lambda>b c v n w. (None, w)),
       ly_set = (\<lambda>b c v n w. ((True, None), w)), ly_peek = (\<lambda>b c v w. ((0, None), w)),
       ly_balance = (\<lambda>b v w. ((0, None), w))\<rparr>,
     sv_gossip = None, sv_variables = None, sv_long = None, sv_cooldown = None, sv_live = None, sv_game = None,
     sv_dec_text = (\<lambda>e. ''bad params''), sv_reward_ids = (\<lambda>e. None), sv_locked = (\<lambda>b w. (False, w)),
     sv_index = None, sv_new_id = (\<lambda>w. (None, w)), sv_hash_hex = (\<lambda>s. s), sv_hash_num = length,
     sv_now_ns = (\<lambda>w. (0, w)), sv_record = (\<lambda>c w. ((True, False), w)),
     sv_record_waiter = (\<lambda>r p w. ((True, False), w)), sv_finish_durable = (\<lambda>r w. (True, w)),
     sv_await = (\<lambda>w. (ResumeDue, w)), sv_still_ours = (\<lambda>r w. (True, w)), sv_queue_enter = (\<lambda>b q t w. (Some 0, w)),
     sv_queue_leave = (\<lambda>r w. w), sv_waiters_enter = (\<lambda>w. (True, w)), sv_queue_wait = (\<lambda>r p w. (''granted'', w)),
     sv_log_run = (\<lambda>r w. w)\<rparr>"

definition sample_step :: "string \<Rightarrow> action_params \<Rightarrow> int \<Rightarrow> step list list \<Rightarrow> step" where
  "sample_step typ p i branches = Step typ True (Some p) i (''auto:a1:'' @ itoa i) branches None"

definition say :: "string \<Rightarrow> int \<Rightarrow> step" where
  "say t i = sample_step ''chat'' (P_text \<lparr>txt_text = t\<rparr>) i []"

definition wait_ms :: "int \<Rightarrow> int \<Rightarrow> step" where
  "wait_ms ms i = sample_step ''delay'' (P_delay \<lparr>de_ms = ms\<rparr>) i []"

definition count_up :: "int \<Rightarrow> step" where
  "count_up i = sample_step ''counter_add'' (P_counter_add \<lparr>ca_name = ''hugs'', ca_amount = 1\<rparr>) i []"

definition sample_plan :: "step list \<Rightarrow> plan" where
  "sample_plan steps =
    \<lparr>p_automation = sample_automation, p_conditions = [], p_steps = steps, p_step_count = length steps,
     p_templates = (\<lambda>t. None), p_shows_cooldown_left = False\<rparr>"

definition sample_run :: "step list \<Rightarrow> run" where
  "sample_run steps =
    \<lparr>rn_plan = sample_plan steps, rn_bid = 42, rn_channel = ''42'', rn_premium = False,
     rn_env = Some \<lparr>le_msg_id = ''m1'', le_event_id = ''e1'', le_event = []\<rparr>, rn_ctx_role = Some 0,
     rn_detached_role = 0, rn_viewer = \<lparr>vw_id = 7, vw_login = ''ann'', vw_name = ''Ann''\<rparr>, rn_args = [],
     rn_arg_map = (\<lambda>k. None), rn_event = (\<lambda>k. None), rn_source = ''chat'', rn_id = ''r1'', rn_identity = [],
     rn_actions = [], rn_outcome = [], rn_reason = [], rn_locals = (\<lambda>k. None), rn_cooldown_end = 0, rn_iter = [],
     rn_replay = [], rn_slot = None, rn_owns_slot = False, rn_durable = False\<rparr>"

definition sample_start :: "step list \<Rightarrow> string list actionExec" where
  "sample_start steps = newActionExec (sample_run steps) [] 0 0"

text \<open>Two messages leave as one batch; a delay between them leaves the second to a continuation.\<close>

lemma sample_batch:
  "map (\<lambda>e. case e of Single o1 \<Rightarrow> (''single'', [o_text o1]) | Batch bid ident items \<Rightarrow> (ident, map o_text items))
     (x_emitted (runAutomation sample_services 0 (sample_start [say ''hi'' 0, say ''there'' 1])))
   = [(''m1>a1:0:1'', [''hi'', ''there''])]"
  by code_simp

end
