(* ===== verification/RunSound.thy ===== *)
theory RunSound
  imports RunKeep RunSample
begin

text \<open>
  What a run may say and how long it may wait: every output of a run tree, single or in a batch, in its first
  segment or after a pause, has passed the floor, and the delays of a run never add up to more than a minute.
\<close>

definition outs :: "'w actionExec \<Rightarrow> out_msg list \<times> emission list \<times> continuation list \<times> int" where
  "outs x = (x_pending x, x_emitted x, x_started x, bu_delay_ms (x_budget x))"

definition sound_exec :: "'w services \<Rightarrow> 'w actionExec \<Rightarrow> bool" where
  "sound_exec S x \<longleftrightarrow> clean_exec S x \<and> bu_delay_ms (x_budget x) \<le> MaxDelayMS
    \<and> (\<forall>c \<in> set (x_started x). bu_delay_ms (ct_budget c) \<le> MaxDelayMS)"

lemma sound_outs: "outs y = outs x \<Longrightarrow> sound_exec S y = sound_exec S x"
  by (simp add: outs_def sound_exec_def clean_exec_def)

lemma outs_call [simp]: "outs (snd (call f x)) = outs x"
  by (simp add: outs_def call_def split_beta)

lemma outs_fields [simp]:
  "outs (x\<lparr>x_signal := sig\<rparr>) = outs x" "outs (x\<lparr>x_iter := i\<rparr>) = outs x" "outs (x\<lparr>x_visits := n\<rparr>) = outs x"
  "outs (x\<lparr>x_executed := n\<rparr>) = outs x" "outs (x\<lparr>x_run := r\<rparr>) = outs x" "outs (x\<lparr>x_world := w\<rparr>) = outs x"
  "outs (x\<lparr>x_rest := fs\<rparr>) = outs x" "outs (x\<lparr>x_waiting := ws\<rparr>) = outs x" "outs (x\<lparr>x_delay_ms := ms\<rparr>) = outs x"
  by (simp_all add: outs_def)

lemma outs_operations [simp]:
  "outs (visits_add S x) = outs x" "outs (executed_add S x) = outs x" "outs (executed_load S x) = outs x"
  "outs (add_record s st dt x) = outs x" "outs (recordLimited s dt x) = outs x" "outs (set_record k sd x) = outs x"
  "outs (settle k err x) = outs x" "outs (panic x) = outs x" "outs (setLocal n v x) = outs x"
  "outs (deleteLocal n x) = outs x" "outs (restoreIndex c x) = outs x" "outs (add_rest fr x) = outs x"
  "outs (pauseLoop c i x) = outs x" "outs (yieldIfSlow S x) = outs x" "outs (set_outcome oc why x) = outs x"
  "outs (start_actions x) = outs x"
  by (simp_all add: visits_add_def executed_add_def executed_load_def add_record_def recordLimited_def set_record_def
      settle_def panic_def setLocal_def deleteLocal_def restoreIndex_def add_rest_def pauseLoop_def yieldIfSlow_def
      set_outcome_def start_actions_def Let_def split_beta)

lemma outs_iteration [simp]: "outs (iteration c x) = outs x"
  by (simp add: iteration_def Let_def)

lemma outs_noteHandled [simp]: "outs (noteHandled n x) = outs x"
  by (simp add: noteHandled_def outs_def split: prod.split)

lemma outs_finishRun [simp]: "outs (finishRun S x) = outs x"
  by (simp add: finishRun_def Let_def split_beta)

lemma outs_admitToQueue [simp]: "outs (snd (admitToQueue S x)) = outs x"
  by (simp add: admitToQueue_def startQueueWait_def Let_def split_beta split: option.split)

lemma sound_keeps: "\<lbrakk>keeps S x y; sound_exec S x\<rbrakk> \<Longrightarrow> sound_exec S y"
  by (simp add: keeps_def same_flow_def sound_exec_def)

lemma sound_dispatch:
  assumes "dispatch S d s x = (r, y)" "sound_exec S x"
  shows "sound_exec S y"
proof -
  have "sound_exec S z \<Longrightarrow> sound_exec S (snd (handle S d s z))" for z
    using keeps_handle sound_keeps by blast
  then show ?thesis using assms sound_outs [OF outs_operations(2), of S]
    by (auto simp: dispatch_def Let_def split: if_splits) (metis snd_conv)+
qed

lemma sound_startContinuation:
  assumes "sound_exec S x"
  shows "sound_exec S (startContinuation S d r x)"
  using assms by (auto simp: startContinuation_def Let_def sound_exec_def clean_exec_def call_def split: prod.split)

lemma sound_settlePath: "sound_exec S x \<Longrightarrow> sound_exec S (settlePath S d s i x)"
  by (auto simp: settlePath_def schedulePath_def Let_def sound_outs [OF outs_fields(1)] sound_outs [OF outs_fields(7)]
      intro: sound_startContinuation)

lemma sound_conclude: "sound_exec S x \<Longrightarrow> sound_exec S (conclude S d x)"
proof -
  assume "sound_exec S x"
  then have "sound_exec S (flush x)" by (rule sound_keeps [OF keeps_flush [OF keeps_same]])
  then show ?thesis
    by (auto simp: conclude_def Let_def sound_outs [OF outs_fields(5)] intro: sound_startContinuation)
qed

lemma sound_childExec: "sound_exec S (childExec S s p x)"
  by (simp add: childExec_def newActionExec_def sound_exec_def clean_exec_def split: prod.split)

lemma sound_joinChild: "\<lbrakk>sound_exec S u; sound_exec S x\<rbrakk> \<Longrightarrow> sound_exec S (joinChild u x)"
  by (auto simp: joinChild_def sound_exec_def clean_exec_def)

lemma sound_set_path: "sound_exec S (set_path spent locals x) \<Longrightarrow> sound_exec S y \<Longrightarrow> sound_exec S (set_path spent locals y)"
  by (simp add: set_path_def sound_exec_def clean_exec_def)

lemmas sound_same [simp] = outs_call [THEN sound_outs] outs_fields [THEN sound_outs] outs_operations [THEN sound_outs]
  outs_iteration [THEN sound_outs] outs_noteHandled [THEN sound_outs] outs_finishRun [THEN sound_outs]
  outs_admitToQueue [THEN sound_outs]

lemma sound_entered [simp]: "sound_exec S (entered S s x) = sound_exec S x"
  by (simp add: entered_def)

lemma sound_conditionsPass: "conditionsPass S x = (a, y) \<Longrightarrow> sound_exec S x \<Longrightarrow> sound_exec S y"
  using sound_keeps [OF keeps_conditionsPass [OF keeps_same]] by (metis snd_conv)

lemma sound_admitted: "admitToQueue S x = (a, y) \<Longrightarrow> sound_exec S y = sound_exec S x"
  by (metis outs_admitToQueue snd_conv sound_outs)

interpretation sound_run: executor S "\<lambda>x y. sound_exec S x \<longrightarrow> sound_exec S y" "\<lambda>x y. sound_exec S x \<longrightarrow> sound_exec S y"
  for S :: "'w services"
  by unfold_locales
    (auto simp: endRunSegment_def sound_admitted intro: sound_conclude sound_childExec sound_joinChild
      sound_set_path [OF _ sound_settlePath] dest: sound_conditionsPass sound_dispatch)

section \<open>Segments\<close>

lemma sound_new: "sound_exec S (newActionExec r w m n)"
  by (simp add: newActionExec_def sound_exec_def clean_exec_def)

lemma sound_resumeFrame: "sound_exec S x \<Longrightarrow> sound_exec S (resumeFrame S d fr x)"
  using sound_run.executes(1) [of S "x\<lparr>x_iter := rs_iter fr\<rparr>"] sound_run.executes(3) [of S "x\<lparr>x_iter := rs_iter fr\<rparr>"]
  by (auto simp: resumeFrame_def Let_def split: option.split)

lemma sound_runLists: "sound_exec S x \<Longrightarrow> sound_exec S (runLists S d frs x)"
  by (induction frs arbitrary: x) (simp_all add: Let_def sound_resumeFrame split: signal.split)

lemma sound_end_segment: "sound_exec S x \<Longrightarrow> sound_exec S (end_segment S d x)"
  by (simp add: end_segment_def sound_conclude)

lemma sound_premium_refused: "sound_exec S (premium_refused S x) = sound_exec S x"
  by (simp add: premium_refused_def)

lemma sound_awaitResume: "sound_exec S (snd (awaitResume S x)) = sound_exec S x"
  by (simp add: awaitResume_def split_beta split: resume_wake.split)

lemma sound_continueRun:
  assumes "bu_delay_ms (ct_budget c) \<le> MaxDelayMS"
  shows "sound_exec S (continueRun S c w m n)"
proof -
  have "sound_exec S ((newActionExec (ct_run c) w m n)\<lparr>x_budget := ct_budget c\<rparr>)"
    using assms by (simp add: newActionExec_def sound_exec_def clean_exec_def)
  then show ?thesis
    by (simp add: continueRun_def Let_def split_beta sound_awaitResume sound_premium_refused sound_end_segment
        sound_runLists)
qed

lemma sound_runQueuedTurn: "sound_exec S x \<Longrightarrow> sound_exec S (runQueuedTurn S d x)"
  using sound_run.executes(1) [of S]
  by (simp add: runQueuedTurn_def split_beta sound_premium_refused sound_end_segment)

lemma sound_awaitQueueTurn: "sound_exec S (awaitQueueTurn S d waiter w m n)"
  by (auto simp: awaitQueueTurn_def Let_def split_beta sound_new intro!: sound_runQueuedTurn)

text \<open>
  The segments of the run tree started by a run: its first one, that of every path paused by a segment, and
  that of every run a segment has left waiting in a queue. The depth of a waiting run is not recorded here.
\<close>

inductive segment :: "'w services \<Rightarrow> 'w actionExec \<Rightarrow> bool" for S where
  first: "segment S (runAutomation S d (newActionExec r w m n))"
| resumed: "\<lbrakk>segment S x; c \<in> set (x_started x)\<rbrakk> \<Longrightarrow> segment S (continueRun S c w m n)"
| queued: "\<lbrakk>segment S x; waiter \<in> set (x_waiting x)\<rbrakk> \<Longrightarrow> segment S (awaitQueueTurn S d waiter w m n)"

lemma sound_segment: "segment S x \<Longrightarrow> sound_exec S x"
proof (induction rule: segment.induct)
  case (first d r w m n)
  show ?case by (rule sound_run.executes(5) [THEN mp, OF sound_new])
next
  case (resumed x c w m n)
  then show ?case by (intro sound_continueRun) (simp add: sound_exec_def)
next
  case (queued x waiter d w m n)
  show ?case by (rule sound_awaitQueueTurn)
qed

section \<open>Properties\<close>

text \<open>What a published message must satisfy: emitting checks the single ones, the executor the items of a batch.\<close>

definition clean_message :: "'w services \<Rightarrow> emission \<Rightarrow> bool" where
  "clean_message S e =
    (case e of Single o1 \<Rightarrow> clean_output (sv_unicode S) (sv_lexicon S) o1
             | Batch bid ident items \<Rightarrow> \<forall>o1 \<in> set items. prepared S o1)"

definition published_clean :: "'w services \<Rightarrow> emit_state \<Rightarrow> bool" where
  "published_clean S st \<longleftrightarrow> (\<forall>(ident, e) \<in> set (es_published st). clean_message S e)"

lemma publish_step_clean:
  "\<lbrakk>published_clean S st; clean_message S e\<rbrakk> \<Longrightarrow> published_clean S (publish_step pub st e)"
  by (auto simp: published_clean_def publish_step_def Let_def split: option.split)

lemma capped_message_clean:
  "\<lbrakk>\<not> isEmptyAction (Translate o1); \<not> floorSuppressed (sv_unicode S) (sv_lexicon S) (capEmitText (Translate o1))\<rbrakk>
    \<Longrightarrow> clean_message S (Single (capEmitText (Translate o1)))"
  using capEmitText_capped [of "Translate o1"]
  by (auto simp: clean_message_def clean_output_def isEmptyAction_def floorSuppressed_def split: if_splits)

lemma emit_one_clean:
  assumes "published_clean S st" "clean_emission S e"
  shows "published_clean S (emit_one (sv_unicode S) (sv_lexicon S) pub st e)"
proof (cases e)
  case (Single o1)
  then show ?thesis using assms(1) by (simp add: emit_one_def Let_def publish_step_clean capped_message_clean)
next
  case (Batch bid ident items)
  then have "clean_message S e" using assms(2) by (simp add: clean_message_def clean_emission_def)
  then show ?thesis using assms(1) Batch by (simp add: emit_one_def publish_step_clean)
qed

lemma emit_all_clean:
  assumes "\<forall>e \<in> set es. clean_emission S e"
  shows "published_clean S (emit_all (sv_unicode S) (sv_lexicon S) pub base es)"
proof -
  have "published_clean S st \<Longrightarrow>
    published_clean S (fold (\<lambda>e st. emit_one (sv_unicode S) (sv_lexicon S) pub st e) es st)" for st
    using assms by (induction es arbitrary: st) (simp_all add: emit_one_clean)
  then show ?thesis unfolding emit_all_def by this (simp add: published_clean_def)
qed





end
