(* ===== verification/RunEffects.thy ===== *)
theory RunEffects
  imports RunKeep RunSample
begin

text \<open>
  The budget of a run tree: however its steps nest, loop or run other automations, no run records more
  than a thousand effects, and no step rewrites the record of an earlier one.
\<close>

definition counts :: "'w services \<Rightarrow> action_record \<Rightarrow> bool" where
  "counts S r \<longleftrightarrow> ar_status r = ''ok'' \<and> \<not> is_branching (sv_env S) (ar_type r)"

definition effects :: "'w services \<Rightarrow> action_record list \<Rightarrow> nat" where
  "effects S rs = length (filter (counts S) rs)"

abbreviation records :: "'w actionExec \<Rightarrow> action_record list" where
  "records x \<equiv> rn_actions (x_run x)"

definition spent_effects :: "'w actionExec \<Rightarrow> nat" where
  "spent_effects x = min 1000 (x_executed x)"

definition paid :: "'w services \<Rightarrow> 'w actionExec \<Rightarrow> 'w actionExec \<Rightarrow> bool" where
  "paid S x y \<longleftrightarrow> x_executed x \<le> x_executed y \<and> (\<exists>new. records y = records x @ new
    \<and> (x_signal y \<noteq> signalPanic \<longrightarrow> effects S new + spent_effects x \<le> spent_effects y))"

definition paid_run :: "'w services \<Rightarrow> 'w actionExec \<Rightarrow> 'w actionExec \<Rightarrow> bool" where
  "paid_run S x y \<longleftrightarrow> x_executed x \<le> x_executed y \<and>
    (records x = [] \<and> x_signal y \<noteq> signalPanic \<longrightarrow> effects S (records y) + spent_effects x \<le> spent_effects y)"

lemma effects_append [simp]: "effects S (rs @ rs') = effects S rs + effects S rs'"
  by (simp add: effects_def)

lemma effects_Nil [simp]: "effects S [] = 0"
  by (simp add: effects_def)

lemma effects_single [simp]: "effects S [r] = (if counts S r then 1 else 0)"
  by (simp add: effects_def)

lemma spent_mono: "x_executed x \<le> x_executed y \<Longrightarrow> spent_effects x \<le> spent_effects y"
  by (simp add: spent_effects_def)

text \<open>An operation that leaves the records and the counter alone.\<close>

lemma paid_same: "\<lbrakk>records y = records x; x_executed y = x_executed x\<rbrakk> \<Longrightarrow> paid S x y"
  by (simp add: paid_def spent_effects_def)

lemma paid_post:
  assumes "paid S x y" "records z = records y" "x_executed z = x_executed y" "x_signal z = x_signal y \<or> x_signal y \<noteq> signalPanic"
  shows "paid S x z"
  using assms by (auto simp: paid_def spent_effects_def)

lemma paid_pre:
  assumes "paid S x y" "records x = records z" "x_executed z \<le> x_executed x"
  shows "paid S z y"
  using assms spent_mono [OF assms(3)] by (fastforce simp: paid_def)

lemma paid_trans:
  assumes "paid S x y" "x_signal y \<noteq> signalPanic" "paid S y z"
  shows "paid S x z"
  using assms by (fastforce simp: paid_def)

section \<open>What a step is charged\<close>

lemma visits_fields [simp]: "records (visits_add S x) = records x" "x_executed (visits_add S x) = x_executed x"
  by (simp_all add: visits_add_def call_def split_beta)

lemma executed_fields [simp]:
  "records (executed_add S x) = records x" "records (executed_load S x) = records x"
  "x_executed x < x_executed (executed_add S x)" "x_executed x \<le> x_executed (executed_load S x)"
  by (simp_all add: executed_add_def executed_load_def call_def split_beta)

lemma executed_le [simp]: "x_executed x \<le> x_executed (executed_add S x)"
  using executed_fields(3) less_imp_le by blast

lemma dispatch_charged:
  assumes "dispatch S d s x = (r, y)"
  shows "same_records (records x) (records y) \<and> x_executed x \<le> x_executed y
    \<and> (is_branching (sv_env S) (s_type s) \<or> x_executed x < x_executed y \<and> x_executed y \<le> 1000
      \<or> (\<exists>e. r = Answer (Some e) \<and> fst (classify (Some e)) \<noteq> ''ok''))"
proof -
  have kept: "same_records (records z) (records (snd (handle S d s z)))" "x_executed (snd (handle S d s z)) = x_executed z" for z
    using keeps_handle [of S z d s] by (simp_all add: keeps_def same_flow_def)
  have refl: "same_records rs rs" for rs by (simp add: same_records_def)
  show ?thesis
    using assms kept [of x] kept [of "executed_add S x"] executed_fields(3) [of x S] refl
    by (auto simp: dispatch_def Let_def skipped_def failure_def limited_def classify_def split: if_splits)
qed

lemma records_entered:
  "records (entered S s x) = records x @
    [\<lparr>ar_index = s_index s, ar_type = s_type s, ar_status = ''ok'', ar_detail = [], ar_slot = []\<rparr>]"
  by (simp add: entered_def add_record_def)

lemma executed_entered [simp]: "x_executed (entered S s x) = x_executed x"
  by (simp add: entered_def add_record_def)

lemma same_records_snoc:
  assumes "same_records (rs @ [r]) rs'"
  obtains r' where "rs' = rs @ [r']" "ar_type r' = ar_type r" "ar_status r' = ar_status r"
proof -
  have "rs' \<noteq> []" using assms by (auto simp: same_records_def)
  then obtain qs q where rs': "rs' = qs @ [q]" by (cases rs' rule: rev_cases) auto
  then show ?thesis using that assms by (auto simp: same_records_def)
qed

lemma paid_step:
  assumes run: "dispatch S d s (entered S s x) = (r, y)" and "paid S y z"
    and answer: "\<not> is_child r \<Longrightarrow> err = route_answer r"
  shows "paid S x (settle (own_slot x) err z)"
proof -
  note charged = dispatch_charged [OF run]
  obtain rec where rec: "records y = records x @ [rec]" "ar_type rec = s_type s"
    using charged records_entered same_records_snoc by (metis action_record.select_convs(2))
  obtain new where new: "records z = records x @ rec # new" "x_executed y \<le> x_executed z"
    "x_signal z \<noteq> signalPanic \<Longrightarrow> effects S new + spent_effects y \<le> spent_effects z"
    using assms(2) rec by (auto simp: paid_def)
  have le: "x_executed x \<le> x_executed z" using charged new(2) by simp
  show ?thesis
  proof (cases "x_signal z = signalPanic")
    case True
    then show ?thesis using new le by (simp add: settle_def paid_def)
  next
    case False
    let ?rec = "rec\<lparr>ar_status := fst (classify err), ar_detail := snd (classify err)\<rparr>"
    have "(if counts S ?rec then 1 else 0) + spent_effects x \<le> spent_effects y"
    proof (cases "counts S ?rec")
      case True
      then have "x_executed x < x_executed y" "x_executed y \<le> 1000"
        using charged rec(2) answer by (auto simp: counts_def route_answer_def is_child_def)
      then show ?thesis by (simp add: spent_effects_def)
    qed (use charged spent_mono in auto)
    moreover have "records (settle (own_slot x) err z) = records x @ ?rec # new"
      using new(1) False by (simp add: settle_def set_record_def own_slot_def Let_def list_update_append nth_append)
    moreover have "x_executed (settle (own_slot x) err z) = x_executed z" by (simp add: settle_def set_record_def Let_def)
    moreover have "effects S (?rec # new) = (if counts S ?rec then 1 else 0) + effects S new" by (simp add: effects_def)
    ultimately show ?thesis using new(3) [OF False] le unfolding paid_def
      by (auto simp: spent_effects_def [of "settle (own_slot x) err z"] spent_effects_def [of z])
  qed
qed

section \<open>Every execution is paid\<close>

definition tally :: "'w actionExec \<Rightarrow> action_record list \<times> nat" where
  "tally x = (records x, x_executed x)"

lemma tally_call [simp]: "tally (snd (call f x)) = tally x"
  by (simp add: tally_def call_def split_beta)

lemma tally_fields [simp]:
  "tally (x\<lparr>x_signal := sig\<rparr>) = tally x" "tally (x\<lparr>x_iter := i\<rparr>) = tally x" "tally (x\<lparr>x_rest := fs\<rparr>) = tally x"
  "tally (x\<lparr>x_world := w\<rparr>) = tally x" "tally (x\<lparr>x_started := cs\<rparr>) = tally x" "tally (x\<lparr>x_waiting := ws\<rparr>) = tally x"
  "tally (x\<lparr>x_emitted := es\<rparr>) = tally x" "tally (x\<lparr>x_pending := os\<rparr>) = tally x" "tally (x\<lparr>x_flushes := k\<rparr>) = tally x"
  "tally (x\<lparr>x_budget := b\<rparr>) = tally x" "tally (x\<lparr>x_delay_ms := ms\<rparr>) = tally x"
  by (simp_all add: tally_def)

lemma tally_operations [simp]:
  "tally (panic x) = tally x" "tally (yieldIfSlow S x) = tally x" "tally (add_rest fr x) = tally x"
  "tally (pauseLoop c i x) = tally x" "tally (setLocal v t x) = tally x" "tally (restoreIndex c x) = tally x"
  "tally (set_path spent locals x) = tally x" "tally (noteHandled n x) = tally x" "tally (set_outcome oc why x) = tally x"
  "tally (flush x) = tally x"
  by (simp_all add: panic_def yieldIfSlow_def add_rest_def pauseLoop_def setLocal_def restoreIndex_def deleteLocal_def
      set_path_def noteHandled_def set_outcome_def flush_def emitBatch_def Let_def tally_def call_def split_beta
      split: list.split)

lemma tally_iteration [simp]: "tally (iteration c x) = tally x"
  by (simp add: iteration_def Let_def)

lemma tally_startContinuation [simp]: "tally (startContinuation S d r x) = tally x"
  by (simp add: startContinuation_def Let_def tally_def call_def split_beta)

lemma tally_settlePath [simp]: "tally (settlePath S d s i x) = tally x"
  by (simp add: settlePath_def schedulePath_def Let_def)

lemma tally_conclude [simp]: "tally (conclude S d x) = tally x"
  using tally_startContinuation [of S d _ "flush x"] tally_operations(10) [of x]
  by (simp add: conclude_def Let_def tally_def)

lemma tally_admitToQueue [simp]: "tally (snd (admitToQueue S x)) = tally x"
  by (simp add: admitToQueue_def startQueueWait_def set_outcome_def Let_def tally_def call_def split_beta
      split: option.split)

lemma paid_tally: "tally y = tally x \<Longrightarrow> paid S x y"
  by (simp add: paid_same tally_def)

lemma paid_after: "\<lbrakk>paid S x y; tally z = tally y; x_signal z = x_signal y \<or> x_signal y \<noteq> signalPanic\<rbrakk> \<Longrightarrow> paid S x z"
  by (auto simp: tally_def intro: paid_post)

lemma paid_before: "\<lbrakk>paid S x y; tally x = tally z\<rbrakk> \<Longrightarrow> paid S z y"
  by (auto simp: tally_def intro: paid_pre)

lemma paid_limited: "paid S x (recordLimited s detail y)" if "records y = records x" "x_executed y = x_executed x" for detail
  using that by (simp add: recordLimited_def add_record_def paid_def counts_def spent_effects_def)

lemma tally_conditionsPass:
  assumes "conditionsPass S x = (a, y)"
  shows "same_records (records x) (records y) \<and> x_executed y = x_executed x"
  using keeps_conditionsPass [OF keeps_same, of S x] assms by (simp add: keeps_def same_flow_def)

lemma trimmed_long:
  assumes "1200 < length rs"
  shows "trimmedRecords rs = take 1199 rs @ [last rs]"
proof -
  have "take (Suc 1199) (rs[1199 := last rs]) = take 1199 rs @ [last rs]"
    using assms by (subst take_Suc_conv_app_nth) simp_all
  moreover have "rs ! (length rs - 1) = last rs" using assms by (intro last_conv_nth [symmetric]) auto
  ultimately show ?thesis using assms by (simp add: trimmedRecords_def)
qed

lemma effects_trimmed: "effects S (trimmedRecords rs) \<le> effects S rs"
proof (cases "length rs \<le> 1200")
  case False
  then have tail: "drop 1199 rs \<noteq> []" by simp
  then have "drop 1199 rs = butlast (drop 1199 rs) @ [last rs]"
    by (metis append_butlast_last_id last_drop drop_eq_Nil not_le)
  then have "effects S rs = effects S (take 1199 rs @ butlast (drop 1199 rs) @ [last rs])"
    by (metis append_take_drop_id)
  then show ?thesis using False by (simp only: trimmed_long not_le effects_append)
qed (simp add: trimmedRecords_def)

lemma paid_run_finished:
  assumes "x_executed x \<le> x_executed y"
    and "\<lbrakk>records x = []; x_signal y \<noteq> signalPanic\<rbrakk> \<Longrightarrow> effects S (records y) + spent_effects x \<le> spent_effects y"
  shows "paid_run S x (endRunSegment S y)"
proof -
  have "x_executed (finishRun S y) = x_executed y" "x_signal (finishRun S y) = x_signal y"
    "effects S (records (finishRun S y)) \<le> effects S (records y)"
    by (auto simp: finishRun_def Let_def call_def effects_trimmed split: prod.split)
  then show ?thesis using assms by (fastforce simp: paid_run_def endRunSegment_def spent_effects_def)
qed

lemma signal_operations [simp]:
  "x_signal (noteHandled n x) = x_signal x" "x_signal (restoreIndex c x) = x_signal x"
  "x_signal (pauseLoop c i x) = x_signal x" "x_signal (add_rest fr x) = x_signal x"
  by (simp_all add: noteHandled_def restoreIndex_def setLocal_def deleteLocal_def pauseLoop_def add_rest_def
      split: prod.split)

lemma signal_slow: "x_signal (yieldIfSlow S x) = x_signal x \<or> x_signal x \<noteq> signalPanic"
  by (auto simp: yieldIfSlow_def)

lemma paid_slow: "paid S x y \<Longrightarrow> paid S x (yieldIfSlow S y)"
  by (erule paid_after [OF _ tally_operations(2) signal_slow])

lemma paid_stop: "paid S x ((recordLimited s detail (visits_add S x))\<lparr>x_signal := signalStop\<rparr>)"
  by (simp add: paid_def recordLimited_def add_record_def counts_def spent_effects_def)

lemma paid_step_panic:
  assumes "dispatch S d s (entered S s x) = (r, y)"
  shows "paid S x (panic y)"
proof -
  obtain rec where "records y = records x @ [rec]"
    using dispatch_charged [OF assms] records_entered same_records_snoc by metis
  then show ?thesis using dispatch_charged [OF assms] by (simp add: paid_def panic_def)
qed

lemma paid_handled: "paid S x y \<Longrightarrow> paid S x (noteHandled n y)"
  by (erule paid_after) simp_all

lemma paid_child:
  assumes "paid_run S (childExec S s p x) u"
  shows "paid S x (joinChild u x)"
proof -
  have "x_executed x \<le> x_executed u"
    using assms by (simp add: paid_run_def childExec_def newActionExec_def call_def split_beta)
  then show ?thesis using spent_mono [of x "joinChild u x"] by (simp add: paid_def joinChild_def)
qed

lemma paid_load: "paid S (executed_load S x) y \<Longrightarrow> paid S x y"
  by (erule paid_pre) simp_all

lemma paid_unstarted:
  assumes "conditionsPass S x = (a, y)" "tally z = tally y"
  shows "paid_run S x (endRunSegment S z)"
  using tally_conditionsPass [OF assms(1)] assms(2)
  by (intro paid_run_finished) (auto simp: tally_def same_records_def spent_effects_def)

lemma paid_body: "paid S (iteration c x) y \<Longrightarrow> paid S x (y\<lparr>x_iter := i\<rparr>)"
  by (rule paid_after [OF paid_before [of S "iteration c x" y x]]) simp_all

lemma paid_rest: "paid S x y \<Longrightarrow> paid S x (add_rest fr y)"
  by (erule paid_after) simp_all

lemma paid_refused:
  "conditionsPass S x = (a, y) \<Longrightarrow> paid_run S x (endRunSegment S (set_outcome oc why y))"
  by (erule paid_unstarted) simp

lemma paid_loop_end: "paid S x y \<Longrightarrow> paid S x (restoreIndex c y)"
  by (erule paid_after) simp_all

lemma paid_pause: "paid S x y \<Longrightarrow> paid S x (pauseLoop c i y)"
  by (erule paid_after) simp_all

lemma paid_path:
  "\<lbrakk>paid S (set_path spent locals x) y; x_signal y \<noteq> signalPanic\<rbrakk>
    \<Longrightarrow> paid S (set_path spent locals x) (set_path spent locals (settlePath S d s i y))"
  by (erule paid_after) simp_all

lemma paid_done:
  assumes "conditionsPass S x = (a, y)" "admitToQueue S y = (b, z)" "paid S (start_actions z) u"
    and v: "v = (if x_signal u = signalPanic then u else conclude S d u)"
  shows "paid_run S x (endRunSegment S v)"
proof -
  have z: "records z = records y" "x_executed z = x_executed y"
    using tally_admitToQueue [of S y] assms(2) by (simp_all add: tally_def)
  have "records x = [] \<Longrightarrow> records (start_actions z) = []" "x_executed (start_actions z) = x_executed x"
    using tally_conditionsPass [OF assms(1)] z by (simp_all add: start_actions_def same_records_def)
  moreover have "tally v = tally u" "x_signal v \<noteq> signalPanic \<Longrightarrow> x_signal u \<noteq> signalPanic" using v by auto
  ultimately show ?thesis using assms(3)
    by (intro paid_run_finished) (auto simp: paid_def tally_def spent_effects_def)
qed

lemma paid_queued:
  assumes "conditionsPass S x = (a, y)" "admitToQueue S y = (b, z)"
  shows "paid_run S x (endRunSegment S z)"
  using paid_unstarted [OF assms(1)] tally_admitToQueue [of S y] assms(2) by simp

interpretation effect_budget: executor S "paid S" "paid_run S" for S :: "'w services"
  by unfold_locales
    (erule (2) paid_trans | erule (3) paid_done | (auto intro: paid_tally paid_step paid_rest paid_refused paid_slow paid_stop paid_step_panic paid_handled paid_child paid_load
      paid_body paid_loop_end paid_pause paid_path paid_queued paid_limited) [1])+

section \<open>Properties\<close>



text \<open>The second of two effects is refused when only one is left.\<close>

lemma effects_refused_at_limit:
  "map ar_status (rn_actions (x_run (runAutomation sample_services 0
    (newActionExec (sample_run [count_up 0, count_up 1]) [] 999 0)))) = [''ok'', ''limited'']"
  by code_simp

end
