(* ===== verification/RunScope.thy ===== *)
theory RunScope
  imports RunKeep RunSample
begin

text \<open>
  Scoping of the flow steps: every list of steps returns to the iteration it was run under, a loop gives
  the index variable back, and the paths of a parallel step share nothing with what follows them.
\<close>

declare exec_step.simps [simp del] iterate_loop.simps [simp del] runAutomation.simps [simp del]

definition same_iter :: "'w actionExec \<Rightarrow> 'w actionExec \<Rightarrow> bool" where
  "same_iter x y \<longleftrightarrow> x_signal y = signalPanic \<or> x_iter y = x_iter x"

lemma iter_call [simp]: "x_iter (snd (call f x)) = x_iter x"
  by (simp add: call_def split_beta)

lemma iter_operations [simp]:
  "x_iter (visits_add S x) = x_iter x" "x_iter (executed_add S x) = x_iter x" "x_iter (executed_load S x) = x_iter x"
  "x_iter (yieldIfSlow S x) = x_iter x" "x_iter (add_rest fr x) = x_iter x" "x_iter (pauseLoop c i x) = x_iter x"
  "x_iter (recordLimited s dt x) = x_iter x" "x_iter (entered S s x) = x_iter x" "x_iter (settle k err x) = x_iter x"
  "x_iter (noteHandled n x) = x_iter x" "x_iter (restoreIndex c x) = x_iter x" "x_iter (set_path spent locals x) = x_iter x"
  "x_iter (panic x) = x_iter x" "x_iter (joinChild u x) = x_iter x"
  by (simp_all add: visits_add_def executed_add_def executed_load_def yieldIfSlow_def add_rest_def pauseLoop_def
      recordLimited_def add_record_def entered_def settle_def set_record_def noteHandled_def restoreIndex_def setLocal_def
      deleteLocal_def set_path_def panic_def joinChild_def Let_def split_beta)

lemma iter_settlePath [simp]: "x_iter (settlePath S d s i x) = x_iter x"
  by (simp add: settlePath_def schedulePath_def startContinuation_def Let_def call_def split_beta)

lemma iter_dispatch: "dispatch S d s x = (r, y) \<Longrightarrow> x_iter y = x_iter x"
  using keeps_handle [of S x d s] keeps_handle [of S "executed_add S x" d s]
  by (auto simp: dispatch_def Let_def keeps_def same_flow_def split: if_splits)

lemma signal_yield: "x_signal x = signalPanic \<Longrightarrow> x_signal (yieldIfSlow S x) = signalPanic"
  by (simp add: yieldIfSlow_def)

lemma signal_settle [simp]: "x_signal (settle k err x) = x_signal x"
  by (simp add: settle_def set_record_def Let_def)

interpretation iteration_scope: executor S same_iter "\<lambda>x y. True" for S :: "'w services"
proof unfold_locales
  fix x y z :: "'w actionExec" and s r err d
  assume "int (x_visits (visits_add S x)) \<le> MaxStepVisitsPerRun" "dispatch S d s (entered S s x) = (r, y)"
    "same_iter y z"
  then show "same_iter x (settle (own_slot x) err z)"
    using iter_dispatch [of S d s "entered S s x" r y] by (auto simp: same_iter_def)
qed (auto simp: same_iter_def signal_yield add_rest_def noteHandled_def pauseLoop_def panic_def joinChild_def
    executed_load_def restoreIndex_def setLocal_def deleteLocal_def split_beta)

section \<open>Parallel paths\<close>

lemma exec_paths_ends:
  assumes "exec_paths S d s i bs spent locals x = y" "x_signal y \<noteq> signalPanic"
  shows "rn_locals (x_run y) = locals \<and> bu_delay_ms (x_budget y) = spent
    \<and> (bs \<noteq> [] \<longrightarrow> x_signal y = signalNone \<and> x_rest y = [])"
  using assms
proof (induction bs arbitrary: i x)
  case (Cons b bs)
  define u where "u = exec_list S d b (set_path spent locals x)"
  have "x_signal u \<noteq> signalPanic" and ran: "exec_paths S d s (Suc i) bs spent locals (settlePath S d s i u) = y"
    using Cons.prems by (auto simp: u_def Let_def split: if_splits)
  show ?case using Cons.IH [OF ran Cons.prems(2)] ran
    by (cases bs) (auto simp: set_path_def settlePath_def Let_def)
qed (auto simp: set_path_def)

lemma handled_not_paths [simp]: "handled_route h \<noteq> (Paths, z)"
  by (simp add: handled_route_def split: prod.split)

lemma settleFetch_not_paths [simp]: "settleFetch S v r x \<noteq> (Paths, z)"
  by (simp add: settleFetch_def)

lemma flow_not_paths [simp]:
  "act_stop x \<noteq> (Paths, z)" "act_delay p1 x \<noteq> (Paths, z)" "act_random_pick S s p2 x \<noteq> (Paths, z)"
  "act_loop S s p3 x \<noteq> (Paths, z)" "act_if S s x \<noteq> (Paths, z)" "act_http_post S s p4 x \<noteq> (Paths, z)"
  "act_http_get S p5 x \<noteq> (Paths, z)" "runOther S d p6 x \<noteq> (Paths, z)"
  by (simp_all add: act_stop_def act_delay_def act_random_pick_def act_loop_def act_if_def act_http_post_def
      act_http_get_def runOther_def Let_def split: prod.split option.split sum.split)

lemma handler_Paths:
  assumes "handler_of S d s t p = Some h" "h x = (Paths, z)"
  shows "z = x"
  using assms by (cases p) (auto split: if_splits)

lemma handle_Paths: "handle S d s x = (Paths, z) \<Longrightarrow> z = x"
  by (auto simp: handle_def bind_eq_Some_conv split: option.splits intro: handler_Paths)

lemma dispatch_Paths:
  assumes "dispatch S d s x = (Paths, z)"
  shows "rn_locals (x_run z) = rn_locals (x_run x) \<and> bu_delay_ms (x_budget z) = bu_delay_ms (x_budget x)
    \<and> x_iter z = x_iter x"
proof -
  have "z = x \<or> z = executed_add S x"
    using assms by (auto simp: dispatch_def Let_def split: if_splits dest: handle_Paths)
  then show ?thesis by (auto simp: executed_add_def call_def split_beta)
qed

lemma entered_fields [simp]:
  "rn_locals (x_run (entered S s x)) = rn_locals (x_run x)"
  "bu_delay_ms (x_budget (entered S s x)) = bu_delay_ms (x_budget x)"
  by (simp_all add: entered_def add_record_def visits_add_def call_def split_beta)

lemma settle_fields [simp]:
  "rn_locals (x_run (settle k err x)) = rn_locals (x_run x)" "x_budget (settle k err x) = x_budget x"
  "x_rest (settle k err x) = x_rest x"
  by (simp_all add: settle_def set_record_def Let_def)

text \<open>C14: what the paths of a parallel step do to the variables, to the delay the run has spent, to the signal
  and to the frames left for later is invisible to the steps after it: unless a step panics, these go on
  with the variables, the delay budget and the iteration the step was entered with, at once and with
  nothing of a paused path on their own stack.
\<close>

theorem parallel_isolated:
  assumes "dispatch S d s (entered S s x) = (Paths, z)" "int (x_visits (visits_add S x)) \<le> MaxStepVisitsPerRun"
    and "s_branches s \<noteq> []" "x_signal (exec_step S d s x) \<noteq> signalPanic"
  shows "rn_locals (x_run (exec_step S d s x)) = rn_locals (x_run x)
    \<and> bu_delay_ms (x_budget (exec_step S d s x)) = bu_delay_ms (x_budget x)
    \<and> x_iter (exec_step S d s x) = x_iter x
    \<and> x_signal (exec_step S d s x) = signalNone \<and> x_rest (exec_step S d s x) = []"
proof -
  define spent locals where "spent = bu_delay_ms (x_budget z)" and "locals = rn_locals (x_run z)"
  define y where "y = exec_paths S d s 0 (s_branches s) spent locals z"
  have step: "exec_step S d s x = settle (own_slot x) None y"
    using assms(1,2) by (simp add: exec_step_follow follow_def y_def spent_def locals_def)
  have paths: "same_iter (set_path spent locals z) y" unfolding y_def by (rule iteration_scope.executes(4))
  have "x_signal y \<noteq> signalPanic" using assms(4) by (simp add: step)
  moreover from this have "x_iter y = x_iter (set_path spent locals z)"
    using paths by (simp add: same_iter_def)
  ultimately show ?thesis
    using exec_paths_ends [OF y_def [symmetric]] dispatch_Paths [OF assms(1)] assms(3)
    by (simp_all add: step spent_def locals_def)
qed

text \<open>Two paths that do nothing, and a loop around a counter.\<close>

definition sample_parallel :: step where
  "sample_parallel = sample_step ''parallel'' (P_parallel \<lparr>pl_branches = []\<rparr>) 0
     [[], []]"

definition sample_loop :: step where
  "sample_loop = sample_step ''loop'' (P_loop \<lparr>lp_times = ''2'', lp_actions = []\<rparr>) 0 [[count_up 1]]"

lemma sample_parallel_runs:
  "(case fst (dispatch sample_services 0 sample_parallel (entered sample_services sample_parallel (sample_start []))) of
      Paths \<Rightarrow> True | _ \<Rightarrow> False) \<and> x_visits (visits_add sample_services (sample_start [])) \<le> 4000 \<and> s_branches sample_parallel \<noteq> []
    \<and> x_signal (exec_step sample_services 0 sample_parallel (sample_start [])) \<noteq> signalPanic"
  by code_simp

theorem parallel_isolated_witness:
  "x_signal (exec_step sample_services 0 sample_parallel (sample_start [])) = signalNone
    \<and> rn_locals (x_run (exec_step sample_services 0 sample_parallel (sample_start []))) = rn_locals (x_run (sample_start []))"
  using parallel_isolated [of sample_services 0 sample_parallel "sample_start []"
      "snd (dispatch sample_services 0 sample_parallel (entered sample_services sample_parallel (sample_start [])))"]
    sample_parallel_runs by (auto simp: prod_eq_iff split: route.splits)

section \<open>Loops\<close>

definition restored :: "loopCursor \<Rightarrow> string option" where
  "restored c = (if cu_shadowed c then Some (truncate_runes (cu_prior c) 500) else None)"

lemma restoreIndex_index [simp]: "rn_locals (x_run (restoreIndex c x)) ''index'' = restored c"
  by (simp add: restoreIndex_def setLocal_def deleteLocal_def restored_def)

lemma iterate_loop_index:
  assumes "x_signal (iterate_loop S d c x) = signalNone"
  shows "rn_locals (x_run (iterate_loop S d c x)) ''index'' = restored c"
  using assms
proof (induction "nat (cu_total c + 1 - cu_next c)" arbitrary: c x rule: less_induct)
  case less
  define e where "e = executed_load S x"
  show ?case
  proof (cases "cu_next c > cu_total c \<or> int (x_executed e) \<ge> MaxActions")
    case True
    then show ?thesis by (auto simp: iterate_loop.simps e_def)
  next
    case False
    then obtain ss where ss: "branch_of (cu_step c) 0 = Some ss"
      using less.prems by (cases "branch_of (cu_step c) 0") (auto simp: iterate_loop.simps e_def panic_def)
    define y c' where "y = (exec_list S d ss (iteration c e))\<lparr>x_iter := x_iter e\<rparr>"
      and "c' = c\<lparr>cu_next := cu_next c + 1\<rparr>"
    have turn: "iterate_loop S d c x =
        (if x_signal y \<noteq> signalNone then pauseLoop c' (x_iter e) y else iterate_loop S d c' y)"
      using False ss by (simp add: iterate_loop.simps [of S d c] e_def y_def c'_def Let_def)
    then have "iterate_loop S d c x = iterate_loop S d c' y"
      using less.prems by (auto simp: pauseLoop_def add_rest_def split: if_splits)
    then show ?thesis using less.hyps [of c' y] less.prems False by (simp add: c'_def restored_def)
  qed
qed

lemma expand_locals [simp]: "rn_locals (x_run (snd (expand S t x))) = rn_locals (x_run x)"
  by (simp add: expand_def call_def Let_def split_beta)

text \<open>The cursor of a loop holds the index variable as it was.\<close>

definition holds_prior :: "'w actionExec \<Rightarrow> loopCursor \<Rightarrow> bool" where
  "holds_prior x c \<longleftrightarrow> (if cu_shadowed c then Some (cu_prior c) else None) = rn_locals (x_run x) ''index''"

lemma act_loop_prior: "act_loop S s p x = (Loop c, z) \<Longrightarrow> holds_prior x c"
  using expand_locals [of S "lp_times p" x]
  by (cases "expand S (lp_times p) x") (auto simp: act_loop_def holds_prior_def Let_def split: prod.splits if_splits option.splits)

lemma handled_not_loop [simp]: "handled_route h \<noteq> (Loop c, z)"
  by (simp add: handled_route_def split: prod.split)

lemma settleFetch_not_loop [simp]: "settleFetch S v r x \<noteq> (Loop c, z)"
  by (simp add: settleFetch_def)

lemma flow_not_loop [simp]:
  "act_stop x \<noteq> (Loop c, z)" "act_delay p1 x \<noteq> (Loop c, z)" "act_random_pick S s p2 x \<noteq> (Loop c, z)"
  "act_if S s x \<noteq> (Loop c, z)" "act_http_post S s p4 x \<noteq> (Loop c, z)"
  "act_http_get S p5 x \<noteq> (Loop c, z)" "runOther S d p6 x \<noteq> (Loop c, z)"
  by (simp_all add: act_stop_def act_delay_def act_random_pick_def act_if_def act_http_post_def
      act_http_get_def runOther_def Let_def split: prod.split option.split sum.split)

lemma handler_Loop:
  assumes "handler_of S d s t p = Some h" "h x = (Loop c, z)"
  shows "holds_prior x c"
  using assms by (cases p) (auto split: if_splits intro: act_loop_prior)

lemma handle_Loop: "handle S d s x = (Loop c, z) \<Longrightarrow> holds_prior x c"
  by (auto simp: handle_def bind_eq_Some_conv split: option.splits intro: handler_Loop)

lemma dispatch_prior:
  assumes "dispatch S d s x = (Loop c, z)"
  shows "holds_prior x c"
proof -
  have "holds_prior (executed_add S x) c = holds_prior x c"
    by (simp add: executed_add_def call_def holds_prior_def split_beta)
  then show ?thesis using assms by (auto simp: dispatch_def Let_def split: if_splits dest: handle_Loop)
qed

text \<open>C15: A loop that ends, whatever its body does and however loops nest, leaves the variable \<open>index\<close> as it
  found it, unset when it was unset, and the steps after it in the iteration it was entered in, so the keys of
  their effects are those of no turn of the loop. The variable is at most the 500 runes every variable is cut to.
\<close>

theorem loop_restores_index:
  assumes "dispatch S d s (entered S s x) = (Loop c, z)" "int (x_visits (visits_add S x)) \<le> MaxStepVisitsPerRun"
    and "x_signal (exec_step S d s x) = signalNone"
    and "\<And>v. rn_locals (x_run x) ''index'' = Some v \<Longrightarrow> truncate_runes v 500 = v"
  shows "rn_locals (x_run (exec_step S d s x)) ''index'' = rn_locals (x_run x) ''index''
    \<and> x_iter (exec_step S d s x) = x_iter x"
proof -
  define y where "y = iterate_loop S d c z"
  have step: "exec_step S d s x = settle (own_slot x) None y"
    using assms(1,2) by (simp add: exec_step_follow follow_def y_def)
  have loop: "same_iter z y" unfolding y_def by (rule iteration_scope.executes(3))
  have none: "x_signal y = signalNone" using assms(3) by (simp add: step)
  then have "x_iter y = x_iter z"
    using loop by (simp add: same_iter_def)
  then show ?thesis
    using iterate_loop_index [OF none [unfolded y_def]] dispatch_prior [OF assms(1)] iter_dispatch [OF assms(1)] assms(4)
    by (auto simp: step y_def restored_def holds_prior_def split: if_splits)
qed

lemma sample_loop_runs:
  "(case fst (dispatch sample_services 0 sample_loop (entered sample_services sample_loop (sample_start []))) of
      Loop c \<Rightarrow> cu_total c = 2 | _ \<Rightarrow> False) \<and> x_visits (visits_add sample_services (sample_start [])) \<le> 4000
    \<and> x_signal (exec_step sample_services 0 sample_loop (sample_start [])) = signalNone
    \<and> rn_locals (x_run (sample_start [])) ''index'' = None"
  by code_simp

theorem loop_restores_index_witness:
  "rn_locals (x_run (exec_step sample_services 0 sample_loop (sample_start []))) ''index'' = None
    \<and> x_iter (exec_step sample_services 0 sample_loop (sample_start [])) = x_iter (sample_start [])"
proof -
  obtain c z where "dispatch sample_services 0 sample_loop (entered sample_services sample_loop (sample_start [])) = (Loop c, z)"
    using sample_loop_runs
    by (cases "dispatch sample_services 0 sample_loop (entered sample_services sample_loop (sample_start []))")
      (auto split: route.splits)
  from loop_restores_index [OF this] show ?thesis using sample_loop_runs by simp
qed

end
