(* ===== verification/ValkeyDb.thy ===== *)
theory ValkeyDb
  imports Prelude GoText "HOL-Library.AList"
begin

text \<open>
  The commands the scripts of pkg/valkey call, on a database of strings, hashes, sets and sorted sets with
  millisecond expiries, read at the server's clock. A script runs atomically, as one function of the database.
  Scores and other decimal arguments are the integers they denote; a command on a key of another type, an
  error in Valkey, reads as on a missing key here (the keys of a component have a type of their own).
\<close>

named_theorems vk_simps \<open>what a command reads after another has written\<close>

datatype vk_value = VString string | VHash "(string \<times> string) list" | VMembers "string list" | VSorted "(string \<times> int) list"

record vk_entry =
  vk_value :: vk_value
  vk_expires :: "int option"

type_synonym vk_db = "string \<rightharpoonup> vk_entry"

definition vk_read :: "int \<Rightarrow> vk_db \<Rightarrow> string \<Rightarrow> vk_value option" where
  "vk_read now db key =
    (case db key of None \<Rightarrow> None
     | Some e \<Rightarrow> (case vk_expires e of Some t \<Rightarrow> if t \<le> now then None else Some (vk_value e) | None \<Rightarrow> Some (vk_value e)))"

text \<open>An update in place keeps the expiry of the key; a new key has none.\<close>

definition vk_update :: "int \<Rightarrow> string \<Rightarrow> vk_value \<Rightarrow> vk_db \<Rightarrow> vk_db" where
  "vk_update now key v db =
    (if vk_read now db key = None then db(key \<mapsto> \<lparr>vk_value = v, vk_expires = None\<rparr>)
     else db(key := map_option (\<lambda>e. e\<lparr>vk_value := v\<rparr>) (db key)))"

definition vk_exists :: "int \<Rightarrow> vk_db \<Rightarrow> string \<Rightarrow> bool" where
  "vk_exists now db key \<longleftrightarrow> vk_read now db key \<noteq> None"

definition vk_del :: "string \<Rightarrow> vk_db \<Rightarrow> vk_db" where
  "vk_del key db = db(key := None)"

definition vk_pexpire :: "int \<Rightarrow> string \<Rightarrow> int \<Rightarrow> vk_db \<Rightarrow> vk_db" where
  "vk_pexpire now key ttl db =
    (if vk_read now db key = None then db
     else if ttl \<le> 0 then db(key := None)
     else db(key := map_option (\<lambda>e. e\<lparr>vk_expires := Some (now + ttl)\<rparr>) (db key)))"

section \<open>Strings and hashes\<close>

definition vk_get :: "int \<Rightarrow> vk_db \<Rightarrow> string \<Rightarrow> string option" where
  "vk_get now db key = (case vk_read now db key of Some (VString s) \<Rightarrow> Some s | _ \<Rightarrow> None)"

text \<open>\<open>SET key value PX ttl\<close>, and \<open>SET key value NX PX ttl\<close>, which answers whether it has written.\<close>

definition vk_set_px :: "int \<Rightarrow> string \<Rightarrow> string \<Rightarrow> int \<Rightarrow> vk_db \<Rightarrow> vk_db" where
  "vk_set_px now key v ttl db = db(key \<mapsto> \<lparr>vk_value = VString v, vk_expires = Some (now + ttl)\<rparr>)"

definition vk_set_nx_px :: "int \<Rightarrow> string \<Rightarrow> string \<Rightarrow> int \<Rightarrow> vk_db \<Rightarrow> bool \<times> vk_db" where
  "vk_set_nx_px now key v ttl db =
    (if vk_exists now db key then (False, db) else (True, vk_set_px now key v ttl db))"

definition vk_hash :: "int \<Rightarrow> vk_db \<Rightarrow> string \<Rightarrow> (string \<times> string) list" where
  "vk_hash now db key = (case vk_read now db key of Some (VHash h) \<Rightarrow> h | _ \<Rightarrow> [])"

definition vk_hget :: "int \<Rightarrow> vk_db \<Rightarrow> string \<Rightarrow> string \<Rightarrow> string option" where
  "vk_hget now db key field = map_of (vk_hash now db key) field"

text \<open>A hash that becomes empty is removed with its expiry.\<close>

definition vk_put_hash :: "int \<Rightarrow> string \<Rightarrow> (string \<times> string) list \<Rightarrow> vk_db \<Rightarrow> vk_db" where
  "vk_put_hash now key h db = (if h = [] then vk_del key db else vk_update now key (VHash h) db)"

definition vk_hset :: "int \<Rightarrow> string \<Rightarrow> string \<Rightarrow> string \<Rightarrow> vk_db \<Rightarrow> vk_db" where
  "vk_hset now key field v db = vk_put_hash now key (AList.update field v (vk_hash now db key)) db"

definition vk_hdel :: "int \<Rightarrow> string \<Rightarrow> string \<Rightarrow> vk_db \<Rightarrow> vk_db" where
  "vk_hdel now key field db = vk_put_hash now key (AList.delete field (vk_hash now db key)) db"

text \<open>\<open>HINCRBY\<close>; None when the field holds no 64-bit integer or the sum is none.\<close>

definition vk_hincrby :: "int \<Rightarrow> string \<Rightarrow> string \<Rightarrow> int \<Rightarrow> vk_db \<Rightarrow> (int \<times> vk_db) option" where
  "vk_hincrby now key field by_n db =
    (let old = (case vk_hget now db key field of None \<Rightarrow> (0, None) | Some s \<Rightarrow> parse_int s); n = fst old + by_n
     in if snd old \<noteq> None \<or> \<not> in64 n then None else Some (n, vk_hset now key field (itoa n) db))"

section \<open>Sorted sets\<close>

text \<open>Ascending by score, then by the bytes of the member.\<close>

definition score_before :: "string \<times> int \<Rightarrow> string \<times> int \<Rightarrow> bool" where
  "score_before p q \<longleftrightarrow> snd p < snd q \<or> snd p = snd q \<and> fst p < fst q"

definition zrem :: "string \<Rightarrow> (string \<times> int) list \<Rightarrow> (string \<times> int) list" where
  "zrem m z = filter (\<lambda>p. fst p \<noteq> m) z"

definition zadd :: "int \<Rightarrow> string \<Rightarrow> (string \<times> int) list \<Rightarrow> (string \<times> int) list" where
  "zadd score m z =
    (let others = zrem m z; before = (\<lambda>p. score_before p (m, score))
     in takeWhile before others @ (m, score) # dropWhile before others)"

fun zrank :: "string \<Rightarrow> (string \<times> int) list \<Rightarrow> nat option" where
  "zrank m [] = None"
| "zrank m (p # z) = (if fst p = m then Some 0 else map_option Suc (zrank m z))"

definition vk_zset :: "int \<Rightarrow> vk_db \<Rightarrow> string \<Rightarrow> (string \<times> int) list" where
  "vk_zset now db key = (case vk_read now db key of Some (VSorted z) \<Rightarrow> z | _ \<Rightarrow> [])"

text \<open>A sorted set that becomes empty is removed with its expiry.\<close>

definition vk_put_zset :: "int \<Rightarrow> string \<Rightarrow> (string \<times> int) list \<Rightarrow> vk_db \<Rightarrow> vk_db" where
  "vk_put_zset now key z db = (if z = [] then vk_del key db else vk_update now key (VSorted z) db)"

definition vk_zadd :: "int \<Rightarrow> string \<Rightarrow> int \<Rightarrow> string \<Rightarrow> vk_db \<Rightarrow> vk_db" where
  "vk_zadd now key score m db = vk_put_zset now key (zadd score m (vk_zset now db key)) db"

definition vk_zrem :: "int \<Rightarrow> string \<Rightarrow> string \<Rightarrow> vk_db \<Rightarrow> vk_db" where
  "vk_zrem now key m db = vk_put_zset now key (zrem m (vk_zset now db key)) db"

definition vk_zscore :: "int \<Rightarrow> vk_db \<Rightarrow> string \<Rightarrow> string \<Rightarrow> int option" where
  "vk_zscore now db key m = map_of (vk_zset now db key) m"

definition vk_zupto :: "int \<Rightarrow> vk_db \<Rightarrow> string \<Rightarrow> int \<Rightarrow> string list" where
  "vk_zupto now db key most = map fst (filter (\<lambda>p. snd p \<le> most) (vk_zset now db key))"

section \<open>Reading after writing\<close>

lemma vk_read_other [vk_simps]:
  "k' \<noteq> k \<Longrightarrow> vk_read t (vk_update now k v db) k' = vk_read t db k'"
  "k' \<noteq> k \<Longrightarrow> vk_read t (vk_del k db) k' = vk_read t db k'"
  "k' \<noteq> k \<Longrightarrow> vk_read t (vk_pexpire now k ttl db) k' = vk_read t db k'"
  "k' \<noteq> k \<Longrightarrow> vk_read t (vk_set_px now k s ttl db) k' = vk_read t db k'"
  by (simp_all add: vk_read_def vk_update_def vk_del_def vk_pexpire_def vk_set_px_def)

lemma vk_read_same [vk_simps]:
  "vk_read now (vk_update now k v db) k = Some v" "vk_read t (vk_del k db) k = None"
  "0 < ttl \<Longrightarrow> vk_read now (vk_pexpire now k ttl db) k = vk_read now db k"
  by (auto simp: vk_read_def vk_update_def vk_del_def vk_pexpire_def split: option.splits if_splits)

lemma vk_zset_other [vk_simps]:
  "k' \<noteq> k \<Longrightarrow> vk_zset t (vk_put_zset now k z db) k' = vk_zset t db k'"
  "k' \<noteq> k \<Longrightarrow> vk_zset t (vk_pexpire now k ttl db) k' = vk_zset t db k'"
  by (simp_all add: vk_zset_def vk_put_zset_def vk_simps)

lemma vk_zset_same [vk_simps]:
  "vk_zset now (vk_put_zset now k z db) k = z"
  "0 < ttl \<Longrightarrow> vk_zset now (vk_pexpire now k ttl db) k = vk_zset now db k"
  by (simp_all add: vk_zset_def vk_put_zset_def vk_simps)

lemma vk_hash_other [vk_simps]:
  "k' \<noteq> k \<Longrightarrow> vk_hash t (vk_put_zset now k z db) k' = vk_hash t db k'"
  "k' \<noteq> k \<Longrightarrow> vk_hash t (vk_pexpire now k ttl db) k' = vk_hash t db k'"
  "k' \<noteq> k \<Longrightarrow> vk_exists t (vk_put_zset now k z db) k' = vk_exists t db k'"
  "k' \<noteq> k \<Longrightarrow> vk_exists t (vk_pexpire now k ttl db) k' = vk_exists t db k'"
  by (simp_all add: vk_hash_def vk_exists_def vk_put_zset_def vk_simps)

lemma vk_pexpire_stored:
  "\<lbrakk>vk_read now db k = Some v; 0 < ttl\<rbrakk>
    \<Longrightarrow> vk_pexpire now k ttl db k = Some \<lparr>vk_value = v, vk_expires = Some (now + ttl)\<rparr>"
  by (auto simp: vk_pexpire_def vk_read_def split: option.splits if_splits)

lemma vk_pexpire_elsewhere: "k' \<noteq> k \<Longrightarrow> vk_pexpire now k ttl db k' = db k'"
  by (simp add: vk_pexpire_def)

lemma vk_put_zset_elsewhere: "k' \<noteq> k \<Longrightarrow> vk_put_zset now k z db k' = db k'"
  by (simp add: vk_put_zset_def vk_del_def vk_update_def)

lemma vk_zset_read: "vk_zset now db k = z \<Longrightarrow> z \<noteq> [] \<Longrightarrow> vk_read now db k = Some (VSorted z)"
  by (simp add: vk_zset_def split: option.splits vk_value.splits)

lemma vk_hash_same [vk_simps]:
  "vk_hash now (vk_put_hash now k h db) k = h"
  "0 < ttl \<Longrightarrow> vk_hash now (vk_pexpire now k ttl db) k = vk_hash now db k"
  by (simp_all add: vk_hash_def vk_put_hash_def vk_simps)

lemma vk_hash_kept [vk_simps]:
  "k' \<noteq> k \<Longrightarrow> vk_hash t (vk_put_hash now k h db) k' = vk_hash t db k'"
  "k' \<noteq> k \<Longrightarrow> vk_zset t (vk_put_hash now k h db) k' = vk_zset t db k'"
  "k' \<noteq> k \<Longrightarrow> vk_exists t (vk_put_hash now k h db) k' = vk_exists t db k'"
  "k' \<noteq> k \<Longrightarrow> vk_hash t (vk_set_px now k v ttl db) k' = vk_hash t db k'"
  "k' \<noteq> k \<Longrightarrow> vk_exists t (vk_set_px now k v ttl db) k' = vk_exists t db k'"
  by (simp_all add: vk_hash_def vk_zset_def vk_exists_def vk_put_hash_def vk_simps)

lemma vk_put_hash_elsewhere: "k' \<noteq> k \<Longrightarrow> vk_put_hash now k h db k' = db k'"
  by (simp add: vk_put_hash_def vk_del_def vk_update_def)

lemma parse_int_itoa: "\<lbrakk>0 \<le> n; in64 n\<rbrakk> \<Longrightarrow> parse_int (itoa n) = (n, None)"
proof -
  assume n: "0 \<le> n" "in64 n"
  obtain c cs where ds: "nat_digits (nat n) = c # cs" using nat_digits_all [of "nat n"] by (cases "nat_digits (nat n)") auto
  then have "is_digit c" using nat_digits_all [of "nat n"] by simp
  then have "c \<noteq> CHR ''-''" "c \<noteq> CHR ''+''" by (auto simp: is_digit_def)
  then show ?thesis using n ds nat_digits_all [of "nat n"] digits_value_nat_digits [of "nat n"]
    by (simp add: itoa_def parse_int_def parse_int_w_def in64_def int64_max_def Let_def)
qed

lemma set_takeWhile_dropWhile: "set (takeWhile p xs) \<union> set (dropWhile p xs) = set xs"
  by (metis set_append takeWhile_dropWhile_id)

lemma set_zadd: "set (zadd s m z) = insert (m, s) (set (zrem m z))"
  by (simp add: zadd_def Let_def set_takeWhile_dropWhile)

lemma fst_set_zrem [simp]: "fst ` set (zrem m z) = fst ` set z - {m}"
  by (auto simp: zrem_def)

lemma fst_set_zadd [simp]: "fst ` set (zadd s m z) = insert m (fst ` set z)"
  by (auto simp: set_zadd)

lemma zrem_absent: "m \<notin> fst ` set z \<Longrightarrow> zrem m z = z"
  by (auto simp: zrem_def filter_id_conv)

lemma zadd_last:
  assumes "m \<notin> fst ` set z" "\<forall>p \<in> set z. snd p < s"
  shows "zadd s m z = z @ [(m, s)]"
proof -
  have "takeWhile (\<lambda>p. score_before p (m, s)) z = z" "dropWhile (\<lambda>p. score_before p (m, s)) z = []"
    using assms(2) by (simp_all add: score_before_def)
  then show ?thesis by (simp add: zadd_def zrem_absent [OF assms(1)] Let_def)
qed

lemma distinct_zadd:
  assumes "distinct (map fst z)"
  shows "distinct (map fst (zadd s m z))"
proof -
  let ?z = "zrem m z" and ?p = "\<lambda>p. score_before p (m, s)"
  have "distinct (map fst (takeWhile ?p ?z) @ map fst (dropWhile ?p ?z))"
    using assms unfolding map_append [symmetric] takeWhile_dropWhile_id by (simp add: zrem_def distinct_map_filter)
  moreover have "m \<notin> fst ` (set (takeWhile ?p ?z) \<union> set (dropWhile ?p ?z))"
    unfolding set_takeWhile_dropWhile by simp
  ultimately show ?thesis by (simp add: zadd_def Let_def image_Un)
qed

lemma zrank_nth: "zrank m z = Some i \<Longrightarrow> i < length z \<and> fst (z ! i) = m"
  by (induction z arbitrary: i) (auto split: if_splits)

lemma zrank_None: "zrank m z = None \<longleftrightarrow> m \<notin> fst ` set z"
  by (induction z) auto

end
