(* ===== verification/OwnedRecords.thy ===== *)
theory OwnedRecords
  imports ValkeyDb
begin

text \<open>
  Records with an owner each, pkg/valkey/owned\_records.go: a hash of records, a hash of their owners, a
  hash that counts for every pin the records holding it, and per record a key that marks a handover. The
  answer of a script is None for an error reply.
\<close>

record OwnedRecord =
  or_records :: string
  or_owners :: string
  or_pins :: string
  or_taken :: string
  or_id :: string

record OwnedSave =
  os_owner :: string
  os_body :: string
  os_must_be_new :: bool
  os_pin :: string
  os_pin_keys :: "string list"
  os_ttl :: int

section \<open>The scripts\<close>

definition owned_state :: "int \<Rightarrow> OwnedRecord \<Rightarrow> string \<Rightarrow> vk_db \<Rightarrow> int" where
  "owned_state now r owner db =
    (let current = vk_hget now db (or_owners r) (or_id r) in
     if current = Some owner then 1
     else if current \<noteq> None \<or> vk_exists now db (or_taken r) then - 1
     else 0)"

fun pexpire_all :: "int \<Rightarrow> string list \<Rightarrow> int \<Rightarrow> vk_db \<Rightarrow> vk_db" where
  "pexpire_all now [] ttl db = db"
| "pexpire_all now (k # ks) ttl db = pexpire_all now ks ttl (vk_pexpire now k ttl db)"

definition save_owned :: "int \<Rightarrow> OwnedRecord \<Rightarrow> OwnedSave \<Rightarrow> vk_db \<Rightarrow> int option \<times> vk_db" where
  "save_owned now r w db0 =
    (let standing = owned_state now r (os_owner w) db0 in
     if standing = - 1 \<or> standing = 1 \<and> os_must_be_new w then (Some (- 1), db0)
     else case (if standing = 0 \<and> os_pin w \<noteq> [] then map_option snd (vk_hincrby now (or_pins r) (os_pin w) 1 db0)
                else Some db0) of
       None \<Rightarrow> (None, db0)
     | Some db1 \<Rightarrow>
         (let db2 = vk_hset now (or_owners r) (or_id r) (os_owner w) (vk_hset now (or_records r) (or_id r) (os_body w) db1);
              db3 = pexpire_all now [or_records r, or_owners r, or_pins r] (os_ttl w) db2
          in (Some 1, if os_pin w \<noteq> [] then pexpire_all now (os_pin_keys w) (os_ttl w) db3 else db3)))"

definition standing_owned :: "int \<Rightarrow> OwnedRecord \<Rightarrow> string \<Rightarrow> vk_db \<Rightarrow> int option \<times> vk_db" where
  "standing_owned now r owner db = (Some (owned_state now r owner db), db)"

definition finish_owned :: "int \<Rightarrow> OwnedRecord \<Rightarrow> string \<Rightarrow> string \<Rightarrow> vk_db \<Rightarrow> int option \<times> vk_db" where
  "finish_owned now r owner pin db0 =
    (let standing = owned_state now r owner db0 in
     if standing \<noteq> 1 then (Some standing, db0)
     else let db1 = vk_hdel now (or_owners r) (or_id r) (vk_hdel now (or_records r) (or_id r) db0) in
       if pin = [] then (Some 1, db1)
       else case vk_hincrby now (or_pins r) pin (- 1) db1 of
         None \<Rightarrow> (None, db1)
       | Some (n, db2) \<Rightarrow> (Some 1, if n \<le> 0 then vk_hdel now (or_pins r) pin db2 else db2))"

text \<open>\<open>Claim\<close>: Gone, Won with the body, or Already, as 0, 1 and 2.\<close>

definition claim_owned :: "int \<Rightarrow> OwnedRecord \<Rightarrow> string \<Rightarrow> string \<Rightarrow> int \<Rightarrow> vk_db \<Rightarrow> (int \<times> string option) \<times> vk_db" where
  "claim_owned now r from_owner to_owner taken_ttl db =
    (let current = vk_hget now db (or_owners r) (or_id r) in
     if current = Some to_owner then ((2, Some []), db)
     else if current \<noteq> Some from_owner then ((0, Some []), db)
     else let db' = vk_set_px now (or_taken r) ''1'' taken_ttl (vk_hset now (or_owners r) (or_id r) to_owner db)
          in ((1, vk_hget now db' (or_records r) (or_id r)), db'))"

section \<open>Reading after a script\<close>

text \<open>The keys of the records of one channel: the three hashes, and a handover key for every record.\<close>

record record_keys =
  rk_records :: string
  rk_owners :: string
  rk_pins :: string
  rk_taken :: "string \<Rightarrow> string"

definition record_of :: "record_keys \<Rightarrow> string \<Rightarrow> OwnedRecord" where
  "record_of c i = \<lparr>or_records = rk_records c, or_owners = rk_owners c, or_pins = rk_pins c, or_taken = rk_taken c i, or_id = i\<rparr>"

definition records_apart :: "record_keys \<Rightarrow> bool" where
  "records_apart c \<longleftrightarrow> distinct [rk_records c, rk_owners c, rk_pins c] \<and> inj (rk_taken c)
    \<and> range (rk_taken c) \<inter> {rk_records c, rk_owners c, rk_pins c} = {}"

lemma records_apart_neq:
  assumes "records_apart c"
  shows "rk_records c \<noteq> rk_owners c" "rk_owners c \<noteq> rk_records c" "rk_pins c \<noteq> rk_records c" "rk_pins c \<noteq> rk_owners c"
    "rk_records c \<noteq> rk_pins c" "rk_owners c \<noteq> rk_pins c" "rk_taken c i \<noteq> rk_records c" "rk_taken c i \<noteq> rk_owners c"
    "rk_taken c i \<noteq> rk_pins c" "rk_records c \<noteq> rk_taken c i" "rk_owners c \<noteq> rk_taken c i" "rk_pins c \<noteq> rk_taken c i"
    "rk_taken c i = rk_taken c j \<longleftrightarrow> i = j"
proof -
  have d: "distinct [rk_records c, rk_owners c, rk_pins c]" and i: "inj (rk_taken c)"
    and r: "range (rk_taken c) \<inter> {rk_records c, rk_owners c, rk_pins c} = {}"
    using assms unfolding records_apart_def by blast+
  show "rk_records c \<noteq> rk_owners c" "rk_owners c \<noteq> rk_records c" "rk_pins c \<noteq> rk_records c" "rk_pins c \<noteq> rk_owners c"
    "rk_records c \<noteq> rk_pins c" "rk_owners c \<noteq> rk_pins c"
    using d by auto
  have "rk_taken c i \<in> range (rk_taken c)" by simp
  then show "rk_taken c i \<noteq> rk_records c" "rk_taken c i \<noteq> rk_owners c" "rk_taken c i \<noteq> rk_pins c"
    "rk_records c \<noteq> rk_taken c i" "rk_owners c \<noteq> rk_taken c i" "rk_pins c \<noteq> rk_taken c i"
    using r by blast+
  show "rk_taken c i = rk_taken c j \<longleftrightarrow> i = j" using i by (rule inj_eq)
qed

abbreviation owner_of :: "int \<Rightarrow> record_keys \<Rightarrow> vk_db \<Rightarrow> string \<Rightarrow> string option" where
  "owner_of now c db i \<equiv> vk_hget now db (rk_owners c) i"

abbreviation pins_of :: "int \<Rightarrow> record_keys \<Rightarrow> vk_db \<Rightarrow> string \<Rightarrow> string option" where
  "pins_of now c db m \<equiv> vk_hget now db (rk_pins c) m"

lemma hget_hset [vk_simps]:
  "vk_hget now (vk_hset now k f v db) k g = (if g = f then Some v else vk_hget now db k g)"
  by (simp add: vk_hset_def vk_hget_def vk_simps update_conv')

lemma hget_hdel [vk_simps]:
  "vk_hget now (vk_hdel now k f db) k g = (if g = f then None else vk_hget now db k g)"
  by (simp add: vk_hdel_def vk_hget_def vk_simps delete_conv')

lemma hget_other [vk_simps]:
  "k' \<noteq> k \<Longrightarrow> vk_hget t (vk_hset now k f v db) k' g = vk_hget t db k' g"
  "k' \<noteq> k \<Longrightarrow> vk_hget t (vk_hdel now k f db) k' g = vk_hget t db k' g"
  "k' \<noteq> k \<Longrightarrow> vk_hget t (vk_set_px now k v ttl db) k' g = vk_hget t db k' g"
  "k' \<noteq> k \<Longrightarrow> vk_hget t (vk_pexpire now k ttl db) k' g = vk_hget t db k' g"
  by (simp_all add: vk_hset_def vk_hdel_def vk_hget_def vk_simps)

lemma hget_pexpire [vk_simps]: "0 < ttl \<Longrightarrow> vk_hget now (vk_pexpire now k ttl db) k' g = vk_hget now db k' g"
  by (cases "k' = k") (simp_all add: vk_hget_def vk_simps)

lemma hget_pexpire_all [vk_simps]: "0 < ttl \<Longrightarrow> vk_hget now (pexpire_all now ks ttl db) k g = vk_hget now db k g"
  by (induction ks arbitrary: db) (simp_all add: vk_simps)

lemma hget_hincrby:
  "vk_hincrby now k f n db = Some (m, db') \<Longrightarrow> db' = vk_hset now k f (itoa m) db"
  by (auto simp: vk_hincrby_def Let_def split: if_splits)

section \<open>Sequences of calls\<close>

text \<open>
  The calls of all replicas on the records of a channel; \<open>Elsewhere\<close> is whatever happens to other keys.
  Records and handover marks live equally long in all of them.
\<close>

datatype record_call = Save string OwnedSave | Standing string string | Finish string string string
  | Claim string string string | Elsewhere

definition channel_keys :: "record_keys \<Rightarrow> string set" where
  "channel_keys c = {rk_records c, rk_owners c, rk_pins c} \<union> range (rk_taken c)"

inductive record_step :: "record_keys \<Rightarrow> int \<Rightarrow> int \<Rightarrow> vk_db \<Rightarrow> record_call \<Rightarrow> int option \<Rightarrow> vk_db \<Rightarrow> bool"
  for c ttl now db where
  saving: "\<lbrakk>save_owned now (record_of c i) w db = (a, db'); os_ttl w = ttl; set (os_pin_keys w) \<inter> channel_keys c = {}\<rbrakk>
    \<Longrightarrow> record_step c ttl now db (Save i w) a db'"
| standing: "standing_owned now (record_of c i) m db = (a, db') \<Longrightarrow> record_step c ttl now db (Standing i m) a db'"
| finishing: "finish_owned now (record_of c i) m pin db = (a, db') \<Longrightarrow> record_step c ttl now db (Finish i m pin) a db'"
| claiming: "claim_owned now (record_of c i) m n ttl db = ((a, body), db') \<Longrightarrow> record_step c ttl now db (Claim i m n) (Some a) db'"
| elsewhere: "\<forall>k \<in> channel_keys c. db' k = db k \<Longrightarrow> record_step c ttl now db Elsewhere None db'"

inductive record_run :: "record_keys \<Rightarrow> int \<Rightarrow> int \<Rightarrow> vk_db \<Rightarrow> (int \<times> record_call \<times> int option) list \<Rightarrow> vk_db \<Rightarrow> bool"
  for c ttl where
  r_quiet: "record_run c ttl now db [] db"
| r_called: "\<lbrakk>now \<le> t; record_step c ttl t db call a db'; record_run c ttl t db' events db''\<rbrakk>
    \<Longrightarrow> record_run c ttl now db ((t, call, a) # events) db''"

text \<open>What is stored under a key, lapsed or not.\<close>

definition stored_hash :: "vk_db \<Rightarrow> string \<Rightarrow> (string \<times> string) list" where
  "stored_hash db k = (case db k of Some e \<Rightarrow> (case vk_value e of VHash h \<Rightarrow> h | _ \<Rightarrow> []) | None \<Rightarrow> [])"

lemma hget_stored: "vk_hget t db k f = Some v \<Longrightarrow> map_of (stored_hash db k) f = Some v"
  by (auto simp: vk_hget_def vk_hash_def vk_read_def stored_hash_def split: option.splits vk_value.splits if_splits)

lemma stored_put_hash: "stored_hash (vk_put_hash now k h db) k = h"
  by (auto simp: stored_hash_def vk_put_hash_def vk_del_def vk_update_def vk_read_def split: option.splits if_splits)

lemma stored_hset:
  "map_of (stored_hash (vk_hset now k f v db) k) g = Some x \<Longrightarrow> g = f \<and> x = v \<or> map_of (stored_hash db k) g = Some x"
  using hget_stored [of now db k g x] by (auto simp: vk_hset_def stored_put_hash update_conv' vk_hget_def split: if_splits)

lemma stored_hdel:
  "map_of (stored_hash (vk_hdel now k f db) k) g = Some x \<Longrightarrow> map_of (stored_hash db k) g = Some x"
  using hget_stored [of now db k g x] by (auto simp: vk_hdel_def stored_put_hash delete_conv' vk_hget_def split: if_splits)

lemma stored_pexpire:
  "map_of (stored_hash (vk_pexpire now k' ttl db) k) g = Some x \<Longrightarrow> map_of (stored_hash db k) g = Some x"
  by (auto simp: stored_hash_def vk_pexpire_def split: if_splits option.splits)

lemma stored_pexpire_all:
  "map_of (stored_hash (pexpire_all now ks ttl db) k) g = Some x \<Longrightarrow> map_of (stored_hash db k) g = Some x"
  by (induction ks arbitrary: db) (auto dest: stored_pexpire)

lemma hset_elsewhere: "k' \<noteq> k \<Longrightarrow> vk_hset now k f v db k' = db k'"
  by (simp add: vk_hset_def vk_put_hash_elsewhere)

lemma hdel_elsewhere: "k' \<noteq> k \<Longrightarrow> vk_hdel now k f db k' = db k'"
  by (simp add: vk_hdel_def vk_put_hash_elsewhere)

lemma pexpire_all_elsewhere: "k' \<notin> set ks \<Longrightarrow> pexpire_all now ks ttl db k' = db k'"
  by (induction ks arbitrary: db) (simp_all add: vk_pexpire_elsewhere)

lemma hincrby_elsewhere: "\<lbrakk>vk_hincrby now k f n db = Some (m, db'); k' \<noteq> k\<rbrakk> \<Longrightarrow> db' k' = db k'"
  by (auto dest!: hget_hincrby simp: hset_elsewhere)

lemma stored_elsewhere: "db' k = db k \<Longrightarrow> stored_hash db' k = stored_hash db k"
  by (simp add: stored_hash_def)

text \<open>The three ways a save ends.\<close>

lemma save_cases:
  assumes "save_owned now r w db = (a, db')"
  obtains (refused) "owned_state now r (os_owner w) db = - 1 \<or> owned_state now r (os_owner w) db = 1 \<and> os_must_be_new w"
      "a = Some (- 1)" "db' = db"
    | (failed) "a = None" "db' = db"
    | (written) db1 where
      "owned_state now r (os_owner w) db = 0 \<and> os_pin w \<noteq> [] \<and> (\<exists>n. vk_hincrby now (or_pins r) (os_pin w) 1 db = Some (n, db1))
        \<or> db1 = db \<and> (owned_state now r (os_owner w) db = 1 \<and> \<not> os_must_be_new w
          \<or> owned_state now r (os_owner w) db = 0 \<and> os_pin w = [])"
      "a = Some 1"
      "db' = (let db2 = vk_hset now (or_owners r) (or_id r) (os_owner w) (vk_hset now (or_records r) (or_id r) (os_body w) db1);
          db3 = pexpire_all now [or_records r, or_owners r, or_pins r] (os_ttl w) db2
        in if os_pin w \<noteq> [] then pexpire_all now (os_pin_keys w) (os_ttl w) db3 else db3)"
proof -
  let ?st = "owned_state now r (os_owner w) db"
  have st: "?st = - 1 \<or> ?st = 0 \<or> ?st = 1" by (simp add: owned_state_def Let_def)
  show thesis
  proof (cases "?st = - 1 \<or> ?st = 1 \<and> os_must_be_new w")
    case True
    then show thesis using refused assms by (simp add: save_owned_def Let_def)
  next
    case False
    show thesis
    proof (cases "?st = 0 \<and> os_pin w \<noteq> []")
      case True
      show thesis
      proof (cases "vk_hincrby now (or_pins r) (os_pin w) 1 db")
        case None
        then show thesis using failed assms True by (simp add: save_owned_def Let_def)
      next
        case (Some p)
        then show thesis using written [of "snd p"] assms True by (cases p) (simp add: save_owned_def Let_def)
      qed
    next
      case noPin: False
      then show thesis using written [of db] assms False st by (auto simp: save_owned_def Let_def)
    qed
  qed
qed

lemma db1_elsewhere:
  assumes "P \<and> Q \<and> (\<exists>n. vk_hincrby now k f m db = Some (n, db1)) \<or> db1 = db \<and> R" "k' \<noteq> k"
  shows "db1 k' = db k'"
  using assms by (auto dest: hincrby_elsewhere)

section \<open>A handed over record\<close>

text \<open>A former owner is fenced off until a moment: it is not stored as the owner, and the mark of the
  handover lives at least until then.\<close>

definition fenced :: "record_keys \<Rightarrow> string \<Rightarrow> string \<Rightarrow> int \<Rightarrow> vk_db \<Rightarrow> bool" where
  "fenced c i m until db \<longleftrightarrow> map_of (stored_hash db (rk_owners c)) i \<noteq> Some m
    \<and> (\<exists>v e. db (rk_taken c i) = Some \<lparr>vk_value = v, vk_expires = Some e\<rparr> \<and> until \<le> e)"

lemma fenced_state:
  assumes "fenced c i m until db" "now < until"
  shows "owned_state now (record_of c i) m db = - 1"
  using assms hget_stored [of now db "rk_owners c" i m]
  by (auto simp: fenced_def owned_state_def record_of_def Let_def vk_exists_def vk_read_def)

lemma fenced_no_new_owner:
  assumes "fenced c i m until db" "now < until" "owned_state now (record_of c i) n db \<noteq> - 1"
  shows "n \<noteq> m"
  using fenced_state [OF assms(1,2)] assms(3) by auto

lemma fenced_update:
  assumes "fenced c i m until db" "db' (rk_taken c i) = db (rk_taken c i)"
    and "\<And>x. map_of (stored_hash db' (rk_owners c)) i = Some x \<Longrightarrow> x = n \<and> n \<noteq> m \<or> map_of (stored_hash db (rk_owners c)) i = Some x"
  shows "fenced c i m until db'"
  using assms by (auto simp: fenced_def)

lemma fenced_step:
  assumes "records_apart c" "fenced c i m until db" "now < until" "until \<le> now + ttl"
    and "record_step c ttl now db call a db'" "\<forall>k. call \<noteq> Claim i k m"
  shows "fenced c i m until db'"
proof -
  note apart = records_apart_neq [OF assms(1)]
  show ?thesis
    using assms(5)
  proof cases
    case (saving j w)
    from saving(2) show ?thesis
    proof (cases rule: save_cases)
      case (written db1)
      let ?ks = "[rk_records c, rk_owners c, rk_pins c]"
      define db2 where "db2 = vk_hset now (rk_owners c) j (os_owner w) (vk_hset now (rk_records c) j (os_body w) db1)"
      define db3 where "db3 = pexpire_all now ?ks (os_ttl w) db2"
      have db': "db' = (if os_pin w \<noteq> [] then pexpire_all now (os_pin_keys w) (os_ttl w) db3 else db3)"
        using written(3) by (simp add: db2_def db3_def record_of_def Let_def)
      have away: "rk_taken c i \<notin> set (os_pin_keys w)" "rk_owners c \<notin> set (os_pin_keys w)"
        using saving(4) by (auto simp: channel_keys_def)
      have db1: "db1 (rk_taken c i) = db (rk_taken c i)" "db1 (rk_owners c) = db (rk_owners c)"
        using db1_elsewhere [OF written(1)] apart by (simp_all add: record_of_def)
      have "db' (rk_taken c i) = db (rk_taken c i)"
        using away apart by (simp add: db' db3_def db2_def pexpire_all_elsewhere vk_pexpire_elsewhere hset_elsewhere db1)
      moreover have "x = os_owner w \<and> os_owner w \<noteq> m \<or> map_of (stored_hash db (rk_owners c)) i = Some x"
        if "map_of (stored_hash db' (rk_owners c)) i = Some x" for x
      proof -
        have "map_of (stored_hash db3 (rk_owners c)) i = Some x"
        proof (cases "os_pin w = []")
          case False
          with that have "map_of (stored_hash (pexpire_all now (os_pin_keys w) (os_ttl w) db3) (rk_owners c)) i = Some x"
            by (simp only: db' if_True not_False_eq_True)
          then show ?thesis by (rule stored_pexpire_all)
        qed (use that in \<open>simp only: db' if_False simp_thms\<close>)
        then have "map_of (stored_hash db2 (rk_owners c)) i = Some x"
          unfolding db3_def by (rule stored_pexpire_all)
        then have "i = j \<and> x = os_owner w \<or> map_of (stored_hash (vk_hset now (rk_records c) j (os_body w) db1) (rk_owners c)) i = Some x"
          unfolding db2_def by (rule stored_hset)
        moreover have "stored_hash (vk_hset now (rk_records c) j (os_body w) db1) (rk_owners c) = stored_hash db (rk_owners c)"
          by (rule stored_elsewhere) (use apart in \<open>simp add: hset_elsewhere db1\<close>)
        moreover have "os_owner w \<noteq> m" if "i = j"
          using fenced_no_new_owner [OF assms(2,3), of "os_owner w"] written(1) that by (auto simp: record_of_def)
        ultimately show ?thesis by auto
      qed
      ultimately show ?thesis by (rule fenced_update [OF assms(2)])
    qed (use assms(2) in simp_all)
  next
    case (standing j k)
    then show ?thesis using assms(2) by (simp add: standing_owned_def)
  next
    case (finishing j k pin)
    define db1 where "db1 = vk_hdel now (rk_owners c) j (vk_hdel now (rk_records c) j db)"
    have "db' k' = db1 k' \<or> db' = db" if "k' \<noteq> rk_pins c" for k'
      using finishing(2) that
      by (auto simp: finish_owned_def Let_def record_of_def db1_def [symmetric] hdel_elsewhere split: if_splits option.splits
          dest: hincrby_elsewhere)
    then have "db' = db \<or> db' (rk_owners c) = db1 (rk_owners c) \<and> db' (rk_taken c i) = db1 (rk_taken c i)"
      using apart by metis
    then show ?thesis
    proof
      assume same: "db' (rk_owners c) = db1 (rk_owners c) \<and> db' (rk_taken c i) = db1 (rk_taken c i)"
      show ?thesis
      proof (rule fenced_update [OF assms(2), where n = m])
        show "db' (rk_taken c i) = db (rk_taken c i)" using same apart by (simp add: db1_def hdel_elsewhere)
        fix x assume "map_of (stored_hash db' (rk_owners c)) i = Some x"
        then have "map_of (stored_hash db1 (rk_owners c)) i = Some x"
          using same stored_elsewhere [of db' "rk_owners c" db1] by simp
        then have "map_of (stored_hash (vk_hdel now (rk_records c) j db) (rk_owners c)) i = Some x"
          unfolding db1_def by (rule stored_hdel)
        moreover have "stored_hash (vk_hdel now (rk_records c) j db) (rk_owners c) = stored_hash db (rk_owners c)"
          by (rule stored_elsewhere) (use apart in \<open>simp add: hdel_elsewhere\<close>)
        ultimately show "x = m \<and> m \<noteq> m \<or> map_of (stored_hash db (rk_owners c)) i = Some x" by simp
      qed
    qed (use assms(2) in simp)
  next
    case (claiming j k n a' body)
    consider "db' = db" | "db' = vk_set_px now (rk_taken c j) ''1'' ttl (vk_hset now (rk_owners c) j n db)"
      using claiming(3) by (auto simp: claim_owned_def Let_def record_of_def split: if_splits)
    then show ?thesis
    proof cases
      case 2
      have owners: "db' (rk_owners c) = vk_hset now (rk_owners c) j n db (rk_owners c)"
        using apart by (simp add: 2 vk_set_px_def)
      have "map_of (stored_hash db' (rk_owners c)) i \<noteq> Some m"
      proof
        assume "map_of (stored_hash db' (rk_owners c)) i = Some m"
        then have "map_of (stored_hash (vk_hset now (rk_owners c) j n db) (rk_owners c)) i = Some m"
          using stored_elsewhere [of db' "rk_owners c" "vk_hset now (rk_owners c) j n db", OF owners] by simp
        then have "i = j \<and> m = n \<or> map_of (stored_hash db (rk_owners c)) i = Some m" by (rule stored_hset)
        then show False using assms(2,6) claiming(1) by (auto simp: fenced_def)
      qed
      moreover have "\<exists>v e. db' (rk_taken c i) = Some \<lparr>vk_value = v, vk_expires = Some e\<rparr> \<and> until \<le> e"
        using assms(2,4) apart by (auto simp: 2 vk_set_px_def fenced_def hset_elsewhere)
      ultimately show ?thesis by (simp add: fenced_def)
    qed (use assms(2) in simp)
  next
    case elsewhere
    then show ?thesis
      using assms(2) stored_elsewhere [of db' "rk_owners c" db] by (simp add: fenced_def channel_keys_def)
  qed
qed

text \<open>The replica a call acts for.\<close>

definition acts_for :: "record_call \<Rightarrow> (string \<times> string) option" where
  "acts_for call = (case call of Save i w \<Rightarrow> Some (i, os_owner w) | Standing i m \<Rightarrow> Some (i, m)
    | Finish i m pin \<Rightarrow> Some (i, m) | _ \<Rightarrow> None)"

lemma fenced_answer:
  assumes "fenced c i m until db" "now < until" "record_step c ttl now db call a db'" "acts_for call = Some (i, m)"
  shows "a = Some (- 1)"
  using assms(3,4) fenced_state [OF assms(1,2)]
  by (cases rule: record_step.cases)
    (auto simp: acts_for_def save_owned_def standing_owned_def finish_owned_def Let_def)

lemma fenced_run:
  assumes "record_run c ttl now db events db'" "records_apart c" "fenced c i m until db" "until \<le> now + ttl"
    and "\<forall>(u, call, a) \<in> set events. u < until \<and> (\<forall>k. call \<noteq> Claim i k m)"
  shows "\<forall>(u, call, a) \<in> set events. acts_for call = Some (i, m) \<longrightarrow> a = Some (- 1)"
  using assms(1,3-)
proof (induction rule: record_run.induct)
  case (r_called now t db call a db' events db'')
  have t: "t < until" "\<forall>k. call \<noteq> Claim i k m" "until \<le> t + ttl" using r_called by auto
  have "fenced c i m until db'"
    using fenced_step [OF assms(2) r_called.prems(1) t(1,3) r_called.hyps(2) t(2)] .
  then show ?case using r_called t fenced_answer [OF r_called.prems(1) t(1) r_called.hyps(2)] by auto
qed simp

section \<open>A saved record\<close>

lemma pexpire_all_stored:
  "\<lbrakk>distinct ks; k \<in> set ks; 0 < ttl; vk_read now db k = Some v\<rbrakk>
    \<Longrightarrow> pexpire_all now ks ttl db k = Some \<lparr>vk_value = v, vk_expires = Some (now + ttl)\<rparr>"
proof (induction ks arbitrary: db)
  case (Cons j ks)
  show ?case
  proof (cases "k = j")
    case True
    then show ?thesis using Cons.prems by (simp add: pexpire_all_elsewhere vk_pexpire_stored)
  next
    case False
    then show ?thesis using Cons by (simp add: vk_simps)
  qed
qed simp

lemma vk_pexpire_none: "vk_read now db k = None \<Longrightarrow> vk_read now (vk_pexpire now k' ttl db) k = None"
  using vk_read_other(3) [of k k'] by (cases "k' = k") (simp_all add: vk_pexpire_def)

lemma pexpire_all_none: "vk_read now db k = None \<Longrightarrow> vk_read now (pexpire_all now ks ttl db) k = None"
  by (induction ks arbitrary: db) (simp_all add: vk_pexpire_none)

lemma hset_read: "vk_read now (vk_hset now k f v db) k = Some (VHash (AList.update f v (vk_hash now db k)))"
proof -
  have "AList.update f v h \<noteq> []" for h :: "(string \<times> string) list" by (cases h) auto
  then show ?thesis by (simp add: vk_hset_def vk_put_hash_def vk_simps)
qed

lemma hset_read_other: "k' \<noteq> k \<Longrightarrow> vk_read t (vk_hset now k f v db) k' = vk_read t db k'"
  by (simp add: vk_read_def hset_elsewhere)

text \<open>What a save leaves behind: the owners, and the pins if there are any, live as long from now on.\<close>

lemma written_keys:
  assumes "records_apart c" "0 < ttl" "set pks \<inter> channel_keys c = {}"
    and "db' = (let db2 = vk_hset now (rk_owners c) i n (vk_hset now (rk_records c) i body db1);
        db3 = pexpire_all now [rk_records c, rk_owners c, rk_pins c] ttl db2
      in if q then pexpire_all now pks ttl db3 else db3)"
  shows "db' (rk_owners c)
      = Some \<lparr>vk_value = VHash (AList.update i n (vk_hash now db1 (rk_owners c))), vk_expires = Some (now + ttl)\<rparr>"
    and "vk_read now db1 (rk_pins c) = Some v \<Longrightarrow> db' (rk_pins c) = Some \<lparr>vk_value = v, vk_expires = Some (now + ttl)\<rparr>"
    and "vk_read now db1 (rk_pins c) = None \<Longrightarrow> vk_read now db' (rk_pins c) = None"
proof -
  note apart = records_apart_neq [OF assms(1)]
  define db2 where "db2 = vk_hset now (rk_owners c) i n (vk_hset now (rk_records c) i body db1)"
  define db3 where "db3 = pexpire_all now [rk_records c, rk_owners c, rk_pins c] ttl db2"
  have keys: "distinct [rk_records c, rk_owners c, rk_pins c]" using apart by simp
  have db': "db' = (if q then pexpire_all now pks ttl db3 else db3)" using assms(4) by (simp only: Let_def db2_def db3_def)
  have same: "db' (rk_owners c) = db3 (rk_owners c)" "db' (rk_pins c) = db3 (rk_pins c)"
    using assms(3) by (simp_all add: db' channel_keys_def pexpire_all_elsewhere)
  have "vk_hash now (vk_hset now (rk_records c) i body db1) (rk_owners c) = vk_hash now db1 (rk_owners c)"
    using apart by (simp add: vk_hset_def vk_simps)
  then have owners: "vk_read now db2 (rk_owners c) = Some (VHash (AList.update i n (vk_hash now db1 (rk_owners c))))"
    by (simp add: db2_def hset_read)
  show "db' (rk_owners c)
      = Some \<lparr>vk_value = VHash (AList.update i n (vk_hash now db1 (rk_owners c))), vk_expires = Some (now + ttl)\<rparr>"
    unfolding same db3_def by (rule pexpire_all_stored [OF keys _ assms(2) owners]) simp
  have pins: "vk_read now db2 (rk_pins c) = vk_read now db1 (rk_pins c)"
    using apart by (simp add: db2_def hset_read_other)
  show "vk_read now db1 (rk_pins c) = Some v \<Longrightarrow> db' (rk_pins c) = Some \<lparr>vk_value = v, vk_expires = Some (now + ttl)\<rparr>"
    unfolding same db3_def by (rule pexpire_all_stored [OF keys _ assms(2)]) (simp_all add: pins)
  have "vk_read now db' (rk_pins c) = vk_read now db3 (rk_pins c)" by (simp add: vk_read_def same)
  then show "vk_read now db1 (rk_pins c) = None \<Longrightarrow> vk_read now db' (rk_pins c) = None"
    unfolding db3_def by (simp only: pexpire_all_none pins)
qed

definition recorded :: "record_keys \<Rightarrow> string \<Rightarrow> int \<Rightarrow> vk_db \<Rightarrow> bool" where
  "recorded c i until db \<longleftrightarrow>
    (\<exists>h e. db (rk_owners c) = Some \<lparr>vk_value = VHash h, vk_expires = Some e\<rparr> \<and> until \<le> e \<and> map_of h i \<noteq> None)"

lemma recorded_read:
  assumes "recorded c i until db" "now < until"
  shows "owner_of now c db i \<noteq> None"
    and "\<exists>e. until \<le> e \<and> db (rk_owners c) = Some \<lparr>vk_value = VHash (vk_hash now db (rk_owners c)), vk_expires = Some e\<rparr>"
  using assms by (auto simp: recorded_def vk_hget_def vk_hash_def vk_read_def)

lemma recorded_put:
  assumes "recorded c i until db" "now < until" "map_of h i \<noteq> None"
  shows "recorded c i until (vk_put_hash now (rk_owners c) h db)"
proof -
  have "h \<noteq> []" using assms(3) by auto
  then show ?thesis
    using recorded_read(2) [OF assms(1,2)] assms(2,3) by (auto simp: recorded_def vk_put_hash_def vk_update_def vk_read_def)
qed

lemma recorded_elsewhere: "\<lbrakk>recorded c i until db; db' (rk_owners c) = db (rk_owners c)\<rbrakk> \<Longrightarrow> recorded c i until db'"
  by (simp add: recorded_def)

text \<open>The ways a finish ends.\<close>

lemma finish_cases:
  assumes "finish_owned now r m pin db = (a, db')"
  obtains (refused) "owned_state now r m db \<noteq> 1" "a = Some (owned_state now r m db)" "db' = db"
    | (removed) "owned_state now r m db = 1" "pin = []" "a = Some 1"
        "db' = vk_hdel now (or_owners r) (or_id r) (vk_hdel now (or_records r) (or_id r) db)"
    | (failed) "owned_state now r m db = 1" "pin \<noteq> []" "a = None"
        "vk_hincrby now (or_pins r) pin (- 1) (vk_hdel now (or_owners r) (or_id r) (vk_hdel now (or_records r) (or_id r) db)) = None"
        "db' = vk_hdel now (or_owners r) (or_id r) (vk_hdel now (or_records r) (or_id r) db)"
    | (unpinned) n db2 where "owned_state now r m db = 1" "pin \<noteq> []" "a = Some 1"
        "vk_hincrby now (or_pins r) pin (- 1) (vk_hdel now (or_owners r) (or_id r) (vk_hdel now (or_records r) (or_id r) db)) = Some (n, db2)"
        "db' = (if n \<le> 0 then vk_hdel now (or_pins r) pin db2 else db2)"
proof -
  let ?db1 = "vk_hdel now (or_owners r) (or_id r) (vk_hdel now (or_records r) (or_id r) db)"
  consider "owned_state now r m db \<noteq> 1" | "owned_state now r m db = 1" "pin = []" | "owned_state now r m db = 1" "pin \<noteq> []" by blast
  then show thesis
  proof cases
    case 1
    then have "a = Some (owned_state now r m db)" "db' = db" using assms by (auto simp: finish_owned_def Let_def)
    then show thesis using refused 1 by blast
  next
    case 2
    then have "a = Some 1" "db' = ?db1" using assms by (simp_all add: finish_owned_def Let_def)
    then show thesis using removed 2 by blast
  next
    case 3
    show thesis
    proof (cases "vk_hincrby now (or_pins r) pin (- 1) ?db1")
      case None
      then have "a = None" "db' = ?db1" using assms 3 by (simp_all add: finish_owned_def Let_def)
      then show thesis using failed 3 None by blast
    next
      case (Some p)
      obtain n db2 where p: "p = (n, db2)" by (cases p)
      then have "a = Some 1" "db' = (if n \<le> 0 then vk_hdel now (or_pins r) pin db2 else db2)"
        using assms 3 Some by (auto simp: finish_owned_def Let_def)
      then show thesis using unpinned 3 Some p by blast
    qed
  qed
qed

lemma hdel_cong: "db k = db' k \<Longrightarrow> vk_hdel now k f db k = vk_hdel now k f db' k"
  by (simp add: vk_hdel_def vk_put_hash_def vk_del_def vk_update_def vk_hash_def vk_read_def)

lemma finish_owners:
  assumes "records_apart c" "finish_owned now (record_of c j) m pin db = (a, db')"
  shows "db' = db \<and> a = Some (owned_state now (record_of c j) m db) \<and> a \<noteq> Some 1
    \<or> owned_state now (record_of c j) m db = 1 \<and> db' (rk_owners c) = vk_hdel now (rk_owners c) j db (rk_owners c)
      \<and> (a = Some 1 \<or> a = None)"
proof -
  note apart = records_apart_neq [OF assms(1)]
  have one: "vk_hdel now (rk_owners c) j (vk_hdel now (rk_records c) j db) (rk_owners c) = vk_hdel now (rk_owners c) j db (rk_owners c)"
    using apart by (intro hdel_cong [of "vk_hdel now (rk_records c) j db" "rk_owners c" db]) (simp add: hdel_elsewhere)
  from assms(2) show ?thesis
  proof (cases rule: finish_cases)
    case refused
    then show ?thesis by simp
  next
    case removed
    then show ?thesis by (simp add: record_of_def one)
  next
    case failed
    then show ?thesis by (simp add: record_of_def one)
  next
    case (unpinned n db2)
    then have "db2 (rk_owners c) = vk_hdel now (rk_owners c) j (vk_hdel now (rk_records c) j db) (rk_owners c)"
      using hincrby_elsewhere [OF unpinned(4), of "rk_owners c"] apart by (simp add: record_of_def)
    then show ?thesis using unpinned(1,3,5) apart by (simp add: record_of_def one hdel_elsewhere)
  qed
qed

lemma recorded_step:
  assumes "records_apart c" "recorded c i until db" "now < until" "until \<le> now + ttl" "0 < ttl"
    and "record_step c ttl now db call a db'" "\<forall>m pin. call = Finish i m pin \<longrightarrow> a = Some 0 \<or> a = Some (- 1)"
  shows "recorded c i until db'"
proof -
  note apart = records_apart_neq [OF assms(1)]
  have there: "map_of (vk_hash now db (rk_owners c)) i \<noteq> None"
    using recorded_read(1) [OF assms(2,3)] by (simp add: vk_hget_def)
  show ?thesis
    using assms(6)
  proof cases
    case (saving j w)
    from saving(2) show ?thesis
    proof (cases rule: save_cases)
      case (written db1)
      have "db1 (rk_owners c) = db (rk_owners c)" using db1_elsewhere [OF written(1)] apart by (simp add: record_of_def)
      then have h: "vk_hash now db1 (rk_owners c) = vk_hash now db (rk_owners c)" by (simp add: vk_hash_def vk_read_def)
      have "db' (rk_owners c) = Some \<lparr>vk_value = VHash (AList.update j (os_owner w) (vk_hash now db1 (rk_owners c))),
          vk_expires = Some (now + ttl)\<rparr>"
        by (rule written_keys(1) [OF assms(1,5) saving(4), where q = "os_pin w \<noteq> []" and body = "os_body w"]) (use written(3) saving(3) in \<open>simp add: record_of_def Let_def\<close>)
      then show ?thesis using assms(4) there by (auto simp: recorded_def h update_conv')
    qed (use assms(2) in simp_all)
  next
    case (standing j k)
    then show ?thesis using assms(2) by (simp add: standing_owned_def)
  next
    case (finishing j k pin)
    consider (same) "db' = db"
      | (gone) "db' (rk_owners c) = vk_hdel now (rk_owners c) j db (rk_owners c)" "a = Some 1 \<or> a = None"
      using finish_owners [OF assms(1) finishing(2)] by blast
    then show ?thesis
    proof cases
      case gone
      then have "j \<noteq> i" using assms(7) finishing(1) by auto
      then have "recorded c i until (vk_hdel now (rk_owners c) j db)"
        unfolding vk_hdel_def by (intro recorded_put [OF assms(2,3)]) (use there in \<open>simp add: delete_conv'\<close>)
      then show ?thesis using gone(1) by (rule recorded_elsewhere)
    qed (use assms(2) in simp)
  next
    case (claiming j k n a' body)
    consider "db' = db" | "db' = vk_set_px now (rk_taken c j) ''1'' ttl (vk_hset now (rk_owners c) j n db)"
      using claiming(3) by (auto simp: claim_owned_def Let_def record_of_def split: if_splits)
    then show ?thesis
    proof cases
      case 2
      have "recorded c i until (vk_hset now (rk_owners c) j n db)"
        unfolding vk_hset_def by (intro recorded_put [OF assms(2,3)]) (use there in \<open>simp add: update_conv'\<close>)
      then show ?thesis by (rule recorded_elsewhere) (use apart in \<open>simp add: 2 vk_set_px_def\<close>)
    qed (use assms(2) in simp)
  next
    case elsewhere
    then show ?thesis using assms(2) by (simp add: recorded_def channel_keys_def)
  qed
qed

inductive_cases record_save_cases: "record_step c ttl now db (Save i w) a db'"

lemma recorded_run:
  assumes "record_run c ttl now db events db'" "records_apart c" "0 < ttl" "recorded c i until db" "until \<le> now + ttl"
    and "\<forall>(u, call, a) \<in> set events. u < until \<and> (\<forall>m pin. call = Finish i m pin \<longrightarrow> a = Some 0 \<or> a = Some (- 1))"
  shows "\<forall>(u, call, a) \<in> set events. \<forall>w. call = Save i w \<and> os_must_be_new w \<longrightarrow> a = Some (- 1)"
  using assms(1,4-)
proof (induction rule: record_run.induct)
  case (r_called now t db call a db' events db'')
  have t: "t < until" "\<forall>m pin. call = Finish i m pin \<longrightarrow> a = Some 0 \<or> a = Some (- 1)" "until \<le> t + ttl"
    using r_called by auto
  have "owner_of t c db i \<noteq> None" by (rule recorded_read(1) [OF r_called.prems(1) t(1)])
  then have "owned_state t (record_of c i) m db \<noteq> 0" for m by (simp add: owned_state_def record_of_def Let_def)
  moreover have "owned_state t (record_of c i) m db \<in> {- 1, 0, 1}" for m by (simp add: owned_state_def Let_def)
  ultimately have states: "owned_state t (record_of c i) m db = - 1 \<or> owned_state t (record_of c i) m db = 1" for m
    by blast
  have "a = Some (- 1)" if "call = Save i w" "os_must_be_new w" for w
    using r_called.hyps(2) states [of "os_owner w"] that(2) unfolding that(1)
    by (elim record_save_cases) (auto simp: save_owned_def Let_def)
  moreover have "recorded c i until db'"
    using recorded_step [OF assms(2) r_called.prems(1) t(1,3) assms(3) r_called.hyps(2) t(2)] .
  ultimately show ?case using r_called t by auto
qed simp

end
