(* ===== verification/SeatPins.thy ===== *)
theory SeatPins
  imports OwnedRecords
begin

text \<open>
  The counts of the pins: under every pin stands how many records hold it. A record holds one pin all its
  life, \<open>pin_of\<close>, which every save and the finish of the record name; the theory shows that the counts of
  owned\_records.go then never drift, so a pin stays as long as one of its records is there.
\<close>

definition pin_count :: "(string \<Rightarrow> string) \<Rightarrow> (string \<times> string) list \<Rightarrow> string \<Rightarrow> nat" where
  "pin_count pin_of h m = length (filter (\<lambda>i. pin_of i = m) (map fst h))"

definition counts_ok :: "(string \<Rightarrow> string) \<Rightarrow> (string \<times> string) list \<Rightarrow> (string \<times> string) list \<Rightarrow> bool" where
  "counts_ok pin_of h p \<longleftrightarrow> distinct (map fst h)
    \<and> (\<forall>m. map_of p m = (if m = [] \<or> pin_count pin_of h m = 0 then None else Some (itoa (int (pin_count pin_of h m)))))
    \<and> (\<forall>m. m \<noteq> [] \<longrightarrow> in64 (int (pin_count pin_of h m)))"

text \<open>A hash is stored with an expiry, or reads as empty.\<close>

definition hash_stored :: "int \<Rightarrow> vk_db \<Rightarrow> string \<Rightarrow> (string \<times> string) list \<Rightarrow> int \<Rightarrow> bool" where
  "hash_stored now db k h e \<longleftrightarrow>
    (if h = [] then vk_read now db k = None
     else now < e \<and> db k = Some \<lparr>vk_value = VHash h, vk_expires = Some e\<rparr>)"

definition pins_ok :: "record_keys \<Rightarrow> (string \<Rightarrow> string) \<Rightarrow> int \<Rightarrow> vk_db \<Rightarrow> bool" where
  "pins_ok c pin_of now db \<longleftrightarrow>
    (\<exists>h p e. counts_ok pin_of h p \<and> hash_stored now db (rk_owners c) h e \<and> hash_stored now db (rk_pins c) p e)"

text \<open>What the clients keep to: a call names the pin of its record.\<close>

definition names_pin :: "(string \<Rightarrow> string) \<Rightarrow> record_call \<Rightarrow> bool" where
  "names_pin pin_of call = (case call of Save i w \<Rightarrow> os_pin w = pin_of i | Finish i m pin \<Rightarrow> pin = pin_of i | _ \<Rightarrow> True)"

section \<open>Counting\<close>

lemma pin_count_update:
  "pin_count pin_of (AList.update i v h) m
    = pin_count pin_of h m + (if i \<notin> fst ` set h \<and> pin_of i = m then 1 else 0)"
  by (simp add: pin_count_def update_keys)

lemma pin_count_delete:
  assumes "distinct (map fst h)" "i \<in> fst ` set h"
  shows "pin_count pin_of h m = pin_count pin_of (AList.delete i h) m + (if pin_of i = m then 1 else 0)"
  using assms
proof (induction h)
  case (Cons p h)
  have gone: "AList.delete i h = h" if "i \<notin> fst ` set h"
    using that by (simp add: AList.delete_id)
  then show ?case using Cons by (cases "fst p = i") (auto simp: pin_count_def AList.delete_eq)
qed simp

lemma counts_ok_empty: "counts_ok pin_of [] []"
  by (simp add: counts_ok_def pin_count_def in64_def int64_min_def int64_max_def)

lemma counts_ok_no_pins: "counts_ok pin_of [] p \<Longrightarrow> p = []"
  by (cases p) (auto simp: counts_ok_def pin_count_def split: if_splits dest: spec [where x = "fst (hd p)"])

lemma hash_stored_reads: "hash_stored now db k h e \<Longrightarrow> vk_hash now db k = h"
  by (auto simp: hash_stored_def vk_hash_def vk_read_def split: if_splits)

lemma pins_view:
  assumes "pins_ok c pin_of now db"
  shows "counts_ok pin_of (vk_hash now db (rk_owners c)) (vk_hash now db (rk_pins c))"
  using assms hash_stored_reads by (auto simp: pins_ok_def)

lemma vk_read_later: "vk_read now db k = None \<Longrightarrow> now \<le> t \<Longrightarrow> vk_read t db k = None"
  by (auto simp: vk_read_def split: option.splits if_splits)

lemma pins_ok_later:
  assumes "pins_ok c pin_of now db" "now \<le> t"
  shows "pins_ok c pin_of t db"
proof -
  obtain h p e where ok: "counts_ok pin_of h p" and s: "hash_stored now db (rk_owners c) h e" "hash_stored now db (rk_pins c) p e"
    using assms(1) by (auto simp: pins_ok_def)
  show ?thesis
  proof (cases "t < e")
    case True
    have "hash_stored t db k x e" if "hash_stored now db k x e" for k x
      using that True assms(2) vk_read_later by (auto simp: hash_stored_def)
    then show ?thesis unfolding pins_ok_def using ok s by blast
  next
    case False
    have "hash_stored t db k [] e" if "hash_stored now db k x e" for k x
      using that False assms(2) vk_read_later by (auto simp: hash_stored_def vk_read_def split: if_splits)
    then show ?thesis unfolding pins_ok_def using counts_ok_empty s by blast
  qed
qed

lemma hash_stored_elsewhere: "db' k = db k \<Longrightarrow> hash_stored now db' k h e \<longleftrightarrow> hash_stored now db k h e"
  by (simp add: hash_stored_def vk_read_def)

lemma pins_ok_elsewhere:
  "\<lbrakk>pins_ok c pin_of now db; db' (rk_owners c) = db (rk_owners c); db' (rk_pins c) = db (rk_pins c)\<rbrakk>
    \<Longrightarrow> pins_ok c pin_of now db'"
  unfolding pins_ok_def using hash_stored_elsewhere [of db' _ db] by blast

text \<open>An update of a stored hash keeps its expiry.\<close>

lemma hash_stored_put:
  assumes "hash_stored now db k h e" "h \<noteq> []"
  shows "hash_stored now (vk_put_hash now k h' db) k h' e"
  using assms by (simp add: hash_stored_def vk_put_hash_def vk_del_def vk_update_def vk_read_def)

lemma counts_ok_same:
  assumes "counts_ok pin_of h p" "i \<in> fst ` set h \<or> pin_of i = []"
  shows "counts_ok pin_of (AList.update i v h) p"
  using assms by (auto simp: counts_ok_def pin_count_update distinct_update)

lemma counts_ok_more:
  assumes "counts_ok pin_of h p" "i \<notin> fst ` set h" "pin_of i \<noteq> []" "n = int (pin_count pin_of h (pin_of i)) + 1" "in64 n"
  shows "counts_ok pin_of (AList.update i v h) (AList.update (pin_of i) (itoa n) p)"
  using assms by (auto simp: counts_ok_def pin_count_update distinct_update update_conv' add.commute)

lemma counts_ok_delete:
  assumes "counts_ok pin_of h p" "i \<in> fst ` set h" "pin_of i = []"
  shows "counts_ok pin_of (AList.delete i h) p"
proof -
  have d: "distinct (map fst h)" using assms(1) by (simp add: counts_ok_def)
  have "pin_count pin_of (AList.delete i h) m = pin_count pin_of h m" if "m \<noteq> []" for m
    using pin_count_delete [OF d assms(2), of pin_of m] that assms(3) by simp
  then show ?thesis using assms(1) by (simp add: counts_ok_def distinct_delete cong: if_cong)
qed

lemma counts_ok_less:
  assumes "counts_ok pin_of h p" "i \<in> fst ` set h" "pin_of i \<noteq> []"
    and "n = int (pin_count pin_of h (pin_of i)) - 1"
    and "\<And>m. map_of p' m = (if m = pin_of i then if n \<le> 0 then None else Some (itoa n) else map_of p m)"
  shows "counts_ok pin_of (AList.delete i h) p'"
proof -
  have d: "distinct (map fst h)" using assms(1) by (simp add: counts_ok_def)
  have c: "pin_count pin_of h m = pin_count pin_of (AList.delete i h) m + (if pin_of i = m then 1 else 0)" for m
    by (rule pin_count_delete [OF d assms(2)])
  have old: "map_of p m = (if m = [] \<or> pin_count pin_of h m = 0 then None else Some (itoa (int (pin_count pin_of h m))))"
    "m \<noteq> [] \<Longrightarrow> in64 (int (pin_count pin_of h m))" for m
    using assms(1) by (simp_all add: counts_ok_def)
  have "in64 (int (pin_count pin_of (AList.delete i h) m))" if "m \<noteq> []" for m
    using old(2) [OF that] c [of m] by (simp add: in64_def int64_min_def int64_max_def split: if_splits)
  moreover have "map_of p' m = (if m = [] \<or> pin_count pin_of (AList.delete i h) m = 0 then None
      else Some (itoa (int (pin_count pin_of (AList.delete i h) m))))" for m
    using assms(3-5) old(1) [of m] c [of m] by (cases "m = pin_of i") simp_all
  ultimately show ?thesis using d by (simp add: counts_ok_def distinct_delete)
qed

lemma hincrby_count:
  assumes "counts_ok pin_of h (vk_hash now db k)" "m \<noteq> []"
  shows "vk_hincrby now k m by_n db =
    (let n = int (pin_count pin_of h m) + by_n in if in64 n then Some (n, vk_hset now k m (itoa n) db) else None)"
proof -
  have "in64 (int (pin_count pin_of h m))" using assms by (simp add: counts_ok_def)
  then have "parse_int (itoa (int (pin_count pin_of h m))) = (int (pin_count pin_of h m), None)"
    by (intro parse_int_itoa) simp_all
  then show ?thesis
    using assms by (simp add: vk_hincrby_def vk_hget_def counts_ok_def Let_def)
qed

section \<open>The invariant\<close>

lemma state_there: "owned_state now (record_of c i) m db = 1 \<Longrightarrow> i \<in> fst ` set (vk_hash now db (rk_owners c))"
  by (auto simp: owned_state_def record_of_def vk_hget_def Let_def split: if_splits dest: map_of_SomeD intro: rev_image_eqI)

lemma state_absent: "owned_state now (record_of c i) m db = 0 \<Longrightarrow> i \<notin> fst ` set (vk_hash now db (rk_owners c))"
  by (auto simp: owned_state_def record_of_def vk_hget_def Let_def map_of_eq_None_iff split: if_splits)

lemma hash_stored_read:
  assumes "hash_stored now db k h e"
  shows "vk_read now db k = (if h = [] then None else Some (VHash h))"
proof (cases "h = []")
  case False
  then have "now < e" "db k = Some \<lparr>vk_value = VHash h, vk_expires = Some e\<rparr>"
    using assms by (simp_all add: hash_stored_def)
  then show ?thesis using False by (simp add: vk_read_def)
qed (use assms in \<open>simp add: hash_stored_def\<close>)

lemma pins_ok_save:
  assumes "records_apart c" "pins_ok c pin_of now db" "0 < os_ttl w" "set (os_pin_keys w) \<inter> channel_keys c = {}"
    and "save_owned now (record_of c i) w db = (a, db')" "os_pin w = pin_of i"
  shows "pins_ok c pin_of now db'"
  using assms(5)
proof (cases rule: save_cases)
  case (written db1)
  note apart = records_apart_neq [OF assms(1)]
  obtain h p e where ok: "counts_ok pin_of h p"
    and s: "hash_stored now db (rk_owners c) h e" "hash_stored now db (rk_pins c) p e"
    using assms(2) by (auto simp: pins_ok_def)
  have hp: "vk_hash now db (rk_owners c) = h" "vk_hash now db (rk_pins c) = p" using s by (simp_all add: hash_stored_reads)
  have "db1 (rk_owners c) = db (rk_owners c)" using db1_elsewhere [OF written(1)] apart by (simp add: record_of_def)
  then have h1: "vk_hash now db1 (rk_owners c) = h" by (simp add: vk_hash_def vk_read_def hp(1) [symmetric])
  note keys = written_keys [OF assms(1,3,4), where q = "os_pin w \<noteq> []" and body = "os_body w" and i = i and n = "os_owner w"
      and now = now and ?db1.0 = db1 and db' = db', unfolded h1]
  have db': "db' = (let db2 = vk_hset now (rk_owners c) i (os_owner w) (vk_hset now (rk_records c) i (os_body w) db1);
        db3 = pexpire_all now [rk_records c, rk_owners c, rk_pins c] (os_ttl w) db2
      in if os_pin w \<noteq> [] then pexpire_all now (os_pin_keys w) (os_ttl w) db3 else db3)"
    using written(3) by (simp only: record_of_def OwnedRecord.simps)
  have owners: "hash_stored now db' (rk_owners c) (AList.update i (os_owner w) h) (now + os_ttl w)"
    using keys(1) [OF db'] assms(3) by (cases h) (simp_all add: hash_stored_def)
  consider (more) n where "i \<notin> fst ` set h" "pin_of i \<noteq> []" "vk_hincrby now (rk_pins c) (pin_of i) 1 db = Some (n, db1)"
    | (same) "db1 = db" "i \<in> fst ` set h \<or> pin_of i = []"
    using written(1) state_there [of now c i "os_owner w" db] state_absent [of now c i "os_owner w" db]
    by (auto simp: hp assms(6) record_of_def)
  then show ?thesis
  proof cases
    case more
    then have n: "n = int (pin_count pin_of h (pin_of i)) + 1" "in64 n" "db1 = vk_hset now (rk_pins c) (pin_of i) (itoa n) db"
      using hincrby_count [of pin_of h now db "rk_pins c" "pin_of i" 1] ok by (auto simp: hp Let_def split: if_splits)
    then have read: "vk_read now db1 (rk_pins c) = Some (VHash (AList.update (pin_of i) (itoa n) p))" by (simp add: hset_read hp)
    have "hash_stored now db' (rk_pins c) (AList.update (pin_of i) (itoa n) p) (now + os_ttl w)"
      using keys(2) [OF db' read] assms(3) by (cases p) (simp_all add: hash_stored_def)
    then show ?thesis using counts_ok_more [OF ok more(1,2) n(1,2)] owners by (auto simp: pins_ok_def)
  next
    case same
    have "hash_stored now db' (rk_pins c) p (now + os_ttl w)"
    proof (cases "p = []")
      case True
      then show ?thesis using keys(3) [OF db'] hash_stored_read [OF s(2)] same(1) by (simp add: hash_stored_def)
    next
      case False
      then show ?thesis using keys(2) [OF db', of "VHash p"] hash_stored_read [OF s(2)] same(1) assms(3)
        by (simp add: hash_stored_def)
    qed
    then show ?thesis using counts_ok_same [OF ok same(2)] owners by (auto simp: pins_ok_def)
  qed
qed (use assms(2) in simp_all)

lemma pins_ok_finish:
  assumes "records_apart c" "pins_ok c pin_of now db" "finish_owned now (record_of c i) m (pin_of i) db = (a, db')"
  shows "pins_ok c pin_of now db'"
proof -
  note apart = records_apart_neq [OF assms(1)]
  obtain h p e where ok: "counts_ok pin_of h p"
    and s: "hash_stored now db (rk_owners c) h e" "hash_stored now db (rk_pins c) p e"
    using assms(2) by (auto simp: pins_ok_def)
  have hp: "vk_hash now db (rk_owners c) = h" "vk_hash now db (rk_pins c) = p" using s by (simp_all add: hash_stored_reads)
  define db1 where "db1 = vk_hdel now (rk_owners c) i (vk_hdel now (rk_records c) i db)"
  have "db1 (rk_owners c) = vk_hdel now (rk_owners c) i db (rk_owners c)"
    unfolding db1_def using apart by (intro hdel_cong [of "vk_hdel now (rk_records c) i db" "rk_owners c" db]) (simp add: hdel_elsewhere)
  then have owners: "db1 (rk_owners c) = vk_put_hash now (rk_owners c) (AList.delete i h) db (rk_owners c)"
    by (simp add: vk_hdel_def hp)
  have pins: "db1 (rk_pins c) = db (rk_pins c)" using apart by (simp add: db1_def hdel_elsewhere)
  have gone: "hash_stored now x (rk_owners c) (AList.delete i h) e"
    if "i \<in> fst ` set h" "x (rk_owners c) = db1 (rk_owners c)" for x
  proof -
    have "h \<noteq> []" using that(1) by auto
    from hash_stored_put [OF s(1) this, of "AList.delete i h"] show ?thesis
      using hash_stored_elsewhere [of x "rk_owners c" "vk_put_hash now (rk_owners c) (AList.delete i h) db"] that(2) owners by simp
  qed
  from assms(3) show ?thesis
  proof (cases rule: finish_cases)
    case refused
    then show ?thesis using assms(2) by simp
  next
    case removed
    then have i: "i \<in> fst ` set h" using state_there hp(1) by metis
    have "db' = db1" using removed(4) by (simp add: db1_def record_of_def)
    then show ?thesis
      using gone [OF i] counts_ok_delete [OF ok i removed(2)] s(2) hash_stored_elsewhere [of db1 "rk_pins c" db] pins
      unfolding pins_ok_def by blast
  next
    case failed
    then have i: "i \<in> fst ` set h" using state_there hp(1) by metis
    have one: "vk_hash now db1 (rk_pins c) = p" by (simp add: vk_hash_def vk_read_def pins hp(2) [symmetric])
    have "pin_count pin_of h (pin_of i) \<noteq> 0" using i by (auto simp: pin_count_def filter_empty_conv)
    moreover have "in64 (int (pin_count pin_of h (pin_of i)))" using ok failed(2) by (simp add: counts_ok_def)
    ultimately have "in64 (int (pin_count pin_of h (pin_of i)) + (- 1))"
      by (simp add: in64_def int64_min_def int64_max_def)
    then have "vk_hincrby now (rk_pins c) (pin_of i) (- 1) db1 \<noteq> None"
      using hincrby_count [of pin_of h now db1 "rk_pins c" "pin_of i" "- 1"] ok failed(2) by (simp add: one Let_def)
    then show ?thesis using failed(4) by (simp add: db1_def record_of_def)
  next
    case (unpinned n db2)
    then have i: "i \<in> fst ` set h" using state_there hp(1) by metis
    have one: "vk_hash now db1 (rk_pins c) = p" by (simp add: vk_hash_def vk_read_def pins hp(2) [symmetric])
    have inc: "vk_hincrby now (rk_pins c) (pin_of i) (- 1) db1 = Some (n, db2)"
      using unpinned(4) by (simp add: db1_def record_of_def)
    then have n: "n = int (pin_count pin_of h (pin_of i)) - 1" "db2 = vk_hset now (rk_pins c) (pin_of i) (itoa n) db1"
      using hincrby_count [of pin_of h now db1 "rk_pins c" "pin_of i" "- 1"] ok unpinned(2)
      by (auto simp: one Let_def split: if_splits)
    define p' where "p' = (if n \<le> 0 then AList.delete (pin_of i) (AList.update (pin_of i) (itoa n) p)
      else AList.update (pin_of i) (itoa n) p)"
    have "map_of p' k = (if k = pin_of i then if n \<le> 0 then None else Some (itoa n) else map_of p k)" for k
      by (simp add: p'_def delete_conv' update_conv')
    then have counts: "counts_ok pin_of (AList.delete i h) p'" by (rule counts_ok_less [OF ok i unpinned(2) n(1)])
    have "p \<noteq> []"
    proof
      assume "p = []"
      then have "pin_count pin_of h (pin_of i) = 0" using ok unpinned(2) by (auto simp: counts_ok_def split: if_splits)
      then show False using i by (auto simp: pin_count_def filter_empty_conv)
    qed
    then have s1: "hash_stored now db1 (rk_pins c) p e" "p \<noteq> []"
      using s(2) hash_stored_elsewhere [of db1 "rk_pins c" db] pins by simp_all
    have up: "AList.update (pin_of i) (itoa n) p \<noteq> []" using s1(2) by (cases p) auto
    have s2: "hash_stored now db2 (rk_pins c) (AList.update (pin_of i) (itoa n) p) e"
      using hash_stored_put [OF s1, of "AList.update (pin_of i) (itoa n) p"] by (simp add: n(2) vk_hset_def one)
    have p': "hash_stored now db' (rk_pins c) p' e"
    proof (cases "n \<le> 0")
      case True
      then show ?thesis using hash_stored_put [OF s2 up, of p'] unpinned(5) hash_stored_reads [OF s2]
        by (simp add: vk_hdel_def record_of_def p'_def)
    next
      case False
      then show ?thesis using s2 unpinned(5) by (simp add: p'_def record_of_def)
    qed
    have "db' (rk_owners c) = db1 (rk_owners c)"
      using unpinned(5) apart by (simp add: n(2) record_of_def hdel_elsewhere hset_elsewhere)
    then show ?thesis using gone [OF i, of db'] counts p' unfolding pins_ok_def by blast
  qed
qed

lemma pins_ok_step:
  assumes "records_apart c" "pins_ok c pin_of now db" "0 < ttl" "record_step c ttl now db call a db'" "names_pin pin_of call"
  shows "pins_ok c pin_of now db'"
  using assms(4)
proof cases
  case (saving i w)
  then show ?thesis using pins_ok_save [OF assms(1,2), of w i a db'] assms(3,5) by (simp add: names_pin_def)
next
  case (standing i m)
  then show ?thesis using assms(2) by (simp add: standing_owned_def)
next
  case (finishing i m pin)
  then show ?thesis using pins_ok_finish [OF assms(1,2)] assms(5) by (simp add: names_pin_def)
next
  case (claiming i m n a' body)
  note apart = records_apart_neq [OF assms(1)]
  consider "db' = db" | (won) "owner_of now c db i = Some m" "db' = vk_set_px now (rk_taken c i) ''1'' ttl (vk_hset now (rk_owners c) i n db)"
    using claiming(3) by (auto simp: claim_owned_def Let_def record_of_def split: if_splits)
  then show ?thesis
  proof cases
    case won
    obtain h p e where ok: "counts_ok pin_of h p"
      and s: "hash_stored now db (rk_owners c) h e" "hash_stored now db (rk_pins c) p e"
      using assms(2) by (auto simp: pins_ok_def)
    have h: "vk_hash now db (rk_owners c) = h" using s by (simp add: hash_stored_reads)
    have i: "i \<in> fst ` set h" using won(1) by (auto simp: vk_hget_def h dest: map_of_SomeD intro: rev_image_eqI)
    then have "h \<noteq> []" by auto
    from hash_stored_put [OF s(1) this] have "hash_stored now (vk_hset now (rk_owners c) i n db) (rk_owners c) (AList.update i n h) e"
      by (simp add: vk_hset_def h)
    then have "hash_stored now db' (rk_owners c) (AList.update i n h) e"
      using hash_stored_elsewhere [of db' "rk_owners c" "vk_hset now (rk_owners c) i n db"] won(2) apart by (simp add: vk_set_px_def)
    moreover have "hash_stored now db' (rk_pins c) p e"
      using s(2) hash_stored_elsewhere [of db' "rk_pins c" db] won(2) apart by (simp add: vk_set_px_def hset_elsewhere)
    ultimately show ?thesis using counts_ok_same [OF ok disjI1 [OF i]] unfolding pins_ok_def by blast
  qed (use assms(2) in simp)
next
  case elsewhere
  then show ?thesis using pins_ok_elsewhere [OF assms(2)] by (simp add: channel_keys_def)
qed

lemma pins_ok_run:
  assumes "record_run c ttl now db events db'" "records_apart c" "0 < ttl" "pins_ok c pin_of now db"
    and "\<forall>(u, call, a) \<in> set events. names_pin pin_of call \<and> u \<le> at_last" "now \<le> at_last"
  shows "pins_ok c pin_of at_last db'"
  using assms(1,4-)
proof (induction rule: record_run.induct)
  case (r_quiet now db)
  then show ?case using pins_ok_later by blast
next
  case (r_called now t db call a db' events db'')
  have "pins_ok c pin_of t db'"
    using pins_ok_step [OF assms(2) pins_ok_later [OF r_called.prems(1) r_called.hyps(1)] assms(3) r_called.hyps(2)]
      r_called.prems(2) by simp
  then show ?case using r_called by simp
qed

end
