(* ===== verification/Seats.thy ===== *)
theory Seats
  imports ValkeyDb
begin

text \<open>
  The leased first-come line of pkg/valkey/fifo\_seats.go: two sorted sets, the order of the line and the
  leases of its seats, and a hash of pinned tickets. The scripts read the clock of the server, so the time
  of a call is an argument. Pinning is done elsewhere; here the hash may change between any two calls.
\<close>

record FIFOSeats =
  fs_order :: string
  fs_leases :: string
  fs_pins :: string

record SeatRequest =
  sr_ticket :: string
  sr_lease_ms :: int
  sr_capacity :: int
  sr_pinned_ms :: int

abbreviation order_of :: "int \<Rightarrow> FIFOSeats \<Rightarrow> vk_db \<Rightarrow> (string \<times> int) list" where
  "order_of now s db \<equiv> vk_zset now db (fs_order s)"

abbreviation leases_of :: "int \<Rightarrow> FIFOSeats \<Rightarrow> vk_db \<Rightarrow> (string \<times> int) list" where
  "leases_of now s db \<equiv> vk_zset now db (fs_leases s)"

abbreviation pinned :: "int \<Rightarrow> FIFOSeats \<Rightarrow> vk_db \<Rightarrow> string \<Rightarrow> bool" where
  "pinned now s db ticket \<equiv> vk_hget now db (fs_pins s) ticket \<noteq> None"

section \<open>The scripts\<close>

definition remove_seat :: "int \<Rightarrow> FIFOSeats \<Rightarrow> string \<Rightarrow> vk_db \<Rightarrow> vk_db" where
  "remove_seat now s ticket db = vk_zrem now (fs_leases s) ticket (vk_zrem now (fs_order s) ticket db)"

fun reap_lapsed :: "int \<Rightarrow> FIFOSeats \<Rightarrow> string list \<Rightarrow> vk_db \<Rightarrow> vk_db" where
  "reap_lapsed now s [] db = db"
| "reap_lapsed now s (ticket # tickets) db =
    reap_lapsed now s tickets (if pinned now s db ticket then db else remove_seat now s ticket db)"

definition fifoSeatReap :: "int \<Rightarrow> FIFOSeats \<Rightarrow> vk_db \<Rightarrow> vk_db" where
  "fifoSeatReap now s db = reap_lapsed now s (vk_zupto now db (fs_leases s) now) db"

definition seat_ttl :: "int \<Rightarrow> FIFOSeats \<Rightarrow> SeatRequest \<Rightarrow> vk_db \<Rightarrow> int" where
  "seat_ttl now s r db =
    (let ttl = sr_lease_ms r * 2 in if vk_exists now db (fs_pins s) then max ttl (sr_pinned_ms r) else ttl)"

definition hold :: "int \<Rightarrow> FIFOSeats \<Rightarrow> SeatRequest \<Rightarrow> vk_db \<Rightarrow> int option \<times> vk_db" where
  "hold now s r db0 =
    (let db1 = vk_zadd now (fs_leases s) (now + sr_lease_ms r) (sr_ticket r) db0; ttl = seat_ttl now s r db1;
         db2 = vk_pexpire now (fs_leases s) ttl (vk_pexpire now (fs_order s) ttl db1)
     in (map_option int (zrank (sr_ticket r) (order_of now s db2)), db2))"

text \<open>An answer is the place in line; None is the nil of a rank that does not exist.\<close>

definition seat_enter :: "int \<Rightarrow> FIFOSeats \<Rightarrow> SeatRequest \<Rightarrow> vk_db \<Rightarrow> int option \<times> vk_db" where
  "seat_enter now s r db0 =
    (let db = fifoSeatReap now s db0 in
     if vk_zscore now db (fs_order s) (sr_ticket r) \<noteq> None then hold now s r db
     else if int (length (order_of now s db)) \<ge> sr_capacity r then (Some (- 1), db)
     else let seq = (if order_of now s db = [] then 1 else snd (last (order_of now s db)) + 1)
          in hold now s r (vk_zadd now (fs_order s) seq (sr_ticket r) db))"

definition seat_touch :: "int \<Rightarrow> FIFOSeats \<Rightarrow> SeatRequest \<Rightarrow> vk_db \<Rightarrow> int option \<times> vk_db" where
  "seat_touch now s r db0 =
    (let db = fifoSeatReap now s db0 in
     if vk_zscore now db (fs_order s) (sr_ticket r) = None then (Some (- 1), db) else hold now s r db)"

definition seat_leave :: "int \<Rightarrow> FIFOSeats \<Rightarrow> string \<Rightarrow> vk_db \<Rightarrow> vk_db" where
  "seat_leave now s ticket db = (if pinned now s db ticket then db else remove_seat now s ticket db)"

section \<open>What is stored\<close>

text \<open>
  The invariant of a line: the two keys come and go together, with one expiry; both list the same tickets,
  each once; and the scores of the order ascend.
\<close>

definition keys_apart :: "FIFOSeats \<Rightarrow> bool" where
  "keys_apart s \<longleftrightarrow> distinct [fs_order s, fs_leases s, fs_pins s]"

definition line_stored :: "FIFOSeats \<Rightarrow> vk_db \<Rightarrow> (string \<times> int) list \<Rightarrow> (string \<times> int) list \<Rightarrow> int \<Rightarrow> bool" where
  "line_stored s db z l t \<longleftrightarrow>
    db (fs_order s) = Some \<lparr>vk_value = VSorted z, vk_expires = Some t\<rparr>
    \<and> db (fs_leases s) = Some \<lparr>vk_value = VSorted l, vk_expires = Some t\<rparr>"

definition well_ordered :: "(string \<times> int) list \<Rightarrow> (string \<times> int) list \<Rightarrow> bool" where
  "well_ordered z l \<longleftrightarrow> sorted_wrt (\<lambda>p q. snd p < snd q) z \<and> distinct (map fst z) \<and> distinct (map fst l)
    \<and> fst ` set z = fst ` set l"

definition line_ok :: "FIFOSeats \<Rightarrow> vk_db \<Rightarrow> bool" where
  "line_ok s db \<longleftrightarrow>
    db (fs_order s) = None \<and> db (fs_leases s) = None
    \<or> (\<exists>z l t. line_stored s db z l t \<and> z \<noteq> [] \<and> well_ordered z l)"

text \<open>The line as an abstract state: its seats in order, with the score and the end of the lease of each.\<close>

definition seats_at :: "int \<Rightarrow> FIFOSeats \<Rightarrow> vk_db \<Rightarrow> string list" where
  "seats_at now s db = map fst (order_of now s db)"

definition lease_at :: "int \<Rightarrow> FIFOSeats \<Rightarrow> vk_db \<Rightarrow> string \<Rightarrow> int option" where
  "lease_at now s db = map_of (leases_of now s db)"

definition stays :: "int \<Rightarrow> FIFOSeats \<Rightarrow> vk_db \<Rightarrow> string \<Rightarrow> bool" where
  "stays now s db m \<longleftrightarrow> pinned now s db m \<or> (case lease_at now s db m of Some e \<Rightarrow> now < e | None \<Rightarrow> True)"

definition kept :: "int \<Rightarrow> FIFOSeats \<Rightarrow> vk_db \<Rightarrow> (string \<times> int) list \<Rightarrow> (string \<times> int) list" where
  "kept now s db z = filter (\<lambda>p. stays now s db (fst p)) z"

section \<open>Removing seats\<close>

lemma keys_apart_neq:
  assumes "keys_apart s"
  shows "fs_order s \<noteq> fs_leases s" "fs_leases s \<noteq> fs_order s" "fs_pins s \<noteq> fs_order s" "fs_pins s \<noteq> fs_leases s"
    "fs_order s \<noteq> fs_pins s" "fs_leases s \<noteq> fs_pins s"
  using assms by (auto simp: keys_apart_def)

lemma remove_seat_reads:
  assumes "keys_apart s"
  shows "order_of now s (remove_seat now s m db) = zrem m (order_of now s db)"
    and "leases_of now s (remove_seat now s m db) = zrem m (leases_of now s db)"
    and "vk_hash t (remove_seat now s m db) (fs_pins s) = vk_hash t db (fs_pins s)"
    and "vk_exists t (remove_seat now s m db) (fs_pins s) = vk_exists t db (fs_pins s)"
  using keys_apart_neq [OF assms] by (simp_all add: remove_seat_def vk_zrem_def vk_simps)

lemma remove_seat_pinned:
  "keys_apart s \<Longrightarrow> vk_hget t (remove_seat now s m db) (fs_pins s) k = vk_hget t db (fs_pins s) k"
  by (simp add: vk_hget_def remove_seat_reads)

lemma reap_lapsed_reads:
  assumes "keys_apart s"
  shows "order_of now s (reap_lapsed now s ms db)
      = filter (\<lambda>p. fst p \<notin> set ms \<or> pinned now s db (fst p)) (order_of now s db)
    \<and> leases_of now s (reap_lapsed now s ms db)
      = filter (\<lambda>p. fst p \<notin> set ms \<or> pinned now s db (fst p)) (leases_of now s db)
    \<and> vk_hash t (reap_lapsed now s ms db) (fs_pins s) = vk_hash t db (fs_pins s)
    \<and> vk_exists t (reap_lapsed now s ms db) (fs_pins s) = vk_exists t db (fs_pins s)"
proof (induction ms arbitrary: db)
  case (Cons m ms)
  show ?case
  proof (cases "pinned now s db m")
    case True
    then have "(fst p \<notin> set ms \<or> pinned now s db (fst p)) = (fst p \<notin> set (m # ms) \<or> pinned now s db (fst p))"
      for p :: "string \<times> int" by auto
    then show ?thesis using Cons.IH [of db] True by simp
  next
    case False
    then show ?thesis using Cons.IH [of "remove_seat now s m db"]
      by (auto simp: remove_seat_reads [OF assms] remove_seat_pinned [OF assms] zrem_def intro!: filter_cong)
  qed
qed simp

lemma lapsed_iff:
  assumes "distinct (map fst (leases_of now s db))"
  shows "m \<in> set (vk_zupto now db (fs_leases s) now) \<longleftrightarrow> (\<exists>e. lease_at now s db m = Some e \<and> e \<le> now)"
  using assms by (auto simp: vk_zupto_def lease_at_def map_of_eq_Some_iff) (force simp: image_iff)

lemma reap_reads:
  assumes "keys_apart s" "distinct (map fst (leases_of now s db))"
  shows "order_of now s (fifoSeatReap now s db) = kept now s db (order_of now s db)"
    and "leases_of now s (fifoSeatReap now s db) = kept now s db (leases_of now s db)"
    and "vk_hash t (fifoSeatReap now s db) (fs_pins s) = vk_hash t db (fs_pins s)"
    and "vk_exists t (fifoSeatReap now s db) (fs_pins s) = vk_exists t db (fs_pins s)"
proof -
  have "(m \<notin> set (vk_zupto now db (fs_leases s) now) \<or> pinned now s db m) = stays now s db m" for m
    by (auto simp: lapsed_iff [OF assms(2)] stays_def split: option.split)
  then show "order_of now s (fifoSeatReap now s db) = kept now s db (order_of now s db)"
    "leases_of now s (fifoSeatReap now s db) = kept now s db (leases_of now s db)"
    "vk_hash t (fifoSeatReap now s db) (fs_pins s) = vk_hash t db (fs_pins s)"
    "vk_exists t (fifoSeatReap now s db) (fs_pins s) = vk_exists t db (fs_pins s)"
    using reap_lapsed_reads [OF assms(1), of now "vk_zupto now db (fs_leases s) now" db t]
    by (simp_all add: fifoSeatReap_def kept_def)
qed

section \<open>The invariant\<close>

lemma line_view:
  assumes "line_ok s db"
  shows "order_of now s db = [] \<and> leases_of now s db = []
    \<or> (\<exists>t. now < t \<and> order_of now s db \<noteq> [] \<and> line_stored s db (order_of now s db) (leases_of now s db) t)"
    and "well_ordered (order_of now s db) (leases_of now s db)"
proof -
  have "order_of now s db = [] \<and> leases_of now s db = [] \<or> (\<exists>t. now < t \<and> order_of now s db \<noteq> []
    \<and> line_stored s db (order_of now s db) (leases_of now s db) t
    \<and> well_ordered (order_of now s db) (leases_of now s db))"
    using assms unfolding line_ok_def
  proof (elim disjE exE conjE)
    fix z l t
    assume "line_stored s db z l t" "z \<noteq> []" "well_ordered z l"
    then show ?thesis by (cases "t \<le> now") (simp_all add: line_stored_def vk_zset_def vk_read_def)
  qed (simp add: vk_zset_def vk_read_def)
  moreover have "well_ordered [] []" by (simp add: well_ordered_def)
  ultimately show "order_of now s db = [] \<and> leases_of now s db = []
      \<or> (\<exists>t. now < t \<and> order_of now s db \<noteq> [] \<and> line_stored s db (order_of now s db) (leases_of now s db) t)"
    "well_ordered (order_of now s db) (leases_of now s db)"
    by auto
qed

lemma well_ordered_zrem: "well_ordered z l \<Longrightarrow> well_ordered (zrem m z) (zrem m l)"
  by (auto simp: well_ordered_def zrem_def sorted_wrt_filter distinct_map_filter)

lemma line_ok_put:
  assumes "keys_apart s" "line_stored s db z l t" "now < t" "well_ordered z' l'"
  shows "line_ok s (vk_put_zset now (fs_leases s) l' (vk_put_zset now (fs_order s) z' db))"
proof -
  have "z' = [] \<longleftrightarrow> l' = []" using assms(4) by (auto simp: well_ordered_def)
  then show ?thesis
    using assms keys_apart_neq [OF assms(1)]
    by (auto simp: line_ok_def line_stored_def vk_put_zset_def vk_del_def vk_update_def vk_read_def)
qed

lemma line_stored_put:
  assumes "keys_apart s" "line_stored s db z l t" "now < t" "z' \<noteq> []" "l' \<noteq> []"
  shows "line_stored s (vk_put_zset now (fs_leases s) l' (vk_put_zset now (fs_order s) z' db)) z' l' t"
  using assms keys_apart_neq [OF assms(1)]
  by (simp add: line_stored_def vk_put_zset_def vk_update_def vk_read_def)

lemma remove_seat_puts:
  assumes "keys_apart s"
  shows "remove_seat now s m db = vk_put_zset now (fs_leases s) (zrem m (leases_of now s db))
      (vk_put_zset now (fs_order s) (zrem m (order_of now s db)) db)"
  using keys_apart_neq [OF assms] by (simp add: remove_seat_def vk_zrem_def vk_simps)

lemma line_ok_remove:
  assumes "keys_apart s" "line_ok s db"
  shows "line_ok s (remove_seat now s m db)"
proof -
  note apart = keys_apart_neq [OF assms(1)]
  note remove = remove_seat_puts [OF assms(1)]
  show ?thesis
    using line_view(1) [OF assms(2), of now]
  proof
    assume "order_of now s db = [] \<and> leases_of now s db = []"
    then show ?thesis using apart by (simp add: remove zrem_def vk_put_zset_def vk_del_def line_ok_def)
  next
    assume "\<exists>t. now < t \<and> order_of now s db \<noteq> [] \<and> line_stored s db (order_of now s db) (leases_of now s db) t"
    then show ?thesis
      using line_ok_put [OF assms(1) _ _ well_ordered_zrem [OF line_view(2) [OF assms(2)]]] by (auto simp: remove)
  qed
qed

lemma line_ok_reap: "\<lbrakk>keys_apart s; line_ok s db\<rbrakk> \<Longrightarrow> line_ok s (fifoSeatReap now s db)"
proof -
  have "keys_apart s \<Longrightarrow> line_ok s db \<Longrightarrow> line_ok s (reap_lapsed now s ms db)" for ms
    by (induction ms arbitrary: db) (simp_all add: line_ok_remove)
  then show "\<lbrakk>keys_apart s; line_ok s db\<rbrakk> \<Longrightarrow> line_ok s (fifoSeatReap now s db)" by (simp add: fifoSeatReap_def)
qed

section \<open>Calls\<close>

lemma hold_effect:
  assumes "keys_apart s" "order_of now s db \<noteq> []" "sr_ticket r \<in> fst ` set (order_of now s db)" "0 < sr_lease_ms r"
    and "hold now s r db = (a, db')"
  shows "\<exists>t. now + 2 * sr_lease_ms r \<le> t
    \<and> line_stored s db' (order_of now s db) (zadd (now + sr_lease_ms r) (sr_ticket r) (leases_of now s db)) t"
    and "a = map_option int (zrank (sr_ticket r) (order_of now s db))" "a \<noteq> None"
proof -
  let ?l = "zadd (now + sr_lease_ms r) (sr_ticket r) (leases_of now s db)"
  define db1 where "db1 = vk_put_zset now (fs_leases s) ?l db"
  define ttl where "ttl = seat_ttl now s r db1"
  note apart = keys_apart_neq [OF assms(1)]
  have ttl: "2 * sr_lease_ms r \<le> ttl" by (simp add: ttl_def seat_ttl_def Let_def max_def)
  have db': "db' = vk_pexpire now (fs_leases s) ttl (vk_pexpire now (fs_order s) ttl db1)"
    and a: "a = map_option int (zrank (sr_ticket r) (order_of now s db'))"
    using assms(5) by (auto simp: hold_def vk_zadd_def Let_def db1_def ttl_def)
  have "?l \<noteq> []" by (simp add: zadd_def Let_def)
  then have "vk_read now db1 (fs_leases s) = Some (VSorted ?l)"
    and "vk_read now db1 (fs_order s) = Some (VSorted (order_of now s db))"
    using apart vk_zset_read [OF refl assms(2)] by (simp_all add: db1_def vk_put_zset_def vk_simps)
  then have "line_stored s db' (order_of now s db) ?l (now + ttl)"
    using apart assms(4) ttl by (simp add: db' line_stored_def vk_pexpire_stored vk_pexpire_elsewhere vk_simps)
  then show "\<exists>t. now + 2 * sr_lease_ms r \<le> t \<and> line_stored s db' (order_of now s db) ?l t"
    using ttl by (intro exI [of _ "now + ttl"]) simp
  have "order_of now s db' = order_of now s db"
    using apart assms(4) ttl by (simp add: db' db1_def vk_simps)
  then show "a = map_option int (zrank (sr_ticket r) (order_of now s db))" using a by simp
  then show "a \<noteq> None" using assms(3) by (simp add: zrank_None)
qed

lemma fst_set_kept: "fst ` set (kept now s db z) = {m \<in> fst ` set z. stays now s db m}"
  by (auto simp: kept_def)

lemma kept_well_ordered: "well_ordered z l \<Longrightarrow> well_ordered (kept now s db z) (kept now s db l)"
  unfolding well_ordered_def fst_set_kept by (simp add: kept_def sorted_wrt_filter distinct_map_filter)

lemma well_ordered_hold: "\<lbrakk>well_ordered z l; m \<in> fst ` set z\<rbrakk> \<Longrightarrow> well_ordered z (zadd e m l)"
  by (auto simp: well_ordered_def distinct_zadd)

lemma well_ordered_join:
  assumes "well_ordered z l" "m \<notin> fst ` set z" "\<forall>p \<in> set z. snd p < seq"
  shows "well_ordered (z @ [(m, seq)]) (zadd e m l)"
  using assms by (auto simp: well_ordered_def sorted_wrt_append distinct_zadd)

definition joined :: "(string \<times> int) list \<Rightarrow> string \<Rightarrow> (string \<times> int) list" where
  "joined z m =
    (if m \<in> fst ` set z then z else z @ [(m, if z = [] then 1 else snd (last z) + 1)])"

lemma below_next_score:
  assumes "sorted_wrt (\<lambda>p q. snd p < snd q) (z :: (string \<times> int) list)" "p \<in> set z"
  shows "snd p < snd (last z) + 1"
  using assms by (cases z rule: rev_cases) (fastforce simp: sorted_wrt_append)+

lemma well_ordered_joined:
  assumes "well_ordered z l"
  shows "well_ordered (joined z m) (zadd e m l)"
proof (cases "m \<in> fst ` set z")
  case False
  have "\<forall>p \<in> set z. snd p < (if z = [] then 1 else snd (last z) + 1)"
    using assms below_next_score by (auto simp: well_ordered_def)
  from well_ordered_join [OF assms False this] show ?thesis using False by (simp add: joined_def)
qed (simp add: joined_def well_ordered_hold [OF assms])

lemma joined_nonempty [simp]: "joined z m \<noteq> []" "m \<in> fst ` set (joined z m)"
  by (auto simp: joined_def)

text \<open>A call of a holder, and one that is refused.\<close>

definition held_after :: "int \<Rightarrow> FIFOSeats \<Rightarrow> SeatRequest \<Rightarrow> vk_db \<Rightarrow> int option \<Rightarrow> vk_db \<Rightarrow> (string \<times> int) list \<Rightarrow> bool" where
  "held_after now s r db a db' z \<longleftrightarrow>
    (\<exists>t l. now + 2 * sr_lease_ms r \<le> t \<and> l = zadd (now + sr_lease_ms r) (sr_ticket r) (kept now s db (leases_of now s db))
      \<and> line_stored s db' z l t \<and> well_ordered z l)
    \<and> z \<noteq> [] \<and> a = map_option int (zrank (sr_ticket r) z) \<and> a \<noteq> None"

lemma seat_enter_cases:
  assumes "keys_apart s" "line_ok s db" "0 < sr_lease_ms r" "seat_enter now s r db = (a, db')"
  defines "z \<equiv> kept now s db (order_of now s db)"
  shows "sr_ticket r \<notin> fst ` set z \<and> int (length z) \<ge> sr_capacity r \<and> a = Some (- 1) \<and> db' = fifoSeatReap now s db
    \<or> held_after now s r db a db' (joined z (sr_ticket r))
      \<and> (sr_ticket r \<in> fst ` set z \<or> int (length z) < sr_capacity r)"
proof -
  let ?m = "sr_ticket r"
  note apart = keys_apart_neq [OF assms(1)]
  have ok: "well_ordered (order_of now s db) (leases_of now s db)" using line_view(2) [OF assms(2)] .
  note reads = reap_reads [OF assms(1), of now db, OF ok [unfolded well_ordered_def, THEN conjunct2, THEN conjunct2, THEN conjunct1]]
  define db1 where "db1 = fifoSeatReap now s db"
  have z: "order_of now s db1 = z" "leases_of now s db1 = kept now s db (leases_of now s db)"
    using reads by (simp_all add: db1_def z_def)
  have wo: "well_ordered z (leases_of now s db1)" using kept_well_ordered [OF ok] by (simp add: z z_def)
  have there: "vk_zscore now db1 (fs_order s) ?m \<noteq> None \<longleftrightarrow> ?m \<in> fst ` set z"
    by (simp add: vk_zscore_def z map_of_eq_None_iff)
  define db2 where "db2 = (if ?m \<in> fst ` set z then db1
    else vk_zadd now (fs_order s) (if z = [] then 1 else snd (last z) + 1) ?m db1)"
  have "zadd (if z = [] then 1 else snd (last z) + 1) ?m z = joined z ?m" if "?m \<notin> fst ` set z"
    using that below_next_score [of z] wo by (simp add: joined_def well_ordered_def zadd_last)
  then have line: "order_of now s db2 = joined z ?m" "leases_of now s db2 = leases_of now s db1"
    using apart by (auto simp: db2_def vk_zadd_def vk_simps z joined_def)
  consider (full) "?m \<notin> fst ` set z" "int (length z) \<ge> sr_capacity r" "a = Some (- 1)" "db' = db1"
    | (held) "hold now s r db2 = (a, db')" "?m \<in> fst ` set z \<or> int (length z) < sr_capacity r"
    using assms(4) there by (auto simp: seat_enter_def Let_def db1_def [symmetric] z db2_def split: if_splits)
  then show ?thesis
  proof cases
    case held
    then have "held_after now s r db a db' (joined z ?m)"
      using hold_effect [OF assms(1) _ _ assms(3) held(1)] well_ordered_joined [OF wo]
      by (simp add: held_after_def line z(2))
    then show ?thesis using held(2) by blast
  qed (simp add: db1_def)
qed

lemma seat_touch_cases:
  assumes "keys_apart s" "line_ok s db" "0 < sr_lease_ms r" "seat_touch now s r db = (a, db')"
  defines "z \<equiv> kept now s db (order_of now s db)"
  shows "sr_ticket r \<notin> fst ` set z \<and> a = Some (- 1) \<and> db' = fifoSeatReap now s db
    \<or> sr_ticket r \<in> fst ` set z \<and> held_after now s r db a db' z"
proof -
  have ok: "well_ordered (order_of now s db) (leases_of now s db)" using line_view(2) [OF assms(2)] .
  note reads = reap_reads [OF assms(1), of now db, OF ok [unfolded well_ordered_def, THEN conjunct2, THEN conjunct2, THEN conjunct1]]
  define db1 where "db1 = fifoSeatReap now s db"
  have z: "order_of now s db1 = z" "leases_of now s db1 = kept now s db (leases_of now s db)"
    using reads by (simp_all add: db1_def z_def)
  have wo: "well_ordered z (leases_of now s db1)" using kept_well_ordered [OF ok] by (simp add: z z_def)
  have there: "vk_zscore now db1 (fs_order s) (sr_ticket r) = None \<longleftrightarrow> sr_ticket r \<notin> fst ` set z"
    by (simp add: vk_zscore_def z map_of_eq_None_iff)
  show ?thesis
  proof (cases "sr_ticket r \<in> fst ` set z")
    case True
    then have "hold now s r db1 = (a, db')"
      using assms(4) there by (simp add: seat_touch_def Let_def db1_def [symmetric])
    then have "held_after now s r db a db' z"
      using hold_effect [OF assms(1) _ _ assms(3), of now db1 a db'] well_ordered_hold [OF wo True] True
      by (cases "z = []") (auto simp: held_after_def z)
    then show ?thesis using True by blast
  qed (use assms(4) there in \<open>simp add: seat_touch_def Let_def db1_def [symmetric]\<close>)
qed

section \<open>Frame\<close>

lemma remove_seat_elsewhere: "k \<noteq> fs_order s \<Longrightarrow> k \<noteq> fs_leases s \<Longrightarrow> remove_seat now s m db k = db k"
  by (simp add: remove_seat_def vk_zrem_def vk_put_zset_elsewhere)

lemma reap_elsewhere: "k \<noteq> fs_order s \<Longrightarrow> k \<noteq> fs_leases s \<Longrightarrow> fifoSeatReap now s db k = db k"
proof -
  assume "k \<noteq> fs_order s" "k \<noteq> fs_leases s"
  then have "reap_lapsed now s ms db k = db k" for ms
    by (induction ms arbitrary: db) (simp_all add: remove_seat_elsewhere)
  then show ?thesis by (simp add: fifoSeatReap_def)
qed

lemma hold_elsewhere: "k \<noteq> fs_order s \<Longrightarrow> k \<noteq> fs_leases s \<Longrightarrow> snd (hold now s r db) k = db k"
  by (simp add: hold_def Let_def vk_zadd_def vk_put_zset_elsewhere vk_pexpire_elsewhere)

lemma seats_elsewhere:
  assumes "k \<noteq> fs_order s" "k \<noteq> fs_leases s"
  shows "snd (seat_enter now s r db) k = db k" "snd (seat_touch now s r db) k = db k" "seat_leave now s m db k = db k"
  using assms
  by (simp_all add: seat_enter_def seat_touch_def seat_leave_def Let_def hold_elsewhere reap_elsewhere remove_seat_elsewhere
      vk_zadd_def vk_put_zset_elsewhere)

section \<open>Sequences of calls\<close>

text \<open>
  A call of any client, at the clock of the server: entering, touching or leaving; \<open>Prolong\<close>, the new expiry
  both keys get from a save that pins a ticket; and \<open>Others\<close>, whatever else happens to the database without
  the two keys of the line (a ticket is pinned or no longer).
\<close>

datatype seat_call = Enter SeatRequest | Touch SeatRequest | Leave string | Prolong int | Others

inductive seat_step :: "FIFOSeats \<Rightarrow> int \<Rightarrow> vk_db \<Rightarrow> seat_call \<Rightarrow> int option \<Rightarrow> vk_db \<Rightarrow> bool" for s now db where
  entering: "seat_enter now s r db = (a, db') \<Longrightarrow> seat_step s now db (Enter r) a db'"
| touching: "seat_touch now s r db = (a, db') \<Longrightarrow> seat_step s now db (Touch r) a db'"
| leaving: "seat_step s now db (Leave m) None (seat_leave now s m db)"
| prolonging: "seat_step s now db (Prolong ttl) None (vk_pexpire now (fs_leases s) ttl (vk_pexpire now (fs_order s) ttl db))"
| others: "db' (fs_order s) = db (fs_order s) \<Longrightarrow> db' (fs_leases s) = db (fs_leases s) \<Longrightarrow> seat_step s now db Others None db'"

inductive_cases seat_step_cases: "seat_step s now db c a db'"

text \<open>Calls with one lease for all, in the order of the clock.\<close>

definition call_leases :: "int \<Rightarrow> seat_call \<Rightarrow> bool" where
  "call_leases lease c = (case c of Enter r \<Rightarrow> sr_lease_ms r = lease | Touch r \<Rightarrow> sr_lease_ms r = lease
    | Prolong ttl \<Rightarrow> lease \<le> ttl | _ \<Rightarrow> True)"

definition caller :: "seat_call \<Rightarrow> string option" where
  "caller c = (case c of Enter r \<Rightarrow> Some (sr_ticket r) | Touch r \<Rightarrow> Some (sr_ticket r) | _ \<Rightarrow> None)"

inductive seat_run :: "FIFOSeats \<Rightarrow> int \<Rightarrow> int \<Rightarrow> vk_db \<Rightarrow> (int \<times> seat_call \<times> int option) list \<Rightarrow> vk_db \<Rightarrow> bool"
  for s lease where
  quiet: "seat_run s lease now db [] db"
| called: "\<lbrakk>now \<le> t; call_leases lease c; seat_step s t db c a db'; seat_run s lease t db' events db''\<rbrakk>
    \<Longrightarrow> seat_run s lease now db ((t, c, a) # events) db''"

lemma line_ok_held: "held_after now s r db a db' z \<Longrightarrow> line_ok s db'"
  by (auto simp: held_after_def line_ok_def)

lemma prolong_stored:
  assumes "keys_apart s" "line_stored s db z l t" "0 < ttl" "now < t"
  shows "line_stored s (vk_pexpire now (fs_leases s) ttl (vk_pexpire now (fs_order s) ttl db)) z l (now + ttl)"
  using assms keys_apart_neq [OF assms(1)] by (simp add: line_stored_def vk_pexpire_def vk_read_def)

lemma prolong_lapsed:
  assumes "vk_read now db (fs_order s) = None" "vk_read now db (fs_leases s) = None"
  shows "vk_pexpire now (fs_leases s) ttl (vk_pexpire now (fs_order s) ttl db) = db"
  using assms by (simp add: vk_pexpire_def)

lemma line_ok_prolong:
  assumes "keys_apart s" "line_ok s db" "0 < ttl"
  shows "line_ok s (vk_pexpire now (fs_leases s) ttl (vk_pexpire now (fs_order s) ttl db))"
  using assms(2) unfolding line_ok_def [of s db]
proof (elim disjE exE conjE)
  fix z l t
  assume line: "line_stored s db z l t" "z \<noteq> []" "well_ordered z l"
  show ?thesis
  proof (cases "now < t")
    case True
    from prolong_stored [OF assms(1) line(1) assms(3) True] show ?thesis using line(2,3) by (auto simp: line_ok_def)
  next
    case False
    then have "vk_read now db (fs_order s) = None" "vk_read now db (fs_leases s) = None"
      using line(1) by (simp_all add: line_stored_def vk_read_def)
    then show ?thesis using assms(2) by (simp add: prolong_lapsed)
  qed
next
  assume "db (fs_order s) = None" "db (fs_leases s) = None"
  then show ?thesis using assms(2) by (simp add: prolong_lapsed vk_read_def)
qed

lemma line_ok_step:
  assumes "seat_step s now db c a db'" "keys_apart s" "line_ok s db" "call_leases lease c" "0 < lease"
  shows "line_ok s db'"
  using assms(1)
proof cases
  case (entering r)
  then show ?thesis
    using seat_enter_cases [OF assms(2,3) _ entering(2)] line_ok_reap [OF assms(2,3), of now] line_ok_held assms(4,5)
    by (fastforce simp: call_leases_def)
next
  case (touching r)
  then show ?thesis
    using seat_touch_cases [OF assms(2,3) _ touching(2)] line_ok_reap [OF assms(2,3), of now] line_ok_held assms(4,5)
    by (fastforce simp: call_leases_def)
next
  case (leaving m)
  then show ?thesis using line_ok_remove [OF assms(2,3)] assms(3) by (simp add: seat_leave_def)
next
  case (prolonging ttl)
  then show ?thesis using line_ok_prolong [OF assms(2,3)] assms(4,5) by (simp add: call_leases_def)
next
  case others
  then show ?thesis using assms(3) by (simp add: line_ok_def line_stored_def)
qed

section \<open>The first seat\<close>

text \<open>A ticket is first in line with a lease, and a line, that last at least until a moment.\<close>

definition first_until :: "FIFOSeats \<Rightarrow> string \<Rightarrow> int \<Rightarrow> vk_db \<Rightarrow> bool" where
  "first_until s m until db \<longleftrightarrow>
    (\<exists>z l t e. line_stored s db z l t \<and> well_ordered z l \<and> z \<noteq> [] \<and> fst (hd z) = m \<and> until \<le> t
      \<and> map_of l m = Some e \<and> until \<le> e)"

lemma first_until_line_ok: "first_until s m until db \<Longrightarrow> line_ok s db"
  by (auto simp: first_until_def line_ok_def)

lemma first_until_view:
  assumes "first_until s m until db" "now < until"
  shows "order_of now s db \<noteq> []" "fst (hd (order_of now s db)) = m" "stays now s db m"
    and "\<exists>e. map_of (leases_of now s db) m = Some e \<and> until \<le> e"
    and "\<exists>t. until \<le> t \<and> line_stored s db (order_of now s db) (leases_of now s db) t"
  using assms by (auto simp: first_until_def line_stored_def vk_zset_def vk_read_def stays_def lease_at_def)

lemma map_of_zadd: "distinct (map fst l) \<Longrightarrow> map_of (zadd e m l) k = (if k = m then Some e else map_of l k)"
proof -
  assume d: "distinct (map fst l)"
  have "map_of (zadd e m l) k = Some v \<longleftrightarrow> (if k = m then v = e else map_of l k = Some v)" for v
    using d distinct_zadd [OF d, of e m] by (auto simp: set_zadd zrem_def)
  then have "map_of (zadd e m l) k = Some v \<longleftrightarrow> (if k = m then Some e else map_of l k) = Some v" for v by auto
  then show ?thesis by (metis not_None_eq)
qed

lemma kept_head:
  assumes "z \<noteq> []" "stays now s db (fst (hd z))"
  shows "kept now s db z \<noteq> [] \<and> hd (kept now s db z) = hd z"
  using assms by (cases z) (simp_all add: kept_def)

lemma joined_head: "z \<noteq> [] \<Longrightarrow> hd (joined z m) = hd z"
  by (simp add: joined_def)

lemma zrank_head: "z \<noteq> [] \<Longrightarrow> zrank m z = Some 0 \<longleftrightarrow> fst (hd z) = m"
  by (cases z) auto

lemma map_of_kept:
  assumes "distinct (map fst l)" "map_of l m = Some e" "stays now s db m"
  shows "map_of (kept now s db l) m = Some e"
proof -
  have "distinct (map fst (kept now s db l))" using assms(1) by (simp add: kept_def distinct_map_filter)
  moreover have "(m, e) \<in> set (kept now s db l)" using map_of_SomeD [OF assms(2)] assms(3) by (simp add: kept_def)
  ultimately show ?thesis by (rule map_of_is_SomeI)
qed

lemma first_until_held:
  assumes "first_until s m until db" "now < until" "until \<le> now + sr_lease_ms r" "0 < sr_lease_ms r"
    and "held_after now s r db a db' z" "z \<noteq> []" "hd z = hd (order_of now s db)"
  shows "first_until s m until db'" and "a = Some 0 \<longleftrightarrow> sr_ticket r = m"
proof -
  note view = first_until_view [OF assms(1,2)]
  have wo: "well_ordered (order_of now s db) (leases_of now s db)"
    using line_view(2) [OF first_until_line_ok [OF assms(1)]] .
  obtain t l where t: "now + 2 * sr_lease_ms r \<le> t" "line_stored s db' z l t" "well_ordered z l"
    and l: "l = zadd (now + sr_lease_ms r) (sr_ticket r) (kept now s db (leases_of now s db))"
    and a: "a = map_option int (zrank (sr_ticket r) z)"
    using assms(5) by (auto simp: held_after_def)
  have d: "distinct (map fst (leases_of now s db))" using wo by (simp add: well_ordered_def)
  then have "distinct (map fst (kept now s db (leases_of now s db)))" by (simp add: kept_def distinct_map_filter)
  moreover obtain e where "map_of (leases_of now s db) m = Some e" "until \<le> e" using view(4) by blast
  ultimately have "\<exists>e. map_of l m = Some e \<and> until \<le> e"
    using map_of_kept [OF d _ view(3)] assms(3) by (simp add: l map_of_zadd)
  moreover have "until \<le> t" using t(1) assms(3,4) by linarith
  moreover have "fst (hd z) = m" using assms(7) view(2) by simp
  ultimately show "first_until s m until db'" using t(2,3) assms(6) by (auto simp: first_until_def)
  show "a = Some 0 \<longleftrightarrow> sr_ticket r = m"
    using zrank_head [OF assms(6), of "sr_ticket r"] \<open>fst (hd z) = m\<close> by (auto simp: a)
qed

lemma first_until_removed:
  assumes "keys_apart s" "first_until s m until db" "now < until" "k \<noteq> m"
  shows "first_until s m until (remove_seat now s k db)"
proof -
  note apart = keys_apart_neq [OF assms(1)] and view = first_until_view [OF assms(2,3)]
  obtain t where t: "until \<le> t" "line_stored s db (order_of now s db) (leases_of now s db) t" using view(5) by blast
  define z l where "z = zrem k (order_of now s db)" and "l = zrem k (leases_of now s db)"
  have wo: "well_ordered z l"
    using well_ordered_zrem [OF line_view(2) [OF first_until_line_ok [OF assms(2)]]] by (simp add: z_def l_def)
  obtain p zs where z0: "order_of now s db = p # zs" "fst p = m" using view(1,2) by (cases "order_of now s db") auto
  then have z: "z \<noteq> []" "fst (hd z) = m" using assms(4) by (simp_all add: z_def zrem_def)
  then have "l \<noteq> []" using wo by (auto simp: well_ordered_def)
  then have "line_stored s (remove_seat now s k db) z l t"
    using line_stored_put [OF assms(1) t(2) _ z(1)] t(1) assms(3)
    by (simp add: remove_seat_puts [OF assms(1)] z_def l_def)
  moreover have "\<exists>e. map_of l m = Some e \<and> until \<le> e"
  proof -
    obtain e where "map_of (leases_of now s db) m = Some e" "until \<le> e" using view(4) by blast
    moreover from this have "(m, e) \<in> set l" using assms(4) by (auto simp: l_def zrem_def dest: map_of_SomeD)
    ultimately show ?thesis using wo by (auto simp: well_ordered_def)
  qed
  ultimately show ?thesis using wo z t(1) by (auto simp: first_until_def)
qed

lemma first_until_reap:
  assumes "keys_apart s" "first_until s m until db" "now < until"
  shows "first_until s m until (fifoSeatReap now s db)"
proof -
  have "first_until s m until db \<Longrightarrow> m \<notin> set ms \<Longrightarrow> first_until s m until (reap_lapsed now s ms db)" for ms
    by (induction ms arbitrary: db) (use first_until_removed [OF assms(1) _ assms(3)] in fastforce)+
  moreover obtain e where e: "map_of (leases_of now s db) m = Some e" "until \<le> e"
    using first_until_view(4) [OF assms(2,3)] by blast
  have "distinct (map fst (leases_of now s db))"
    using line_view(2) [OF first_until_line_ok [OF assms(2)]] by (simp add: well_ordered_def)
  from lapsed_iff [OF this, of m] have "m \<notin> set (vk_zupto now db (fs_leases s) now)"
    unfolding lease_at_def e(1) using e(2) assms(3) by simp
  ultimately show ?thesis using assms(2) by (simp add: fifoSeatReap_def)
qed

lemma first_until_step:
  assumes "keys_apart s" "first_until s m until db" "now < until" "until \<le> now + lease" "0 < lease"
    and "seat_step s now db c a db'" "call_leases lease c" "c \<noteq> Leave m"
  shows "first_until s m until db' \<and> (\<forall>k. caller c = Some k \<longrightarrow> (a = Some 0 \<longleftrightarrow> k = m))"
  using assms(6)
proof cases
  case (entering r)
  have lease: "sr_lease_ms r = lease" using assms(7) entering(1) by (simp add: call_leases_def)
  let ?z = "kept now s db (order_of now s db)"
  note view = first_until_view [OF assms(2,3)]
  have head: "?z \<noteq> []" "hd ?z = hd (order_of now s db)" "m \<in> fst ` set ?z"
    using kept_head [OF view(1)] view(2,3) hd_in_set [of ?z] by force+
  consider (full) "sr_ticket r \<notin> fst ` set ?z" "a = Some (- 1)" "db' = fifoSeatReap now s db"
    | (held) "held_after now s r db a db' (joined ?z (sr_ticket r))"
    using seat_enter_cases [OF assms(1) first_until_line_ok [OF assms(2)] _ entering(2)] lease assms(5) by blast
  then show ?thesis
  proof cases
    case full
    then show ?thesis using first_until_reap [OF assms(1-3)] head(3) entering(1) by (auto simp: caller_def)
  next
    case held
    show ?thesis
      using first_until_held [OF assms(2,3) _ _ held] assms(4,5) lease head joined_head [OF head(1)] entering(1)
      by (simp add: caller_def)
  qed
next
  case (touching r)
  have lease: "sr_lease_ms r = lease" using assms(7) touching(1) by (simp add: call_leases_def)
  let ?z = "kept now s db (order_of now s db)"
  note view = first_until_view [OF assms(2,3)]
  have head: "?z \<noteq> []" "hd ?z = hd (order_of now s db)" "m \<in> fst ` set ?z"
    using kept_head [OF view(1)] view(2,3) hd_in_set [of ?z] by force+
  consider (out) "sr_ticket r \<notin> fst ` set ?z" "a = Some (- 1)" "db' = fifoSeatReap now s db"
    | (held) "held_after now s r db a db' ?z"
    using seat_touch_cases [OF assms(1) first_until_line_ok [OF assms(2)] _ touching(2)] lease assms(5) by blast
  then show ?thesis
  proof cases
    case out
    then show ?thesis using first_until_reap [OF assms(1-3)] head(3) touching(1) by (auto simp: caller_def)
  next
    case held
    show ?thesis
      using first_until_held [OF assms(2,3) _ _ held] assms(4,5) lease head touching(1) by (simp add: caller_def)
  qed
next
  case (leaving k)
  then show ?thesis using first_until_removed [OF assms(1-3)] assms(2,8) by (auto simp: seat_leave_def caller_def)
next
  case (prolonging ttl)
  have ttl: "0 < ttl" "until \<le> now + ttl" using assms(4,5,7) prolonging(1) by (simp_all add: call_leases_def)
  obtain t where t: "until \<le> t" "line_stored s db (order_of now s db) (leases_of now s db) t"
    using first_until_view(5) [OF assms(2,3)] by blast
  have "line_stored s db' (order_of now s db) (leases_of now s db) (now + ttl)"
    using prolong_stored [OF assms(1) t(2) ttl(1)] t(1) assms(3) prolonging(3) by simp
  then show ?thesis
    using first_until_view [OF assms(2,3)] line_view(2) [OF first_until_line_ok [OF assms(2)], of now] ttl(2) prolonging(1)
    by (auto simp: first_until_def caller_def)
next
  case others
  then show ?thesis using assms(2) by (simp add: first_until_def line_stored_def caller_def)
qed

lemma first_until_run:
  assumes "seat_run s lease now db events db'" "keys_apart s" "0 < lease"
    and "first_until s m until db" "until \<le> now + lease"
    and "\<forall>(u, c, a) \<in> set events. u < until \<and> c \<noteq> Leave m"
  shows "first_until s m until db' \<and> (\<forall>(u, c, a) \<in> set events. \<forall>k. caller c = Some k \<longrightarrow> (a = Some 0 \<longleftrightarrow> k = m))"
  using assms(1,4-)
proof (induction rule: seat_run.induct)
  case (called now t c db a db1 events db2)
  then have "first_until s m until db1 \<and> (\<forall>k. caller c = Some k \<longrightarrow> (a = Some 0 \<longleftrightarrow> k = m))"
    using first_until_step [OF assms(2), of m until db t lease c a db1] assms(3) by simp
  then show ?case using called by auto
qed simp

lemma first_after_answer:
  assumes "keys_apart s" "line_ok s db" "0 < lease" "seat_step s now db c (Some 0) db'"
    and "call_leases lease c" "caller c = Some m"
  shows "first_until s m (now + lease) db'"
proof -
  obtain r z where r: "sr_ticket r = m" "sr_lease_ms r = lease" and h: "held_after now s r db (Some 0) db' z"
    using assms(4)
  proof cases
    case (entering r)
    then show ?thesis
      using that [of r] seat_enter_cases [OF assms(1,2) _ entering(2)] assms(3,5,6) by (auto simp: call_leases_def caller_def)
  next
    case (touching r)
    then show ?thesis
      using that [of r] seat_touch_cases [OF assms(1,2) _ touching(2)] assms(3,5,6) by (auto simp: call_leases_def caller_def)
  qed
  note parts = h [unfolded held_after_def r]
  then obtain t l where t: "now + 2 * lease \<le> t" "line_stored s db' z l t" "well_ordered z l"
    and l: "l = zadd (now + lease) m (kept now s db (leases_of now s db))"
    by (elim conjE exE) rule
  have z: "z \<noteq> []" using parts by (elim conjE)
  have "zrank m z = Some 0"
    using parts [THEN conjunct2, THEN conjunct2, THEN conjunct1] by (cases "zrank m z") simp_all
  have "distinct (map fst (kept now s db (leases_of now s db)))"
    using line_view(2) [OF assms(2), of now] by (simp add: kept_def distinct_map_filter well_ordered_def)
  then have "map_of l m = Some (now + lease)" by (simp add: l map_of_zadd)
  then show ?thesis using t z zrank_head [OF z, of m] \<open>zrank m z = Some 0\<close> assms(3) unfolding first_until_def
    by (intro exI [of _ z] exI [of _ l] exI [of _ t] exI [of _ "now + lease"]) simp
qed

section \<open>The line as a queue\<close>

text \<open>
  The specification: a queue of tickets. A call first drops the seats that do not stay (their lease has
  lapsed and they are not pinned), then joins at the end when there is room, and answers the place.
\<close>

definition place :: "string \<Rightarrow> string list \<Rightarrow> int" where
  "place m q = (if m \<in> set q then int (length (takeWhile (\<lambda>x. x \<noteq> m) q)) else - 1)"

definition queue_step ::
  "(string \<Rightarrow> bool) \<Rightarrow> (string \<Rightarrow> bool) \<Rightarrow> seat_call \<Rightarrow> string list \<Rightarrow> int option \<times> string list" where
  "queue_step stay pin c q0 =
    (let q = filter stay q0 in
     case c of
       Enter r \<Rightarrow>
         (let q' = (if sr_ticket r \<in> set q \<or> int (length q) \<ge> sr_capacity r then q else q @ [sr_ticket r])
          in (Some (place (sr_ticket r) q'), q'))
     | Touch r \<Rightarrow> (Some (place (sr_ticket r) q), q)
     | Leave m \<Rightarrow> (None, if pin m then q0 else filter (\<lambda>x. x \<noteq> m) q0)
     | Prolong ttl \<Rightarrow> (None, q0)
     | Others \<Rightarrow> (None, q0))"

lemma zrank_Some: "zrank m z = Some i \<Longrightarrow> int i = place m (map fst z)"
proof (induction z arbitrary: i)
  case (Cons p z)
  then show ?case using zrank_None [of m z] by (auto simp: place_def split: if_splits)
qed simp

lemma zrank_place: "m \<in> fst ` set z \<Longrightarrow> map_option int (zrank m z) = Some (place m (map fst z))"
  using zrank_None [of m z] zrank_Some [of m z] by (cases "zrank m z") simp_all

lemma place_absent: "m \<notin> set q \<Longrightarrow> place m q = - 1"
  by (simp add: place_def)

lemma map_fst_kept: "map fst (kept now s db z) = filter (stays now s db) (map fst z)"
  by (simp add: kept_def filter_map comp_def)

lemma map_fst_joined: "map fst (joined z m) = (if m \<in> fst ` set z then map fst z else map fst z @ [m])"
  by (simp add: joined_def)

lemma held_after_reads:
  assumes "held_after now s r db a db' z" "0 < sr_lease_ms r"
  shows "order_of now s db' = z"
  using assms by (auto simp: held_after_def line_stored_def vk_zset_def vk_read_def)

lemma order_after_reap:
  assumes "keys_apart s" "line_ok s db"
  shows "order_of now s (fifoSeatReap now s db) = kept now s db (order_of now s db)"
  using reap_reads(1) [OF assms(1)] line_view(2) [OF assms(2)] by (simp add: well_ordered_def)

lemma held_place:
  assumes "held_after now s r db a db' z" "sr_ticket r \<in> fst ` set z"
  shows "a = Some (place (sr_ticket r) (map fst z))"
  using assms zrank_place [OF assms(2)] by (simp add: held_after_def)

section \<open>Properties\<close>

text \<open>C35: The scripts implement a queue: seen through the tickets in the order of the line, every call does
  what the queue does, its answer included. In particular nobody overtakes: those who stay keep their order,
  a newcomer comes last and only when there is room, and a pinned ticket never lapses.\<close>

theorem line_refines_queue:
  assumes "keys_apart s" "line_ok s db" "0 < lease" "seat_step s now db c a db'" "call_leases lease c"
  shows "(a, seats_at now s db') = queue_step (stays now s db) (pinned now s db) c (seats_at now s db)"
  using assms(4)
proof cases
  case (entering r)
  let ?z = "kept now s db (order_of now s db)"
  have lease: "0 < sr_lease_ms r" using assms(3,5) entering(1) by (simp add: call_leases_def)
  have q: "queue_step (stays now s db) (pinned now s db) c (seats_at now s db)
    = (let q' = (if sr_ticket r \<in> fst ` set ?z \<or> int (length ?z) \<ge> sr_capacity r then map fst ?z
        else map fst ?z @ [sr_ticket r]) in (Some (place (sr_ticket r) q'), q'))"
    by (simp add: entering(1) queue_step_def seats_at_def map_fst_kept [symmetric] Let_def)
  from seat_enter_cases [OF assms(1,2) lease entering(2)] show ?thesis
  proof (elim disjE conjE)
    assume "held_after now s r db a db' (joined ?z (sr_ticket r))"
    with held_after_reads [OF this lease] held_place [OF this]
    show "sr_ticket r \<in> fst ` set ?z \<Longrightarrow> ?thesis" "int (length ?z) < sr_capacity r \<Longrightarrow> ?thesis"
      unfolding q by (simp_all add: seats_at_def map_fst_joined Let_def)
  qed (unfold q, simp add: seats_at_def order_after_reap [OF assms(1,2)] place_absent Let_def)
next
  case (touching r)
  let ?z = "kept now s db (order_of now s db)"
  have lease: "0 < sr_lease_ms r" using assms(3,5) touching(1) by (simp add: call_leases_def)
  have q: "queue_step (stays now s db) (pinned now s db) c (seats_at now s db)
    = (Some (place (sr_ticket r) (map fst ?z)), map fst ?z)"
    by (simp add: touching(1) queue_step_def seats_at_def map_fst_kept [symmetric] Let_def)
  from seat_touch_cases [OF assms(1,2) lease touching(2)] show ?thesis
  proof (elim disjE conjE)
    assume "held_after now s r db a db' ?z" and there: "sr_ticket r \<in> fst ` set ?z"
    with held_after_reads [OF this(1) lease] held_place [OF this] show ?thesis unfolding q by (simp add: seats_at_def)
  qed (unfold q, simp add: seats_at_def order_after_reap [OF assms(1,2)] place_absent Let_def)
next
  case (leaving m)
  then show ?thesis using remove_seat_reads(1) [OF assms(1)]
    by (simp add: queue_step_def Let_def seats_at_def seat_leave_def zrem_def filter_map comp_def)
next
  case (prolonging ttl)
  then have "0 < ttl" using assms(3,5) by (simp add: call_leases_def)
  then show ?thesis using prolonging keys_apart_neq [OF assms(1)]
    by (simp add: queue_step_def Let_def seats_at_def vk_simps)
next
  case others
  then show ?thesis by (simp add: queue_step_def Let_def seats_at_def vk_zset_def vk_read_def)
qed

section \<open>Instances\<close>

definition sample_seats :: FIFOSeats where
  "sample_seats = \<lparr>fs_order = ''q:order'', fs_leases = ''q:lease'', fs_pins = ''q:pins''\<rparr>"

definition ask :: "string \<Rightarrow> SeatRequest" where
  "ask m = \<lparr>sr_ticket = m, sr_lease_ms = 15000, sr_capacity = 101, sr_pinned_ms = 900000\<rparr>"

lemma sample_apart: "keys_apart sample_seats"
  by (simp add: keys_apart_def sample_seats_def)

lemma sample_line_ok: "line_ok sample_seats (\<lambda>k. None)"
  by (simp add: line_ok_def)

text \<open>A run asks for an empty line.\<close>

definition first_in :: vk_db where
  "first_in = snd (seat_enter 1000 sample_seats (ask ''a'') (\<lambda>k. None))"

lemma sample_enter: "seat_step sample_seats 1000 (\<lambda>k. None) (Enter (ask ''a'')) (Some 0) first_in"
proof (rule seat_step.entering)
  show "seat_enter 1000 sample_seats (ask ''a'') (\<lambda>k. None) = (Some 0, first_in)"
    unfolding first_in_def prod_eq_iff by (simp, code_simp)
qed

theorem line_refines_queue_witness:
  "(Some 0, seats_at 1000 sample_seats first_in)
    = queue_step (stays 1000 sample_seats (\<lambda>k. None)) (pinned 1000 sample_seats (\<lambda>k. None)) (Enter (ask ''a''))
        (seats_at 1000 sample_seats (\<lambda>k. None))"
  by (rule line_refines_queue [OF sample_apart sample_line_ok _ sample_enter, of 15000]) (simp_all add: call_leases_def ask_def)

end
