(* ===== verification/RunQueue.thy ===== *)
theory RunQueue
  imports Seats GoText
begin

text \<open>
  The queue of runs of an automation: its keys and requests, automation\_queue\_valkey.go, and the client
  side of automation\_queue.go, which waits for a turn by polling. Times are milliseconds.
\<close>

record RunQueueSeat =
  qs_bid :: nat
  qs_queue :: string
  qs_ticket :: string

section \<open>Keys and requests\<close>

definition durableChannelBase :: "nat \<Rightarrow> string" where
  "durableChannelBase bid = ''automation:durable:'' @ ''{'' @ nat_digits bid @ ''}:''"

definition durableSeatsKey :: "nat \<Rightarrow> string" where
  "durableSeatsKey bid = durableChannelBase bid @ ''seats''"

definition runQueueKeys :: "RunQueueSeat \<Rightarrow> string \<times> string" where
  "runQueueKeys seat =
    (let base = ''automation:queue:'' @ ''{'' @ nat_digits (qs_bid seat) @ ''}:'' @ qs_queue seat
     in (base @ '':order'', base @ '':lease''))"

definition runQueueSeats :: "RunQueueSeat \<Rightarrow> FIFOSeats" where
  "runQueueSeats seat =
    \<lparr>fs_order = fst (runQueueKeys seat), fs_leases = snd (runQueueKeys seat), fs_pins = durableSeatsKey (qs_bid seat)\<rparr>"

abbreviation (input) "runQueueLease \<equiv> (15000 :: int)"
abbreviation (input) "durableKeyTTL \<equiv> (3600000 :: int)"

definition queue_request :: "RunQueueSeat \<Rightarrow> SeatRequest" where
  "queue_request seat =
    \<lparr>sr_ticket = qs_ticket seat, sr_lease_ms = runQueueLease, sr_capacity = 101, sr_pinned_ms = durableKeyTTL\<rparr>"

definition queue_enter :: "int \<Rightarrow> RunQueueSeat \<Rightarrow> vk_db \<Rightarrow> int option \<times> vk_db" where
  "queue_enter now seat = seat_enter now (runQueueSeats seat) (queue_request seat)"

definition queue_touch :: "int \<Rightarrow> RunQueueSeat \<Rightarrow> vk_db \<Rightarrow> int option \<times> vk_db" where
  "queue_touch now seat = seat_touch now (runQueueSeats seat) (queue_request seat)"

definition queue_leave :: "int \<Rightarrow> RunQueueSeat \<Rightarrow> vk_db \<Rightarrow> vk_db" where
  "queue_leave now seat = seat_leave now (runQueueSeats seat) (qs_ticket seat)"

section \<open>Waiting for a turn\<close>

record queueTiming =
  qt_poll_step :: int
  qt_poll_max :: int
  qt_unavailable :: int

definition defaultQueueTiming :: queueTiming where
  "defaultQueueTiming = \<lparr>qt_poll_step = 100, qt_poll_max = 1000, qt_unavailable = runQueueLease\<rparr>"

definition pollAfter :: "queueTiming \<Rightarrow> int \<Rightarrow> int" where
  "pollAfter t position = min (position * qt_poll_step t) (qt_poll_max t)"

text \<open>
  What a waiter has at hand: its context, which ends at a deadline, when the process closes or when the
  replica halts, and the calls to the queue, whose answer is None when they fail.
\<close>

record 'w wait_env =
  we_sleep :: "int \<Rightarrow> 'w \<Rightarrow> bool \<times> 'w"
  we_now :: "'w \<Rightarrow> int"
  we_touch :: "RunQueueSeat \<Rightarrow> 'w \<Rightarrow> int option \<times> 'w"
  we_enter :: "RunQueueSeat \<Rightarrow> 'w \<Rightarrow> int option \<times> 'w"
  we_handing_off :: "'w \<Rightarrow> bool"
  we_deadline_exceeded :: "'w \<Rightarrow> bool"

record queueWait =
  qw_seat :: RunQueueSeat
  qw_position :: int
  qw_healthy_at :: int

definition queueWaitEnd :: "'w wait_env \<Rightarrow> 'w \<Rightarrow> string" where
  "queueWaitEnd E w =
    (if we_handing_off E w then ''handed_off''
     else if we_deadline_exceeded E w then ''queue_timeout''
     else ''canceled'')"

definition queueStanding :: "'w wait_env \<Rightarrow> RunQueueSeat \<Rightarrow> 'w \<Rightarrow> int option \<times> 'w" where
  "queueStanding E seat w0 =
    (case we_touch E seat w0 of (position, w) \<Rightarrow>
       if position \<noteq> Some (- 1) then (position, w) else we_enter E seat w)"

definition wait_check :: "'w wait_env \<Rightarrow> queueTiming \<Rightarrow> queueWait \<Rightarrow> 'w \<Rightarrow> (string \<times> bool) \<times> queueWait \<times> 'w" where
  "wait_check E t q w0 =
    (case queueStanding E (qw_seat q) w0 of
       (None, w) \<Rightarrow> ((''valkey_unavailable'', we_now E w - qw_healthy_at q \<ge> qt_unavailable t), q, w)
     | (Some position, w) \<Rightarrow>
         (let q' = q\<lparr>qw_healthy_at := we_now E w, qw_position := position\<rparr> in
          if position = 0 then ((''granted'', True), q', w)
          else if position = - 1 then ((''queue_full'', True), q', w)
          else (([], False), q', w)))"

partial_function (option) wait_loop :: "'w wait_env \<Rightarrow> queueTiming \<Rightarrow> queueWait \<Rightarrow> 'w \<Rightarrow> (string \<times> 'w) option" where
  "wait_loop E t q w0 =
    (case we_sleep E (pollAfter t (qw_position q)) w0 of (slept, w1) \<Rightarrow>
       if \<not> slept then Some (queueWaitEnd E w1, w1)
       else case wait_check E t q w1 of ((reason, settled), q', w2) \<Rightarrow>
         if settled then Some (reason, w2) else wait_loop E t q' w2)"

definition waitQueueTurn :: "'w wait_env \<Rightarrow> queueTiming \<Rightarrow> RunQueueSeat \<Rightarrow> int \<Rightarrow> 'w \<Rightarrow> (string \<times> 'w) option" where
  "waitQueueTurn E t seat position w =
    wait_loop E t \<lparr>qw_seat = seat, qw_position = position, qw_healthy_at = we_now E w\<rparr> w"

text \<open>What becomes of a run whose wait has ended, \<open>finishQueueWait\<close>: whether it runs, and with a slot or without.\<close>

datatype wait_outcome = Runs_with_slot | Runs_unqueued | Left_to_others | Gives_up string string

definition finishQueueWait :: "string \<Rightarrow> wait_outcome" where
  "finishQueueWait reason =
    (if reason = ''granted'' then Runs_with_slot
     else if reason = ''valkey_unavailable'' then Runs_unqueued
     else if reason = ''handed_off'' then Left_to_others
     else if reason = ''canceled'' then Gives_up ''failed'' reason
     else Gives_up ''limited'' reason)"

text \<open>A wait ends as granted only on an answer of the queue.\<close>

definition answered_first :: "'w wait_env \<Rightarrow> RunQueueSeat \<Rightarrow> bool" where
  "answered_first E seat \<longleftrightarrow>
    (\<exists>w w'. we_touch E seat w = (Some 0, w') \<or> we_enter E seat w = (Some 0, w'))"

lemma check_granted:
  assumes "wait_check E t q w = ((''granted'', settled), q', w')"
  shows "answered_first E (qw_seat q)"
  using assms
  by (auto simp: wait_check_def queueStanding_def answered_first_def Let_def split: prod.splits option.splits if_splits)

lemma check_seat: "wait_check E t q w = (r, q', w') \<Longrightarrow> qw_seat q' = qw_seat q"
  by (auto simp: wait_check_def Let_def split: prod.splits option.splits if_splits)

section \<open>The contract of the waiter's surroundings\<close>

text \<open>A sleep that is not interrupted takes its time and ends before the deadline; no call sets the clock back;
  the queue never answers less than -1.\<close>

locale waiting =
  fixes E :: "'w wait_env" and t :: queueTiming and until :: int
  assumes sleeps: "we_sleep E d w = (True, w') \<Longrightarrow> we_now E w + d \<le> we_now E w' \<and> we_now E w' \<le> until"
    and touches: "we_touch E seat w = (a, w') \<Longrightarrow> we_now E w \<le> we_now E w' \<and> (\<forall>p. a = Some p \<longrightarrow> - 1 \<le> p)"
    and enters: "we_enter E seat w = (a, w') \<Longrightarrow> we_now E w \<le> we_now E w' \<and> (\<forall>p. a = Some p \<longrightarrow> - 1 \<le> p)"
    and timed: "0 < qt_poll_step t" "0 < qt_poll_max t"
begin

lemma standing:
  assumes "queueStanding E seat w = (a, w')"
  shows "we_now E w \<le> we_now E w' \<and> (\<forall>p. a = Some p \<longrightarrow> - 1 \<le> p)"
  using assms touches enters by (fastforce simp: queueStanding_def split: prod.splits if_splits)

lemma check:
  assumes "wait_check E t q w = ((reason, settled), q', w')" "0 < qw_position q"
  shows "we_now E w \<le> we_now E w' \<and> (settled \<or> 0 < qw_position q')
    \<and> (settled \<longrightarrow> reason \<in> {''granted'', ''queue_full'', ''valkey_unavailable''})"
  using assms standing [of "qw_seat q" w]
  by (fastforce simp: wait_check_def Let_def split: prod.splits option.splits if_splits)

lemma poll_positive: "0 < p \<Longrightarrow> 0 < pollAfter t p"
  using timed by (simp add: pollAfter_def)

lemma loop_ends:
  assumes "0 < qw_position q"
  shows "\<exists>reason w'. wait_loop E t q w = Some (reason, w')
    \<and> reason \<in> {''granted'', ''queue_full'', ''valkey_unavailable'', ''handed_off'', ''queue_timeout'', ''canceled''}
    \<and> (reason = ''granted'' \<longrightarrow> answered_first E (qw_seat q))"
  using assms
proof (induction "nat (until - we_now E w)" arbitrary: q w rule: less_induct)
  case less
  obtain slept w1 where sleep: "we_sleep E (pollAfter t (qw_position q)) w = (slept, w1)" by fastforce
  show ?case
  proof (cases slept)
    case False
    then show ?thesis using sleep by (simp add: wait_loop.simps [of E t q] queueWaitEnd_def)
  next
    case True
    obtain reason settled q' w2 where check': "wait_check E t q w1 = ((reason, settled), q', w2)"
      by (metis surj_pair)
    note after = check [OF check' less.prems] check_seat [OF check']
    have loop: "wait_loop E t q w = (if settled then Some (reason, w2) else wait_loop E t q' w2)"
      using sleep True check' by (simp add: wait_loop.simps [of E t q])
    show ?thesis
    proof (cases settled)
      case False
      have "we_now E w < we_now E w1" "we_now E w1 \<le> until"
        using sleeps sleep True poll_positive [OF less.prems] by fastforce+
      then have "nat (until - we_now E w2) < nat (until - we_now E w)" using after by linarith
      from less.hyps [OF this, of q'] show ?thesis using loop False after by auto
    qed (use loop after check_granted [of E t q w1 settled q' w2] check' in auto)
  qed
qed

end

section \<open>Waiting on the line itself\<close>

text \<open>
  A waiter on a database: the clock of the server, the database, and what others do to it while the waiter
  sleeps. The context ends at its deadline.
\<close>

type_synonym queue_world = "int \<times> vk_db \<times> (vk_db \<Rightarrow> vk_db) list"

definition others_act :: "(vk_db \<Rightarrow> vk_db) list \<Rightarrow> vk_db \<Rightarrow> vk_db \<times> (vk_db \<Rightarrow> vk_db) list" where
  "others_act fs db = (case fs of [] \<Rightarrow> (db, []) | f # fs \<Rightarrow> (f db, fs))"

definition line_env :: "int \<Rightarrow> queue_world wait_env" where
  "line_env until =
    \<lparr>we_sleep = (\<lambda>d (now, db, fs).
        if now + d < until then (case others_act fs db of (db', fs') \<Rightarrow> (True, (now + d, db', fs')))
        else (False, (until, db, fs))),
     we_now = fst,
     we_touch = (\<lambda>seat (now, db, fs). case queue_touch now seat db of (a, db') \<Rightarrow> (a, (now, db', fs))),
     we_enter = (\<lambda>seat (now, db, fs). case queue_enter now seat db of (a, db') \<Rightarrow> (a, (now, db', fs))),
     we_handing_off = (\<lambda>w. False), we_deadline_exceeded = (\<lambda>(now, db, fs). until \<le> now)\<rparr>"

lemma hold_answer: "hold now s r db = (a, db') \<Longrightarrow> a = Some p \<Longrightarrow> 0 \<le> p"
  by (auto simp: hold_def Let_def)

lemma queue_answers:
  "queue_touch now seat db = (a, db') \<Longrightarrow> a = Some p \<Longrightarrow> - 1 \<le> p"
  "queue_enter now seat db = (a, db') \<Longrightarrow> a = Some p \<Longrightarrow> - 1 \<le> p"
  using hold_answer
  by (fastforce simp: queue_touch_def queue_enter_def seat_touch_def seat_enter_def Let_def split: if_splits)+

interpretation on_the_line: waiting "line_env until" defaultQueueTiming until for until
  by unfold_locales
    (auto simp: line_env_def defaultQueueTiming_def split: prod.splits if_splits dest: queue_answers)

section \<open>Many queues in one database\<close>

text \<open>
  The calls of all replicas on the queues of all channels, with whatever is pinned or unpinned in between:
  \<open>PinsChange\<close> may change every key that is no queue's, and \<open>QProlong\<close> is what the save of a paused run
  does to the keys of its queue.
\<close>

datatype queue_call = QEnter RunQueueSeat | QTouch RunQueueSeat | QLeave RunQueueSeat | QProlong RunQueueSeat | PinsChange

definition queue_keys :: "string set" where
  "queue_keys = range (\<lambda>seat. fst (runQueueKeys seat)) \<union> range (\<lambda>seat. snd (runQueueKeys seat))"

inductive queue_run :: "int \<Rightarrow> vk_db \<Rightarrow> (int \<times> queue_call \<times> int option) list \<Rightarrow> vk_db \<Rightarrow> bool" where
  q_quiet: "queue_run now db [] db"
| q_enter: "\<lbrakk>now \<le> t; queue_enter t seat db = (a, db'); queue_run t db' events db''\<rbrakk>
    \<Longrightarrow> queue_run now db ((t, QEnter seat, a) # events) db''"
| q_touch: "\<lbrakk>now \<le> t; queue_touch t seat db = (a, db'); queue_run t db' events db''\<rbrakk>
    \<Longrightarrow> queue_run now db ((t, QTouch seat, a) # events) db''"
| q_leave: "\<lbrakk>now \<le> t; queue_run t (queue_leave t seat db) events db''\<rbrakk>
    \<Longrightarrow> queue_run now db ((t, QLeave seat, None) # events) db''"
| q_prolong: "\<lbrakk>now \<le> t; queue_run t (vk_pexpire t (snd (runQueueKeys seat)) durableKeyTTL
      (vk_pexpire t (fst (runQueueKeys seat)) durableKeyTTL db)) events db''\<rbrakk>
    \<Longrightarrow> queue_run now db ((t, QProlong seat, None) # events) db''"
| q_pins: "\<lbrakk>now \<le> t; \<forall>k \<in> queue_keys. db' k = db k; queue_run t db' events db''\<rbrakk>
    \<Longrightarrow> queue_run now db ((t, PinsChange, None) # events) db''"

definition same_queue :: "RunQueueSeat \<Rightarrow> RunQueueSeat \<Rightarrow> bool" where
  "same_queue u v \<longleftrightarrow> qs_bid u = qs_bid v \<and> qs_queue u = qs_queue v"

text \<open>How a call looks from one line.\<close>

definition seen_from :: "RunQueueSeat \<Rightarrow> queue_call \<Rightarrow> seat_call" where
  "seen_from own c =
    (case c of
       QEnter u \<Rightarrow> if same_queue own u then Enter (queue_request u) else Others
     | QTouch u \<Rightarrow> if same_queue own u then Touch (queue_request u) else Others
     | QLeave u \<Rightarrow> if same_queue own u then Leave (qs_ticket u) else Others
     | QProlong u \<Rightarrow> if same_queue own u then Prolong durableKeyTTL else Others
     | PinsChange \<Rightarrow> Others)"

lemma digits_then_brace:
  assumes "nat_digits m @ CHR ''}'' # xs = nat_digits n @ CHR ''}'' # ys"
  shows "m = n \<and> xs = ys"
proof -
  have "c \<noteq> CHR ''}''" if "c \<in> set (nat_digits k)" for c k
  proof -
    have "is_digit c" using that nat_digits_all [of k] by (simp add: list_all_iff)
    then show ?thesis by (auto simp: is_digit_def)
  qed
  then have plain: "takeWhile (\<lambda>c. c \<noteq> CHR ''}'') (nat_digits k @ CHR ''}'' # zs) = nat_digits k" for k zs
    by (simp add: takeWhile_append2)
  have same: "nat_digits m = nat_digits n" by (rule plain [of m xs, unfolded assms plain, symmetric])
  then have "int m = int n" using digits_value_nat_digits [of m] digits_value_nat_digits [of n] by (simp only: same)
  then show ?thesis using assms by (simp only: same append_same_eq same_append_eq list.inject of_nat_eq_iff simp_thms)
qed

lemma queue_base_inj:
  "fst (runQueueKeys u) = fst (runQueueKeys v) \<longleftrightarrow> same_queue u v"
  "snd (runQueueKeys u) = snd (runQueueKeys v) \<longleftrightarrow> same_queue u v"
  by (auto simp: runQueueKeys_def Let_def same_queue_def dest: digits_then_brace)

lemma order_is_no_lease: "fst (runQueueKeys u) \<noteq> snd (runQueueKeys v)"
proof
  assume "fst (runQueueKeys u) = snd (runQueueKeys v)"
  then have "last (fst (runQueueKeys u)) = last (snd (runQueueKeys v))" by simp
  then show False by (simp add: runQueueKeys_def Let_def)
qed

lemma pins_elsewhere: "durableSeatsKey bid \<noteq> fst (runQueueKeys u)" "durableSeatsKey bid \<noteq> snd (runQueueKeys u)"
proof -
  have "nth (durableSeatsKey bid) 11 = CHR ''d''" "nth (fst (runQueueKeys u)) 11 = CHR ''q''"
    "nth (snd (runQueueKeys u)) 11 = CHR ''q''"
    by (simp_all add: durableSeatsKey_def durableChannelBase_def runQueueKeys_def Let_def)
  then show "durableSeatsKey bid \<noteq> fst (runQueueKeys u)" "durableSeatsKey bid \<noteq> snd (runQueueKeys u)" by auto
qed

lemma queue_keys_apart: "keys_apart (runQueueSeats seat)"
  using order_is_no_lease [of seat seat] pins_elsewhere [of "qs_bid seat" seat]
  by (auto simp: keys_apart_def runQueueSeats_def)

lemma same_queue_seats: "same_queue u v \<Longrightarrow> runQueueSeats u = runQueueSeats v"
  by (simp add: same_queue_def runQueueSeats_def runQueueKeys_def)

lemma other_queue_elsewhere:
  assumes "\<not> same_queue own u"
  shows "fst (runQueueKeys own) \<noteq> fs_order (runQueueSeats u) \<and> fst (runQueueKeys own) \<noteq> fs_leases (runQueueSeats u)"
    and "snd (runQueueKeys own) \<noteq> fs_order (runQueueSeats u) \<and> snd (runQueueKeys own) \<noteq> fs_leases (runQueueSeats u)"
  using assms order_is_no_lease [of own u] order_is_no_lease [of u own]
  by (auto simp: runQueueSeats_def queue_base_inj)

lemma queue_run_line:
  assumes "queue_run now db events db'"
  shows "seat_run (runQueueSeats own) 15000 now db (map (\<lambda>(t, c, a). (t, seen_from own c, if seen_from own c = Others then None else a)) events) db'"
  using assms
proof (induction rule: queue_run.induct)
  case (q_quiet now db)
  show ?case by (simp add: seat_run.quiet)
next
  case (q_enter now t seat db a db' events db'')
  have "seat_step (runQueueSeats own) t db (seen_from own (QEnter seat)) (if seen_from own (QEnter seat) = Others then None else a) db'"
  proof (cases "same_queue own seat")
    case True
    then show ?thesis using q_enter(2) same_queue_seats [OF True]
      by (simp add: seen_from_def queue_enter_def seat_step.entering)
  next
    case False
    have "db' = snd (queue_enter t seat db)" using q_enter(2) by simp
    then show ?thesis using False other_queue_elsewhere [OF False] seats_elsewhere(1)
      by (simp add: seen_from_def queue_enter_def) (simp add: runQueueSeats_def seat_step.others)
  qed
  moreover have "call_leases 15000 (seen_from own (QEnter seat))"
    by (simp add: call_leases_def seen_from_def queue_request_def)
  ultimately show ?case using q_enter by (simp add: seat_run.called)
next
  case (q_touch now t seat db a db' events db'')
  have "seat_step (runQueueSeats own) t db (seen_from own (QTouch seat)) (if seen_from own (QTouch seat) = Others then None else a) db'"
  proof (cases "same_queue own seat")
    case True
    then show ?thesis using q_touch(2) same_queue_seats [OF True]
      by (simp add: seen_from_def queue_touch_def seat_step.touching)
  next
    case False
    have "db' = snd (queue_touch t seat db)" using q_touch(2) by simp
    then show ?thesis using False other_queue_elsewhere [OF False] seats_elsewhere(2)
      by (simp add: seen_from_def queue_touch_def) (simp add: runQueueSeats_def seat_step.others)
  qed
  moreover have "call_leases 15000 (seen_from own (QTouch seat))"
    by (simp add: call_leases_def seen_from_def queue_request_def)
  ultimately show ?case using q_touch by (simp add: seat_run.called)
next
  case (q_leave now t seat db events db'')
  have "seat_step (runQueueSeats own) t db (seen_from own (QLeave seat)) None (queue_leave t seat db)"
  proof (cases "same_queue own seat")
    case True
    then show ?thesis using same_queue_seats [OF True] by (simp add: seen_from_def queue_leave_def seat_step.leaving)
  next
    case False
    then show ?thesis using other_queue_elsewhere [OF False] seats_elsewhere(3)
      by (simp add: seen_from_def queue_leave_def) (simp add: runQueueSeats_def seat_step.others)
  qed
  moreover have "call_leases 15000 (seen_from own (QLeave seat))" by (simp add: call_leases_def seen_from_def)
  ultimately show ?case using q_leave by (simp add: seat_run.called)
next
  case (q_prolong now t seat db events db'')
  let ?db = "vk_pexpire t (snd (runQueueKeys seat)) durableKeyTTL (vk_pexpire t (fst (runQueueKeys seat)) durableKeyTTL db)"
  have "seat_step (runQueueSeats own) t db (seen_from own (QProlong seat)) None ?db"
  proof (cases "same_queue own seat")
    case True
    then show ?thesis using seat_step.prolonging [of "runQueueSeats seat"] same_queue_seats [OF True]
      by (simp add: seen_from_def) (simp add: runQueueSeats_def)
  next
    case False
    then have "?db (fst (runQueueKeys own)) = db (fst (runQueueKeys own))" "?db (snd (runQueueKeys own)) = db (snd (runQueueKeys own))"
      using queue_base_inj [of own seat] order_is_no_lease [of own seat] order_is_no_lease [of seat own]
      by (simp_all add: vk_pexpire_elsewhere)
    then show ?thesis using False by (simp add: seen_from_def) (simp add: runQueueSeats_def seat_step.others)
  qed
  moreover have "call_leases 15000 (seen_from own (QProlong seat))" by (simp add: call_leases_def seen_from_def)
  ultimately show ?case using q_prolong by (simp add: seat_run.called)
next
  case (q_pins now t db' db events db'')
  have "seat_step (runQueueSeats own) t db Others None db'"
    using q_pins(2) by (intro seat_step.others) (auto simp: queue_keys_def runQueueSeats_def)
  then show ?case using q_pins by (simp add: seen_from_def seat_run.called call_leases_def)
qed

section \<open>Properties\<close>

text \<open>C36: A wait for a turn always ends, however often the queue or its store fails, and with one of the six
  reasons the run is then settled by; it ends as granted only when the queue has answered that the run is first.\<close>

theorem wait_ends:
  assumes "waiting E t until" "0 < position"
  shows "\<exists>reason w'. waitQueueTurn E t seat position w = Some (reason, w')
    \<and> reason \<in> {''granted'', ''queue_full'', ''valkey_unavailable'', ''handed_off'', ''queue_timeout'', ''canceled''}
    \<and> (reason = ''granted'' \<longrightarrow> answered_first E seat)"
proof -
  have "0 < qw_position \<lparr>qw_seat = seat, qw_position = position, qw_healthy_at = we_now E w\<rparr>" using assms(2) by simp
  from waiting.loop_ends [OF assms(1) this] show ?thesis unfolding waitQueueTurn_def by simp
qed

definition sample_seat :: "string \<Rightarrow> RunQueueSeat" where
  "sample_seat ticket = \<lparr>qs_bid = 42, qs_queue = ''songs'', qs_ticket = ticket\<rparr>"

theorem wait_ends_witness:
  "\<exists>reason w'. waitQueueTurn (line_env 300000) defaultQueueTiming (sample_seat ''b'') 1 (0, \<lambda>k. None, []) = Some (reason, w')
    \<and> reason \<in> {''granted'', ''queue_full'', ''valkey_unavailable'', ''handed_off'', ''queue_timeout'', ''canceled''}
    \<and> (reason \<noteq> ''granted'' \<or> answered_first (line_env 300000) (sample_seat ''b''))"
  using wait_ends [OF on_the_line.waiting_axioms, of 1 300000 "sample_seat ''b''" "(0, \<lambda>k. None, [])"] by auto

text \<open>C8: One run of a queue at a time: once a run has been told that it is first in the queue of its channel,
  every call on that queue within the 15 seconds of its lease is told so exactly if it is that run, unless the
  run leaves, whatever replicas do with this and all other queues meanwhile.\<close>

theorem one_run_per_queue:
  assumes "line_ok (runQueueSeats seat) db" "queue_enter t seat db = (Some 0, db') \<or> queue_touch t seat db = (Some 0, db')"
    and "queue_run t db' events db''"
    and "\<forall>(u, c, a) \<in> set events. u < t + 15000 \<and> (\<forall>v. c = QLeave v \<longrightarrow> same_queue seat v \<longrightarrow> qs_ticket v \<noteq> qs_ticket seat)"
    and "(u, QEnter other, a) \<in> set events \<or> (u, QTouch other, a) \<in> set events" "same_queue seat other"
  shows "a = Some 0 \<longleftrightarrow> qs_ticket other = qs_ticket seat"
proof -
  let ?s = "runQueueSeats seat" and ?r = "queue_request seat"
  let ?seen = "map (\<lambda>(t, c, a). (t, seen_from seat c, if seen_from seat c = Others then None else a)) events"
  have "call_leases 15000 (Enter ?r)" "call_leases 15000 (Touch ?r)" "caller (Enter ?r) = Some (qs_ticket seat)"
    "caller (Touch ?r) = Some (qs_ticket seat)"
    by (simp_all add: call_leases_def caller_def queue_request_def)
  moreover obtain c where "c = Enter ?r \<or> c = Touch ?r" "seat_step ?s t db c (Some 0) db'"
    using assms(2) unfolding queue_enter_def queue_touch_def by (blast intro: seat_step.entering seat_step.touching)
  ultimately have first: "seat_step ?s t db c (Some 0) db'" "call_leases 15000 c" "caller c = Some (qs_ticket seat)"
    by auto
  have stays: "\<forall>(u, c, a) \<in> set ?seen. u < t + 15000 \<and> c \<noteq> Leave (qs_ticket seat)"
    using assms(4) by (fastforce simp: seen_from_def split: queue_call.splits if_splits)
  obtain c' where "(u, c', a) \<in> set ?seen" "caller c' = Some (qs_ticket other)"
    using assms(5,6) by (force simp: seen_from_def caller_def queue_request_def image_iff split_beta)
  from first_until_run [OF queue_run_line [OF assms(3)] queue_keys_apart _
      first_after_answer [OF queue_keys_apart assms(1) _ first] order_refl stays] this
  show ?thesis by fastforce
qed

definition songs_taken :: vk_db where
  "songs_taken = snd (queue_enter 1000 (sample_seat ''a'') (\<lambda>k. None))"

lemma songs_enter: "queue_enter 1000 (sample_seat ''a'') (\<lambda>k. None) = (Some 0, songs_taken)"
  unfolding songs_taken_def prod_eq_iff by (simp, code_simp)

theorem one_run_per_queue_witness:
  "(fst (queue_enter 2000 (sample_seat ''b'') songs_taken) = Some 0) \<longleftrightarrow> (''b'' = ''a'')"
proof -
  let ?a = "fst (queue_enter 2000 (sample_seat ''b'') songs_taken)"
  have "queue_run 1000 songs_taken [(2000, QEnter (sample_seat ''b''), ?a)] (snd (queue_enter 2000 (sample_seat ''b'') songs_taken))"
    by (rule queue_run.q_enter [OF _ surjective_pairing queue_run.q_quiet]) simp
  from one_run_per_queue [OF _ disjI1 [OF songs_enter] this, of 2000 "sample_seat ''b''" ?a] show ?thesis
    by (simp add: line_ok_def sample_seat_def same_queue_def)
qed

end
