(* ===== verification/DurableStore.thy ===== *)
theory DurableStore
  imports SeatPins RunQueue
begin

text \<open>
  Paused runs that survive their replica: the store of automation\_durable\_valkey.go with the parts of
  pkg/valkey it is built on (due\_index.go, \<open>ExpiringSet\<close>), and the decisions of automation\_durable.go.
  A call that does not reach the store is outside the model here; an error reply of a script is None.
\<close>

section \<open>Keys\<close>

record DurableRef =
  dr_bid :: nat
  dr_id :: string

definition durable_keys :: "nat \<Rightarrow> record_keys" where
  "durable_keys bid =
    (let base = durableChannelBase bid
     in \<lparr>rk_records = base @ ''records'', rk_owners = base @ ''owners'', rk_pins = base @ ''seats'',
         rk_taken = (\<lambda>i. base @ ''taken:'' @ i)\<rparr>)"

definition ownedDurableRecord :: "DurableRef \<Rightarrow> OwnedRecord" where
  "ownedDurableRecord ref = record_of (durable_keys (dr_bid ref)) (dr_id ref)"

definition durableOwnedKey :: "string \<Rightarrow> string" where
  "durableOwnedKey owner = ''automation:durable:'' @ ''owned:{'' @ owner @ ''}''"

definition durableReplicasKey :: string where
  "durableReplicasKey = ''automation:durable:'' @ ''replicas''"

definition memberOf :: "DurableRef \<Rightarrow> string" where
  "memberOf ref = nat_digits (dr_bid ref) @ '':'' @ dr_id ref"

definition parseDurableMember :: "string \<Rightarrow> DurableRef option" where
  "parseDurableMember member =
    (case cut member CHR '':'' of (raw, ident, found) \<Rightarrow>
     case parse_uint raw of (n, err) \<Rightarrow>
       if \<not> found \<or> err \<noteq> None then None else Some \<lparr>dr_bid = nat n, dr_id = ident\<rparr>)"

section \<open>Sets and due entries\<close>

definition vk_members :: "int \<Rightarrow> vk_db \<Rightarrow> string \<Rightarrow> string list" where
  "vk_members now db key = (case vk_read now db key of Some (VMembers ms) \<Rightarrow> ms | _ \<Rightarrow> [])"

definition vk_put_members :: "int \<Rightarrow> string \<Rightarrow> string list \<Rightarrow> vk_db \<Rightarrow> vk_db" where
  "vk_put_members now key ms db = (if ms = [] then vk_del key db else vk_update now key (VMembers ms) db)"

text \<open>\<open>ExpiringSet.Add\<close> and \<open>ExpiringSet.Remove\<close>.\<close>

definition expiring_add :: "int \<Rightarrow> string \<Rightarrow> int \<Rightarrow> string list \<Rightarrow> vk_db \<Rightarrow> vk_db" where
  "expiring_add now key ttl ms db =
    vk_pexpire now key ttl (vk_put_members now key (foldl (\<lambda>old m. if m \<in> set old then old else old @ [m]) (vk_members now db key) ms) db)"

definition expiring_remove :: "int \<Rightarrow> string \<Rightarrow> string list \<Rightarrow> vk_db \<Rightarrow> vk_db" where
  "expiring_remove now key ms db = vk_put_members now key (filter (\<lambda>m. m \<notin> set ms) (vk_members now db key)) db"

text \<open>\<open>DueIndex\<close>: its members with the moment each comes due.\<close>

definition due_renew :: "int \<Rightarrow> string \<Rightarrow> string \<Rightarrow> int \<Rightarrow> vk_db \<Rightarrow> vk_db" where
  "due_renew now key member after_ms db = vk_zadd now key (now + after_ms) member db"

definition due_lapse_now :: "int \<Rightarrow> string \<Rightarrow> string \<Rightarrow> vk_db \<Rightarrow> vk_db" where
  "due_lapse_now now key member db = vk_zadd now key 0 member db"

definition due_lapsed :: "int \<Rightarrow> string \<Rightarrow> nat \<Rightarrow> vk_db \<Rightarrow> string list \<times> int" where
  "due_lapsed now key limit db =
    (let z = vk_zset now db key; upcoming = filter (\<lambda>p. now < snd p) z
     in (take limit (map fst (filter (\<lambda>p. snd p \<le> now) z)),
         case upcoming of [] \<Rightarrow> - 1 | p # _ \<Rightarrow> snd p - now))"

section \<open>The store\<close>

record DurableSave =
  ds_ref :: DurableRef
  ds_body :: string
  ds_seat :: RunQueueSeat
  ds_fresh :: bool

definition owned_save :: "string \<Rightarrow> DurableSave \<Rightarrow> OwnedSave" where
  "owned_save owner d =
    \<lparr>os_owner = owner, os_body = ds_body d, os_must_be_new = ds_fresh d, os_pin = qs_ticket (ds_seat d),
     os_pin_keys = [fst (runQueueKeys (ds_seat d)), snd (runQueueKeys (ds_seat d))], os_ttl = durableKeyTTL\<rparr>"

definition durable_Save :: "int \<Rightarrow> string \<Rightarrow> DurableSave \<Rightarrow> vk_db \<Rightarrow> int option \<times> vk_db" where
  "durable_Save now owner d db =
    save_owned now (ownedDurableRecord (ds_ref d)) (owned_save owner d)
      (expiring_add now (durableOwnedKey owner) durableKeyTTL [memberOf (ds_ref d)] db)"

definition durable_Standing :: "int \<Rightarrow> string \<Rightarrow> DurableRef \<Rightarrow> vk_db \<Rightarrow> int option \<times> vk_db" where
  "durable_Standing now owner ref db = standing_owned now (ownedDurableRecord ref) owner db"

definition durable_Finish :: "int \<Rightarrow> string \<Rightarrow> DurableRef \<Rightarrow> string \<Rightarrow> vk_db \<Rightarrow> int option \<times> vk_db" where
  "durable_Finish now owner ref ticket db0 =
    (case finish_owned now (ownedDurableRecord ref) owner ticket db0 of
       (None, db) \<Rightarrow> (None, db)
     | (Some standing, db) \<Rightarrow> (Some standing, expiring_remove now (durableOwnedKey owner) [memberOf ref] db))"

definition durable_Renew :: "int \<Rightarrow> string \<Rightarrow> int \<Rightarrow> vk_db \<Rightarrow> vk_db" where
  "durable_Renew now owner lease db = due_renew now durableReplicasKey owner lease db"

definition durable_Release :: "int \<Rightarrow> string \<Rightarrow> vk_db \<Rightarrow> vk_db" where
  "durable_Release now owner db = due_lapse_now now durableReplicasKey owner db"

definition durable_Lapsed :: "int \<Rightarrow> vk_db \<Rightarrow> string list \<times> int" where
  "durable_Lapsed now db = due_lapsed now durableReplicasKey 32 db"

text \<open>The record of one member, if it was won; a body that is missing is None.\<close>

definition claimOne :: "int \<Rightarrow> string \<Rightarrow> string \<Rightarrow> string \<Rightarrow> vk_db \<Rightarrow> (DurableRef \<times> string option) option \<times> vk_db" where
  "claimOne now source target member db0 =
    (case parseDurableMember member of
       None \<Rightarrow> (None, expiring_remove now (durableOwnedKey source) [member] db0)
     | Some ref \<Rightarrow>
         (case claim_owned now (ownedDurableRecord ref) source target durableKeyTTL db0 of ((status, body), db1) \<Rightarrow>
            let db2 = (if status = 0 then expiring_remove now (durableOwnedKey target) [member] db1 else db1);
                db3 = expiring_remove now (durableOwnedKey source) [member] db2
            in (if status = 1 then Some (ref, body) else None, db3)))"

fun claim_members :: "int \<Rightarrow> string \<Rightarrow> string \<Rightarrow> string list \<Rightarrow> vk_db \<Rightarrow> (DurableRef \<times> string option) list \<times> vk_db" where
  "claim_members now source target [] db = ([], db)"
| "claim_members now source target (m # ms) db0 =
    (case claimOne now source target m db0 of (c, db1) \<Rightarrow>
     case claim_members now source target ms db1 of (cs, db2) \<Rightarrow> (case c of Some x \<Rightarrow> x # cs | None \<Rightarrow> cs, db2))"

text \<open>\<open>sample\<close> is the answer of \<open>SRANDMEMBER\<close>; the flag tells that nothing is left to take over.\<close>

definition durable_Claim ::
  "int \<Rightarrow> string \<Rightarrow> string \<Rightarrow> string list \<Rightarrow> vk_db \<Rightarrow> ((DurableRef \<times> string option) list \<times> bool) \<times> vk_db" where
  "durable_Claim now source target sample db =
    (if sample = [] then (([], True), vk_zrem now durableReplicasKey source db)
     else case claim_members now source target sample (expiring_add now (durableOwnedKey target) durableKeyTTL sample db) of
       (claims, db') \<Rightarrow> ((claims, False), db'))"

section \<open>Decisions of a replica\<close>

text \<open>\<open>sleepFor\<close>, in milliseconds: when to look for dead replicas again.\<close>

definition sleepFor :: "int \<Rightarrow> int \<Rightarrow> int \<Rightarrow> int" where
  "sleepFor lease sweep_min next_due = (if next_due < 0 then lease else max (min next_due lease) sweep_min)"

text \<open>\<open>stillOurs\<close> and \<open>finish\<close> for a run with a record; None is an error of the store.\<close>

definition stillOurs :: "int option \<Rightarrow> bool" where
  "stillOurs standing = (case standing of None \<Rightarrow> True | Some s \<Rightarrow> s \<noteq> - 1)"

text \<open>\<open>save\<close>: whether the run goes on here, and whether it has a record now.\<close>

definition save_goes_on :: "int option \<Rightarrow> bool \<times> bool" where
  "save_goes_on standing = (case standing of None \<Rightarrow> (True, False) | Some s \<Rightarrow> if s = - 1 then (False, False) else (True, True))"

section \<open>The keys are apart\<close>

lemma durable_keys_apart: "records_apart (durable_keys bid)"
  by (auto simp: records_apart_def durable_keys_def Let_def inj_def)

lemma durable_key_prefix: "k \<in> channel_keys (durable_keys bid) \<Longrightarrow> take 12 k = ''automation:d''"
  by (auto simp: channel_keys_def durable_keys_def durableChannelBase_def Let_def)

lemma queue_key_prefix: "k \<in> queue_keys \<Longrightarrow> take 12 k = ''automation:q''"
  by (auto simp: queue_keys_def runQueueKeys_def Let_def)

lemma no_queue_key: "k \<in> queue_keys \<Longrightarrow> k \<notin> channel_keys (durable_keys bid)"
  using durable_key_prefix queue_key_prefix by fastforce

lemma pin_keys_apart: "set (os_pin_keys (owned_save owner d)) \<inter> channel_keys (durable_keys bid) = {}"
  using no_queue_key [of "fst (runQueueKeys (ds_seat d))" bid] no_queue_key [of "snd (runQueueKeys (ds_seat d))" bid]
  by (auto simp: owned_save_def queue_keys_def)

lemma owned_key_prefix: "take 12 (durableOwnedKey owner) = ''automation:d''"
  by (simp add: durableOwnedKey_def)

lemma expiring_add_elsewhere: "k' \<noteq> k \<Longrightarrow> expiring_add now k ttl ms db k' = db k'"
  by (simp add: expiring_add_def vk_pexpire_elsewhere vk_put_members_def vk_del_def vk_update_def)

text \<open>
  Seen from the queues, saving a paused run changes pins and gives the keys of its own queue a new expiry,
  both calls that the exclusiveness of a queue allows for.
\<close>

lemma durable_Save_queue:
  assumes "durable_Save t owner d db = (a, db')" "now \<le> t"
  shows "queue_run now db [(t, PinsChange, None)] db'
    \<or> queue_run now db [(t, PinsChange, None), (t, QProlong (ds_seat d), None)] db'"
proof -
  let ?c = "durable_keys (dr_bid (ds_ref d))"
  define db0 where "db0 = expiring_add t (durableOwnedKey owner) durableKeyTTL [memberOf (ds_ref d)] db"
  have start: "\<forall>k \<in> queue_keys. db0 k = db k"
  proof
    fix k assume "k \<in> queue_keys"
    then have "k \<noteq> durableOwnedKey owner" using queue_key_prefix [of k] owned_key_prefix [of owner] by auto
    then show "db0 k = db k" by (simp add: db0_def expiring_add_elsewhere)
  qed
  have pins: "queue_run now db [(t, PinsChange, None)] x" if "\<forall>k \<in> queue_keys. x k = db k" for x
    by (rule queue_run.q_pins [OF assms(2) that queue_run.q_quiet])
  have "save_owned t (record_of ?c (dr_id (ds_ref d))) (owned_save owner d) db0 = (a, db')"
    using assms(1) by (simp add: durable_Save_def ownedDurableRecord_def db0_def)
  then show ?thesis
  proof (cases rule: save_cases)
    case (written db1)
    define db3 where "db3 = pexpire_all t [rk_records ?c, rk_owners ?c, rk_pins ?c] durableKeyTTL
      (vk_hset t (rk_owners ?c) (dr_id (ds_ref d)) owner (vk_hset t (rk_records ?c) (dr_id (ds_ref d)) (ds_body d) db1))"
    have "\<forall>k \<in> queue_keys. db3 k = db k"
    proof
      fix k assume k: "k \<in> queue_keys"
      have away: "k \<noteq> rk_records ?c" "k \<noteq> rk_owners ?c" "k \<noteq> rk_pins ?c"
        using no_queue_key [OF k, of "dr_bid (ds_ref d)"] by (auto simp: channel_keys_def)
      have "db1 k = db0 k" using db1_elsewhere [OF written(1)] away by (simp add: record_of_def)
      then show "db3 k = db k"
        using start k away by (simp add: db3_def pexpire_all_elsewhere vk_pexpire_elsewhere hset_elsewhere)
    qed
    moreover have "db' = (if qs_ticket (ds_seat d) \<noteq> [] then vk_pexpire t (snd (runQueueKeys (ds_seat d))) durableKeyTTL
        (vk_pexpire t (fst (runQueueKeys (ds_seat d))) durableKeyTTL db3) else db3)"
      using written(3) by (simp add: db3_def record_of_def owned_save_def Let_def)
    ultimately show ?thesis
      using pins queue_run.q_pins [OF assms(2) _ queue_run.q_prolong [OF order_refl queue_run.q_quiet]] by auto
  qed (use pins start in simp_all)
qed

text \<open>The entry of a record in the set of its owner names the record.\<close>

lemma member_names_record:
  assumes "int (dr_bid ref) < 2 ^ 64"
  shows "parseDurableMember (memberOf ref) = Some ref"
proof -
  have colon: "CHR '':'' \<notin> set (nat_digits n)" for n
    using nat_digits_all [of n] by (auto simp: list_all_iff is_digit_def)
  have "index_byte (xs @ CHR '':'' # ys) CHR '':'' = Some (length xs)" if "CHR '':'' \<notin> set xs" for xs ys
    using that by (induction xs) auto
  then have "cut (memberOf ref) CHR '':'' = (nat_digits (dr_bid ref), dr_id ref, True)"
    using colon by (simp add: cut_def memberOf_def)
  moreover have "parse_uint (nat_digits (dr_bid ref)) = (int (dr_bid ref), None)"
    using assms nat_digits_all [of "dr_bid ref"] digits_value_nat_digits [of "dr_bid ref"] by (simp add: parse_uint_def)
  ultimately show ?thesis by (simp add: parseDurableMember_def)
qed

section \<open>Properties\<close>

text \<open>C9: A run that another replica has taken over stops where it was: once a claim has handed its record on,
  every question, save or finish of the former owner within the next hour is answered with lost, whatever
  replicas do with the records of the channel meanwhile, unless the record is handed back.\<close>

theorem taken_over_run_stops:
  assumes "claim_owned now (ownedDurableRecord ref) former target durableKeyTTL db = ((1, body), db')"
    and "record_run (durable_keys (dr_bid ref)) durableKeyTTL now db' events db''"
    and "\<forall>(u, call, a) \<in> set events. u < now + durableKeyTTL \<and> (\<forall>k. call \<noteq> Claim (dr_id ref) k former)"
    and "(u, call, a) \<in> set events" "acts_for call = Some (dr_id ref, former)"
  shows "a = Some (- 1) \<and> \<not> stillOurs a"
proof -
  let ?c = "durable_keys (dr_bid ref)" and ?i = "dr_id ref"
  note apart = records_apart_neq [OF durable_keys_apart [of "dr_bid ref"]]
  have won: "owner_of now ?c db ?i = Some former" "target \<noteq> former"
      "db' = vk_set_px now (rk_taken ?c ?i) ''1'' durableKeyTTL (vk_hset now (rk_owners ?c) ?i target db)"
    using assms(1) by (auto simp: claim_owned_def ownedDurableRecord_def record_of_def Let_def split: if_splits)
  have owners: "db' (rk_owners ?c) = vk_hset now (rk_owners ?c) ?i target db (rk_owners ?c)"
    using apart by (simp add: won(3) vk_set_px_def)
  have "map_of (stored_hash db' (rk_owners ?c)) ?i = Some target"
    unfolding stored_elsewhere [of db' "rk_owners ?c" "vk_hset now (rk_owners ?c) ?i target db", OF owners]
    by (simp add: vk_hset_def stored_put_hash update_conv')
  then have "fenced ?c ?i former (now + durableKeyTTL) db'"
    using won(2) by (simp add: fenced_def) (simp add: won(3) vk_set_px_def)
  from fenced_run [OF assms(2) durable_keys_apart this order_refl assms(3)] assms(4,5)
  have "a = Some (- 1)" by fast
  then show ?thesis by (simp add: stillOurs_def)
qed

text \<open>C37: A redelivered event starts no second copy of a paused run: while a saved record has not been finished,
  every save within the hour that asks for a new record of that identity is refused, whoever asks.\<close>

theorem one_fresh_record:
  assumes "durable_Save now owner d db = (Some 1, db')"
    and "record_run (durable_keys (dr_bid (ds_ref d))) durableKeyTTL now db' events db''"
    and "\<forall>(u, call, a) \<in> set events. u < now + durableKeyTTL
      \<and> (\<forall>m pin. call = Finish (dr_id (ds_ref d)) m pin \<longrightarrow> a = Some 0 \<or> a = Some (- 1))"
    and "(u, Save (dr_id (ds_ref d)) (owned_save other d'), a) \<in> set events" "ds_fresh d'"
  shows "a = Some (- 1) \<and> save_goes_on a = (False, False)"
proof -
  let ?c = "durable_keys (dr_bid (ds_ref d))" and ?i = "dr_id (ds_ref d)"
  define db0 where "db0 = expiring_add now (durableOwnedKey owner) durableKeyTTL [memberOf (ds_ref d)] db"
  have "save_owned now (record_of ?c ?i) (owned_save owner d) db0 = (Some 1, db')"
    using assms(1) by (simp add: durable_Save_def ownedDurableRecord_def db0_def)
  then have "recorded ?c ?i (now + durableKeyTTL) db'"
  proof (cases rule: save_cases)
    case (written db1)
    have "db' (rk_owners ?c) = Some \<lparr>vk_value = VHash (AList.update ?i owner (vk_hash now db1 (rk_owners ?c))),
        vk_expires = Some (now + durableKeyTTL)\<rparr>"
      by (rule written_keys(1) [OF durable_keys_apart _ pin_keys_apart [of owner d], where q = "qs_ticket (ds_seat d) \<noteq> []" and
            body = "ds_body d"])
        (use written(3) in \<open>simp_all add: owned_save_def record_of_def Let_def\<close>)
    then show ?thesis by (simp add: recorded_def update_conv')
  qed simp_all
  from recorded_run [OF assms(2) durable_keys_apart _ this order_refl assms(3)] assms(4,5)
  have "a = Some (- 1)" by (fastforce simp: owned_save_def)
  then show ?thesis by (simp add: save_goes_on_def)
qed


section \<open>Instances\<close>

definition paused :: DurableSave where
  "paused = \<lparr>ds_ref = \<lparr>dr_bid = 42, dr_id = ''r''\<rparr>, ds_body = ''steps'', ds_seat = sample_seat ''a'', ds_fresh = True\<rparr>"

definition paused_db :: vk_db where
  "paused_db = snd (durable_Save 1000 ''pod1'' paused (\<lambda>k. None))"

lemma paused_saved: "durable_Save 1000 ''pod1'' paused (\<lambda>k. None) = (Some 1, paused_db)"
  unfolding paused_db_def prod_eq_iff by (simp, code_simp)

definition taken_db :: vk_db where
  "taken_db = snd (claim_owned 2000 (ownedDurableRecord (ds_ref paused)) ''pod1'' ''pod2'' durableKeyTTL paused_db)"

lemma paused_taken:
  "claim_owned 2000 (ownedDurableRecord (ds_ref paused)) ''pod1'' ''pod2'' durableKeyTTL paused_db = ((1, Some ''steps''), taken_db)"
  unfolding taken_db_def prod_eq_iff by (simp, code_simp)

lemma one_call: "record_step c ttl u db call a db' \<Longrightarrow> now \<le> u \<Longrightarrow> record_run c ttl now db [(u, call, a)] db'"
  by (rule record_run.r_called [OF _ _ record_run.r_quiet])

theorem taken_over_run_stops_witness:
  "fst (durable_Standing 3000 ''pod1'' (ds_ref paused) taken_db) = Some (- 1)"
proof -
  let ?a = "fst (durable_Standing 3000 ''pod1'' (ds_ref paused) taken_db)"
  have "standing_owned 3000 (record_of (durable_keys 42) ''r'') ''pod1'' taken_db = (?a, taken_db)"
    by (simp add: durable_Standing_def standing_owned_def ownedDurableRecord_def paused_def)
  from one_call [OF record_step.standing [OF this], of 2000 durableKeyTTL]
  have "record_run (durable_keys (dr_bid (ds_ref paused))) durableKeyTTL 2000 taken_db [(3000, Standing ''r'' ''pod1'', ?a)] taken_db"
    by (simp add: paused_def)
  from taken_over_run_stops [OF paused_taken this, of 3000 "Standing ''r'' ''pod1''" ?a] show ?thesis
    by (simp add: acts_for_def paused_def)
qed

theorem one_fresh_record_witness:
  "fst (save_owned 3000 (ownedDurableRecord (ds_ref paused)) (owned_save ''pod2'' paused) paused_db) = Some (- 1)"
proof -
  let ?s = "save_owned 3000 (record_of (durable_keys 42) ''r'') (owned_save ''pod2'' paused) paused_db"
  have "record_step (durable_keys 42) durableKeyTTL 3000 paused_db (Save ''r'' (owned_save ''pod2'' paused)) (fst ?s) (snd ?s)"
    by (rule record_step.saving [OF surjective_pairing _ pin_keys_apart]) (simp add: owned_save_def)
  from one_call [OF this, of 1000]
  have "record_run (durable_keys (dr_bid (ds_ref paused))) durableKeyTTL 1000 paused_db
      [(3000, Save ''r'' (owned_save ''pod2'' paused), fst ?s)] (snd ?s)"
    by (simp add: paused_def)
  from one_fresh_record [OF paused_saved this, of 3000 "''pod2''" paused "fst ?s"] show ?thesis
    by (simp add: paused_def ownedDurableRecord_def)
qed


end
