(* ===== verification/Idempotency.thy ===== *)
theory Idempotency
  imports ValkeyDb
begin

text \<open>
  Handling a message once, pkg/idempotency: the claim of a key in Valkey (valkey\_store.go), the cache of
  claims a pod keeps before it (lru.go), and the guard around a handler (guard.go). The pods of a fleet share
  the database; each has a cache of its own.
\<close>

section \<open>The cache of a pod\<close>

text \<open>
  An element of the list is an address: \<open>lru_value\<close> is what is stored there, \<open>lru_fresh\<close> the next address to
  allocate. The clock of the pod is an argument of the methods.
\<close>

record lruEntry =
  le_key :: string
  le_expires :: int

record ttlLRU =
  lru_cap :: int
  lru_ll :: "nat list"
  lru_items :: "string \<rightharpoonup> nat"
  lru_value :: "nat \<Rightarrow> lruEntry"
  lru_fresh :: nat

definition newTTLLRU :: "int \<Rightarrow> ttlLRU" where
  "newTTLLRU capacity = \<lparr>lru_cap = (if capacity < 1 then 1 else capacity), lru_ll = [], lru_items = Map.empty,
     lru_value = (\<lambda>_. \<lparr>le_key = [], le_expires = 0\<rparr>), lru_fresh = 0\<rparr>"

definition moveToFront :: "nat \<Rightarrow> nat list \<Rightarrow> nat list" where
  "moveToFront el ll = (if el \<in> set ll then el # filter (\<lambda>e. e \<noteq> el) ll else ll)"

definition lru_drop :: "nat option \<Rightarrow> ttlLRU \<Rightarrow> ttlLRU" where
  "lru_drop el c =
    (case el of None \<Rightarrow> c
     | Some e \<Rightarrow> c\<lparr>lru_ll := filter (\<lambda>e'. e' \<noteq> e) (lru_ll c), lru_items := (lru_items c)(le_key (lru_value c e) := None)\<rparr>)"

definition lru_has :: "int \<Rightarrow> string \<Rightarrow> ttlLRU \<Rightarrow> bool \<times> ttlLRU" where
  "lru_has clock key c =
    (case lru_items c key of None \<Rightarrow> (False, c)
     | Some el \<Rightarrow>
         if \<not> clock < le_expires (lru_value c el) then (False, lru_drop (Some el) c)
         else (True, c\<lparr>lru_ll := moveToFront el (lru_ll c)\<rparr>))"

definition lru_back :: "nat list \<Rightarrow> nat option" where
  "lru_back ll = (if ll = [] then None else Some (last ll))"

definition lru_add :: "int \<Rightarrow> string \<Rightarrow> int \<Rightarrow> ttlLRU \<Rightarrow> ttlLRU" where
  "lru_add clock key ttl c =
    (let expires = clock + ttl in
     case lru_items c key of
       Some el \<Rightarrow> c\<lparr>lru_value := (lru_value c)(el := (lru_value c el)\<lparr>le_expires := expires\<rparr>),
                    lru_ll := moveToFront el (lru_ll c)\<rparr>
     | None \<Rightarrow>
         let el = lru_fresh c;
             c1 = c\<lparr>lru_value := (lru_value c)(el := \<lparr>le_key = key, le_expires = expires\<rparr>), lru_ll := el # lru_ll c,
                    lru_items := (lru_items c)(key \<mapsto> el), lru_fresh := el + 1\<rparr>
         in if int (length (lru_ll c1)) > lru_cap c1 then lru_drop (lru_back (lru_ll c1)) c1 else c1)"

definition lru_remove :: "string \<Rightarrow> ttlLRU \<Rightarrow> ttlLRU" where
  "lru_remove key c = (case lru_items c key of None \<Rightarrow> c | Some el \<Rightarrow> lru_drop (Some el) c)"

section \<open>What the cache holds\<close>

text \<open>
  The cache as the list of its claims, most recent first. The map of the items and the list hold the same
  elements, no two for one key, and never more than the capacity.
\<close>

definition held :: "ttlLRU \<Rightarrow> (string \<times> int) list" where
  "held c = map (\<lambda>e. (le_key (lru_value c e), le_expires (lru_value c e))) (lru_ll c)"

definition lru_ok :: "ttlLRU \<Rightarrow> bool" where
  "lru_ok c \<longleftrightarrow> 1 \<le> lru_cap c \<and> int (length (lru_ll c)) \<le> lru_cap c \<and> distinct (lru_ll c)
    \<and> (\<forall>e \<in> set (lru_ll c). e < lru_fresh c)
    \<and> (\<forall>k e. lru_items c k = Some e \<longleftrightarrow> e \<in> set (lru_ll c) \<and> le_key (lru_value c e) = k)"

definition without :: "string \<Rightarrow> (string \<times> int) list \<Rightarrow> (string \<times> int) list" where
  "without k h = filter (\<lambda>p. fst p \<noteq> k) h"

text \<open>The abstract cache: a list of keys with the end of their claims.\<close>

definition has_spec :: "int \<Rightarrow> string \<Rightarrow> (string \<times> int) list \<Rightarrow> bool \<times> (string \<times> int) list" where
  "has_spec clock key h =
    (case map_of h key of None \<Rightarrow> (False, h)
     | Some expires \<Rightarrow> if expires \<le> clock then (False, without key h) else (True, (key, expires) # without key h))"

definition add_spec :: "int \<Rightarrow> int \<Rightarrow> string \<Rightarrow> int \<Rightarrow> (string \<times> int) list \<Rightarrow> (string \<times> int) list" where
  "add_spec capacity clock key ttl h = take (nat capacity) ((key, clock + ttl) # without key h)"

lemma lru_okE:
  assumes "lru_ok c"
  shows "distinct (lru_ll c)" "lru_items c k = Some e \<longleftrightarrow> e \<in> set (lru_ll c) \<and> le_key (lru_value c e) = k"
    "int (length (lru_ll c)) \<le> lru_cap c" "1 \<le> lru_cap c" "\<And>e. e \<in> set (lru_ll c) \<Longrightarrow> e < lru_fresh c"
  using assms by (auto simp: lru_ok_def)

lemma lru_items_inj:
  assumes "lru_ok c" "e \<in> set (lru_ll c)" "e' \<in> set (lru_ll c)" "le_key (lru_value c e) = le_key (lru_value c e')"
  shows "e = e'"
proof -
  have "lru_items c (le_key (lru_value c e)) = Some e" "lru_items c (le_key (lru_value c e)) = Some e'"
    using assms by (simp_all add: lru_okE(2))
  then show ?thesis by simp
qed

lemma held_lookup:
  assumes "lru_ok c"
  shows "map_of (held c) k = map_option (\<lambda>e. le_expires (lru_value c e)) (lru_items c k)"
proof -
  have keys: "distinct (map fst (held c))"
    using lru_okE(1) [OF assms] lru_items_inj [OF assms] by (auto simp: held_def distinct_map inj_on_def)
  show ?thesis
  proof (cases "lru_items c k")
    case None
    then have "k \<notin> fst ` set (held c)" using lru_okE(2) [OF assms, of k] by (force simp: held_def)
    then show ?thesis using None by (simp add: map_of_eq_None_iff)
  next
    case (Some e)
    then have "e \<in> set (lru_ll c)" "le_key (lru_value c e) = k" using lru_okE(2) [OF assms] by auto
    then have "(k, le_expires (lru_value c e)) \<in> set (held c)" by (force simp: held_def)
    then show ?thesis using Some keys by (simp add: map_of_eq_Some_iff)
  qed
qed

lemma held_without:
  assumes "lru_ok c" "lru_items c k = Some e"
  shows "without k (held c)
    = map (\<lambda>e. (le_key (lru_value c e), le_expires (lru_value c e))) (filter (\<lambda>e'. e' \<noteq> e) (lru_ll c))"
proof -
  have "e \<in> set (lru_ll c)" "le_key (lru_value c e) = k" using assms lru_okE(2) by auto
  then have "(le_key (lru_value c e') \<noteq> k) = (e' \<noteq> e)" if "e' \<in> set (lru_ll c)" for e'
    using lru_items_inj [OF assms(1) _ that] by auto
  then show ?thesis by (auto simp: without_def held_def filter_map comp_def intro!: arg_cong [where f = "map _"] filter_cong)
qed

lemma held_absent: "\<lbrakk>lru_ok c; lru_items c k = None\<rbrakk> \<Longrightarrow> without k (held c) = held c"
  using lru_okE(2) [of c k] by (auto simp: without_def held_def filter_id_conv)

lemma lru_drop_refines:
  assumes "lru_ok c" "lru_items c k = Some e"
  shows "lru_ok (lru_drop (Some e) c) \<and> held (lru_drop (Some e) c) = without k (held c)"
proof -
  have e: "e \<in> set (lru_ll c)" "le_key (lru_value c e) = k" using assms lru_okE(2) by auto
  have "int (length (filter (\<lambda>e'. e' \<noteq> e) (lru_ll c))) \<le> lru_cap c"
    using lru_okE(3) [OF assms(1)] length_filter_le [of "\<lambda>e'. e' \<noteq> e" "lru_ll c"] by linarith
  then have "lru_ok (lru_drop (Some e) c)"
    using assms(1) e lru_items_inj [OF assms(1)] by (auto simp: lru_ok_def lru_drop_def)
  then show ?thesis by (simp add: held_without [OF assms]) (simp add: held_def lru_drop_def)
qed

lemma move_refines:
  assumes "lru_ok c" "lru_items c k = Some e"
  shows "lru_ok (c\<lparr>lru_ll := moveToFront e (lru_ll c)\<rparr>)
    \<and> held (c\<lparr>lru_ll := moveToFront e (lru_ll c)\<rparr>) = (k, le_expires (lru_value c e)) # without k (held c)"
proof -
  have e: "e \<in> set (lru_ll c)" "le_key (lru_value c e) = k" using assms lru_okE(2) by auto
  have "filter (\<lambda>e'. e' \<noteq> e) (lru_ll c) = remove1 e (lru_ll c)"
    using lru_okE(1) [OF assms(1)] by (simp add: distinct_remove1_removeAll removeAll_filter_not_eq eq_commute)
  then have "length (moveToFront e (lru_ll c)) = length (lru_ll c)"
    using e(1) length_pos_if_in_set [OF e(1)] by (simp add: moveToFront_def length_remove1)
  moreover have "set (moveToFront e (lru_ll c)) = set (lru_ll c)" "distinct (moveToFront e (lru_ll c))"
    using e(1) lru_okE(1) [OF assms(1)] by (auto simp: moveToFront_def)
  ultimately show ?thesis
    using assms(1) e unfolding held_without [OF assms] by (auto simp: lru_ok_def held_def moveToFront_def)
qed

lemma lru_has_refines:
  assumes "lru_ok c"
  shows "lru_ok (snd (lru_has clock k c))
    \<and> (fst (lru_has clock k c), held (snd (lru_has clock k c))) = has_spec clock k (held c)"
  using lru_drop_refines [OF assms] move_refines [OF assms] assms
  by (auto simp: lru_has_def has_spec_def held_lookup [OF assms] split: option.split)

lemma lru_remove_refines:
  assumes "lru_ok c"
  shows "lru_ok (lru_remove k c) \<and> held (lru_remove k c) = without k (held c)"
  using lru_drop_refines [OF assms] held_absent [OF assms] assms by (auto simp: lru_remove_def split: option.split)

lemma lru_set_expires:
  fixes t :: int
  assumes "lru_ok c" "lru_items c k = Some e"
  defines "c' \<equiv> c\<lparr>lru_value := (lru_value c)(e := (lru_value c e)\<lparr>le_expires := t\<rparr>)\<rparr>"
  shows "lru_ok c'" "lru_items c' k = Some e" "le_expires (lru_value c' e) = t" "without k (held c') = without k (held c)"
proof -
  have e: "e \<in> set (lru_ll c)" "le_key (lru_value c e) = k" using assms(1,2) lru_okE(2) by auto
  show "lru_ok c'" using assms(1) by (auto simp: c'_def lru_ok_def)
  moreover show items: "lru_items c' k = Some e" "le_expires (lru_value c' e) = t" using assms(2) by (simp_all add: c'_def)
  ultimately show "without k (held c') = without k (held c)"
    unfolding held_without [OF assms(1,2)] by (subst held_without [of c' k e]) (auto simp: c'_def)
qed

lemma lru_push:
  fixes t :: int
  assumes "lru_ok c" "lru_items c k = None"
  defines "c' \<equiv> c\<lparr>lru_value := (lru_value c)(lru_fresh c := \<lparr>le_key = k, le_expires = t\<rparr>), lru_ll := lru_fresh c # lru_ll c,
                    lru_items := (lru_items c)(k \<mapsto> lru_fresh c), lru_fresh := lru_fresh c + 1\<rparr>"
  shows "held c' = (k, t) # held c" "lru_cap c' = lru_cap c" "distinct (lru_ll c')" "\<forall>e \<in> set (lru_ll c'). e < lru_fresh c'"
    "lru_items c' k' = Some e \<longleftrightarrow> e \<in> set (lru_ll c') \<and> le_key (lru_value c' e) = k'"
proof -
  have new: "lru_fresh c \<notin> set (lru_ll c)" using lru_okE(5) [OF assms(1)] by blast
  show "held c' = (k, t) # held c" "lru_cap c' = lru_cap c" using new by (auto simp: c'_def held_def)
  show "distinct (lru_ll c')" "\<forall>e \<in> set (lru_ll c'). e < lru_fresh c'"
    using new lru_okE(1,5) [OF assms(1)] by (auto simp: c'_def less_Suc_eq)
  show "lru_items c' k' = Some e \<longleftrightarrow> e \<in> set (lru_ll c') \<and> le_key (lru_value c' e) = k'"
    using new assms(2) lru_okE(2) [OF assms(1), of k'] lru_okE(2) [OF assms(1), of k] by (auto simp: c'_def)
qed

lemma held_length: "lru_ok c \<Longrightarrow> length (held c) \<le> nat (lru_cap c)"
  using lru_okE(3,4) [of c] by (simp add: held_def)

lemma filter_neq_last: "\<lbrakk>distinct xs; xs \<noteq> []\<rbrakk> \<Longrightarrow> filter (\<lambda>x. x \<noteq> last xs) xs = butlast xs"
  by (induction xs rule: rev_induct) (auto simp: filter_id_conv)

lemma held_drop_last:
  assumes "distinct (lru_ll c)" "int (length (lru_ll c)) = n + 1" "0 \<le> n"
  shows "held (lru_drop (Some (last (lru_ll c))) c) = take (nat n) (held c)"
proof -
  have "lru_ll c \<noteq> []" "nat n = length (lru_ll c) - 1" using assms(2,3) by auto
  then have "filter (\<lambda>e. e \<noteq> last (lru_ll c)) (lru_ll c) = take (nat n) (lru_ll c)"
    using filter_neq_last [OF assms(1)] assms(2,3) by (simp add: butlast_conv_take)
  then show ?thesis by (simp add: held_def lru_drop_def take_map)
qed

lemma lru_add_refines:
  assumes "lru_ok c"
  shows "lru_ok (lru_add clock k ttl c) \<and> held (lru_add clock k ttl c) = add_spec (lru_cap c) clock k ttl (held c)"
proof (cases "lru_items c k")
  case (Some e)
  note set_it = lru_set_expires [OF assms Some, of "clock + ttl"]
  have "length (without k (held c)) < length (held c)"
    using held_lookup [OF assms, of k] Some map_of_SomeD [of "held c" k]
    by (fastforce simp: without_def intro: length_filter_less)
  then show ?thesis
    using move_refines [OF set_it(1,2)] set_it(3,4) held_length [OF assms] Some
    by (simp add: lru_add_def add_spec_def)
next
  case None
  note push = lru_push [OF assms None, of "clock + ttl"]
  let ?c = "c\<lparr>lru_value := (lru_value c)(lru_fresh c := \<lparr>le_key = k, le_expires = clock + ttl\<rparr>),
    lru_ll := lru_fresh c # lru_ll c, lru_items := (lru_items c)(k \<mapsto> lru_fresh c), lru_fresh := lru_fresh c + 1\<rparr>"
  have add: "lru_add clock k ttl c =
      (if int (length (lru_ll ?c)) > lru_cap ?c then lru_drop (lru_back (lru_ll ?c)) ?c else ?c)"
    using None by (simp add: lru_add_def Let_def)
  have cap: "1 \<le> lru_cap c" "int (length (lru_ll c)) \<le> lru_cap c" using lru_okE [OF assms] by auto
  show ?thesis
  proof (cases "int (length (lru_ll ?c)) > lru_cap ?c")
    case False
    then have "lru_ok ?c" unfolding lru_ok_def using push cap by auto
    then show ?thesis using add False push(1,2) cap held_length [OF \<open>lru_ok ?c\<close>]
      by (simp add: add_spec_def held_absent [OF assms None])
  next
    case True
    let ?d = "lru_drop (Some (last (lru_ll ?c))) ?c"
    have ll: "lru_ll ?d = butlast (lru_ll ?c)"
      using filter_neq_last [OF push(3)] by (simp add: lru_drop_def)
    have n: "int (length (lru_ll ?c)) = lru_cap c + 1" using True cap by simp
    let ?w = "?c\<lparr>lru_cap := lru_cap c + 1\<rparr>"
    have w: "lru_ok ?w"
      unfolding lru_ok_def using push cap n by auto
    have "lru_items ?w (le_key (lru_value ?w (last (lru_ll ?w)))) = Some (last (lru_ll ?w))"
      by (subst lru_okE(2) [OF w]) simp
    from lru_drop_refines [OF w this]
    have "lru_ok (lru_drop (Some (last (lru_ll ?w))) ?w)" ..
    then have "lru_ok ?d" 
      using cap n ll by (auto simp: lru_ok_def lru_drop_def)
    moreover have "held ?d = take (nat (lru_cap c)) (held ?c)"
      using held_drop_last [OF push(3) n] cap by simp
    ultimately show ?thesis using add True push(1) by (simp add: add_spec_def held_absent [OF assms None] lru_back_def)
  qed
qed

section \<open>The claims in Valkey\<close>

text \<open>
  A call reaches the server at its clock \<open>cc_now\<close>, in milliseconds; \<open>cc_clock\<close> is the clock of the calling
  pod, in nanoseconds like every \<open>time.Duration\<close>. A request can be lost before it is executed or its reply after.
\<close>

datatype net = Answered | Unsent string | Unanswered string

record claim_call =
  cc_now :: int
  cc_clock :: int
  cc_net :: net
  cc_pod :: nat

type_synonym 's seen_fn = "claim_call \<Rightarrow> string \<Rightarrow> int \<Rightarrow> 's \<Rightarrow> (bool \<times> string option) \<times> 's"
type_synonym 's release_fn = "claim_call \<Rightarrow> string \<Rightarrow> 's \<Rightarrow> string option \<times> 's"

definition millis :: "int \<Rightarrow> int" where
  "millis ttl = (let ms = ttl div 1000000 in if ms < 1 then 1 else ms)"

definition claim_key :: "string \<Rightarrow> string \<Rightarrow> string" where
  "claim_key prefix key = prefix @ key"

definition ClaimOnce :: "int \<Rightarrow> string \<Rightarrow> int \<Rightarrow> vk_db \<Rightarrow> bool \<times> vk_db" where
  "ClaimOnce now key ms db = vk_set_nx_px now key ''1'' ms db"

definition valkey_seen :: "string \<Rightarrow> vk_db seen_fn" where
  "valkey_seen prefix c key ttl db =
    (case ClaimOnce (cc_now c) (claim_key prefix key) (millis ttl) db of (won, db') \<Rightarrow>
       case cc_net c of
         Answered \<Rightarrow> ((\<not> won, None), db')
       | Unsent err \<Rightarrow> ((False, Some err), db)
       | Unanswered err \<Rightarrow> ((False, Some err), db'))"

definition valkey_release :: "string \<Rightarrow> vk_db release_fn" where
  "valkey_release prefix c key db =
    (case cc_net c of
       Answered \<Rightarrow> (None, vk_del (claim_key prefix key) db)
     | Unsent err \<Rightarrow> (Some err, db)
     | Unanswered err \<Rightarrow> (Some err, vk_del (claim_key prefix key) db))"

section \<open>The tiered store\<close>

definition tiered_seen :: "'s seen_fn \<Rightarrow> (ttlLRU \<times> 's) seen_fn" where
  "tiered_seen inner c key ttl s0 =
    (case s0 of (cache0, s) \<Rightarrow>
       case lru_has (cc_clock c) key cache0 of (hit, cache) \<Rightarrow>
         if hit then ((True, None), (cache, s))
         else case inner c key ttl s of ((seen, err), s') \<Rightarrow>
           if err \<noteq> None then ((seen, err), (cache, s'))
           else ((seen, None), (lru_add (cc_clock c) key ttl cache, s')))"

definition tiered_release :: "'s release_fn \<Rightarrow> (ttlLRU \<times> 's) release_fn" where
  "tiered_release inner c key s0 =
    (case s0 of (cache, s) \<Rightarrow> case inner c key s of (err, s') \<Rightarrow> (err, (lru_remove key cache, s')))"

text \<open>The pods of a fleet: a cache each, one database.\<close>

type_synonym fleet = "(nat \<Rightarrow> ttlLRU) \<times> vk_db"

definition fleet_seen :: "string \<Rightarrow> fleet seen_fn" where
  "fleet_seen prefix c key ttl s0 =
    (case s0 of (caches, db) \<Rightarrow>
       case tiered_seen (valkey_seen prefix) c key ttl (caches (cc_pod c), db) of (answer, (cache, db')) \<Rightarrow>
         (answer, (caches(cc_pod c := cache), db')))"

definition fleet_release :: "string \<Rightarrow> fleet release_fn" where
  "fleet_release prefix c key s0 =
    (case s0 of (caches, db) \<Rightarrow>
       case tiered_release (valkey_release prefix) c key (caches (cc_pod c), db) of (err, (cache, db')) \<Rightarrow>
         (err, (caches(cc_pod c := cache), db')))"

section \<open>The guard\<close>

datatype outcome = Returned "string option" | Panicked

datatype admission = Unguarded | FailedOpen | Duplicate | Claimed string

text \<open>The key of a message by its UUID; None is the nil message.\<close>

definition MessageUUIDKey :: "string option \<Rightarrow> string \<times> bool" where
  "MessageUUIDKey uuid = (case uuid of None \<Rightarrow> ([], False) | Some u \<Rightarrow> if u = [] then ([], False) else (u, True))"

text \<open>\<open>guardOne\<close> up to the handler, and what the deferred function of \<open>runClaimed\<close> does after it.\<close>

definition guard_admit :: "'s seen_fn \<Rightarrow> ('m \<Rightarrow> string \<times> bool) \<Rightarrow> int \<Rightarrow> claim_call \<Rightarrow> 'm \<Rightarrow> 's \<Rightarrow> admission \<times> 's" where
  "guard_admit seen_fn key_of ttl c m s0 =
    (case key_of m of (k, ok) \<Rightarrow>
       if \<not> ok then (Unguarded, s0)
       else case seen_fn c k ttl s0 of ((seen, err), s) \<Rightarrow>
         if err \<noteq> None then (FailedOpen, s) else if seen then (Duplicate, s) else (Claimed k, s))"

definition guard_settle :: "'s release_fn \<Rightarrow> claim_call \<Rightarrow> string \<Rightarrow> outcome \<Rightarrow> 's \<Rightarrow> 's" where
  "guard_settle release_fn c k out s = (if out \<noteq> Returned None then snd (release_fn c k s) else s)"

definition guardOne :: "'s seen_fn \<Rightarrow> 's release_fn \<Rightarrow> ('m \<Rightarrow> string \<times> bool) \<Rightarrow> int
    \<Rightarrow> ('m \<Rightarrow> 's \<Rightarrow> outcome \<times> 's) \<Rightarrow> claim_call \<Rightarrow> claim_call \<Rightarrow> 'm \<Rightarrow> 's \<Rightarrow> outcome \<times> 's" where
  "guardOne seen_fn release_fn key_of ttl handler c c' m s0 =
    (case guard_admit seen_fn key_of ttl c m s0 of
       (Duplicate, s) \<Rightarrow> (Returned None, s)
     | (Claimed k, s) \<Rightarrow> (case handler m s of (out, s') \<Rightarrow> (out, guard_settle release_fn c' k out s'))
     | (_, s) \<Rightarrow> handler m s)"

text \<open>
  Deliveries on any pods, in any order: a delivery is admitted, and when it held a claim its handler ends later.
  A running delivery is known with its key and the time of its claim.
\<close>

record 's guarded =
  gs_store :: 's
  gs_running :: "nat \<rightharpoonup> string \<times> int"

datatype guard_event = Admit nat admission | Settle nat string int outcome

inductive guard_step :: "'s seen_fn \<Rightarrow> 's release_fn \<Rightarrow> ('m \<Rightarrow> string \<times> bool) \<Rightarrow> int \<Rightarrow> int
    \<Rightarrow> 's guarded \<Rightarrow> guard_event \<Rightarrow> 's guarded \<Rightarrow> bool"
  for seen_fn release_fn key_of ttl t g where
  claimed: "\<lbrakk>gs_running g d = None; cc_now c = t; guard_admit seen_fn key_of ttl c m (gs_store g) = (Claimed k, s')\<rbrakk>
    \<Longrightarrow> guard_step seen_fn release_fn key_of ttl t g (Admit d (Claimed k))
          (g\<lparr>gs_store := s', gs_running := (gs_running g)(d \<mapsto> (k, t))\<rparr>)"
| passed: "\<lbrakk>cc_now c = t; guard_admit seen_fn key_of ttl c m (gs_store g) = (a, s'); \<forall>k. a \<noteq> Claimed k\<rbrakk>
    \<Longrightarrow> guard_step seen_fn release_fn key_of ttl t g (Admit d a) (g\<lparr>gs_store := s'\<rparr>)"
| settled: "\<lbrakk>gs_running g d = Some (k, t0); cc_now c = t\<rbrakk>
    \<Longrightarrow> guard_step seen_fn release_fn key_of ttl t g (Settle d k t0 out)
          (g\<lparr>gs_store := guard_settle release_fn c k out (gs_store g), gs_running := (gs_running g)(d := None)\<rparr>)"

inductive guard_run :: "'s seen_fn \<Rightarrow> 's release_fn \<Rightarrow> ('m \<Rightarrow> string \<times> bool) \<Rightarrow> int \<Rightarrow> int
    \<Rightarrow> 's guarded \<Rightarrow> (int \<times> guard_event) list \<Rightarrow> 's guarded \<Rightarrow> bool"
  for seen_fn release_fn key_of ttl where
  none: "guard_run seen_fn release_fn key_of ttl now g [] g"
| more: "\<lbrakk>now \<le> t; guard_step seen_fn release_fn key_of ttl t g ev g'; guard_run seen_fn release_fn key_of ttl t g' evs g''\<rbrakk>
    \<Longrightarrow> guard_run seen_fn release_fn key_of ttl now g ((t, ev) # evs) g''"

inductive_cases guard_run_cons: "guard_run seen_fn release_fn key_of ttl now g (e # evs) g''"
inductive_cases guard_step_cases: "guard_step seen_fn release_fn key_of ttl t g ev g'"

text \<open>Every handler that ends has ended within the life of its claim.\<close>

definition punctual :: "int \<Rightarrow> (int \<times> guard_event) list \<Rightarrow> bool" where
  "punctual ttl evs \<longleftrightarrow> list_all (\<lambda>(t, ev). case ev of Settle d k t0 out \<Rightarrow> t < t0 + millis ttl | _ \<Rightarrow> True) evs"

section \<open>What a store of claims promises\<close>

text \<open>
  \<open>until k s\<close> is when the claim of \<open>k\<close> ends. A claim is won only when no other lives, it lasts, and only the
  operations on its own key change it.
\<close>

locale claim_store =
  fixes seen_fn :: "'s seen_fn" and release_fn :: "'s release_fn" and until_fn :: "string \<Rightarrow> 's \<Rightarrow> int option"
  assumes claims: "seen_fn c k ttl s = ((False, None), s')
      \<Longrightarrow> (\<forall>e. until_fn k s = Some e \<longrightarrow> e \<le> cc_now c) \<and> until_fn k s' = Some (cc_now c + millis ttl)"
    and lasts: "\<lbrakk>seen_fn c k ttl s = (a, s'); until_fn k s = Some e; cc_now c < e\<rbrakk> \<Longrightarrow> until_fn k s' = Some e"
    and seen_other: "\<lbrakk>seen_fn c k ttl s = (a, s'); k' \<noteq> k\<rbrakk> \<Longrightarrow> until_fn k' s' = until_fn k' s"
    and release_other: "k' \<noteq> k \<Longrightarrow> until_fn k' (snd (release_fn c k s)) = until_fn k' s"
begin

definition claims_held :: "int \<Rightarrow> int \<Rightarrow> 's guarded \<Rightarrow> bool" where
  "claims_held ttl now g \<longleftrightarrow>
    (\<forall>d k t. gs_running g d = Some (k, t) \<and> now < t + millis ttl \<longrightarrow> until_fn k (gs_store g) = Some (t + millis ttl))
    \<and> (\<forall>d d' k t t'. gs_running g d = Some (k, t) \<and> gs_running g d' = Some (k, t')
        \<and> now < t + millis ttl \<and> now < t' + millis ttl \<longrightarrow> d = d')"

lemma admit_claimed:
  assumes "guard_admit seen_fn key_of ttl c m s = (Claimed k, s')"
  shows "(\<forall>e. until_fn k s = Some e \<longrightarrow> e \<le> cc_now c) \<and> until_fn k s' = Some (cc_now c + millis ttl)
    \<and> (\<forall>k'. k' \<noteq> k \<longrightarrow> until_fn k' s' = until_fn k' s)"
  using assms by (auto simp: guard_admit_def split: prod.splits if_splits dest: claims seen_other)

lemma admit_lasts:
  assumes "guard_admit seen_fn key_of ttl c m s = (a, s')" "until_fn k s = Some e" "cc_now c < e"
  shows "until_fn k s' = Some e"
proof (cases "key_of m")
  case (Pair k0 granted)
  obtain seen err s2 where s2: "seen_fn c k0 ttl s = ((seen, err), s2)" by (metis surj_pair)
  then have "until_fn k s2 = Some e"
    using lasts [OF _ assms(2,3)] seen_other [of c k0 ttl s "(seen, err)" s2 k] assms(2) by (cases "k0 = k") auto
  then show ?thesis using assms(1,2) Pair s2 by (auto simp: guard_admit_def split: if_splits)
qed

lemma claims_held_later: "\<lbrakk>claims_held ttl now g; now \<le> t\<rbrakk> \<Longrightarrow> claims_held ttl t g"
  unfolding claims_held_def by (meson le_less_trans)

lemma claims_heldD:
  assumes "claims_held ttl now g" "gs_running g d = Some (k, t)" "now < t + millis ttl"
  shows "until_fn k (gs_store g) = Some (t + millis ttl)"
    "\<lbrakk>gs_running g d' = Some (k, t'); now < t' + millis ttl\<rbrakk> \<Longrightarrow> d = d'"
  using assms unfolding claims_held_def by blast+

lemma claims_held_step:
  assumes held: "claims_held ttl t g" and step: "guard_step seen_fn release_fn key_of ttl t g ev g'"
    and punctual: "punctual ttl [(t, ev)]"
  shows "claims_held ttl t g'"
  using step
proof cases
  case (claimed d c m k s')
  note fresh = admit_claimed [OF claimed(5)]
  have stale: "gs_running g d' = Some (k, t') \<Longrightarrow> t' + millis ttl \<le> t" for d' t'
    using claims_heldD(1) [OF held, of d' k t'] fresh claimed(4) by (metis not_le)
  show ?thesis
    unfolding claims_held_def
  proof (intro conjI allI impI; elim conjE)
    fix d' k' t'
    assume "gs_running g' d' = Some (k', t')" "t < t' + millis ttl"
    then show "until_fn k' (gs_store g') = Some (t' + millis ttl)"
      using claimed(2,4) fresh stale claims_heldD(1) [OF held, of d' k' t'] by (cases "k' = k") (force split: if_splits)+
  next
    fix d1 d2 k' t1 t2
    assume "gs_running g' d1 = Some (k', t1)" "gs_running g' d2 = Some (k', t2)" "t < t1 + millis ttl" "t < t2 + millis ttl"
    then show "d1 = d2"
      using claimed(2) stale claims_heldD(2) [OF held, of d1 k' t1 d2 t2] by (fastforce split: if_splits)
  qed
next
  case (passed c m a s')
  then show ?thesis
    using admit_lasts [OF passed(4)] held unfolding claims_held_def by (auto simp: passed(3))
next
  case (settled d k t0 c out)
  have alive: "t < t0 + millis ttl" using punctual settled(1) by (simp add: punctual_def)
  have "until_fn k' (gs_store g') = until_fn k' (gs_store g)" if "k' \<noteq> k" for k'
    using that release_other settled(2) by (simp add: guard_settle_def)
  moreover have "k' \<noteq> k" if "gs_running g' d' = Some (k', t')" "t < t' + millis ttl" for d' k' t'
    using claims_heldD(2) [OF held settled(3) alive, of d' t'] that settled(2) by (auto split: if_splits)
  ultimately show ?thesis
    using held settled(2) unfolding claims_held_def by (auto split: if_splits) metis+
qed

lemma guard_run_times: "\<lbrakk>guard_run seen_fn release_fn key_of ttl now g evs g'; (t, ev) \<in> set evs\<rbrakk> \<Longrightarrow> now \<le> t"
  by (induction rule: guard_run.induct) auto

lemma guard_run_split:
  "guard_run seen_fn release_fn key_of ttl now g (pre @ (t, ev) # evs) g'' \<Longrightarrow> punctual ttl (pre @ (t, ev) # evs)
    \<Longrightarrow> claims_held ttl now g
    \<Longrightarrow> \<exists>g1 g2. claims_held ttl t g1 \<and> guard_step seen_fn release_fn key_of ttl t g1 ev g2
      \<and> guard_run seen_fn release_fn key_of ttl t g2 evs g''"
proof (induction pre arbitrary: now g)
  case Nil
  then show ?case by (auto elim!: guard_run_cons intro: claims_held_later)
next
  case (Cons e pre)
  obtain u ev' where e: "e = (u, ev')" by (cases e)
  from Cons.prems(1) obtain g1 where g1: "now \<le> u" "guard_step seen_fn release_fn key_of ttl u g ev' g1"
    "guard_run seen_fn release_fn key_of ttl u g1 (pre @ (t, ev) # evs) g''"
    by (auto simp: e elim: guard_run_cons)
  have "claims_held ttl u g1"
    using claims_held_step [OF claims_held_later [OF Cons.prems(3) g1(1)] g1(2)] Cons.prems(2) by (simp add: e punctual_def)
  then show ?case using Cons.IH [OF g1(3)] Cons.prems(2) by (simp add: punctual_def)
qed

text \<open>While a claim lives and its holder has not failed, the key is not claimed again.\<close>

lemma no_second_claim:
  "\<lbrakk>guard_run seen_fn release_fn key_of ttl now g (mid @ (t2, Admit d2 (Claimed k)) # post) g'; punctual ttl mid;
    until_fn k (gs_store g) = Some e;
    \<And>d' t'. \<lbrakk>gs_running g d' = Some (k, t'); now < t' + millis ttl\<rbrakk> \<Longrightarrow> d' = d \<and> t' = t0;
    \<And>t out. (t, Settle d k t0 out) \<in> set mid \<Longrightarrow> out = Returned None\<rbrakk> \<Longrightarrow> e \<le> t2"
proof (induction mid arbitrary: now g)
  case Nil
  then show ?case by (auto elim!: guard_run_cons guard_step_cases dest: admit_claimed)
next
  case (Cons x mid)
  obtain t ev where x: "x = (t, ev)" by (cases x)
  from Cons.prems(1) obtain g1 where g1: "now \<le> t" "guard_step seen_fn release_fn key_of ttl t g ev g1"
    and run: "guard_run seen_fn release_fn key_of ttl t g1 (mid @ (t2, Admit d2 (Claimed k)) # post) g'"
    by (auto simp: x elim: guard_run_cons)
  have punctual: "punctual ttl mid" using Cons.prems(2) by (simp add: punctual_def)
  show ?case
  proof (cases "e \<le> t")
    case True
    then show ?thesis using guard_run_times [OF run, of t2 "Admit d2 (Claimed k)"] by auto
  next
    case False
    have "until_fn k (gs_store g1) = Some e
      \<and> (\<forall>d' t'. gs_running g1 d' = Some (k, t') \<and> t < t' + millis ttl \<longrightarrow> d' = d \<and> t' = t0)"
      using g1(2)
    proof cases
      case (claimed d' c m k' s')
      have "k' \<noteq> k" using admit_claimed [OF claimed(5)] Cons.prems(3) claimed(4) False by auto
      then show ?thesis
        using admit_claimed [OF claimed(5)] Cons.prems(3,4) claimed(2) g1(1) by auto
    next
      case (passed c m a s')
      then show ?thesis using admit_lasts [OF passed(4) Cons.prems(3)] Cons.prems(4) g1(1) False by auto
    next
      case (settled d' k' t' c out)
      have alive: "t < t' + millis ttl" using Cons.prems(2) settled(1) by (simp add: x punctual_def)
      have "until_fn k (gs_store g1) = Some e"
      proof (cases "k' = k")
        case True
        then have "d' = d \<and> t' = t0" using Cons.prems(4) [of d' t'] settled(3) alive g1(1) by auto
        then have "out = Returned None" using Cons.prems(5) [of t out] True settled(1) by (simp add: x)
        then show ?thesis using Cons.prems(3) settled(2) by (simp add: guard_settle_def)
      next
        case False
        then show ?thesis using release_other [of k k'] Cons.prems(3) settled(2) by (simp add: guard_settle_def)
      qed
      then show ?thesis using Cons.prems(4) g1(1) settled(2) by auto
    qed
    then show ?thesis using Cons.IH [OF run punctual, of] Cons.prems(5) by auto
  qed
qed

lemma claimed_again:
  assumes run: "guard_run seen_fn release_fn key_of ttl now g
      (pre @ (t1, Admit d1 (Claimed k)) # mid @ (t2, Admit d2 (Claimed k)) # post) g'"
    and punctual: "punctual ttl (pre @ (t1, Admit d1 (Claimed k)) # mid @ (t2, Admit d2 (Claimed k)) # post)"
    and idle: "gs_running g = Map.empty"
  shows "t1 + millis ttl \<le> t2 \<or> (\<exists>t out. (t, Settle d1 k t1 out) \<in> set mid \<and> out \<noteq> Returned None)"
proof (rule ccontr)
  assume no: "\<not> ?thesis"
  have "claims_held ttl now g" using idle by (simp add: claims_held_def)
  from guard_run_split [OF run punctual this] obtain g1 g2 where g1: "claims_held ttl t1 g1"
    "guard_step seen_fn release_fn key_of ttl t1 g1 (Admit d1 (Claimed k)) g2"
    and rest: "guard_run seen_fn release_fn key_of ttl t1 g2 (mid @ (t2, Admit d2 (Claimed k)) # post) g'" by blast
  have g2: "claims_held ttl t1 g2" using claims_held_step [OF g1] by (simp add: punctual_def)
  have running: "gs_running g2 d1 = Some (k, t1)" using g1(2) by (auto elim!: guard_step_cases)
  have alive: "t1 < t1 + millis ttl" by (simp add: millis_def Let_def)
  have "d' = d1 \<and> t' = t1" if "gs_running g2 d' = Some (k, t')" "t1 < t' + millis ttl" for d' t'
    using claims_heldD(2) [OF g2 running alive that] that(1) running by simp
  moreover have "punctual ttl mid" using punctual by (simp add: punctual_def)
  ultimately have "t1 + millis ttl \<le> t2"
    using no_second_claim [OF rest _ claims_heldD(1) [OF g2 running alive]] no by blast
  then show False using no by blast
qed

end

section \<open>The stores of the program\<close>

definition claim_until :: "string \<Rightarrow> string \<Rightarrow> vk_db \<Rightarrow> int option" where
  "claim_until prefix k db = (case db (claim_key prefix k) of None \<Rightarrow> None | Some e \<Rightarrow> vk_expires e)"

lemma valkey_seen_db:
  "valkey_seen prefix c k ttl db = (a, db') \<Longrightarrow> db' = db \<or> \<not> vk_exists (cc_now c) db (claim_key prefix k)
    \<and> db' = vk_set_px (cc_now c) (claim_key prefix k) ''1'' (millis ttl) db"
  by (auto simp: valkey_seen_def ClaimOnce_def vk_set_nx_px_def split: net.splits if_splits)

lemma valkey_seen_won:
  "valkey_seen prefix c k ttl db = ((False, None), db') \<Longrightarrow> \<not> vk_exists (cc_now c) db (claim_key prefix k)
    \<and> db' = vk_set_px (cc_now c) (claim_key prefix k) ''1'' (millis ttl) db"
  by (auto simp: valkey_seen_def ClaimOnce_def vk_set_nx_px_def split: net.splits if_splits)

lemma claim_until_set:
  "claim_until prefix k' (vk_set_px now (claim_key prefix k) v ms db)
    = (if k' = k then Some (now + ms) else claim_until prefix k' db)"
  by (auto simp: claim_until_def vk_set_px_def claim_key_def)

lemma claim_until_absent:
  "\<lbrakk>\<not> vk_exists now db (claim_key prefix k); claim_until prefix k db = Some e\<rbrakk> \<Longrightarrow> e \<le> now"
  by (auto simp: claim_until_def vk_exists_def vk_read_def split: option.splits if_splits)

interpretation valkey_claims: claim_store "valkey_seen prefix" "valkey_release prefix" "claim_until prefix"
proof
  fix c k ttl db db'
  assume "valkey_seen prefix c k ttl db = ((False, None), db')"
  then show "(\<forall>e. claim_until prefix k db = Some e \<longrightarrow> e \<le> cc_now c)
      \<and> claim_until prefix k db' = Some (cc_now c + millis ttl)"
    by (auto dest!: valkey_seen_won dest: claim_until_absent simp: claim_until_set)
next
  fix c k ttl db a db' e
  assume "valkey_seen prefix c k ttl db = (a, db')" "claim_until prefix k db = Some e" "cc_now c < e"
  then show "claim_until prefix k db' = Some e" by (auto dest!: valkey_seen_db dest: claim_until_absent)
next
  fix c k ttl db a db' k'
  assume "valkey_seen prefix c k ttl db = (a, db')" "k' \<noteq> k"
  then show "claim_until prefix k' db' = claim_until prefix k' db" by (auto dest!: valkey_seen_db simp: claim_until_set)
next
  fix k' k c db
  assume "k' \<noteq> (k :: string)"
  then show "claim_until prefix k' (snd (valkey_release prefix c k db)) = claim_until prefix k' db"
    by (auto simp: valkey_release_def claim_until_def claim_key_def vk_del_def split: net.splits)
qed

text \<open>A cache before the store only turns more claims away.\<close>

lemma fleet_seen_db:
  assumes "fleet_seen prefix c k ttl (caches, db) = (a, (caches', db'))"
  shows "valkey_seen prefix c k ttl db = (a, db') \<or> db' = db \<and> a = (True, None)"
  using assms
  by (auto simp: fleet_seen_def tiered_seen_def split: prod.splits if_splits)

lemma fleet_release_db: "snd (snd (fleet_release prefix c k (caches, db))) = snd (valkey_release prefix c k db)"
  by (simp add: fleet_release_def tiered_release_def split: prod.split)

interpretation fleet_claims: claim_store "fleet_seen prefix" "fleet_release prefix" "\<lambda>k s. claim_until prefix k (snd s)"
proof
  fix c k ttl and s s' :: fleet
  assume "fleet_seen prefix c k ttl s = ((False, None), s')"
  then show "(\<forall>e. claim_until prefix k (snd s) = Some e \<longrightarrow> e \<le> cc_now c)
      \<and> claim_until prefix k (snd s') = Some (cc_now c + millis ttl)"
    by (cases s; cases s') (auto dest!: fleet_seen_db dest: valkey_claims.claims)
next
  fix c k ttl a e and s s' :: fleet
  assume "fleet_seen prefix c k ttl s = (a, s')" "claim_until prefix k (snd s) = Some e" "cc_now c < e"
  then show "claim_until prefix k (snd s') = Some e"
    by (cases s; cases s') (auto dest!: fleet_seen_db dest: valkey_claims.lasts)
next
  fix c k ttl a k' and s s' :: fleet
  assume "fleet_seen prefix c k ttl s = (a, s')" "k' \<noteq> k"
  then show "claim_until prefix k' (snd s') = claim_until prefix k' (snd s)"
    by (cases s; cases s') (auto dest!: fleet_seen_db dest: valkey_claims.seen_other)
next
  fix k' k c and s :: fleet
  assume "k' \<noteq> (k :: string)"
  then show "claim_until prefix k' (snd (snd (fleet_release prefix c k s))) = claim_until prefix k' (snd s)"
    by (cases s) (simp add: fleet_release_db valkey_claims.release_other)
qed

section \<open>What the fleet promises\<close>


lemma claimed_now:
  assumes "gs_running g d = None" "cc_now c = t" "fst (guard_admit seen_fn key_of ttl c m (gs_store g)) = Claimed k"
  shows "guard_step seen_fn release_fn key_of ttl t g (Admit d (Claimed k))
    (g\<lparr>gs_store := snd (guard_admit seen_fn key_of ttl c m (gs_store g)), gs_running := (gs_running g)(d \<mapsto> (k, t))\<rparr>)"
  by (rule guard_step.claimed [OF assms(1,2)]) (use assms(3) in \<open>simp add: prod_eq_iff\<close>)

definition sample_fleet :: "fleet guarded" where
  "sample_fleet = \<lparr>gs_store = (\<lambda>_. newTTLLRU 2, Map.empty), gs_running = Map.empty\<rparr>"

definition sample_call :: "int \<Rightarrow> nat \<Rightarrow> claim_call" where
  "sample_call now pod = \<lparr>cc_now = now, cc_clock = now * 1000000, cc_net = Answered, cc_pod = pod\<rparr>"

lemmas guard_eval = sample_fleet_def sample_call_def newTTLLRU_def guard_admit_def MessageUUIDKey_def fleet_seen_def
  tiered_seen_def lru_has_def lru_add_def lru_remove_def lru_drop_def lru_back_def moveToFront_def valkey_seen_def
  ClaimOnce_def vk_set_nx_px_def vk_set_px_def vk_exists_def vk_read_def vk_del_def claim_key_def millis_def guard_settle_def
  fleet_release_def tiered_release_def valkey_release_def

lemma sample_guard_run:
  "\<exists>g'. guard_run (fleet_seen ''seen:'') (fleet_release ''seen:'') MessageUUIDKey 2000000000 0 sample_fleet
    [(10, Admit 1 (Claimed ''m'')), (20, Settle 1 ''m'' 10 Panicked), (30, Admit 2 (Claimed ''m''))] g'"
  apply (rule exI)
  apply (rule guard_run.more, simp, rule claimed_now [where c = "sample_call 10 0" and m = "Some ''m''"])
     apply (simp_all add: guard_eval)[3]
  apply (rule guard_run.more, simp, rule guard_step.settled [where c = "sample_call 20 0"])
    apply (simp_all add: guard_eval)[2]
  apply (rule guard_run.more, simp, rule claimed_now [where c = "sample_call 30 0" and m = "Some ''m''"])
     apply (simp_all add: guard_eval)[3]
  apply (rule guard_run.none)
  done


text \<open>C39: The cache of claims is a least-recently-used list: looking a key up, adding and removing a claim do on the
  linked list with its index of elements what they do on the list of keys with the ends of their claims, which
  is bounded by the capacity, and keep the index exact.\<close>

theorem lru_refines_list:
  assumes "lru_ok c"
  shows "lru_ok (snd (lru_has clock k c)) \<and> lru_ok (lru_add clock k ttl c) \<and> lru_ok (lru_remove k c)
    \<and> (fst (lru_has clock k c), held (snd (lru_has clock k c))) = has_spec clock k (held c)
    \<and> held (lru_add clock k ttl c) = take (nat (lru_cap c)) ((k, clock + ttl) # without k (held c))
    \<and> held (lru_remove k c) = without k (held c)"
  using lru_has_refines [OF assms, of clock k] lru_add_refines [OF assms, of clock k ttl]
    lru_remove_refines [OF assms, of k]
  by (simp add: add_spec_def)

lemma newTTLLRU_ok: "lru_ok (newTTLLRU n)"
  by (simp add: lru_ok_def newTTLLRU_def)

lemma lru_refines_list_witness:
  "held (lru_add 5 ''a'' 10 (newTTLLRU 2)) = [(''a'', 15)] \<and> lru_ok (lru_add 5 ''a'' 10 (newTTLLRU 2))"
  using lru_refines_list [OF newTTLLRU_ok, of 5 "''a''" 2 10]
  by (simp add: without_def held_def newTTLLRU_def)

text \<open>C40: After a failed handler has released its claim, the next delivery of the key is admitted, unless it comes
  to another pod that still remembers the claim: there it is turned away as a duplicate, although nothing has
  handled the message.\<close>

theorem failed_claim_freed:
  assumes "lru_ok (caches (cc_pod r))" "lru_ok (caches (cc_pod c))" "cc_net r = Answered" "cc_net c = Answered"
  shows "fst (fleet_seen prefix c k ttl (snd (fleet_release prefix r k (caches, db))))
    = (cc_pod c \<noteq> cc_pod r \<and> (\<exists>e. map_of (held (caches (cc_pod c))) k = Some e \<and> cc_clock c < e), None)"
proof -
  let ?cache = "if cc_pod c = cc_pod r then lru_remove k (caches (cc_pod r)) else caches (cc_pod c)"
  have state: "snd (fleet_release prefix r k (caches, db))
      = (caches(cc_pod r := lru_remove k (caches (cc_pod r))), vk_del (claim_key prefix k) db)"
    using assms(3) by (simp add: fleet_release_def tiered_release_def valkey_release_def)
  have "lru_ok ?cache" using assms(1,2) lru_remove_refines by auto
  then have "fst (lru_has (cc_clock c) k ?cache) = (\<exists>e. map_of (held ?cache) k = Some e \<and> cc_clock c < e)"
    using lru_has_refines [of ?cache "cc_clock c" k] by (auto simp: has_spec_def split: option.splits if_splits)
  moreover have "map_of (without k h) k = None" for h
    by (auto simp: without_def map_of_eq_None_iff)
  moreover have "\<not> vk_exists (cc_now c) (vk_del (claim_key prefix k) db) (claim_key prefix k)"
    by (simp add: vk_exists_def vk_simps)
  ultimately show ?thesis
    using assms(1,4) lru_remove_refines [OF assms(1), of k]
    by (auto simp: state fleet_seen_def tiered_seen_def valkey_seen_def ClaimOnce_def vk_set_nx_px_def split: prod.splits)
qed

text \<open>Pod 1 has looked at the message while pod 0 was handling it; pod 0 fails, and pod 1 drops the redelivery.\<close>

definition sample_caches :: "nat \<Rightarrow> ttlLRU" where
  "sample_caches = (\<lambda>pod. lru_add (10000000 + int pod) ''m'' 2000000000 (newTTLLRU 2))"

lemma failed_claim_freed_witness:
  "fst (fleet_seen ''seen:'' (sample_call 30 1) ''m'' 2000000000
      (snd (fleet_release ''seen:'' (sample_call 20 0) ''m'' (sample_caches, Map.empty)))) = (True, None)
   \<and> fst (fleet_seen ''seen:'' (sample_call 30 0) ''m'' 2000000000
      (snd (fleet_release ''seen:'' (sample_call 20 0) ''m'' (sample_caches, Map.empty)))) = (False, None)"
proof -
  have sane: "lru_ok (sample_caches pod)" for pod
    unfolding sample_caches_def using lru_add_refines newTTLLRU_ok by blast
  have held: "map_of (held (sample_caches 1)) ''m'' = Some 2010000001"
    by (simp add: sample_caches_def lru_add_def newTTLLRU_def held_def)
  show ?thesis
    using failed_claim_freed [where caches = sample_caches and r = "sample_call 20 0" and c = "sample_call 30 1"
        and prefix = "''seen:''" and k = "''m''" and ttl = 2000000000 and db = Map.empty, OF sane sane]
      failed_claim_freed [where caches = sample_caches and r = "sample_call 20 0" and c = "sample_call 30 0"
        and prefix = "''seen:''" and k = "''m''" and ttl = 2000000000 and db = Map.empty, OF sane sane] held
    by (simp add: sample_call_def)
qed

end
