(* ===== verification/Commands.thy ===== *)
theory Commands
  imports RunConds Idempotency
begin

text \<open>
  Commands and their gates: the roles of chatters (sesame/module/permission.go), the registry of modules
  (engine/registry.go), the parsing of a chat line (engine/parse.go), which module is enabled
  (pipeline\_handlers.go), which of the owners of a command answers, and the gate in front of it
  (dispatch.go). Handlers are functions on the world \<open>'w\<close>; what they may ask of the engine, whether a module
  is on, is an argument.
\<close>

section \<open>Roles\<close>

datatype Role = RoleEveryone | RoleSubscriber | RoleVIP | RoleModerator | RoleLeadModerator | RoleBroadcaster

fun role_rank :: "Role \<Rightarrow> nat" where
  "role_rank RoleEveryone = 0"
| "role_rank RoleSubscriber = 1"
| "role_rank RoleVIP = 2"
| "role_rank RoleModerator = 3"
| "role_rank RoleLeadModerator = 4"
| "role_rank RoleBroadcaster = 5"

lemma role_rank_inj: "role_rank a = role_rank b \<Longrightarrow> a = b"
  by (cases a; cases b) simp_all

instantiation Role :: linorder
begin

definition less_eq_Role :: "Role \<Rightarrow> Role \<Rightarrow> bool" where
  "less_eq_Role a b \<longleftrightarrow> role_rank a \<le> role_rank b"

definition less_Role :: "Role \<Rightarrow> Role \<Rightarrow> bool" where
  "less_Role a b \<longleftrightarrow> role_rank a < role_rank b"

instance
  by standard (auto simp: less_eq_Role_def less_Role_def dest: role_rank_inj)

end

definition badgeRoles :: "string \<Rightarrow> Role option" where
  "badgeRoles = map_of [(''broadcaster'', RoleBroadcaster), (''lead_moderator'', RoleLeadModerator),
     (''moderator'', RoleModerator), (''vip'', RoleVIP), (''subscriber'', RoleSubscriber), (''founder'', RoleSubscriber)]"

definition perm_role_table :: "string \<Rightarrow> Role option" where
  "perm_role_table = map_of [(''everyone'', RoleEveryone), (''sub'', RoleSubscriber), (''subscriber'', RoleSubscriber),
     (''vip'', RoleVIP), (''mod'', RoleModerator), (''moderator'', RoleModerator), (''lead_mod'', RoleLeadModerator),
     (''broadcaster'', RoleBroadcaster)]"

text \<open>The parts of an envelope the engine reads; a badge is its set id, a sender its user id.\<close>

record envelope = lane_env +
  ln_type :: string
  ln_lane :: string
  ln_origin :: string
  ln_broadcaster :: string
  ln_chatter :: string
  ln_chatter_login :: string
  ln_chatter_name :: string
  ln_text :: string
  ln_badges :: "string list"
  ln_senders :: "string list"

fun badges_role :: "string list \<Rightarrow> Role \<Rightarrow> Role" where
  "badges_role [] role = role"
| "badges_role (b # bs) role =
    badges_role bs (case badgeRoles b of Some r \<Rightarrow> if r > role then r else role | None \<Rightarrow> role)"

definition ParseRole :: "envelope \<Rightarrow> Role" where
  "ParseRole ev = badges_role (ln_badges ev)
     (if ln_chatter ev \<noteq> [] \<and> ln_chatter ev = ln_broadcaster ev then RoleBroadcaster else RoleEveryone)"

definition ParsePermRole :: "string \<Rightarrow> Role" where
  "ParsePermRole perm = (if perm = [] then RoleEveryone else case perm_role_table perm of Some r \<Rightarrow> r | None \<Rightarrow> RoleEveryone)"

text \<open>The automation runs know the same levels by their ranks.\<close>

lemma ParsePermRole_rank: "role_rank (ParsePermRole perm) = ParsePerm perm"
  by (simp add: ParsePermRole_def ParsePerm_def perm_role_table_def permRoles_def)

definition Allows :: "Role \<Rightarrow> Role \<Rightarrow> bool" where
  "Allows r required \<longleftrightarrow> r \<ge> required"

datatype Regress = RegressStandard | RegressPremium | RegressStream

definition RegressFromLane :: "string \<Rightarrow> Regress" where
  "RegressFromLane lane =
    (if lane = ''premium'' then RegressPremium else if lane = ''stream'' then RegressStream else RegressStandard)"

section \<open>The context of a message\<close>

text \<open>\<open>mc_role\<close> is the role of the chatter once it has been computed.\<close>

record mctx =
  mc_env :: envelope
  mc_regress :: Regress
  mc_bid :: nat
  mc_locale :: string
  mc_locale_loaded :: bool
  mc_has_lookup :: bool
  mc_config :: string
  mc_num :: string
  mc_command :: string
  mc_engaged :: bool
  mc_emitted :: nat
  mc_role :: "Role option"

definition leaseContext :: "envelope \<Rightarrow> nat \<Rightarrow> mctx" where
  "leaseContext ev bid = \<lparr>mc_env = ev, mc_regress = RegressFromLane (ln_lane ev), mc_bid = bid, mc_locale = [],
     mc_locale_loaded = False, mc_has_lookup = False, mc_config = [], mc_num = [], mc_command = [], mc_engaged = False, mc_emitted = 0,
     mc_role = None\<rparr>"

definition Chatter :: "mctx \<Rightarrow> Role \<times> mctx" where
  "Chatter c = (case mc_role c of
     Some r \<Rightarrow> (r, c)
   | None \<Rightarrow> let r = ParseRole (mc_env c) in (r, c\<lparr>mc_role := Some r\<rparr>))"

definition EnsureLocale :: "(nat \<Rightarrow> ('w, string option) call) option \<Rightarrow> mctx \<Rightarrow> 'w \<Rightarrow> mctx \<times> 'w" where
  "EnsureLocale lookup c0 w =
    (if mc_locale_loaded c0 then (c0, w)
     else let c = c0\<lparr>mc_locale_loaded := True\<rparr> in
       if ln_origin (mc_env c) = ''trial'' then (c\<lparr>mc_locale := []\<rparr>, w)
       else case lookup of
         None \<Rightarrow> (c, w)
       | Some f \<Rightarrow>
           if mc_locale c \<noteq> [] then (c, w)
           else case f (mc_bid c) w of (found, w') \<Rightarrow>
             (case found of Some locale \<Rightarrow> c\<lparr>mc_locale := locale\<rparr> | None \<Rightarrow> c, w'))"

section \<open>Modules and the registry\<close>

datatype Kind = KindCore | KindDefault | KindOptIn

type_synonym 'w claim_fun = "(string \<Rightarrow> bool) \<Rightarrow> mctx \<Rightarrow> 'w \<Rightarrow> bool \<times> mctx \<times> 'w"

text \<open>A handler answers what it emits, in order, and its error; the engine emits nothing back to it.\<close>

type_synonym 'w run_fun = "(string \<Rightarrow> bool) \<Rightarrow> mctx \<Rightarrow> string \<Rightarrow> 'w \<Rightarrow> (out_msg list \<times> run_error option) \<times> mctx \<times> 'w"

record 'w command =
  cm_name :: string
  cm_aliases :: "string list"
  cm_perm :: Role
  cm_cooldown :: int
  cm_live_only :: bool
  cm_allowed_user :: string
  cm_numeric_suffix :: bool
  cm_when :: "'w claim_fun option"
  cm_run :: "'w run_fun"

record variable_group =
  vg_name :: string
  vg_fields :: "string list"

record 'w module =
  md_variables :: "variable_group list"
  md_name :: string
  md_kind :: Kind
  md_events :: "(string \<times> 'w run_fun option) list"
  md_commands :: "'w command list"
  md_beta :: bool
  md_trial :: bool

record 'w BoundCommand =
  bc_cmd :: "'w command"
  bc_owner :: "'w module"

record 'w Registry =
  rg_variable_modules :: "string \<rightharpoonup> 'w module"
  rg_variable_fields :: "string \<rightharpoonup> (string \<rightharpoonup> nat)"
  rg_by_name :: "string \<rightharpoonup> 'w module"
  rg_by_event :: "string \<Rightarrow> 'w module list"
  rg_commands :: "string \<Rightarrow> 'w BoundCommand list"
  rg_need_views :: "string \<Rightarrow> bool"

definition chatType :: string where "chatType = ''channel.chat.message''"

fun group_fields :: "case_table \<Rightarrow> string \<Rightarrow> nat \<Rightarrow> string list \<Rightarrow> (string \<rightharpoonup> nat) \<Rightarrow> (string \<rightharpoonup> nat)" where
  "group_fields lo name i [] m = m"
| "group_fields lo name i (f # fs) m =
    (let field = to_lower lo f; m1 = (if m field = None then m(field \<mapsto> i) else m)
     in group_fields lo name i fs (m1(to_lower lo name @ '':'' @ field \<mapsto> i)))"

fun index_groups :: "case_table \<Rightarrow> nat \<Rightarrow> variable_group list \<Rightarrow> (string \<rightharpoonup> nat) \<Rightarrow> (string \<rightharpoonup> nat)" where
  "index_groups lo i [] m = m"
| "index_groups lo i (g # gs) m = index_groups lo (i + 1) gs (group_fields lo (vg_name g) i (vg_fields g) m)"

definition namespaceFieldIndex :: "case_table \<Rightarrow> variable_group list \<Rightarrow> (string \<rightharpoonup> nat)" where
  "namespaceFieldIndex lo groups = index_groups lo 0 groups Map.empty"

definition index_event :: "'w module \<Rightarrow> string \<Rightarrow> 'w Registry \<Rightarrow> 'w Registry" where
  "index_event m evt r =
    r\<lparr>rg_by_event := (rg_by_event r)(evt := rg_by_event r evt @ [m]),
      rg_need_views := (if md_kind m \<noteq> KindCore then (rg_need_views r)(evt := True) else rg_need_views r)\<rparr>"

definition indexEvents :: "'w module \<Rightarrow> 'w Registry \<Rightarrow> 'w Registry" where
  "indexEvents m r = fold (\<lambda>e r. index_event m (fst e) r) (md_events m) r"

definition bind_trigger :: "'w module \<Rightarrow> 'w command \<Rightarrow> string \<Rightarrow> 'w Registry \<Rightarrow> 'w Registry" where
  "bind_trigger m cmd trigger r =
    (if trigger = [] then r
     else r\<lparr>rg_commands := (rg_commands r)(trigger := rg_commands r trigger @ [\<lparr>bc_cmd = cmd, bc_owner = m\<rparr>])\<rparr>)"

definition index_triggers :: "'w module \<Rightarrow> 'w command \<Rightarrow> 'w Registry \<Rightarrow> 'w Registry" where
  "index_triggers m cmd r0 =
    (let r = fold (bind_trigger m cmd) (cm_aliases cmd) (bind_trigger m cmd (cm_name cmd) r0)
     in if md_kind m \<noteq> KindCore then r\<lparr>rg_need_views := (rg_need_views r)(chatType := True)\<rparr> else r)"

definition indexCommands :: "'w module \<Rightarrow> 'w Registry \<Rightarrow> 'w Registry" where
  "indexCommands m r = fold (index_triggers m) (md_commands m) r"

definition register_module :: "case_table \<Rightarrow> 'w module \<Rightarrow> 'w Registry \<Rightarrow> 'w Registry" where
  "register_module lo m r0 =
    (let r1 = (if md_name m \<noteq> [] then r0\<lparr>rg_by_name := (rg_by_name r0)(md_name m \<mapsto> m)\<rparr> else r0);
         r2 = (if md_variables m \<noteq> []
               then r1\<lparr>rg_variable_modules := (rg_variable_modules r1)(md_name m \<mapsto> m),
                       rg_variable_fields := (rg_variable_fields r1)(md_name m \<mapsto> namespaceFieldIndex lo (md_variables m))\<rparr>
               else r1)
     in indexCommands m (indexEvents m r2))"

definition empty_registry :: "'w Registry" where
  "empty_registry = \<lparr>rg_variable_modules = Map.empty, rg_variable_fields = Map.empty, rg_by_name = Map.empty,
     rg_by_event = (\<lambda>_. []), rg_commands = (\<lambda>_. []), rg_need_views = (\<lambda>_. False)\<rparr>"

definition NewRegistry :: "case_table \<Rightarrow> 'w module list \<Rightarrow> 'w Registry" where
  "NewRegistry lo mods = fold (register_module lo) mods empty_registry"

section \<open>Parsing and resolving\<close>

definition parseCommand :: "case_table \<Rightarrow> string \<Rightarrow> string \<times> string \<times> bool" where
  "parseCommand lo t =
    (let trimmed = dropWhile (\<lambda>c. c = CHR '' '') t in
     if \<not> has_prefix trimmed ''!'' then ([], [], False)
     else let body = trim_prefix trimmed ''!'' in
       case cut body CHR '' '' of (name, args, _) \<Rightarrow>
         if name = [] then ([], [], False) else (to_lower lo name, trim_space args, True))"

definition digit_char :: "char \<Rightarrow> bool" where
  "digit_char c \<longleftrightarrow> CHR ''0'' \<le> c \<and> c \<le> CHR ''9''"

definition splitTrailingDigits :: "string \<Rightarrow> string \<times> string" where
  "splitTrailingDigits s = (rev (dropWhile digit_char (rev s)), rev (takeWhile digit_char (rev s)))"

definition resolveOwners :: "'w Registry \<Rightarrow> string \<Rightarrow> 'w BoundCommand list \<times> string" where
  "resolveOwners r name =
    (if rg_commands r name \<noteq> [] then (rg_commands r name, [])
     else case splitTrailingDigits name of (base, digits) \<Rightarrow>
       if digits = [] \<or> base = [] then ([], [])
       else let owners = rg_commands r base in
         if owners \<noteq> [] \<and> cm_numeric_suffix (bc_cmd (hd owners)) then (owners, digits) else ([], []))"

section \<open>Which module is on\<close>

text \<open>The settings of a channel: per module whether it is enabled, and its configuration.\<close>

type_synonym module_views = "string \<rightharpoonup> bool \<times> string"

definition enabledByView :: "(bool \<times> string) option \<Rightarrow> Kind \<Rightarrow> mctx \<Rightarrow> bool \<times> mctx" where
  "enabledByView view kind c =
    (let optIn = (kind = KindOptIn) in
     if optIn \<and> ln_origin (mc_env c) = ''trial'' then (False, c)
     else case view of
       None \<Rightarrow> (\<not> optIn, if \<not> optIn then c\<lparr>mc_config := []\<rparr> else c)
     | Some (is_on, configs) \<Rightarrow> if \<not> is_on then (False, c) else (True, c\<lparr>mc_config := configs\<rparr>))"

definition module_enabled :: "'w module \<Rightarrow> module_views \<Rightarrow> mctx \<Rightarrow> bool \<times> mctx" where
  "module_enabled m views c =
    (if md_trial m then (ln_origin (mc_env c) = ''trial'', c\<lparr>mc_config := []\<rparr>)
     else if md_beta m \<and> mc_regress c \<noteq> RegressPremium then (False, c)
     else case md_kind m of
       KindCore \<Rightarrow> (True, c\<lparr>mc_config := []\<rparr>)
     | kind \<Rightarrow> enabledByView (views (md_name m)) kind c)"

definition moduleLookup :: "'w Registry \<Rightarrow> module_views \<Rightarrow> mctx \<Rightarrow> string \<Rightarrow> bool" where
  "moduleLookup r views c name =
    (case rg_by_name r name of None \<Rightarrow> False | Some m \<Rightarrow> fst (module_enabled m views c))"

text \<open>The owner that answers: the first enabled one that claims the command, else the first enabled one.\<close>

fun claim_owners ::
  "(string \<Rightarrow> bool) \<Rightarrow> module_views \<Rightarrow> 'w BoundCommand list \<Rightarrow> 'w BoundCommand option \<Rightarrow> mctx \<Rightarrow> 'w
    \<Rightarrow> ('w BoundCommand option \<times> bool) \<times> mctx \<times> 'w" where
  "claim_owners lookup views [] declined c w = ((declined, False), c, w)"
| "claim_owners lookup views (bc # bcs) declined c0 w0 =
    (case module_enabled (bc_owner bc) views c0 of (is_on, c) \<Rightarrow>
       if \<not> is_on then claim_owners lookup views bcs declined c w0
       else case cm_when (bc_cmd bc) of
         None \<Rightarrow> ((Some bc, True), c, w0)
       | Some claims \<Rightarrow>
           (case claims lookup c w0 of (claimed, c, w) \<Rightarrow>
              if claimed then ((Some bc, True), c, w)
              else claim_owners lookup views bcs (if declined = None then Some bc else declined) c w))"

definition claimOwner ::
  "(string \<Rightarrow> bool) \<Rightarrow> module_views \<Rightarrow> 'w BoundCommand list \<Rightarrow> mctx \<Rightarrow> 'w \<Rightarrow> 'w BoundCommand option \<times> mctx \<times> 'w" where
  "claimOwner lookup views owners c0 w0 =
    (case claim_owners lookup views owners None c0 w0 of ((found, claimed), c, w) \<Rightarrow>
       case found of
         None \<Rightarrow> (None, c, w)
       | Some bc \<Rightarrow> if claimed then (Some bc, c, w) else (Some bc, snd (module_enabled (bc_owner bc) views c), w))"

section \<open>What the registry holds\<close>

definition bound_to :: "string \<Rightarrow> 'w module \<Rightarrow> 'w BoundCommand list" where
  "bound_to t m = concat (map (\<lambda>cmd. map (\<lambda>_. \<lparr>bc_cmd = cmd, bc_owner = m\<rparr>)
     (filter (\<lambda>trigger. trigger = t \<and> trigger \<noteq> []) (cm_name cmd # cm_aliases cmd))) (md_commands m))"

definition handles_event :: "string \<Rightarrow> 'w module \<Rightarrow> 'w module list" where
  "handles_event evt m = map (\<lambda>_. m) (filter (\<lambda>e. fst e = evt) (md_events m))"

definition needs_views :: "string \<Rightarrow> 'w module \<Rightarrow> bool" where
  "needs_views evt m \<longleftrightarrow> md_kind m \<noteq> KindCore \<and> (evt \<in> fst ` set (md_events m) \<or> evt = chatType \<and> md_commands m \<noteq> [])"

lemma fold_append_view:
  assumes "\<And>x r. view (step x r) = view r @ part x"
  shows "view (fold step xs r) = view r @ concat (map part xs)"
  by (induction xs arbitrary: r) (simp_all add: assms)

lemma fold_or_view:
  assumes "\<And>x r. view (step x r) \<longleftrightarrow> view r \<or> part x"
  shows "view (fold step xs r) \<longleftrightarrow> view r \<or> (\<exists>x \<in> set xs. part x)"
  by (induction xs arbitrary: r) (auto simp: assms)

lemma fold_same_view:
  assumes "\<And>x r. view (step x r) = view r"
  shows "view (fold step xs r) = view r"
  by (induction xs arbitrary: r) (simp_all add: assms)

lemma bind_trigger_view:
  "rg_commands (bind_trigger m cmd trigger r) t
    = rg_commands r t @ (if trigger = t \<and> trigger \<noteq> [] then [\<lparr>bc_cmd = cmd, bc_owner = m\<rparr>] else [])"
  "rg_by_event (bind_trigger m cmd trigger r) = rg_by_event r"
  "rg_need_views (bind_trigger m cmd trigger r) = rg_need_views r"
  "rg_by_name (bind_trigger m cmd trigger r) = rg_by_name r"
  by (auto simp: bind_trigger_def)

lemma bind_triggers_view:
  "rg_commands (fold (bind_trigger m cmd) ts r) t
    = rg_commands r t @ map (\<lambda>_. \<lparr>bc_cmd = cmd, bc_owner = m\<rparr>) (filter (\<lambda>trigger. trigger = t \<and> trigger \<noteq> []) ts)"
  "rg_by_event (fold (bind_trigger m cmd) ts r) = rg_by_event r"
  "rg_need_views (fold (bind_trigger m cmd) ts r) = rg_need_views r"
  "rg_by_name (fold (bind_trigger m cmd) ts r) = rg_by_name r"
  by (induction ts arbitrary: r) (auto simp: bind_trigger_view)

lemma index_triggers_view:
  "rg_commands (index_triggers m cmd r) t = rg_commands r t @ map (\<lambda>_. \<lparr>bc_cmd = cmd, bc_owner = m\<rparr>)
     (filter (\<lambda>trigger. trigger = t \<and> trigger \<noteq> []) (cm_name cmd # cm_aliases cmd))"
  "rg_by_event (index_triggers m cmd r) = rg_by_event r"
  "rg_need_views (index_triggers m cmd r) evt \<longleftrightarrow> rg_need_views r evt \<or> md_kind m \<noteq> KindCore \<and> evt = chatType"
  "rg_by_name (index_triggers m cmd r) = rg_by_name r"
  by (auto simp: index_triggers_def Let_def bind_trigger_view bind_triggers_view)

lemma indexCommands_view:
  "rg_commands (indexCommands m r) t = rg_commands r t @ bound_to t m"
  "rg_by_event (indexCommands m r) = rg_by_event r"
  "rg_need_views (indexCommands m r) evt
    \<longleftrightarrow> rg_need_views r evt \<or> (\<exists>cmd \<in> set (md_commands m). md_kind m \<noteq> KindCore \<and> evt = chatType)"
  "rg_by_name (indexCommands m r) = rg_by_name r"
  unfolding indexCommands_def bound_to_def
  by (rule fold_append_view [where view = "\<lambda>r. rg_commands r t"] index_triggers_view(1)
      fold_same_view [where view = rg_by_event] index_triggers_view(2)
      fold_or_view [where view = "\<lambda>r. rg_need_views r evt"] index_triggers_view(3)
      fold_same_view [where view = rg_by_name] index_triggers_view(4))+

lemma index_event_view:
  "rg_commands (index_event m e r) = rg_commands r"
  "rg_by_event (index_event m e r) evt = rg_by_event r evt @ (if e = evt then [m] else [])"
  "rg_need_views (index_event m e r) evt \<longleftrightarrow> rg_need_views r evt \<or> md_kind m \<noteq> KindCore \<and> e = evt"
  "rg_by_name (index_event m e r) = rg_by_name r"
  by (auto simp: index_event_def)

lemma concat_if_filter: "concat (map (\<lambda>e. if P e then [m] else []) es) = map (\<lambda>_. m) (filter P es)"
  by (induction es) simp_all

lemma indexEvents_view:
  "rg_commands (indexEvents m r) = rg_commands r"
  "rg_by_event (indexEvents m r) evt = rg_by_event r evt @ handles_event evt m"
  "rg_need_views (indexEvents m r) evt \<longleftrightarrow> rg_need_views r evt \<or> (\<exists>e \<in> set (md_events m). md_kind m \<noteq> KindCore \<and> fst e = evt)"
  "rg_by_name (indexEvents m r) = rg_by_name r"
proof -
  show "rg_by_event (indexEvents m r) evt = rg_by_event r evt @ handles_event evt m"
    unfolding indexEvents_def handles_event_def concat_if_filter [symmetric]
    by (rule fold_append_view [where view = "\<lambda>r. rg_by_event r evt"]) (simp add: index_event_view)
qed (unfold indexEvents_def, (rule fold_same_view [where view = rg_commands] index_event_view(1)
      fold_or_view [where view = "\<lambda>r. rg_need_views r evt"] index_event_view(3)
      fold_same_view [where view = rg_by_name] index_event_view(4))+)

lemma register_module_view:
  "rg_commands (register_module lo m r) t = rg_commands r t @ bound_to t m"
  "rg_by_event (register_module lo m r) evt = rg_by_event r evt @ handles_event evt m"
  "rg_need_views (register_module lo m r) evt \<longleftrightarrow> rg_need_views r evt \<or> needs_views evt m"
  "rg_by_name (register_module lo m r) = (if md_name m \<noteq> [] then (rg_by_name r)(md_name m \<mapsto> m) else rg_by_name r)"
  by (auto simp: register_module_def Let_def indexCommands_view indexEvents_view needs_views_def image_iff)

text \<open>The registry is exactly what the modules declare, in the order of their registration: the owners of a
  trigger are the commands with that name or alias, the handlers of an event the modules that declare it, and
  the settings of a channel are needed exactly for the events and commands of modules that are not core.\<close>

theorem registry_exact:
  "rg_commands (NewRegistry lo mods) t = concat (map (bound_to t) mods)
    \<and> rg_by_event (NewRegistry lo mods) evt = concat (map (handles_event evt) mods)
    \<and> (rg_need_views (NewRegistry lo mods) evt = list_ex (needs_views evt) mods)"
  unfolding NewRegistry_def list_ex_iff
  using fold_append_view [where view = "\<lambda>r. rg_commands r t" and step = "register_module lo", OF register_module_view(1),
      of mods empty_registry]
    fold_append_view [where view = "\<lambda>r. rg_by_event r evt" and step = "register_module lo", OF register_module_view(2),
      of mods empty_registry]
    fold_or_view [where view = "\<lambda>r. rg_need_views r evt" and step = "register_module lo", OF register_module_view(3),
      of mods empty_registry]
  by (simp add: empty_registry_def)

section \<open>Who answers a command\<close>

text \<open>
  A claim decides about a message; it leaves the context alone, except that the role of the chatter may be
  computed, to what \<open>ParseRole\<close> makes of the message.
\<close>

definition role_ok :: "mctx \<Rightarrow> bool" where
  "role_ok c \<longleftrightarrow> mc_role c = None \<or> mc_role c = Some (ParseRole (mc_env c))"

definition tame_claims :: "'w BoundCommand list \<Rightarrow> bool" where
  "tame_claims owners \<longleftrightarrow> (\<forall>bc \<in> set owners. case cm_when (bc_cmd bc) of None \<Rightarrow> True
     | Some claims \<Rightarrow> (\<forall>lookup c w. case claims lookup c w of (_, c', _) \<Rightarrow>
         c' = c\<lparr>mc_role := mc_role c'\<rparr> \<and> (role_ok c \<longrightarrow> role_ok c')))"

abbreviation module_on :: "'w module \<Rightarrow> module_views \<Rightarrow> mctx \<Rightarrow> bool" where
  "module_on m views c \<equiv> fst (module_enabled m views c)"

abbreviation module_config :: "'w module \<Rightarrow> module_views \<Rightarrow> mctx \<Rightarrow> string" where
  "module_config m views c \<equiv> mc_config (snd (module_enabled m views c))"

lemma module_enabled_keeps [simp]:
  "mc_env (snd (module_enabled m views c)) = mc_env c" "mc_regress (snd (module_enabled m views c)) = mc_regress c"
  "mc_bid (snd (module_enabled m views c)) = mc_bid c" "mc_role (snd (module_enabled m views c)) = mc_role c"
  by (auto simp: module_enabled_def enabledByView_def Let_def split: Kind.split option.split)

lemma module_enabled_cong:
  assumes "mc_env c = mc_env c'" "mc_regress c = mc_regress c'"
  shows "module_on m views c = module_on m views c'"
    and "module_on m views c \<Longrightarrow> module_config m views c = module_config m views c'"
  using assms by (auto simp: module_enabled_def enabledByView_def Let_def split: Kind.splits option.splits if_splits)

lemma role_ok_on: "role_ok c \<Longrightarrow> role_ok (snd (module_enabled m views c))"
  by (simp add: role_ok_def)

lemma role_memo_keeps:
  assumes "c2 = c1\<lparr>mc_role := r\<rparr>"
  shows "mc_env c2 = mc_env c1" "mc_regress c2 = mc_regress c1" "mc_bid c2 = mc_bid c1" "mc_config c2 = mc_config c1"
  using assms by simp_all

lemma claim_owners_result:
  assumes "tame_claims owners" "claim_owners lookup views owners declined c w = ((found, claimed), c', w')"
  shows "mc_env c' = mc_env c \<and> mc_regress c' = mc_regress c \<and> mc_bid c' = mc_bid c \<and> (role_ok c \<longrightarrow> role_ok c')
    \<and> (claimed \<longrightarrow> (\<exists>bc \<in> set owners. found = Some bc \<and> module_on (bc_owner bc) views c
        \<and> mc_config c' = module_config (bc_owner bc) views c))
    \<and> (\<not> claimed \<longrightarrow> found = (if declined \<noteq> None then declined else find (\<lambda>bc. module_on (bc_owner bc) views c) owners))
    \<and> ((\<forall>bc \<in> set owners. cm_when (bc_cmd bc) = None) \<and> declined = None
        \<longrightarrow> found = find (\<lambda>bc. module_on (bc_owner bc) views c) owners)"
  using assms
proof (induction owners arbitrary: declined c w)
  case Nil
  then show ?case by auto
next
  case (Cons bc bcs)
  have tame: "tame_claims bcs" using Cons.prems(1) by (simp add: tame_claims_def)
  let ?c1 = "snd (module_enabled (bc_owner bc) views c)"
  have same: "module_on m views ?c1 = module_on m views c" "mc_config (snd (module_enabled m views ?c1)) = module_config m views c"
    if "module_on m views c" for m using that module_enabled_cong [of ?c1 c m views] by auto
  have same': "module_on m views ?c1 = module_on m views c" for m using module_enabled_cong(1) [of ?c1 c m views] by simp
  show ?case
  proof (cases "module_on (bc_owner bc) views c")
    case False
    then have "claim_owners lookup views bcs declined ?c1 w = ((found, claimed), c', w')"
      using Cons.prems(2) by (simp add: split_beta)
    from Cons.IH [OF tame this] show ?thesis using False role_ok_on by (auto simp: same' same(2))
  next
    case on: True
    show ?thesis
    proof (cases "cm_when (bc_cmd bc)")
      case None
      then show ?thesis using Cons.prems(2) on role_ok_on by (auto simp: split_beta)
    next
      case (Some claims)
      obtain b c2 w2 where claims: "claims lookup ?c1 w = (b, c2, w2)" by (metis prod_cases3)
      have tame_when: "\<forall>lookup c w. case claims lookup c w of (_, c', _) \<Rightarrow>
          c' = c\<lparr>mc_role := mc_role c'\<rparr> \<and> (role_ok c \<longrightarrow> role_ok c')"
        using Cons.prems(1) Some by (simp add: tame_claims_def)
      have copy: "c2 = ?c1\<lparr>mc_role := mc_role c2\<rparr>" "role_ok ?c1 \<Longrightarrow> role_ok c2"
        using spec [OF spec [OF spec [OF tame_when, of lookup], of ?c1], of w] claims by simp_all
      have c2: "mc_env c2 = mc_env c" "mc_regress c2 = mc_regress c" "mc_bid c2 = mc_bid c"
        "mc_config c2 = mc_config ?c1"
        using role_memo_keeps [OF copy(1)] by simp_all
      have role2: "role_ok c \<Longrightarrow> role_ok c2" by (rule copy(2) [OF role_ok_on])
      have same2: "module_on m views c2 = module_on m views c" for m by (rule module_enabled_cong(1) [OF c2(1,2)])
      have config2: "module_config m views c2 = module_config m views c" if "module_on m views c" for m
        using module_enabled_cong(2) [OF c2(1,2), of m views] same2 [of m] that by blast
      show ?thesis
      proof (cases b)
        case True
        then show ?thesis using Cons.prems(2) on Some claims c2 role2 by (auto simp: split_beta)
      next
        case False
        let ?declined = "if declined = None then Some bc else declined"
        have "claim_owners lookup views bcs ?declined c2 w2 = ((found, claimed), c', w')"
          using Cons.prems(2) on Some claims False by (simp add: split_beta)
        from Cons.IH [OF tame this] show ?thesis using Some on c2(1,2,3) role2 by (auto simp: same2 config2)
      qed
    qed
  qed
qed

lemma claimOwner_keeps:
  assumes "tame_claims owners" "claimOwner lookup views owners c w = (found, c', w')"
  shows "mc_env c' = mc_env c" "mc_regress c' = mc_regress c" "mc_bid c' = mc_bid c" "role_ok c \<Longrightarrow> role_ok c'"
proof -
  obtain found1 claimed c1 w1 where loop: "claim_owners lookup views owners None c w = ((found1, claimed), c1, w1)"
    by (metis prod.exhaust)
  note result = claim_owners_result [OF assms(1) loop]
  have c': "c' = c1 \<or> (\<exists>bc. found1 = Some bc \<and> c' = snd (module_enabled (bc_owner bc) views c1))"
    using assms(2) loop by (auto simp: claimOwner_def split: option.splits if_splits)
  then show "mc_env c' = mc_env c" "mc_regress c' = mc_regress c" "mc_bid c' = mc_bid c"
    using result by (elim disjE exE; simp)+
  show "role_ok c'" if "role_ok c" using c' result role_ok_on that by blast
qed


definition sample_envelope :: "string \<Rightarrow> envelope" where
  "sample_envelope txt = \<lparr>le_msg_id = ''m1'', le_event_id = ''e1'', le_event = [], ln_type = chatType, ln_lane = ''standard'',
     ln_origin = [], ln_broadcaster = ''1'', ln_chatter = ''7'', ln_chatter_login = ''ann'', ln_chatter_name = ''Ann'',
     ln_text = txt, ln_badges = [''vip''], ln_senders = []\<rparr>"

definition sample_command :: "string \<Rightarrow> 'w command" where
  "sample_command name = \<lparr>cm_name = name, cm_aliases = [], cm_perm = RoleVIP, cm_cooldown = 5000000000,
     cm_live_only = False, cm_allowed_user = [], cm_numeric_suffix = False, cm_when = None,
     cm_run = (\<lambda>lookup c args w. (([], None), c, w))\<rparr>"

definition sample_module :: "Kind \<Rightarrow> string \<Rightarrow> 'w module" where
  "sample_module kind name = \<lparr>md_variables = [], md_name = name, md_kind = kind, md_events = [],
     md_commands = [sample_command ''join''], md_beta = False, md_trial = False\<rparr>"

definition sample_owners :: "'w BoundCommand list" where
  "sample_owners = map (\<lambda>m. \<lparr>bc_cmd = sample_command ''join'', bc_owner = m\<rparr>)
     [sample_module KindOptIn ''queue'', sample_module KindCore ''raffle'']"


end
