(* ===== verification/CommandRun.thy ===== *)
theory CommandRun
  imports Commands
begin

text \<open>
  Answering a command: engine/dispatch.go from the gate to the emission, the handlers of events
  (pipeline\_handlers.go) and the stages of a message (pipeline.go). A handler answers all its outputs, which are
  emitted after it has run. Analytics and log lines are left out.
\<close>

section \<open>What the engine calls\<close>

record custom_command =
  ku_name :: string
  ku_response :: string
  ku_is_active :: bool
  ku_online_only :: bool
  ku_perm :: string
  ku_cooldown :: nat
  ku_user_cooldown :: nat
  ku_allowed_user :: string
  ku_uses :: int
  ku_bump_counter :: string

record commandRun =
  kr_ctx :: mctx
  kr_command :: string
  kr_args :: string
  kr_uses :: int

record CounterBump =
  cb_broadcaster :: nat
  cb_name :: string
  cb_viewer :: viewer
  cb_command :: string
  cb_delta :: int

record 'w dedup_store =
  dd_seen :: "string \<Rightarrow> ('w, bool \<times> run_error option) call"
  dd_release :: "string \<Rightarrow> 'w \<Rightarrow> 'w"

record 'w counters =
  ct_bump :: "CounterBump \<Rightarrow> ('w, int \<times> run_error option) call"
  ct_peek :: "nat \<Rightarrow> string \<Rightarrow> nat \<Rightarrow> string \<Rightarrow> ('w, int option \<times> run_error option) call"

text \<open>
  \<open>kd_module\<close> reads the configuration of a module (None without projections), \<open>kd_permission\<close> decodes the
  permission field of one, \<open>kd_expand\<close> renders the tokens of a reply with the variables of the command, and
  \<open>kd_uses\<close> reports a use. Errors are those of the automation runs.
\<close>

record 'w command_deps =
  kd_unicode :: unicode
  kd_lexicon :: "Lexicon option"
  kd_publish :: "string \<Rightarrow> emission \<Rightarrow> string option"
  kd_live :: "nat \<Rightarrow> ('w, bool \<times> run_error option) call"
  kd_cooldown :: "'w cooldown_store"
  kd_module :: "(nat \<Rightarrow> string \<Rightarrow> ('w, string option \<times> run_error option) call) option"
  kd_permission :: "string \<Rightarrow> string + run_error"
  kd_command :: "nat \<Rightarrow> string \<Rightarrow> ('w, custom_command option \<times> run_error option) call"
  kd_expand :: "commandRun \<Rightarrow> token list \<Rightarrow> ('w, string) call"
  kd_new_id :: "('w, string + run_error) call"
  kd_uses :: "(nat \<Rightarrow> string \<Rightarrow> 'w \<Rightarrow> 'w) option"
  kd_dedup :: "'w dedup_store option"
  kd_counters :: "'w counters option"
  kd_locale :: "(nat \<Rightarrow> ('w, string option) call) option"

text \<open>A message in work: its context, what was emitted for it, and the world.\<close>

record 'w pipe =
  pi_ctx :: mctx
  pi_es :: emit_state
  pi_world :: 'w

definition on_world :: "('w, 'a) call \<Rightarrow> 'w pipe \<Rightarrow> 'a \<times> 'w pipe" where
  "on_world f p = (case f (pi_world p) of (a, w) \<Rightarrow> (a, p\<lparr>pi_world := w\<rparr>))"

type_synonym 'w passed = "(bool \<times> run_error option) \<times> 'w pipe"

definition emit_to :: "'w command_deps \<Rightarrow> emission \<Rightarrow> 'w pipe \<Rightarrow> 'w pipe" where
  "emit_to D e p =
    (let es = emit_one (kd_unicode D) (kd_lexicon D) (kd_publish D) (pi_es p) e;
         c = pi_ctx p
     in p\<lparr>pi_es := es, pi_ctx := c\<lparr>mc_emitted := mc_emitted c + (es_ordinal es - es_ordinal (pi_es p))\<rparr>\<rparr>)"

section \<open>The gate\<close>

record gateRule =
  gr_name :: string
  gr_allowed_user :: string
  gr_perm :: Role
  gr_live_only :: bool
  gr_cooldown :: int
  gr_user_cooldown :: int

definition permits :: "string \<Rightarrow> Role \<Rightarrow> 'w pipe \<Rightarrow> bool \<times> 'w pipe" where
  "permits allowed_user perm p =
    (if allowed_user \<noteq> [] then (ln_chatter (mc_env (pi_ctx p)) = allowed_user, p)
     else case Chatter (pi_ctx p) of (role, c) \<Rightarrow> (Allows role perm, p\<lparr>pi_ctx := c\<rparr>))"

definition liveOK :: "'w command_deps \<Rightarrow> bool \<Rightarrow> 'w pipe \<Rightarrow> 'w passed" where
  "liveOK D live_only p = (if \<not> live_only then ((True, None), p) else on_world (kd_live D (mc_bid (pi_ctx p))) p)"

definition cooldownKey :: "nat \<Rightarrow> string \<Rightarrow> string" where
  "cooldownKey bid name = ''cooldown:cmd:'' @ nat_digits bid @ '':'' @ name"

definition viewerCooldownKey :: "mctx \<Rightarrow> string \<Rightarrow> string" where
  "viewerCooldownKey c name =
    ''cooldown:cmduser:'' @ nat_digits (mc_bid c) @ '':'' @ ln_chatter (mc_env c) @ '':'' @ name"

definition cooldownOK :: "'w command_deps \<Rightarrow> gateRule \<Rightarrow> 'w pipe \<Rightarrow> 'w passed" where
  "cooldownOK D r p =
    (let c = pi_ctx p; channel = cooldownKey (mc_bid c) (gr_name r); viewer = viewerCooldownKey c (gr_name r) in
     if gr_cooldown r \<le> 0 \<and> gr_user_cooldown r \<le> 0 then ((True, None), p)
     else if gr_user_cooldown r \<le> 0 then on_world (cl_allow (kd_cooldown D) channel (gr_cooldown r)) p
     else if gr_cooldown r \<le> 0 then on_world (cl_allow (kd_cooldown D) viewer (gr_user_cooldown r)) p
     else on_world (cl_allow_all (kd_cooldown D)
       [\<lparr>cw_key = channel, cw_ttl = gr_cooldown r\<rparr>, \<lparr>cw_key = viewer, cw_ttl = gr_user_cooldown r\<rparr>]) p)"

definition gate :: "'w command_deps \<Rightarrow> gateRule \<Rightarrow> 'w pipe \<Rightarrow> 'w passed" where
  "gate D r p0 =
    (case permits (gr_allowed_user r) (gr_perm r) p0 of (permitted, p1) \<Rightarrow>
       if \<not> permitted then ((False, None), p1)
       else case liveOK D (gr_live_only r) p1 of ((live, err), p) \<Rightarrow>
         if \<not> live then ((False, err), p)
         else if ln_origin (mc_env (pi_ctx p)) = ''trial'' then ((True, None), p)
         else cooldownOK D r p)"

section \<open>Emitting a reply\<close>

definition hasVarToken :: "token list \<Rightarrow> bool" where
  "hasVarToken toks = list_ex (\<lambda>tok. t_kind tok = KindVar) toks"

definition expandCommandText :: "'w command_deps \<Rightarrow> commandRun \<Rightarrow> out_msg \<Rightarrow> 'w pipe \<Rightarrow> out_msg \<times> 'w pipe" where
  "expandCommandText D run o1 p0 =
    (if \<not> speaks o1 \<or> o_text o1 = [] then (o1, p0)
     else let toks = Lex (u_lower (kd_unicode D)) (o_text o1) in
       if \<not> hasVarToken toks then (o1, p0)
       else case on_world (kd_expand D run toks) p0 of (txt, p) \<Rightarrow> (o1\<lparr>o_text := txt\<rparr>, p))"

definition chatLines :: "'w command_deps \<Rightarrow> out_msg \<Rightarrow> out_msg list" where
  "chatLines D o1 = appendChatLines (kd_unicode D) (kd_lexicon D) [] o1"

definition emitPreparedResponse :: "'w command_deps \<Rightarrow> out_msg list \<Rightarrow> 'w pipe \<Rightarrow> 'w passed" where
  "emitPreparedResponse D outs p0 =
    (case outs of
       [] \<Rightarrow> ((False, None), p0)
     | [o1] \<Rightarrow> ((True, None), emit_to D (Single o1) p0)
     | _ \<Rightarrow>
         (let ev = mc_env (pi_ctx p0) in
          case (if le_msg_id ev = [] then on_world (kd_new_id D) p0 else (Inl (le_msg_id ev), p0)) of
            (Inr err, p) \<Rightarrow> ((False, Some err), p)
          | (Inl ident, p) \<Rightarrow> ((True, None), emit_to D (Batch (ln_broadcaster ev) ident outs) p)))"

definition emitCommand :: "'w command_deps \<Rightarrow> commandRun \<Rightarrow> out_msg \<Rightarrow> 'w pipe \<Rightarrow> 'w passed" where
  "emitCommand D run o0 p0 =
    (case expandCommandText D run o0 p0 of (o1, p) \<Rightarrow>
       if o_type o1 = ''chat'' then emitPreparedResponse D (chatLines D o1) p
       else case prepareCommand (kd_unicode D) (kd_lexicon D) o1 of (o2, keep) \<Rightarrow>
         if \<not> keep then ((False, None), p) else ((True, None), emit_to D (Single o2) p))"

section \<open>Built-in commands\<close>

definition configurableBuiltin :: "string \<Rightarrow> bool" where
  "configurableBuiltin name \<longleftrightarrow> name \<in> {''accountage'', ''followage'', ''uptime'', ''clip'', ''title'', ''game'',
     ''tags'', ''commercial'', ''marker''}"

definition builtinPermission :: "'w command_deps \<Rightarrow> 'w command \<Rightarrow> 'w pipe \<Rightarrow> (Role \<times> run_error option) \<times> 'w pipe" where
  "builtinPermission D cmd p0 =
    (if \<not> configurableBuiltin (cm_name cmd) then ((cm_perm cmd, None), p0)
     else case kd_module D of
       None \<Rightarrow> ((cm_perm cmd, None), p0)
     | Some read \<Rightarrow>
         (case on_world (read (mc_bid (pi_ctx p0)) (cm_name cmd)) p0 of
            ((view, Some err), p) \<Rightarrow> ((cm_perm cmd, Some err), p)
          | ((None, None), p) \<Rightarrow> ((cm_perm cmd, None), p)
          | ((Some configs, None), p) \<Rightarrow>
              if configs = [] then ((cm_perm cmd, None), p)
              else (case kd_permission D configs of
                Inr err \<Rightarrow> ((cm_perm cmd, Some err), p)
              | Inl perm \<Rightarrow>
                  if perm = [] then ((cm_perm cmd, None), p)
                  else if perm \<in> {''everyone'', ''sub'', ''vip'', ''mod'', ''lead_mod'', ''broadcaster''}
                  then ((ParsePermRole perm, None), p)
                  else ((cm_perm cmd, Some (OtherError (''invalid built-in permission for '' @ cm_name cmd))), p))))"

text \<open>What a handler emits is prepared one output after the other, until emitting fails.\<close>

fun emit_outs :: "'w command_deps \<Rightarrow> commandRun \<Rightarrow> out_msg list \<Rightarrow> 'w pipe \<Rightarrow> run_error option \<times> 'w pipe" where
  "emit_outs D run [] p = (None, p)"
| "emit_outs D run (o1 # outs) p0 =
    (case emitCommand D run o1 p0 of ((_, err), p) \<Rightarrow> if err \<noteq> None then (err, p) else emit_outs D run outs p)"

definition builtin_rule :: "'w command \<Rightarrow> Role \<Rightarrow> gateRule" where
  "builtin_rule cmd perm = \<lparr>gr_name = cm_name cmd, gr_allowed_user = cm_allowed_user cmd, gr_perm = perm,
     gr_live_only = cm_live_only cmd, gr_cooldown = cm_cooldown cmd, gr_user_cooldown = 0\<rparr>"

definition engage :: "'w pipe \<Rightarrow> 'w pipe" where
  "engage p = p\<lparr>pi_ctx := (pi_ctx p)\<lparr>mc_engaged := True\<rparr>\<rparr>"

definition run_handler_command ::
  "'w command_deps \<Rightarrow> (string \<Rightarrow> bool) \<Rightarrow> 'w command \<Rightarrow> string \<Rightarrow> string \<Rightarrow> 'w pipe \<Rightarrow> run_error option \<times> 'w pipe" where
  "run_handler_command D lookup cmd num args p0 =
    (case EnsureLocale (kd_locale D) ((pi_ctx p0)\<lparr>mc_num := num\<rparr>) (pi_world p0) of (c1, w1) \<Rightarrow>
     case cm_run cmd lookup c1 args w1 of ((outs, err), c2, w2) \<Rightarrow>
     case emit_outs D \<lparr>kr_ctx = c1, kr_command = cm_name cmd, kr_args = args, kr_uses = 0\<rparr> outs
       (p0\<lparr>pi_ctx := c2, pi_world := w2\<rparr>) of (emit_err, p) \<Rightarrow>
       if err \<noteq> None then (err, p)
       else if emit_err = None then (None, engage p) else (emit_err, p))"

definition runBaked ::
  "'w command_deps \<Rightarrow> (string \<Rightarrow> bool) \<Rightarrow> 'w command \<Rightarrow> string \<Rightarrow> string \<Rightarrow> 'w pipe \<Rightarrow> run_error option \<times> 'w pipe" where
  "runBaked D lookup cmd num args p0 =
    (case builtinPermission D cmd p0 of ((perm, perm_err), p1) \<Rightarrow>
       if perm_err \<noteq> None then (perm_err, p1)
       else case gate D (builtin_rule cmd perm) p1 of ((pass, err), p) \<Rightarrow>
         if err \<noteq> None \<or> \<not> pass then (err, p) else run_handler_command D lookup cmd num args p)"

section \<open>Custom commands\<close>

definition activeCustom :: "'w command_deps \<Rightarrow> string \<Rightarrow> 'w pipe \<Rightarrow> (custom_command option \<times> run_error option) \<times> 'w pipe" where
  "activeCustom D name p0 =
    (case on_world (kd_command D (mc_bid (pi_ctx p0)) name) p0 of
       ((found, Some err), p) \<Rightarrow> ((None, Some err), p)
     | ((None, None), p) \<Rightarrow> ((None, None), p)
     | ((Some cc, None), p) \<Rightarrow> ((if ku_is_active cc \<and> ku_response cc \<noteq> [] then Some cc else None, None), p))"

definition seconds_duration :: "nat \<Rightarrow> int" where
  "seconds_duration n = wrap64 (wrap64 (int n) * 1000000000)"

definition custom_rule :: "'w command_deps \<Rightarrow> custom_command \<Rightarrow> gateRule" where
  "custom_rule D cc = \<lparr>gr_name = to_lower (u_lower (kd_unicode D)) (ku_name cc), gr_allowed_user = ku_allowed_user cc,
     gr_perm = ParsePermRole (ku_perm cc), gr_live_only = ku_online_only cc, gr_cooldown = seconds_duration (ku_cooldown cc),
     gr_user_cooldown = seconds_duration (ku_user_cooldown cc)\<rparr>"

definition EventIdentity :: "envelope \<Rightarrow> string" where
  "EventIdentity ev = (if le_msg_id ev \<noteq> [] then le_msg_id ev else le_event_id ev)"

text \<open>\<open>Duplicate\<close> and \<open>Claim\<close> of the event dedup: whether the effect has been seen, and the key to release.\<close>

definition dedup_Duplicate :: "'w command_deps \<Rightarrow> string \<Rightarrow> string \<Rightarrow> 'w pipe \<Rightarrow> bool \<times> 'w pipe" where
  "dedup_Duplicate D identity effect p0 =
    (case kd_dedup D of
       None \<Rightarrow> (False, p0)
     | Some store \<Rightarrow>
         if identity = [] then (False, p0)
         else case on_world (dd_seen store (dedupKey identity effect)) p0 of ((seen, err), p) \<Rightarrow> (seen, p))"

definition dedup_Claim :: "'w command_deps \<Rightarrow> string \<Rightarrow> string \<Rightarrow> 'w pipe \<Rightarrow> (bool \<times> string option) \<times> 'w pipe" where
  "dedup_Claim D identity effect p0 =
    (case kd_dedup D of
       None \<Rightarrow> ((False, None), p0)
     | Some store \<Rightarrow>
         if identity = [] then ((False, None), p0)
         else let key = dedupKey identity effect in
           case on_world (dd_seen store key) p0 of ((seen, err), p) \<Rightarrow>
             if seen then ((True, None), p) else if err \<noteq> None then ((False, None), p) else ((False, Some key), p))"

definition dedup_free :: "'w command_deps \<Rightarrow> string option \<Rightarrow> 'w pipe \<Rightarrow> 'w pipe" where
  "dedup_free D key p =
    (case (kd_dedup D, key) of (Some store, Some k) \<Rightarrow> p\<lparr>pi_world := dd_release store k (pi_world p)\<rparr> | _ \<Rightarrow> p)"

definition recordUse :: "'w command_deps \<Rightarrow> string \<Rightarrow> 'w pipe \<Rightarrow> 'w pipe" where
  "recordUse D name p0 =
    (case kd_uses D of
       None \<Rightarrow> p0
     | Some report \<Rightarrow>
         (case dedup_Duplicate D (EventIdentity (mc_env (pi_ctx p0))) ''use'' p0 of (dup, p) \<Rightarrow>
            if dup then p else p\<lparr>pi_world := report (mc_bid (pi_ctx p)) name (pi_world p)\<rparr>))"

abbreviation (input) counterStepMax :: int where "counterStepMax \<equiv> 1000000"

definition validCounterStep :: "int \<Rightarrow> bool" where
  "validCounterStep n \<longleftrightarrow> n \<noteq> 0 \<and> n \<le> counterStepMax \<and> n \<ge> - counterStepMax"

definition firstArg :: "string \<Rightarrow> string" where
  "firstArg args = (case fields_from [] (runes args) of [] \<Rightarrow> [] | f # _ \<Rightarrow> f)"

definition counterStep :: "string \<Rightarrow> 'w pipe \<Rightarrow> int \<times> 'w pipe" where
  "counterStep args p =
    (case Chatter (pi_ctx p) of (role, c) \<Rightarrow>
       (if \<not> Allows role RoleModerator then 1
        else case parse_int (firstArg args) of (n, err) \<Rightarrow> if err \<noteq> None \<or> \<not> validCounterStep n then 1 else n,
        p\<lparr>pi_ctx := c\<rparr>))"

definition CounterEffect :: "(string \<Rightarrow> string) \<Rightarrow> string \<Rightarrow> string" where
  "CounterEffect norm_name name = ''cbump:'' @ norm_name name"

definition claimedCounterValue ::
  "(string \<Rightarrow> string) \<Rightarrow> 'w command_deps \<Rightarrow> 'w counters \<Rightarrow> CounterBump \<Rightarrow> 'w pipe \<Rightarrow> string \<times> 'w pipe" where
  "claimedCounterValue norm_name D store b p0 =
    (if kd_dedup D = None then
       (case on_world (ct_bump store b) p0 of ((n, err), p) \<Rightarrow> (if err \<noteq> None then [] else itoa n, p))
     else case dedup_Claim D (EventIdentity (mc_env (pi_ctx p0))) (CounterEffect norm_name (cb_name b)) p0 of
       ((dup, key), p1) \<Rightarrow>
         if dup then
           (case on_world (ct_peek store (cb_broadcaster b) (cb_name b) (vw_id (cb_viewer b)) (cb_command b)) p1 of
              ((found, err), p) \<Rightarrow> (case (found, err) of (Some n, None) \<Rightarrow> itoa n | _ \<Rightarrow> [], p))
         else case on_world (ct_bump store b) p1 of ((n, err), p) \<Rightarrow>
           if err \<noteq> None then ([], dedup_free D key p) else (itoa n, p))"

text \<open>\<open>strconv.ParseUint\<close> of the sender; an unreadable id is zero, one too large the largest.\<close>

definition bumpCommandCounter ::
  "(string \<Rightarrow> string) \<Rightarrow> (string \<Rightarrow> nat) \<Rightarrow> 'w command_deps \<Rightarrow> custom_command \<Rightarrow> string \<Rightarrow> 'w pipe \<Rightarrow> 'w pipe" where
  "bumpCommandCounter norm_name viewer_id D cc args p0 =
    (case kd_counters D of
       None \<Rightarrow> p0
     | Some store \<Rightarrow>
         if ku_bump_counter cc = [] then p0
         else let ev = mc_env (pi_ctx p0);
                  sender = \<lparr>vw_id = viewer_id (ln_chatter ev), vw_login = ln_chatter_login ev, vw_name = ln_chatter_name ev\<rparr>
              in case counterStep args p0 of (delta, p) \<Rightarrow>
                snd (claimedCounterValue norm_name D store
                  \<lparr>cb_broadcaster = mc_bid (pi_ctx p), cb_name = ku_bump_counter cc, cb_viewer = sender,
                   cb_command = ku_name cc, cb_delta = delta\<rparr> p))"

definition custom_reply :: "'w pipe \<Rightarrow> custom_command \<Rightarrow> out_msg" where
  "custom_reply p cc = (blank_output ''chat'' (ln_broadcaster (mc_env (pi_ctx p))))\<lparr>o_text := ku_response cc\<rparr>"

definition runCustom ::
  "(string \<Rightarrow> string) \<Rightarrow> (string \<Rightarrow> nat) \<Rightarrow> 'w command_deps \<Rightarrow> string \<Rightarrow> string \<Rightarrow> 'w pipe \<Rightarrow> 'w passed" where
  "runCustom norm_name viewer_id D name args p0 =
    (case activeCustom D name p0 of
       ((None, err), p) \<Rightarrow> ((False, err), p)
     | ((Some cc, _), p1) \<Rightarrow>
         (case gate D (custom_rule D cc) p1 of ((pass, err), p2) \<Rightarrow>
            if err \<noteq> None \<or> \<not> pass then ((True, err), p2)
            else case emitCommand D \<lparr>kr_ctx = pi_ctx p2, kr_command = ku_name cc, kr_args = args, kr_uses = ku_uses cc\<rparr>
                (custom_reply p2 cc) p2 of ((emitted, err), p3) \<Rightarrow>
              if err \<noteq> None \<or> \<not> emitted then ((True, err), p3)
              else ((True, None), engage (bumpCommandCounter norm_name viewer_id D cc args (recordUse D (ku_name cc) p3)))))"

section \<open>Dispatch\<close>

definition trialReadOnlyCommand :: "string \<Rightarrow> bool" where
  "trialReadOnlyCommand name \<longleftrightarrow> name \<in> {''ping'', ''itsbagelbot'', ''clip'', ''followage'', ''accountage'', ''uptime'',
     ''bagels'', ''fed'', ''bagelcount'', ''bagelboard'', ''feedboard'', ''bagellb'',
     ''title'', ''settitle'', ''game'', ''setgame'', ''tags'', ''settags'', ''commercial'', ''ad'', ''marker''}"

definition trialCommand :: "'w BoundCommand list \<Rightarrow> string \<Rightarrow> bool" where
  "trialCommand owners name \<longleftrightarrow> owners \<noteq> [] \<and> md_trial (bc_owner (hd owners)) \<or> trialReadOnlyCommand name"

text \<open>
  \<open>norm_name\<close> normalises the name of a counter, \<open>viewer_id\<close> reads the id of a chatter, \<open>automations\<close> runs the
  automations triggered by a command name. The automations of a message are in the theories of runs.
\<close>

record 'w dispatcher =
  di_deps :: "'w command_deps"
  di_registry :: "'w Registry"
  di_normalize :: "string \<Rightarrow> string"
  di_viewer_id :: "string \<Rightarrow> nat"
  di_automations :: "module_views \<Rightarrow> string \<Rightarrow> string \<Rightarrow> 'w pipe \<Rightarrow> 'w pipe"

definition dispatchCommand :: "'w dispatcher \<Rightarrow> module_views \<Rightarrow> 'w pipe \<Rightarrow> run_error option \<times> 'w pipe" where
  "dispatchCommand d views p0 =
    (let D = di_deps d in
     case parseCommand (u_lower (kd_unicode D)) (ln_text (mc_env (pi_ctx p0))) of (name, args, ok) \<Rightarrow>
       if \<not> ok then (None, p0)
       else case resolveOwners (di_registry d) name of (owners, num) \<Rightarrow>
         if ln_origin (mc_env (pi_ctx p0)) = ''trial'' \<and> \<not> trialCommand owners name then (None, p0)
         else
           let c0 = (pi_ctx p0)\<lparr>mc_command := name, mc_has_lookup := True\<rparr>;
               lookup = moduleLookup (di_registry d) views c0
           in case claimOwner lookup views owners c0 (pi_world p0) of (found, c, w) \<Rightarrow>
             let p1 = p0\<lparr>pi_ctx := c, pi_world := w\<rparr> in
             case found of
               Some bc \<Rightarrow> runBaked D lookup (bc_cmd bc) num args p1
             | None \<Rightarrow>
                 if ln_origin (mc_env (pi_ctx p1)) = ''trial'' then (None, p1)
                 else case runCustom (di_normalize d) (di_viewer_id d) D name args p1 of ((claimed, err), p2) \<Rightarrow>
                   if claimed \<or> err \<noteq> None then (err, p2) else (None, di_automations d views name args p2))"

section \<open>Events\<close>

definition viewerEngagement :: "string \<Rightarrow> bool" where
  "viewerEngagement event_type \<longleftrightarrow>
    \<not> (event_type = chatType \<or> has_prefix event_type ''channel.ad_break.'') \<and> has_prefix event_type ''channel.''"

definition engagedBy :: "mctx \<Rightarrow> 'w module \<Rightarrow> nat \<Rightarrow> bool" where
  "engagedBy c m emitted_before \<longleftrightarrow>
    viewerEngagement (ln_type (mc_env c)) \<and> (mc_emitted c > emitted_before \<or> md_kind m = KindOptIn)"

definition runHandler :: "'w command_deps \<Rightarrow> (string \<Rightarrow> bool) \<Rightarrow> 'w module \<Rightarrow> 'w run_fun option \<Rightarrow> 'w pipe \<Rightarrow> 'w pipe" where
  "runHandler D lookup m handle p0 =
    (case handle of
       None \<Rightarrow> p0
     | Some f \<Rightarrow>
         (case f lookup (pi_ctx p0) [] (pi_world p0) of ((outs, err), c, w) \<Rightarrow>
            let p = fold (\<lambda>o1. emit_to D (Single o1)) outs (p0\<lparr>pi_ctx := c, pi_world := w\<rparr>)
            in if err \<noteq> None then p else if engagedBy (pi_ctx p) m (mc_emitted (pi_ctx p0)) then engage p else p))"

fun run_handlers :: "'w command_deps \<Rightarrow> (string \<Rightarrow> bool) \<Rightarrow> module_views \<Rightarrow> string \<Rightarrow> 'w module list \<Rightarrow> 'w pipe \<Rightarrow> 'w pipe" where
  "run_handlers D lookup views evt [] p = p"
| "run_handlers D lookup views evt (m # ms) p0 =
    (case module_enabled m views (pi_ctx p0) of (is_on, c) \<Rightarrow>
       let p = p0\<lparr>pi_ctx := c\<rparr> in
       run_handlers D lookup views evt ms
         (if is_on then runHandler D lookup m (Option.bind (map_of (md_events m) evt) id) p else p))"

definition isOwnChat :: "string \<Rightarrow> envelope \<Rightarrow> bool \<Rightarrow> bool" where
  "isOwnChat bot_id ev is_chat \<longleftrightarrow> bot_id \<noteq> [] \<and> is_chat \<and> ln_chatter ev = bot_id"

definition eligible :: "string \<Rightarrow> 'w Registry \<Rightarrow> envelope \<Rightarrow> bool" where
  "eligible bot_id r ev =
    (let is_chat = (ln_type ev = chatType) in
     if isOwnChat bot_id ev is_chat then False else is_chat \<or> rg_by_event r (ln_type ev) \<noteq> [])"

text \<open>\<open>ModuleOn\<close>: before a command was dispatched a context has no lookup, and every module reads as off.\<close>

definition context_lookup :: "'w Registry \<Rightarrow> module_views \<Rightarrow> mctx \<Rightarrow> string \<Rightarrow> bool" where
  "context_lookup r views c name \<longleftrightarrow> mc_has_lookup c \<and> moduleLookup r views c name"

text \<open>
  Moderation, refunds and the automation stage are parameters; \<open>moderate\<close> and \<open>refund\<close> answer whether the
  message is consumed.
\<close>

record 'w stages =
  sg_moderate :: "module_views \<Rightarrow> 'w pipe \<Rightarrow> bool \<times> 'w pipe"
  sg_refund :: "'w pipe \<Rightarrow> bool \<times> 'w pipe"
  sg_automations :: "module_views \<Rightarrow> bool \<Rightarrow> 'w pipe \<Rightarrow> 'w pipe"

definition event_locale :: "'w command_deps \<Rightarrow> 'w pipe \<Rightarrow> 'w pipe" where
  "event_locale D p =
    (if ln_type (mc_env (pi_ctx p)) = chatType then p
     else case EnsureLocale (kd_locale D) (pi_ctx p) (pi_world p) of (c, w) \<Rightarrow> p\<lparr>pi_ctx := c, pi_world := w\<rparr>)"

definition runStages :: "'w dispatcher \<Rightarrow> 'w stages \<Rightarrow> module_views \<Rightarrow> 'w pipe \<Rightarrow> 'w pipe" where
  "runStages d sg views p0 =
    (let D = di_deps d; ev = mc_env (pi_ctx p0); solo_chat = (ln_type ev = chatType \<and> ln_senders ev = []);
         handlers = rg_by_event (di_registry d) (ln_type ev) in
     case (if ln_origin ev \<noteq> ''trial''
           then (case sg_moderate sg views p0 of (moderated, p) \<Rightarrow>
                   case sg_refund sg p of (refunded, p) \<Rightarrow> (refunded \<or> moderated, p))
           else (False, p0)) of
       (consumed, p1) \<Rightarrow>
         let p2 = (if solo_chat \<and> \<not> consumed then snd (dispatchCommand d views p1) else p1);
             p3 = (if \<not> consumed \<and> handlers \<noteq> []
                   then run_handlers D (context_lookup (di_registry d) views (pi_ctx p2)) views (ln_type ev) handlers
                     (event_locale D p2)
                   else p2)
         in sg_automations sg views consumed p3)"

end
