(* ===== verification/Cooldowns.thy ===== *)
theory Cooldowns
  imports CommandRun
begin

text \<open>
  The cooldown store in Valkey, engine/cooldown\_valkey.go with \<open>ClaimAll\<close> of pkg/valkey/lock.go, and what it
  means for commands: the world is the clock of the server, in milliseconds, and the database.
\<close>

section \<open>The store\<close>

fun set_claims :: "int \<Rightarrow> (string \<times> int) list \<Rightarrow> vk_db \<Rightarrow> bool \<times> vk_db" where
  "set_claims now [] db = (True, db)"
| "set_claims now ((key, ms) # claims) db =
    (if ms \<le> 0 then (False, db) else set_claims now claims (vk_set_px now key ''1'' ms db))"

text \<open>The script: None is the error of a \<open>SET\<close> with an expiry that is not positive, after the ones before it.\<close>

definition ClaimAll :: "int \<Rightarrow> (string \<times> int) list \<Rightarrow> vk_db \<Rightarrow> bool option \<times> vk_db" where
  "ClaimAll now claims db =
    (if list_ex (\<lambda>(key, _). vk_exists now db key) claims then (Some False, db)
     else case set_claims now claims db of (fine, db') \<Rightarrow> (if fine then Some True else None, db'))"

definition milliseconds :: "int \<Rightarrow> int" where
  "milliseconds ttl = sgn ttl * (\<bar>ttl\<bar> div 1000000)"

abbreviation expire_error :: run_error where
  "expire_error \<equiv> OtherError ''ERR invalid expire time in 'set' command''"

type_synonym cooldown_world = "int \<times> vk_db"

definition cooldown_Allow :: "string \<Rightarrow> int \<Rightarrow> (cooldown_world, bool \<times> run_error option) call" where
  "cooldown_Allow key ttl w =
    (case w of (now, db) \<Rightarrow>
       if milliseconds ttl \<le> 0 then ((False, Some expire_error), w)
       else case ClaimOnce now key (milliseconds ttl) db of (won, db') \<Rightarrow> ((won, None), (now, db')))"

definition cooldown_AllowAll :: "cooldown_window list \<Rightarrow> (cooldown_world, bool \<times> run_error option) call" where
  "cooldown_AllowAll windows w =
    (case w of (now, db) \<Rightarrow>
       case ClaimAll now (map (\<lambda>c. (cw_key c, milliseconds (cw_ttl c))) windows) db of
         (None, db') \<Rightarrow> ((False, Some expire_error), (now, db'))
       | (Some won, db') \<Rightarrow> ((won, None), (now, db')))"

definition cooldown_TimeLeft :: "string \<Rightarrow> (cooldown_world, int + run_error) call" where
  "cooldown_TimeLeft key w =
    (case w of (now, db) \<Rightarrow>
       let ms = (if \<not> vk_exists now db key then - 2
                 else case Option.bind (db key) vk_expires of None \<Rightarrow> - 1 | Some e \<Rightarrow> e - now)
       in (Inl (max (wrap64 (ms * 1000000)) 0), w))"

definition ValkeyCooldown :: "cooldown_world cooldown_store" where
  "ValkeyCooldown = \<lparr>cl_allow = cooldown_Allow, cl_allow_all = cooldown_AllowAll, cl_time_left = cooldown_TimeLeft\<rparr>"

section \<open>What a claim leaves\<close>

definition ends_at :: "vk_db \<Rightarrow> string \<Rightarrow> int option" where
  "ends_at db key = Option.bind (db key) vk_expires"

text \<open>A window that is running.\<close>

definition running :: "int \<Rightarrow> vk_db \<Rightarrow> string \<Rightarrow> int \<Rightarrow> bool" where
  "running now db key e \<longleftrightarrow> ends_at db key = Some e \<and> now < e"

lemma running_exists: "running now db key e \<Longrightarrow> vk_exists now db key"
  by (auto simp: running_def ends_at_def vk_exists_def vk_read_def Option.bind_eq_Some_conv)

lemma running_set:
  "\<lbrakk>running now db k e; k' \<noteq> k\<rbrakk> \<Longrightarrow> running now (vk_set_px now k' v ms db) k e"
  "0 < ms \<Longrightarrow> running now (vk_set_px now k v ms db) k (now + ms)"
  by (auto simp: running_def ends_at_def vk_set_px_def)

lemma set_claims_running:
  "\<lbrakk>running now db k e; \<forall>(key, ms) \<in> set claims. key \<noteq> k\<rbrakk> \<Longrightarrow> running now (snd (set_claims now claims db)) k e"
  by (induction now claims db rule: set_claims.induct) (auto intro: running_set)

lemma set_claims_won:
  "\<lbrakk>fst (set_claims now claims db); distinct (map fst claims); (k, ms) \<in> set claims\<rbrakk>
    \<Longrightarrow> running now (snd (set_claims now claims db)) k (now + ms)"
proof (induction now claims db rule: set_claims.induct)
  case (2 now key ms' claims db)
  have pos: "0 < ms'" and rest: "fst (set_claims now claims (vk_set_px now key ''1'' ms' db))"
    using "2.prems"(1) by (auto split: if_splits)
  show ?case
  proof (cases "(k, ms) = (key, ms')")
    case True
    then have "\<forall>(key', _) \<in> set claims. key' \<noteq> k" using "2.prems"(2) by force
    then show ?thesis using set_claims_running [OF running_set(2) [OF pos]] True pos by simp
  next
    case False
    then show ?thesis using "2.IH" [OF _ rest] "2.prems" pos by auto
  qed
qed simp

lemma ClaimAll_running:
  assumes "running now db k e"
  shows "running now (snd (ClaimAll now claims db)) k e"
proof (cases "list_ex (\<lambda>(key, _). vk_exists now db key) claims")
  case False
  then have apart: "\<forall>(key, ms) \<in> set claims. key \<noteq> k" using running_exists [OF assms] by (auto simp: list_ex_iff)
  show ?thesis using set_claims_running [OF assms apart] False by (auto simp: ClaimAll_def split: prod.split)
qed (simp add: ClaimAll_def assms)

lemma ClaimAll_won:
  assumes "ClaimAll now claims db = (Some True, db')" "distinct (map fst claims)" "(k, ms) \<in> set claims"
  shows "\<not> vk_exists now db k" "running now db' k (now + ms)"
  using assms set_claims_won [of now claims db k ms]
  by (auto simp: ClaimAll_def list_ex_iff split: if_splits prod.splits)

section \<open>The windows of a command\<close>

text \<open>The windows a rule claims, and a sequence of gates at the times of the server.\<close>

definition rule_windows :: "gateRule \<Rightarrow> mctx \<Rightarrow> cooldown_window list" where
  "rule_windows r c =
    (if gr_cooldown r > 0 then [\<lparr>cw_key = cooldownKey (mc_bid c) (gr_name r), cw_ttl = gr_cooldown r\<rparr>] else []) @
    (if gr_user_cooldown r > 0 then [\<lparr>cw_key = viewerCooldownKey c (gr_name r), cw_ttl = gr_user_cooldown r\<rparr>] else [])"

lemma window_keys_differ: "cooldownKey bid name \<noteq> viewerCooldownKey c name'"
  by (simp add: cooldownKey_def viewerCooldownKey_def)

lemma milliseconds_pos: "0 < ttl \<Longrightarrow> milliseconds ttl = ttl div 1000000"
  by (simp add: milliseconds_def)

lemma allow_step:
  assumes "cooldown_Allow key ttl (now, db) = ((ok, err), (now', db'))"
  shows "now' = now" "running now db k e \<Longrightarrow> running now db' k e"
    "\<lbrakk>ok; err = None\<rbrakk> \<Longrightarrow> \<not> vk_exists now db key \<and> running now db' key (now + milliseconds ttl)"
proof -
  have db': "db' = db \<and> \<not> ok \<or> \<not> vk_exists now db key \<and> 0 < milliseconds ttl \<and> db' = vk_set_px now key ''1'' (milliseconds ttl) db"
    and now: "now' = now"
    using assms by (auto simp: cooldown_Allow_def ClaimOnce_def vk_set_nx_px_def split: if_splits)
  show "now' = now" by (rule now)
  show "running now db' k e" if "running now db k e"
    using db' that running_exists [OF that] running_set(1) [OF that, of key] by (cases "k = key") auto
  show "\<not> vk_exists now db key \<and> running now db' key (now + milliseconds ttl)" if "ok" "err = None"
    using db' that running_set(2) by auto
qed

lemma allow_all_step:
  assumes "cooldown_AllowAll ws (now, db) = ((ok, err), (now', db'))"
  shows "now' = now" "running now db k e \<Longrightarrow> running now db' k e"
    "\<lbrakk>ok; err = None; distinct (map cw_key ws); w \<in> set ws\<rbrakk>
      \<Longrightarrow> \<not> vk_exists now db (cw_key w) \<and> running now db' (cw_key w) (now + milliseconds (cw_ttl w))"
proof -
  let ?claims = "map (\<lambda>c. (cw_key c, milliseconds (cw_ttl c))) ws"
  obtain answer where claim: "ClaimAll now ?claims db = (answer, db')" and now: "now' = now" and ok: "ok \<Longrightarrow> answer = Some True"
    using assms by (auto simp: cooldown_AllowAll_def split: prod.splits option.splits)
  show "now' = now" by (rule now)
  show "running now db' k e" if "running now db k e" using ClaimAll_running [OF that, of ?claims] claim by simp
  show "\<not> vk_exists now db (cw_key w) \<and> running now db' (cw_key w) (now + milliseconds (cw_ttl w))"
    if "ok" "err = None" "distinct (map cw_key ws)" "w \<in> set ws"
    using ClaimAll_won [of now ?claims db db' "cw_key w" "milliseconds (cw_ttl w)"] claim ok that
    by (auto simp: comp_def)
qed

text \<open>Passing the cooldown claims every window of the rule, and no call ends a window that is running.\<close>

lemma cooldown_step:
  assumes "kd_cooldown D = ValkeyCooldown" "cooldownOK D r p = ((ok, err), p')" "pi_world p = (now, db)" "pi_world p' = (now', db')"
  shows "now' = now" and "running now db k e \<Longrightarrow> running now db' k e"
    and "\<lbrakk>ok; err = None; w \<in> set (rule_windows r (pi_ctx p))\<rbrakk>
      \<Longrightarrow> \<not> vk_exists now db (cw_key w) \<and> running now db' (cw_key w) (now + cw_ttl w div 1000000)"
proof -
  let ?channel = "cooldownKey (mc_bid (pi_ctx p)) (gr_name r)" and ?viewer = "viewerCooldownKey (pi_ctx p) (gr_name r)"
  let ?both = "[\<lparr>cw_key = ?channel, cw_ttl = gr_cooldown r\<rparr>, \<lparr>cw_key = ?viewer, cw_ttl = gr_user_cooldown r\<rparr>]"
  consider (none) "gr_cooldown r \<le> 0" "gr_user_cooldown r \<le> 0" "(now', db') = (now, db)"
    | (channel) "gr_cooldown r > 0" "gr_user_cooldown r \<le> 0" "cooldown_Allow ?channel (gr_cooldown r) (now, db) = ((ok, err), (now', db'))"
    | (viewer) "gr_cooldown r \<le> 0" "gr_user_cooldown r > 0" "cooldown_Allow ?viewer (gr_user_cooldown r) (now, db) = ((ok, err), (now', db'))"
    | (both) "gr_cooldown r > 0" "gr_user_cooldown r > 0" "cooldown_AllowAll ?both (now, db) = ((ok, err), (now', db'))"
    using assms by (auto simp: cooldownOK_def on_world_def ValkeyCooldown_def Let_def split: if_splits prod.splits)
  then have "now' = now \<and> (running now db k e \<longrightarrow> running now db' k e)
    \<and> (ok \<and> err = None \<and> w \<in> set (rule_windows r (pi_ctx p))
      \<longrightarrow> \<not> vk_exists now db (cw_key w) \<and> running now db' (cw_key w) (now + milliseconds (cw_ttl w)))"
  proof cases
    case none
    then show ?thesis by (auto simp: rule_windows_def)
  next
    case channel
    then show ?thesis using allow_step [OF channel(3)] by (auto simp: rule_windows_def)
  next
    case viewer
    then show ?thesis using allow_step [OF viewer(3)] by (auto simp: rule_windows_def)
  next
    case both
    have apart: "distinct (map cw_key ?both)" using window_keys_differ by simp
    have ws: "rule_windows r (pi_ctx p) = ?both" using both by (simp add: rule_windows_def)
    show ?thesis
      unfolding ws using allow_all_step(1,2) [OF both(3)] allow_all_step(3) [OF both(3) _ _ apart, of w] by blast
  qed
  moreover have "milliseconds (cw_ttl w) = cw_ttl w div 1000000" if "w \<in> set (rule_windows r (pi_ctx p))"
    using that by (auto simp: rule_windows_def milliseconds_pos split: if_splits)
  ultimately show "now' = now" and "running now db k e \<Longrightarrow> running now db' k e"
    and "\<lbrakk>ok; err = None; w \<in> set (rule_windows r (pi_ctx p))\<rbrakk>
      \<Longrightarrow> \<not> vk_exists now db (cw_key w) \<and> running now db' (cw_key w) (now + cw_ttl w div 1000000)"
    by auto
qed

section \<open>A sequence of uses\<close>

text \<open>
  The cooldowns asked for over time, by any pods for any commands and chatters, with whatever happens to the
  other keys of the database in between.
\<close>

inductive gates :: "cooldown_world command_deps \<Rightarrow> int \<Rightarrow> vk_db
    \<Rightarrow> (int \<times> gateRule \<times> mctx \<times> bool \<times> run_error option) list \<Rightarrow> vk_db \<Rightarrow> bool" for D where
  rest: "gates D now db [] db"
| elsewhere: "\<lbrakk>now \<le> t; \<And>k. has_prefix k ''cooldown:cmd'' \<Longrightarrow> db' k = db k; gates D t db' calls db''\<rbrakk>
    \<Longrightarrow> gates D now db calls db''"
| asked: "\<lbrakk>now \<le> t; cooldownOK D r p = (answer, p'); pi_world p = (t, db); pi_world p' = (t', db'); gates D t db' calls db''\<rbrakk>
    \<Longrightarrow> gates D now db ((t, r, pi_ctx p, answer) # calls) db''"

lemma window_prefix: "w \<in> set (rule_windows r c) \<Longrightarrow> has_prefix (cw_key w) ''cooldown:cmd''"
  by (auto simp: rule_windows_def cooldownKey_def viewerCooldownKey_def split: if_splits)

lemma gates_times: "\<lbrakk>gates D now db calls db'; (t, u) \<in> set calls\<rbrakk> \<Longrightarrow> now \<le> t"
  by (induction rule: gates.induct) force+

text \<open>A running window keeps every later use that claims it away until it ends.\<close>

lemma window_blocks:
  assumes "gates D now db calls db'" "kd_cooldown D = ValkeyCooldown" "running now db (cw_key w) e"
    "(t, r, c, (True, None)) \<in> set calls" "w' \<in> set (rule_windows r c)" "cw_key w' = cw_key w"
    "has_prefix (cw_key w) ''cooldown:cmd''"
  shows "e \<le> t"
  using assms
proof (induction rule: gates.induct)
  case (elsewhere now t1 db' db calls db'')
  show ?case
  proof (cases "t1 < e")
    case True
    then have "running t1 db' (cw_key w) e"
      using elsewhere.prems(2,6) elsewhere.hyps(2) by (simp add: running_def ends_at_def)
    then show ?thesis using elsewhere.IH elsewhere.prems by blast
  qed (use gates_times [OF elsewhere.hyps(3) elsewhere.prems(3)] in simp)
next
  case (asked now t1 r1 p answer p' db t' db' calls db'')
  show ?case
  proof (cases "t1 < e")
    case True
    then have on: "running t1 db (cw_key w) e" using asked.prems(2) by (simp add: running_def)
    obtain ok err where answer: "answer = (ok, err)" by (cases answer)
    note step = cooldown_step [OF asked.prems(1) asked.hyps(2) [unfolded answer] asked.hyps(3,4)]
    have "\<not> (answer = (True, None) \<and> r = r1 \<and> c = pi_ctx p)"
      using step(3) [of w'] answer asked.prems(4,5) running_exists [OF on] by auto
    moreover have "running t1 db' (cw_key w) e" by (rule step(2) [OF on])
    ultimately show ?thesis using asked.IH asked.prems by auto
  next
    case False
    then show ?thesis using gates_times [OF asked.hyps(5)] asked.prems(3) by fastforce
  qed
qed simp

lemma gates_split:
  assumes "gates D now db (pre @ (t, r, c, answer) # calls) db''"
  shows "\<exists>p p' db1 t' db2. cooldownOK D r p = (answer, p') \<and> pi_ctx p = c \<and> pi_world p = (t, db1)
    \<and> pi_world p' = (t', db2) \<and> gates D t db2 calls db''"
  using assms
proof (induction now db "pre @ (t, r, c, answer) # calls" db'' arbitrary: pre rule: gates.induct)
  case (asked now t1 db r1 p answer1 p' t' db' calls1 db'')
  show ?case
  proof (cases pre)
    case Nil
    then show ?thesis using asked by auto
  next
    case (Cons x pre')
    then show ?thesis using asked by auto
  qed
qed auto

text \<open>C5: Two uses of a command are at least its cooldown apart. Whenever the cooldown store lets the same command
  pass twice in a channel, the second time is no earlier than the channel's cooldown after the first; and
  twice for the same chatter, no earlier than the chatter's cooldown.\<close>

theorem uses_are_spaced:
  assumes "kd_cooldown D = ValkeyCooldown"
    and "gates D now db (pre @ (t1, r1, c1, (True, None)) # mid @ (t2, r2, c2, (True, None)) # post) db'"
    and "gr_name r1 = gr_name r2" "mc_bid c1 = mc_bid c2"
  shows "(0 < gr_cooldown r1 \<and> 0 < gr_cooldown r2 \<longrightarrow> t1 + gr_cooldown r1 div 1000000 \<le> t2)
    \<and> (0 < gr_user_cooldown r1 \<and> 0 < gr_user_cooldown r2 \<and> ln_chatter (mc_env c1) = ln_chatter (mc_env c2)
        \<longrightarrow> t1 + gr_user_cooldown r1 div 1000000 \<le> t2)"
proof -
  from gates_split [OF assms(2)] obtain p p' db1 t' db2 where p: "cooldownOK D r1 p = ((True, None), p')" "pi_ctx p = c1"
    "pi_world p = (t1, db1)" "pi_world p' = (t', db2)"
    and rest: "gates D t1 db2 (mid @ (t2, r2, c2, (True, None)) # post) db'" by blast
  have spaced: "t1 + cw_ttl w div 1000000 \<le> t2"
    if "w \<in> set (rule_windows r1 c1)" "w' \<in> set (rule_windows r2 c2)" "cw_key w' = cw_key w" for w w'
    using window_blocks [OF rest assms(1) _ _ that(2,3) window_prefix [OF that(1)], of "t1 + cw_ttl w div 1000000" t2]
      cooldown_step(3) [OF assms(1) p(1,3,4), of w] p(2) that(1) by simp
  have "t1 + gr_cooldown r1 div 1000000 \<le> t2" if "0 < gr_cooldown r1" "0 < gr_cooldown r2"
    using spaced [of "\<lparr>cw_key = cooldownKey (mc_bid c1) (gr_name r1), cw_ttl = gr_cooldown r1\<rparr>"
        "\<lparr>cw_key = cooldownKey (mc_bid c2) (gr_name r2), cw_ttl = gr_cooldown r2\<rparr>"] that assms(3,4)
    by (simp add: rule_windows_def)
  moreover have "t1 + gr_user_cooldown r1 div 1000000 \<le> t2"
    if "0 < gr_user_cooldown r1" "0 < gr_user_cooldown r2" "ln_chatter (mc_env c1) = ln_chatter (mc_env c2)"
    using spaced [of "\<lparr>cw_key = viewerCooldownKey c1 (gr_name r1), cw_ttl = gr_user_cooldown r1\<rparr>"
        "\<lparr>cw_key = viewerCooldownKey c2 (gr_name r2), cw_ttl = gr_user_cooldown r2\<rparr>"] that assms(3,4)
    by (simp add: rule_windows_def viewerCooldownKey_def)
  ultimately show ?thesis by blast
qed

definition sample_deps :: "'w cooldown_store \<Rightarrow> 'w command_deps" where
  "sample_deps store = \<lparr>kd_unicode = sample_unicode, kd_lexicon = None, kd_publish = (\<lambda>_ _. None), kd_live = (\<lambda>_ w. ((False, None), w)),
     kd_cooldown = store, kd_module = None, kd_permission = (\<lambda>_. Inl []), kd_command = (\<lambda>_ _ w. ((None, None), w)),
     kd_expand = (\<lambda>_ _ w. ([], w)), kd_new_id = (\<lambda>w. (Inl [], w)), kd_uses = None, kd_dedup = None, kd_counters = None,
     kd_locale = None\<rparr>"

definition sample_rule :: gateRule where
  "sample_rule = \<lparr>gr_name = ''hug'', gr_allowed_user = [], gr_perm = RoleEveryone, gr_live_only = False,
     gr_cooldown = 5000000000, gr_user_cooldown = 0\<rparr>"

definition sample_pipe :: "string \<Rightarrow> 'w \<Rightarrow> 'w pipe" where
  "sample_pipe txt w = \<lparr>pi_ctx = leaseContext (sample_envelope txt) 1,
     pi_es = \<lparr>es_base = [], es_ordinal = 0, es_needs_flush = False, es_err = None, es_published = []\<rparr>, pi_world = w\<rparr>"

lemma uses_are_spaced_witness:
  "gates (sample_deps ValkeyCooldown) 0 Map.empty
      [(10, sample_rule, leaseContext (sample_envelope ''!hug'') 1, (True, None)),
       (5010, sample_rule, leaseContext (sample_envelope ''!hug'') 1, (True, None))]
      (vk_set_px 5010 (cooldownKey 1 ''hug'') ''1'' 5000 (vk_set_px 10 (cooldownKey 1 ''hug'') ''1'' 5000 Map.empty))
    \<and> 10 + gr_cooldown sample_rule div 1000000 \<le> 5010"
proof -
  let ?D = "sample_deps ValkeyCooldown" and ?c = "leaseContext (sample_envelope ''!hug'') 1"
  let ?key = "cooldownKey 1 ''hug''"
  let ?db = "vk_set_px 10 ?key ''1'' 5000 Map.empty"
  have asks: "cooldownOK ?D sample_rule (sample_pipe ''!hug'' (10, Map.empty)) = ((True, None), sample_pipe ''!hug'' (10, ?db))"
    "cooldownOK ?D sample_rule (sample_pipe ''!hug'' (5010, ?db))
      = ((True, None), sample_pipe ''!hug'' (5010, vk_set_px 5010 ?key ''1'' 5000 ?db))"
    by (simp_all add: cooldownOK_def sample_rule_def sample_pipe_def sample_deps_def on_world_def ValkeyCooldown_def leaseContext_def
        cooldown_Allow_def milliseconds_def ClaimOnce_def vk_set_nx_px_def vk_exists_def vk_read_def vk_set_px_def)
  have ctx: "pi_ctx (sample_pipe ''!hug'' w) = ?c" "pi_world (sample_pipe ''!hug'' w) = w" for w :: cooldown_world
    by (simp_all add: sample_pipe_def)
  have run: "gates ?D 0 Map.empty ([] @ (10, sample_rule, ?c, (True, None)) # [] @ (5010, sample_rule, ?c, (True, None)) # [])
      (vk_set_px 5010 ?key ''1'' 5000 ?db)"
    using gates.asked [OF _ asks(1) ctx(2) ctx(2) gates.asked [OF _ asks(2) ctx(2) ctx(2) gates.rest], of 0] by (simp add: ctx(1))
  from uses_are_spaced [OF _ run] have "10 + gr_cooldown sample_rule div 1000000 \<le> 5010"
    by (simp add: sample_deps_def sample_rule_def)
  then show ?thesis using run by simp
qed

end
