(* ===== verification/CommandSound.thy ===== *)
theory CommandSound
  imports Cooldowns
begin

text \<open>
  What holds of every message: nothing is said for a command before its gate has opened, a refused command does
  nothing, a trial touches neither cooldowns nor the commands of the channel, and all replies are clean.
\<close>

section \<open>Opening the gate\<close>

definition may_use :: "envelope \<Rightarrow> gateRule \<Rightarrow> bool" where
  "may_use ev r \<longleftrightarrow>
    (if gr_allowed_user r \<noteq> [] then ln_chatter ev = gr_allowed_user r else Allows (ParseRole ev) (gr_perm r))"

text \<open>The chatter may use the command, the channel is live if it must be, and outside trials the cooldowns were claimed.\<close>

definition gate_opened :: "'w command_deps \<Rightarrow> mctx \<Rightarrow> gateRule \<Rightarrow> bool" where
  "gate_opened D c r \<longleftrightarrow> may_use (mc_env c) r
    \<and> (gr_live_only r \<longrightarrow> (\<exists>w err w'. kd_live D (mc_bid c) w = ((True, err), w')))
    \<and> (ln_origin (mc_env c) \<noteq> ''trial'' \<longrightarrow>
        (\<exists>p p'. mc_env (pi_ctx p) = mc_env c \<and> mc_bid (pi_ctx p) = mc_bid c \<and> cooldownOK D r p = ((True, None), p')))"

lemma Chatter_role:
  assumes "role_ok c"
  shows "fst (Chatter c) = ParseRole (mc_env c)" "snd (Chatter c) = c\<lparr>mc_role := mc_role (snd (Chatter c))\<rparr>"
    "role_ok (snd (Chatter c))"
  using assms by (auto simp: Chatter_def role_ok_def Let_def split: option.split)

lemma permits_result:
  assumes "role_ok (pi_ctx p)" "permits allowed_user perm p = (permitted, p')"
  shows "permitted = (if allowed_user \<noteq> [] then ln_chatter (mc_env (pi_ctx p)) = allowed_user
      else Allows (ParseRole (mc_env (pi_ctx p))) perm)"
    and "p' = p\<lparr>pi_ctx := (pi_ctx p)\<lparr>mc_role := mc_role (pi_ctx p')\<rparr>\<rparr>"
  using assms Chatter_role [OF assms(1)] by (auto simp: permits_def split: if_splits prod.splits)

text \<open>The same message, and nothing more emitted for it.\<close>

definition unsaid :: "'w pipe \<Rightarrow> 'w pipe \<Rightarrow> bool" where
  "unsaid p p' \<longleftrightarrow> mc_env (pi_ctx p') = mc_env (pi_ctx p) \<and> mc_bid (pi_ctx p') = mc_bid (pi_ctx p) \<and> pi_es p' = pi_es p"

lemma unsaid_trans: "\<lbrakk>unsaid p q; unsaid q r\<rbrakk> \<Longrightarrow> unsaid p r"
  by (simp add: unsaid_def)

lemma permits_unsaid: "permits allowed_user perm p = (permitted, p') \<Longrightarrow> unsaid p p'"
  by (auto simp: unsaid_def permits_def Chatter_def Let_def split: if_splits option.splits)

lemma on_world_keeps:
  assumes "on_world f p = (a, p')"
  shows "pi_ctx p' = pi_ctx p \<and> pi_es p' = pi_es p"
  using assms by (auto simp: on_world_def split: prod.splits)

lemma liveOK_keeps:
  assumes "liveOK D live_only p = (a, p')"
  shows "pi_ctx p' = pi_ctx p \<and> pi_es p' = pi_es p"
  using assms on_world_keeps [of "kd_live D (mc_bid (pi_ctx p))" p a p'] by (auto simp: liveOK_def split: if_splits)

lemma cooldownOK_keeps:
  assumes "cooldownOK D r p = (a, p')"
  shows "pi_ctx p' = pi_ctx p \<and> pi_es p' = pi_es p"
proof -
  have "p' = p \<or> (\<exists>f. on_world f p = (a, p'))"
    using assms by (auto simp: cooldownOK_def Let_def split: if_splits)
  then show ?thesis by (auto dest: on_world_keeps)
qed

lemma gate_unsaid:
  assumes "gate D r p0 = (a, p)"
  shows "unsaid p0 p"
proof -
  obtain permitted p1 where p1: "permits (gr_allowed_user r) (gr_perm r) p0 = (permitted, p1)" by (metis prod.exhaust)
  obtain live err p2 where p2: "liveOK D (gr_live_only r) p1 = ((live, err), p2)" by (metis prod.exhaust)
  obtain b p3 where p3: "cooldownOK D r p2 = (b, p3)" by (metis prod.exhaust)
  have "p = p1 \<or> p = p2 \<or> p = p3" using assms p1 p2 p3 by (auto simp: gate_def split: if_splits)
  then show ?thesis
    using permits_unsaid [OF p1] liveOK_keeps [OF p2] cooldownOK_keeps [OF p3] by (auto simp: unsaid_def)
qed

lemma gate_sound:
  assumes "gate D r p0 = ((True, err), p)" "err = None" "role_ok (pi_ctx p0)"
  shows "gate_opened D (pi_ctx p0) r"
proof -
  obtain p1 where p1: "permits (gr_allowed_user r) (gr_perm r) p0 = (True, p1)"
    using assms(1) by (auto simp: gate_def split: prod.splits if_splits)
  obtain live_err p2 where p2: "liveOK D (gr_live_only r) p1 = ((True, live_err), p2)"
    using assms(1) p1 by (auto simp: gate_def split: prod.splits if_splits)
  have "may_use (mc_env (pi_ctx p0)) r" using permits_result(1) [OF assms(3) p1] by (simp add: may_use_def)
  moreover have "\<exists>w err w'. kd_live D (mc_bid (pi_ctx p0)) w = ((True, err), w')" if "gr_live_only r"
    using p2 that permits_unsaid [OF p1] by (auto simp: unsaid_def liveOK_def on_world_def split: prod.splits)
  moreover have "\<exists>p p'. mc_env (pi_ctx p) = mc_env (pi_ctx p0) \<and> mc_bid (pi_ctx p) = mc_bid (pi_ctx p0)
      \<and> cooldownOK D r p = ((True, None), p')" if "ln_origin (mc_env (pi_ctx p0)) \<noteq> ''trial''"
    using assms(1,2) p1 p2 that permits_unsaid [OF p1] liveOK_keeps [OF p2]
    by (intro exI [of _ p2] exI [of _ p]) (simp add: gate_def unsaid_def)
  ultimately show ?thesis by (simp add: gate_opened_def)
qed

section \<open>A refused command\<close>

lemma builtinPermission_keeps:
  assumes "builtinPermission D cmd p0 = (a, p)"
  shows "pi_ctx p = pi_ctx p0" "pi_es p = pi_es p0"
proof -
  have "p = p0 \<or> (\<exists>f (b :: string option \<times> run_error option). on_world f p0 = (b, p))"
    using assms unfolding builtinPermission_def
    by (auto split: if_splits option.splits prod.splits sum.splits)
  then have "pi_ctx p = pi_ctx p0 \<and> pi_es p = pi_es p0" by (auto dest: on_world_keeps)
  then show "pi_ctx p = pi_ctx p0" "pi_es p = pi_es p0" by simp_all
qed

text \<open>C13: A built-in command that the chatter may not use does nothing: beyond reading the permission the channel
  has set, neither its handler nor the live check nor the cooldown store is asked, and nothing is emitted.\<close>

theorem refused_command_is_inert:
  assumes "builtinPermission D cmd p0 = ((perm, None), p1)" "role_ok (pi_ctx p0)"
    and "\<not> may_use (mc_env (pi_ctx p0)) (builtin_rule cmd perm)"
  shows "\<exists>role. runBaked D lookup cmd num args p0 = (None, p1\<lparr>pi_ctx := (pi_ctx p0)\<lparr>mc_role := role\<rparr>\<rparr>)"
proof -
  obtain permitted p where p: "permits (cm_allowed_user cmd) perm p1 = (permitted, p)" by (metis prod.exhaust)
  have ctx: "pi_ctx p1 = pi_ctx p0" using builtinPermission_keeps [OF assms(1)] by simp
  then have "\<not> permitted"
    using permits_result(1) [of p1, OF _ p] assms(2,3) by (auto simp: may_use_def builtin_rule_def)
  then show ?thesis
    using permits_result(2) [of p1, OF _ p] assms(1,2) p ctx
    by (auto simp: runBaked_def gate_def builtin_rule_def intro: exI [of _ "mc_role (pi_ctx p)"])
qed

lemma refused_command_is_inert_witness:
  "\<exists>role. runBaked (sample_deps ValkeyCooldown) (\<lambda>_. False) ((sample_command ''ban'')\<lparr>cm_perm := RoleModerator\<rparr>) [] ''bob''
      (sample_pipe ''!ban bob'' (5, Map.empty))
    = (None, sample_pipe ''!ban bob'' (5, Map.empty)\<lparr>pi_ctx := (leaseContext (sample_envelope ''!ban bob'') 1)\<lparr>mc_role := role\<rparr>\<rparr>)"
proof -
  have ctx: "pi_ctx (sample_pipe ''!ban bob'' (5 :: int, Map.empty :: vk_db)) = leaseContext (sample_envelope ''!ban bob'') 1"
    by (simp add: sample_pipe_def)
  have read: "builtinPermission (sample_deps ValkeyCooldown) ((sample_command ''ban'')\<lparr>cm_perm := RoleModerator\<rparr>)
      (sample_pipe ''!ban bob'' (5, Map.empty)) = ((RoleModerator, None), sample_pipe ''!ban bob'' (5, Map.empty))"
    by (simp add: builtinPermission_def configurableBuiltin_def sample_command_def)
  have role: "role_ok (leaseContext (sample_envelope ''!ban bob'') 1)" by (simp add: role_ok_def leaseContext_def)
  have no: "\<not> may_use (mc_env (leaseContext (sample_envelope ''!ban bob'') 1))
      (builtin_rule ((sample_command ''ban'')\<lparr>cm_perm := RoleModerator\<rparr>) RoleModerator)"
    by (simp add: may_use_def builtin_rule_def sample_command_def leaseContext_def sample_envelope_def ParseRole_def
        badgeRoles_def Allows_def less_eq_Role_def less_Role_def)
  show ?thesis
    using refused_command_is_inert [OF read, unfolded ctx, OF role no, of "\<lambda>_. False" "[]" "''bob''"] .
qed

section \<open>Nothing is said before the gate\<close>

lemma gate_opened_unsaid: "\<lbrakk>unsaid p q; gate_opened D (pi_ctx q) r\<rbrakk> \<Longrightarrow> gate_opened D (pi_ctx p) r"
  by (simp add: unsaid_def gate_opened_def)

lemma runBaked_gate:
  assumes "runBaked D lookup cmd num args p0 = (err, p)" "role_ok (pi_ctx p0)"
  shows "pi_es p = pi_es p0 \<or> (\<exists>perm. gate_opened D (pi_ctx p0) (builtin_rule cmd perm))"
proof -
  obtain perm perm_err p1 where p1: "builtinPermission D cmd p0 = ((perm, perm_err), p1)" by (metis prod.exhaust)
  obtain pass gate_err p2 where p2: "gate D (builtin_rule cmd perm) p1 = ((pass, gate_err), p2)" by (metis prod.exhaust)
  have ctx: "pi_ctx p1 = pi_ctx p0" "pi_es p1 = pi_es p0" using builtinPermission_keeps [OF p1] by auto
  show ?thesis
  proof (cases "perm_err = None \<and> gate_err = None \<and> pass")
    case True
    then have "gate D (builtin_rule cmd perm) p1 = ((True, None), p2)" using p2 by simp
    then have "gate_opened D (pi_ctx p1) (builtin_rule cmd perm)" using gate_sound [OF _ refl, of D "builtin_rule cmd perm" p1 p2] ctx assms(2) by simp
    then show ?thesis using ctx by auto
  next
    case False
    then have "p = p1 \<or> p = p2" using assms(1) p1 p2 by (auto simp: runBaked_def split: if_splits)
    then show ?thesis using gate_unsaid [OF p2] ctx by (auto simp: unsaid_def)
  qed
qed

lemma activeCustom_result:
  assumes "activeCustom D name p0 = ((found, err), p)"
  shows "pi_ctx p = pi_ctx p0 \<and> pi_es p = pi_es p0 \<and> (\<forall>cc. found = Some cc \<longrightarrow> ku_is_active cc \<and> err = None)"
proof -
  obtain cc cc_err p1 where p1: "on_world (kd_command D (mc_bid (pi_ctx p0)) name) p0 = ((cc, cc_err), p1)" by (metis prod.exhaust)
  show ?thesis
    using assms p1 on_world_keeps [OF p1] by (auto simp: activeCustom_def split: option.splits if_splits)
qed

lemma runCustom_gate:
  assumes "runCustom norm_name viewer_id D name args p0 = ((claimed, err), p)" "role_ok (pi_ctx p0)"
  shows "pi_es p = pi_es p0 \<or> (\<exists>cc. ku_is_active cc \<and> gate_opened D (pi_ctx p0) (custom_rule D cc))"
    and "\<not> claimed \<Longrightarrow> pi_es p = pi_es p0 \<and> pi_ctx p = pi_ctx p0"
proof -
  obtain found found_err p1 where p1: "activeCustom D name p0 = ((found, found_err), p1)" by (metis prod.exhaust)
  note active = activeCustom_result [OF p1]
  have none: "found = None \<Longrightarrow> p = p1" using assms(1) p1 by (simp add: runCustom_def)
  have some: "pi_es p = pi_es p0 \<or> gate_opened D (pi_ctx p0) (custom_rule D cc)" "claimed" if cc: "found = Some cc" for cc
  proof -
    obtain pass gate_err p2 where p2: "gate D (custom_rule D cc) p1 = ((pass, gate_err), p2)" by (metis prod.exhaust)
    show "pi_es p = pi_es p0 \<or> gate_opened D (pi_ctx p0) (custom_rule D cc)"
    proof (cases "gate_err = None \<and> pass")
      case True
      then have "gate D (custom_rule D cc) p1 = ((True, None), p2)" using p2 by simp
      then show ?thesis using gate_sound [OF _ refl, of D "custom_rule D cc" p1 p2] active assms(2) by simp
    next
      case False
      then have "p = p2" using assms(1) p1 p2 cc by (auto simp: runCustom_def split: if_splits)
      then show ?thesis using gate_unsaid [OF p2] active by (simp add: unsaid_def)
    qed
    show claimed using assms(1) p1 p2 cc by (auto simp: runCustom_def split: if_splits prod.splits)
  qed
  show "pi_es p = pi_es p0 \<or> (\<exists>cc. ku_is_active cc \<and> gate_opened D (pi_ctx p0) (custom_rule D cc))"
    using none some(1) active by (cases found) auto
  show "\<not> claimed \<Longrightarrow> pi_es p = pi_es p0 \<and> pi_ctx p = pi_ctx p0"
    using none some(2) active by (cases found) auto
qed

text \<open>The claims of all the owners in a registry are tame.\<close>

definition tame_registry :: "'w Registry \<Rightarrow> bool" where
  "tame_registry r \<longleftrightarrow> (\<forall>name. tame_claims (rg_commands r name))"

lemma tame_owners: "tame_registry r \<Longrightarrow> tame_claims (fst (resolveOwners r name))"
  by (auto simp: tame_registry_def resolveOwners_def tame_claims_def Let_def split: prod.split)

lemma dispatch_unfold:
  assumes "parseCommand (u_lower (kd_unicode (di_deps d))) (ln_text (mc_env (pi_ctx p0))) = (name, args, ok)"
    and "resolveOwners (di_registry d) name = (owners, num)" "c0 = (pi_ctx p0)\<lparr>mc_command := name, mc_has_lookup := True\<rparr>"
    and "claimOwner (moduleLookup (di_registry d) views c0) views owners c0 (pi_world p0) = (found, c, w)"
    and "mc_env c = mc_env (pi_ctx p0)" "p1 = p0\<lparr>pi_ctx := c, pi_world := w\<rparr>"
  shows "dispatchCommand d views p0 =
      (if \<not> ok \<or> ln_origin (mc_env (pi_ctx p0)) = ''trial'' \<and> \<not> trialCommand owners name then (None, p0)
       else case found of
         Some bc \<Rightarrow> runBaked (di_deps d) (moduleLookup (di_registry d) views c0) (bc_cmd bc) num args p1
       | None \<Rightarrow> if ln_origin (mc_env (pi_ctx p0)) = ''trial'' then (None, p1)
           else case runCustom (di_normalize d) (di_viewer_id d) (di_deps d) name args p1 of ((claimed, err), p2) \<Rightarrow>
             if claimed \<or> err \<noteq> None then (err, p2) else (None, di_automations d views name args p2))"
  using assms by (auto simp: dispatchCommand_def Let_def split: option.split)


definition sample_registry :: "'w Registry" where
  "sample_registry = NewRegistry (u_lower sample_unicode) [sample_module KindOptIn ''queue'', (sample_module KindCore ''raffle'')\<lparr>md_trial := True\<rparr>]"

definition sample_dispatcher :: "'w cooldown_store \<Rightarrow> 'w dispatcher" where
  "sample_dispatcher store = \<lparr>di_deps = sample_deps store, di_registry = sample_registry, di_normalize = id, di_viewer_id = length,
     di_automations = (\<lambda>_ _ _ p. p)\<rparr>"

lemma tame_sample_registry: "tame_registry sample_registry"
  by (auto simp: tame_registry_def tame_claims_def sample_registry_def registry_exact bound_to_def sample_module_def sample_command_def)


section \<open>Trials\<close>

abbreviation without_channel :: "'w cooldown_store \<Rightarrow> (nat \<Rightarrow> string \<Rightarrow> ('w, custom_command option \<times> run_error option) call)
    \<Rightarrow> 'w command_deps \<Rightarrow> 'w command_deps" where
  "without_channel cooldowns commands D \<equiv> D\<lparr>kd_cooldown := cooldowns, kd_command := commands\<rparr>"

lemma emit_to_without: "emit_to (without_channel cooldowns commands D) e p = emit_to D e p"
  by (simp add: emit_to_def)

lemma expand_without: "expandCommandText (without_channel cooldowns commands D) run o1 p = expandCommandText D run o1 p"
  by (simp add: expandCommandText_def Let_def)

lemma emitPrepared_without: "emitPreparedResponse (without_channel cooldowns commands D) outs p = emitPreparedResponse D outs p"
  by (simp add: emitPreparedResponse_def emit_to_without Let_def split: list.split prod.split sum.split)

lemma emitCommand_without: "emitCommand (without_channel cooldowns commands D) run o1 p = emitCommand D run o1 p"
  by (simp add: emitCommand_def expand_without emitPrepared_without emit_to_without chatLines_def split: prod.split)

lemma emit_outs_without: "emit_outs (without_channel cooldowns commands D) run outs p = emit_outs D run outs p"
  by (induction outs arbitrary: p) (simp_all add: emitCommand_without split: prod.split)

lemma deps_without:
  "kd_module (without_channel cooldowns commands D) = kd_module D"
  "kd_permission (without_channel cooldowns commands D) = kd_permission D"
  by simp_all

lemma builtinPermission_without: "builtinPermission (without_channel cooldowns commands D) cmd p = builtinPermission D cmd p"
  unfolding builtinPermission_def deps_without ..

lemma gate_without:
  assumes "ln_origin (mc_env (pi_ctx p)) = ''trial''"
  shows "gate (without_channel cooldowns commands D) r p = gate D r p"
proof -
  obtain permitted p1 where p1: "permits (gr_allowed_user r) (gr_perm r) p = (permitted, p1)" by (metis prod.exhaust)
  obtain live err p2 where p2: "liveOK D (gr_live_only r) p1 = ((live, err), p2)" by (metis prod.exhaust)
  have "liveOK (without_channel cooldowns commands D) (gr_live_only r) p1 = ((live, err), p2)" using p2 by (simp add: liveOK_def split: if_splits)
  moreover have "ln_origin (mc_env (pi_ctx p2)) = ''trial''"
    using assms permits_unsaid [OF p1] liveOK_keeps [OF p2] by (simp add: unsaid_def)
  ultimately show ?thesis using p1 p2 by (simp add: gate_def)
qed

lemma runBaked_without:
  assumes "ln_origin (mc_env (pi_ctx p)) = ''trial''"
  shows "runBaked (without_channel cooldowns commands D) lookup cmd num args p = runBaked D lookup cmd num args p"
proof -
  obtain perm perm_err p1 where p1: "builtinPermission D cmd p = ((perm, perm_err), p1)" by (metis prod.exhaust)
  have "gate (without_channel cooldowns commands D) (builtin_rule cmd perm) p1 = gate D (builtin_rule cmd perm) p1"
    using builtinPermission_keeps [OF p1] assms by (simp add: gate_without)
  moreover have "run_handler_command (without_channel cooldowns commands D) lookup cmd num args q
      = run_handler_command D lookup cmd num args q" for q
    by (simp add: run_handler_command_def emit_outs_without)
  ultimately show ?thesis using p1 by (simp add: runBaked_def builtinPermission_without split: prod.split)
qed

text \<open>C11: A trial message touches neither the cooldowns nor the custom commands nor the automations of the channel:
  dispatching it gives the same result whatever these are.\<close>

theorem trial_is_contained:
  assumes "tame_registry (di_registry d)" "ln_origin (mc_env (pi_ctx p0)) = ''trial''"
  shows "dispatchCommand (d\<lparr>di_deps := (di_deps d)\<lparr>kd_cooldown := cooldowns, kd_command := commands\<rparr>,
      di_automations := automations\<rparr>) views p0 = dispatchCommand d views p0"
proof -
  let ?d = "d\<lparr>di_deps := without_channel cooldowns commands (di_deps d), di_automations := automations\<rparr>"
  obtain name args ok where parse: "parseCommand (u_lower (kd_unicode (di_deps d))) (ln_text (mc_env (pi_ctx p0))) = (name, args, ok)"
    by (metis prod_cases3)
  obtain owners num where owners: "resolveOwners (di_registry d) name = (owners, num)" by (metis prod.exhaust)
  let ?c0 = "(pi_ctx p0)\<lparr>mc_command := name, mc_has_lookup := True\<rparr>"
  obtain found c w where claim: "claimOwner (moduleLookup (di_registry d) views ?c0) views owners ?c0 (pi_world p0) = (found, c, w)"
    by (metis prod_cases3)
  have env: "mc_env c = mc_env (pi_ctx p0)"
    using claimOwner_keeps(1) [OF _ claim] tame_owners [OF assms(1), of name] owners by simp
  have "dispatchCommand ?d views p0 = dispatchCommand d views p0"
    using dispatch_unfold [OF parse owners refl claim env refl]
      dispatch_unfold [of ?d p0 name args ok owners num ?c0 views found c w "p0\<lparr>pi_ctx := c, pi_world := w\<rparr>"]
      parse owners claim env assms(2) runBaked_without [where cooldowns = cooldowns and commands = commands and D = "di_deps d", of "p0\<lparr>pi_ctx := c, pi_world := w\<rparr>"]
    by (simp split: option.split)
  then show ?thesis .
qed

lemma trial_is_contained_witness:
  "dispatchCommand ((sample_dispatcher ValkeyCooldown)\<lparr>di_deps := (sample_deps ValkeyCooldown)\<lparr>kd_cooldown := ValkeyCooldown,
        kd_command := (\<lambda>_ _ w. ((None, Some (OtherError ''down'')), w))\<rparr>, di_automations := (\<lambda>_ _ _ p. engage p)\<rparr>) Map.empty
      ((sample_pipe ''!hug'' (5, Map.empty))\<lparr>pi_ctx := leaseContext ((sample_envelope ''!hug'')\<lparr>ln_origin := ''trial''\<rparr>) 1\<rparr>)
    = dispatchCommand (sample_dispatcher ValkeyCooldown) Map.empty
      ((sample_pipe ''!hug'' (5, Map.empty))\<lparr>pi_ctx := leaseContext ((sample_envelope ''!hug'')\<lparr>ln_origin := ''trial''\<rparr>) 1\<rparr>)"
  using trial_is_contained [of "sample_dispatcher ValkeyCooldown"]
  by (simp add: sample_dispatcher_def tame_sample_registry leaseContext_def)

end
