(* ===== verification/CommandSpeak.thy ===== *)
theory CommandSpeak
  imports CommandSound
begin

text \<open>Everything emitted for a message is clean, whatever its handlers answer.\<close>

section \<open>Clean messages\<close>

text \<open>A single output is clean as in the theory of outputs; a batch has at most five lines, none empty or with floor content.\<close>

definition clean_emission :: "'w command_deps \<Rightarrow> emission \<Rightarrow> bool" where
  "clean_emission D e = (case e of
     Single o1 \<Rightarrow> clean_output (kd_unicode D) (kd_lexicon D) o1
   | Batch _ _ items \<Rightarrow> length items \<le> MaxResponseLines
       \<and> (\<forall>o1 \<in> set items. \<not> isEmptyAction o1 \<and> \<not> floorSuppressed (kd_unicode D) (kd_lexicon D) o1))"

definition pipe_clean :: "'w command_deps \<Rightarrow> 'w pipe \<Rightarrow> bool" where
  "pipe_clean D p \<longleftrightarrow> (\<forall>(ident, e) \<in> set (es_published (pi_es p)). clean_emission D e)"

lemma pipe_clean_cong: "pi_es q = pi_es p \<Longrightarrow> pipe_clean D q = pipe_clean D p"
  by (simp add: pipe_clean_def)

lemma publish_step_published:
  "set (es_published (publish_step pub st e)) \<subseteq> set (es_published st) \<union> {x. snd x = e}"
  by (auto simp: publish_step_def Let_def split: option.splits)

lemma single_clean:
  assumes "\<not> isEmptyAction (Translate o0)" "\<not> floorSuppressed u lx (capEmitText (Translate o0))"
  shows "clean_output u lx (capEmitText (Translate o0))"
  using assms capEmitText_capped [of "Translate o0"]
  by (auto simp: clean_output_def isEmptyAction_def floorSuppressed_def split: if_splits)

lemma emit_to_clean:
  assumes "pipe_clean D p" "\<And>bid ident items. e = Batch bid ident items \<Longrightarrow> clean_emission D e"
  shows "pipe_clean D (emit_to D e p)"
proof -
  let ?emit = "emit_one (kd_unicode D) (kd_lexicon D) (kd_publish D) (pi_es p)"
  have "clean_emission D (snd x)" if x: "x \<in> set (es_published (?emit e))" for x
  proof (cases "x \<in> set (es_published (pi_es p))")
    case True
    then show ?thesis using assms(1) by (auto simp: pipe_clean_def)
  next
    case False
    show ?thesis
    proof (cases e)
      case (Single o0)
      then show ?thesis
        using x False publish_step_published single_clean [of o0]
        by (fastforce simp: emit_one_def Let_def clean_emission_def split: if_splits)
    next
      case (Batch bid ident items)
      then show ?thesis
        using x False publish_step_published assms(2) by (fastforce simp: emit_one_def split: if_splits)
    qed
  qed
  then show ?thesis by (auto simp: pipe_clean_def emit_to_def Let_def)
qed

lemma emit_single_clean: "pipe_clean D p \<Longrightarrow> pipe_clean D (emit_to D (Single o1) p)"
  by (rule emit_to_clean) simp_all

section \<open>Replies\<close>

lemma chat_lines_from:
  assumes "\<forall>o1 \<in> set dst. \<not> isEmptyAction o1 \<and> \<not> floorSuppressed u lx o1" "length dst \<le> n" "n \<le> MaxResponseLines"
  shows "(\<forall>o1 \<in> set (appendChatLines_from u lx bid n lines dst). \<not> isEmptyAction o1 \<and> \<not> floorSuppressed u lx o1)
    \<and> length (appendChatLines_from u lx bid n lines dst) \<le> MaxResponseLines"
  using assms
proof (induction lines arbitrary: n dst)
  case (Cons line lines)
  obtain out keep where prep: "prepareCommand u lx ((blank_output ''chat'' bid)\<lparr>o_text := line\<rparr>) = (out, keep)"
    by (metis prod.exhaust)
  let ?dst = "if keep then dst @ [out] else dst"
  have "keep \<Longrightarrow> \<not> isEmptyAction out \<and> \<not> floorSuppressed u lx out"
    using prep by (auto simp: prepareCommand_def Let_def)
  then have kept: "\<forall>o1 \<in> set ?dst. \<not> isEmptyAction o1 \<and> \<not> floorSuppressed u lx o1" "length ?dst \<le> n + 1"
    using Cons.prems(1,2) by simp_all
  show ?case
  proof (cases "blankLine line")
    case True
    then show ?thesis using Cons.IH [OF Cons.prems] by simp
  next
    case False
    then show ?thesis
      using Cons.IH [OF kept] Cons.prems prep by (simp add: Let_def del: if_split split del: if_split) (auto split: if_split)
  qed
qed simp

lemma chatLines_clean: "clean_emission D (Batch bid ident (chatLines D o1))"
  using chat_lines_from [of "[]" "kd_unicode D" "kd_lexicon D" 0]
  by (simp add: clean_emission_def chatLines_def appendChatLines_def)

lemma emitPreparedResponse_clean:
  assumes "emitPreparedResponse D (chatLines D o1) p0 = (r, p)" "pipe_clean D p0"
  shows "pipe_clean D p"
proof -
  have batch: "pipe_clean D (emit_to D (Batch bid ident (chatLines D o1)) q)" if "pi_es q = pi_es p0" for bid ident q
    using assms(2) that by (intro emit_to_clean) (simp_all add: chatLines_clean pipe_clean_cong [OF that])
  have id: "pi_es q = pi_es p0" if "on_world (kd_new_id D) p0 = (a, q)" for a q
    using on_world_keeps [OF that] by simp
  show ?thesis
  proof -
    let ?outs = "chatLines D o1" and ?ev = "mc_env (pi_ctx p0)"
    obtain a q where q: "(if le_msg_id ?ev = [] then on_world (kd_new_id D) p0 else (Inl (le_msg_id ?ev), p0)) = (a, q)"
      by (metis prod.exhaust)
    have same: "pi_es q = pi_es p0" using q id by (auto split: if_splits)
    consider "?outs = []" | o2 where "?outs = [o2]" | o2 o3 outs where "?outs = o2 # o3 # outs"
      by (metis list.exhaust)
    then show ?thesis
    proof cases
      case 1
      then show ?thesis using assms by (simp add: emitPreparedResponse_def)
    next
      case 2
      then show ?thesis using assms emit_single_clean [OF assms(2)] by (auto simp: emitPreparedResponse_def)
    next
      case 3
      show ?thesis
      proof (cases a)
        case (Inl ident)
        then have "p = emit_to D (Batch (ln_broadcaster ?ev) ident ?outs) q"
          using assms(1) 3 q by (simp add: emitPreparedResponse_def Let_def)
        then show ?thesis using batch [OF same] by simp
      next
        case (Inr err)
        then have "p = q" using assms(1) 3 q by (simp add: emitPreparedResponse_def Let_def)
        then show ?thesis using assms(2) pipe_clean_cong [OF same] by simp
      qed
    qed
  qed
qed

lemma emitCommand_clean:
  assumes "emitCommand D run o0 p0 = (r, p)" "pipe_clean D p0"
  shows "pipe_clean D p"
proof -
  obtain o1 p1 where p1: "expandCommandText D run o0 p0 = (o1, p1)" by (metis prod.exhaust)
  have "p1 = p0 \<or> (\<exists>f (txt :: string). on_world f p0 = (txt, p1))"
    using p1 by (auto simp: expandCommandText_def Let_def split: if_splits prod.splits)
  then have "pi_es p1 = pi_es p0" by (auto dest: on_world_keeps)
  then have "pipe_clean D p1" using assms(2) pipe_clean_cong by blast
  then show ?thesis
    using assms(1) p1 emitPreparedResponse_clean [of D o1 p1 r p] emit_single_clean [of D p1]
    by (cases "prepareCommand (kd_unicode D) (kd_lexicon D) o1") (auto simp: emitCommand_def split: if_splits)
qed

lemma emit_outs_clean: "\<lbrakk>emit_outs D run outs p0 = (r, p); pipe_clean D p0\<rbrakk> \<Longrightarrow> pipe_clean D p"
proof (induction outs arbitrary: p0)
  case (Cons o1 outs)
  obtain sent err p1 where p1: "emitCommand D run o1 p0 = ((sent, err), p1)" by (metis prod.exhaust)
  then have "pipe_clean D p1" using emitCommand_clean Cons.prems(2) by blast
  then show ?case using Cons.IH Cons.prems(1) p1 by (simp split: if_splits)
qed simp

section \<open>Commands\<close>

lemma engage_es [simp]: "pi_es (engage p) = pi_es p"
  by (simp add: engage_def)

lemma engage_clean: "pipe_clean D (engage p) = pipe_clean D p"
  by (simp add: pipe_clean_def)

lemma runBaked_clean:
  assumes "runBaked D lookup cmd num args p0 = (err, p)" "pipe_clean D p0"
  shows "pipe_clean D p"
proof -
  obtain perm perm_err p1 where p1: "builtinPermission D cmd p0 = ((perm, perm_err), p1)" by (metis prod.exhaust)
  obtain pass gate_err p2 where p2: "gate D (builtin_rule cmd perm) p1 = ((pass, gate_err), p2)" by (metis prod.exhaust)
  have clean: "pipe_clean D p1" "pipe_clean D p2"
    using builtinPermission_keeps [OF p1] gate_unsaid [OF p2] assms(2) by (simp_all add: unsaid_def pipe_clean_def)
  have "pipe_clean D p" if "run_handler_command D lookup cmd num args p2 = (err, p)"
  proof -
    obtain c1 w1 where c1: "EnsureLocale (kd_locale D) ((pi_ctx p2)\<lparr>mc_num := num\<rparr>) (pi_world p2) = (c1, w1)" by (metis prod.exhaust)
    obtain outs run_err c2 w2 where c2: "cm_run cmd lookup c1 args w1 = ((outs, run_err), c2, w2)" by (metis prod.exhaust)
    obtain emit_err p3 where p3: "emit_outs D \<lparr>kr_ctx = c1, kr_command = cm_name cmd, kr_args = args, kr_uses = 0\<rparr> outs
        (p2\<lparr>pi_ctx := c2, pi_world := w2\<rparr>) = (emit_err, p3)" by (metis prod.exhaust)
    have "pipe_clean D p3" using emit_outs_clean [OF p3] clean(2) by (simp add: pipe_clean_def)
    moreover have "pi_es p = pi_es p3" using that c1 c2 p3 by (auto simp: run_handler_command_def split: if_splits)
    ultimately show ?thesis using pipe_clean_cong by blast
  qed
  then show ?thesis using assms(1) p1 p2 clean by (auto simp: runBaked_def split: if_splits)
qed

lemma dedup_es:
  "pi_es (snd (dedup_Duplicate D identity effect p)) = pi_es p"
  "pi_es (snd (dedup_Claim D identity effect p)) = pi_es p"
  "pi_es (dedup_free D key p) = pi_es p"
  by (auto simp: dedup_Duplicate_def dedup_Claim_def dedup_free_def Let_def split: option.split prod.split dest: on_world_keeps)

lemma recordUse_es: "pi_es (recordUse D name p) = pi_es p"
  using dedup_es(1) [of D "EventIdentity (mc_env (pi_ctx p))" "''use''" p]
  by (auto simp: recordUse_def split: option.split prod.split)

lemma claimedCounterValue_es: "pi_es (snd (claimedCounterValue norm_name D store b p)) = pi_es p"
  using dedup_es(2) [of D "EventIdentity (mc_env (pi_ctx p))" "CounterEffect norm_name (cb_name b)" p]
  by (auto simp: claimedCounterValue_def dedup_es(3) split: prod.split dest!: on_world_keeps)

lemma bumpCommandCounter_es: "pi_es (bumpCommandCounter norm_name viewer_id D cc args p) = pi_es p"
  by (auto simp: bumpCommandCounter_def counterStep_def Let_def claimedCounterValue_es split: option.split prod.split)

lemma runCustom_clean:
  assumes "runCustom norm_name viewer_id D name args p0 = ((claimed, err), p)" "pipe_clean D p0"
  shows "pipe_clean D p"
proof -
  obtain found found_err p1 where p1: "activeCustom D name p0 = ((found, found_err), p1)" by (metis prod.exhaust)
  have clean1: "pipe_clean D p1" using activeCustom_result [OF p1] assms(2) by (simp add: pipe_clean_def)
  show ?thesis
  proof (cases found)
    case None
    then show ?thesis using assms(1) p1 clean1 by (simp add: runCustom_def)
  next
    case (Some cc)
    obtain pass gate_err p2 where p2: "gate D (custom_rule D cc) p1 = ((pass, gate_err), p2)" by (metis prod.exhaust)
    have clean2: "pipe_clean D p2" using gate_unsaid [OF p2] clean1 by (simp add: unsaid_def pipe_clean_def)
    obtain emitted emit_err p3 where p3: "emitCommand D
      \<lparr>kr_ctx = pi_ctx p2, kr_command = ku_name cc, kr_args = args, kr_uses = ku_uses cc\<rparr> (custom_reply p2 cc) p2 = ((emitted, emit_err), p3)"
      by (metis prod.exhaust)
    have "pipe_clean D p3" by (rule emitCommand_clean [OF p3 clean2])
    moreover have "pi_es p = pi_es p2 \<or> pi_es p = pi_es p3"
      using assms(1) p1 Some p2 p3 by (auto simp: runCustom_def bumpCommandCounter_es recordUse_es split: if_splits)
    ultimately show ?thesis using clean2 pipe_clean_cong by blast
  qed
qed

section \<open>A message\<close>

lemma dispatchCommand_clean:
  assumes "pipe_clean (di_deps d) p0"
    and "\<And>name args p. pipe_clean (di_deps d) p \<Longrightarrow> pipe_clean (di_deps d) (di_automations d views name args p)"
  shows "pipe_clean (di_deps d) (snd (dispatchCommand d views p0))"
proof -
  let ?D = "di_deps d"
  obtain name args ok where parse: "parseCommand (u_lower (kd_unicode ?D)) (ln_text (mc_env (pi_ctx p0))) = (name, args, ok)"
    by (metis prod_cases3)
  obtain owners num where owners: "resolveOwners (di_registry d) name = (owners, num)" by (metis prod.exhaust)
  let ?c0 = "(pi_ctx p0)\<lparr>mc_command := name, mc_has_lookup := True\<rparr>"
  let ?lookup = "moduleLookup (di_registry d) views ?c0"
  obtain found c w where claim: "claimOwner ?lookup views owners ?c0 (pi_world p0) = (found, c, w)" by (metis prod_cases3)
  let ?p1 = "p0\<lparr>pi_ctx := c, pi_world := w\<rparr>"
  have p1: "pipe_clean ?D ?p1" using assms(1) by (simp add: pipe_clean_def)
  obtain claimed err p2 where custom: "runCustom (di_normalize d) (di_viewer_id d) ?D name args ?p1 = ((claimed, err), p2)"
    by (metis prod.exhaust)
  have p2: "pipe_clean ?D p2" by (rule runCustom_clean [OF custom p1])
  have baked: "pipe_clean ?D (snd (runBaked ?D ?lookup cmd num args ?p1))" for cmd
    using runBaked_clean [OF _ p1] by (metis prod.collapse)
  show ?thesis
    using assms(1) p1 p2 baked assms(2) [OF p2]
    by (cases found) (auto simp: dispatchCommand_def Let_def parse owners claim custom)
qed

lemma event_locale_clean: "pipe_clean D p \<Longrightarrow> pipe_clean D (event_locale D p)"
  by (simp add: event_locale_def pipe_clean_def split: prod.split)

lemma fold_emit_clean: "pipe_clean D p \<Longrightarrow> pipe_clean D (fold (\<lambda>o1. emit_to D (Single o1)) outs p)"
  by (induction outs arbitrary: p) (simp_all add: emit_single_clean)

lemma runHandler_clean:
  assumes "pipe_clean D p0"
  shows "pipe_clean D (runHandler D lookup m handle p0)"
proof -
  have start: "pipe_clean D (p0\<lparr>pi_ctx := c, pi_world := w\<rparr>)" for c w using assms by (simp add: pipe_clean_def)
  show ?thesis
    using assms fold_emit_clean [OF start] by (auto simp: runHandler_def Let_def engage_clean split: option.split prod.split)
qed

lemma run_handlers_clean: "pipe_clean D p \<Longrightarrow> pipe_clean D (run_handlers D lookup views evt ms p)"
proof (induction ms arbitrary: p)
  case (Cons m ms)
  have "pipe_clean D (p\<lparr>pi_ctx := c\<rparr>)" for c using Cons.prems by (simp add: pipe_clean_def)
  then show ?case using Cons.IH runHandler_clean [of D "p\<lparr>pi_ctx := c\<rparr>" for c] by (auto simp: Let_def split: prod.split)
qed simp


definition sample_stages :: "'w stages" where
  "sample_stages = \<lparr>sg_moderate = (\<lambda>_ p. (False, p)), sg_refund = (\<lambda>p. (False, p)), sg_automations = (\<lambda>_ _ p. p)\<rparr>"


end
