(* ===== verification/Spec2Isabelle.thy ===== *)
theory Spec2Isabelle
  imports Tmpl AutoText AutoMath RateLimiter RateDurable LeaseProtocol LeaseService Floor RunSound RunEffects RunScope
    DurableStore Idempotency CommandSpeak
begin

text \<open>
  ItsBagelBot is a bot for Twitch and Discord written as microservices. An ingress publishes the events of a
  channel on NATS; the engine \<open>sesame\<close> (src/app/twitch/sesame) loads the settings of the channel, moderates,
  runs commands, modules and automations, and publishes typed requests; an outgress executes them against
  the platform within its rate limits. Services share state through Valkey, JetStream and their databases.
  This development models, in that order of data flow, the parts of the Go code that decide something.

  \<^bold>\<open>Text and values.\<close> \<open>GoText\<close> holds the functions of Go's \<open>strings\<close>, \<open>strconv\<close> and \<open>utf8\<close> packages the
  components call; strings are byte lists, a rune is its number, and the Unicode tables, NFKC and
  \<open>time.Parse\<close> are parameters. \<open>Tmpl\<close> is the template language of src/pkg/tmpl (\<open>Lex\<close>, \<open>Expand\<close> and the
  dynamic tokens), \<open>Validate\<close> the input validators of src/internal/domain/validate.

  \<^bold>\<open>Automations\<close> (src/internal/domain/automation). \<open>AutoTypes\<close> has the records of model.go, triggers.go,
  conditions.go and actions.go; \<open>AutoEvents\<close> the table of events.go; \<open>AutoCheck\<close> and \<open>AutoActions\<close> the
  checks, one definition per \<open>check\<close> function; \<open>AutoRegistry\<close> and \<open>AutoValidate\<close> the registries, the
  recursive walk and \<open>Validate\<close>. A JSON decoder of a step is a field of the environment record, with the
  named law that a nested definition is shorter than its raw text, which is what makes the walks end.
  \<open>AutoSound\<close> proves what an empty list of issues means; \<open>AutoSample\<close> is a concrete environment. \<open>AutoPlan\<close>
  compiles a definition (plan.go), \<open>AutoMatch\<close> matches and indexes triggers (match.go, index.go), \<open>AutoText\<close>
  and \<open>AutoMath\<close> are compare.go, vars.go, text.go, cooldown.go and math.go.

  \<^bold>\<open>Commands\<close> (src/app/twitch/sesame/engine and module). \<open>Commands\<close> has the roles of chatters, the context
  of a message, the registry of modules, the parsing of a chat line and the choice of the owner that answers
  (permission.go, context.go, registry.go, parse.go); \<open>CommandRun\<close> the gate of a command, its reply, custom
  commands and their counters, the handlers of events and the stages of a message (dispatch.go,
  pipeline\_handlers.go, pipeline.go, dedup.go), a message in work being the record \<open>pipe\<close> of its context,
  what was emitted and the world; \<open>Cooldowns\<close> the cooldown store in Valkey and the spacing of uses it gives;
  \<open>CommandSound\<close> and \<open>CommandSpeak\<close> what holds of every message: no reply before the gate has opened, no
  effect of a refused command, trials that leave the channel alone, and clean output. Handlers, projections,
  moderation and the automation stage are functions on the world.

  \<^bold>\<open>Running automations\<close> (src/app/twitch/sesame/engine). \<open>RunOutput\<close> is what leaves the bot: slash
  commands, preparation, caps and the floor check of pipeline\_output.go. \<open>RunState\<close> has the run, the
  executor and the services a run calls, all of them functions on a world \<open>'w\<close> they may change; \<open>RunActions\<close>,
  \<open>RunConds\<close> and \<open>RunFlow\<close> have one definition per action or condition handler of automation\_action\_*.go and
  automation\_cond\_*.go; \<open>RunExec\<close> is the executor, which ends because a child run is one level deeper and
  everything else descends into the plan. \<open>RunRule\<close> states the induction over executions once, as the locale
  \<open>executor\<close>; \<open>RunKeep\<close>, \<open>RunSound\<close>, \<open>RunEffects\<close> and \<open>RunScope\<close> interpret it: clean and bounded output,
  the budgets of delay and effects, and the scoping of loops and parallel paths.

  \<^bold>\<open>Shared state in Valkey.\<close> \<open>ValkeyDb\<close> gives the commands the Lua scripts call their documented meaning, on a
  database of strings, hashes, sets and sorted sets with expiries read at the server's clock; a script is one
  function of the database, as scripts run atomically. \<open>Seats\<close> is the leased first-come line of
  src/pkg/valkey/fifo\_seats.go, with its refinement of an abstract queue; \<open>RunQueue\<close> the queue of runs built
  on it (automation\_queue.go, automation\_queue\_valkey.go); \<open>OwnedRecords\<close> and \<open>SeatPins\<close> the records with
  owners of owned\_records.go and the count of their pins; \<open>DurableStore\<close> the paused runs that survive their
  replica (automation\_durable\_valkey.go, automation\_durable.go, due\_index.go, \<open>ExpiringSet\<close>). \<open>Idempotency\<close>
  is src/pkg/idempotency: the guard that keeps a redelivered message from being handled twice, the store of
  claims in Valkey with lost requests and replies, and the cache in front of it, a linked list refined to a
  bounded list.

  \<^bold>\<open>Rate limits\<close> (src/pkg/ratelimit, src/pkg/kvstate). \<open>Budget\<close> states the contract of a limiter as locales;
  \<open>RateBucket\<close> (local.go, store.go), \<open>RateLimiter\<close> and \<open>RateSpec\<close> (valkey.go) and \<open>RateDurable\<close>
  (jetstream.go on \<open>KvState\<close>) interpret it. \<open>RatePlan\<close>, \<open>LeaseShares\<close>, \<open>LeaseProtocol\<close>, \<open>LeaseManager\<close> and
  \<open>LeaseService\<close> are the leases of the fleet: building a plan, agreeing on it through a watched key, dividing
  the budget, admitting, borrowing from a peer, and the coordinator.

  \<^bold>\<open>Moderation\<close> (src/internal/moderation). \<open>AhoCorasick\<close> is the matcher, \<open>Skeleton\<close> the normaliser and \<open>Floor\<close>
  the lexicon, the prescan and the check that everything the bot says passes.

  \<^bold>\<open>Conventions.\<close> Go's \<open>int\<close> and \<open>int64\<close> are \<open>int\<close>, with \<open>wrap64\<close> written out where a value can leave the
  range, and \<open>w word\<close> where the code works on bits; a \<open>float64\<close> budget is a rational and its bit pattern a
  parameter; a panic or an error reply is \<open>None\<close> or the \<open>Inl\<close> of a sum. A method that mutates its receiver
  returns it. The order in which Go visits a map is a parameter. Loops with no structural bound run on fuel
  that a lemma shows sufficient: the failure links and the queue of the matcher take the number of nodes, the
  validation walks the length of the longest raw text, the expression parser twelve units per byte; the
  optimistic updates of \<open>KvState\<close> count down the sixteen attempts of the code. The wait for a turn is a partial
  function, shown to return. Calls of several processes on one database (\<open>seat_run\<close>, \<open>record_run\<close>,
  \<open>queue_run\<close>, \<open>gates\<close>, \<open>agree_steps\<close>) are inductive relations over every interleaving.

  \<^bold>\<open>Not modelled.\<close> The services in other languages (the Twitch ingress and the controls gateway in Elixir, the
  web and desktop front ends), generated code (the ent packages, which are two thirds of the Go lines), HTTP and
  socket clients, configuration and wiring, telemetry and log lines, and the tests. Inside the modelled files:
  goroutines, tickers and channels, whose effect is a sequence of operations here; contexts and their
  cancellation, except where a deadline decides a result; and marshalling, which is a parameter. Around the
  stages of a message, admission, chat counters and traces are left out. The modules of the engine, the Discord services, the gossip providers, the databases' repositories and the release
  tooling are separate programs of the repository that this development does not reach.
\<close>

end
